(* ===== verification/Prelude.thy ===== *)
theory Prelude
  imports Main "HOL-Library.Word"
begin

text \<open>
  Shared material: the machine integer and byte types of the C sources, C strings held in
  fixed \<^verbatim>\<open>char[N]\<close> buffers, the \<^verbatim>\<open>printf\<close> conversions the formatters use
  (\<^verbatim>\<open>%u\<close>, \<^verbatim>\<open>%02x\<close>, \<^verbatim>\<open>%08x\<close>, \<^verbatim>\<open>%0nd\<close>), with their length bounds and the
  characters they can produce. The data model is LP64, little-endian: \<^verbatim>\<open>size_t\<close> and
  \<^verbatim>\<open>unsigned long\<close> have 64 bits.
\<close>

unbundle bit_operations_syntax

type_synonym u8 = "8 word"
type_synonym u16 = "16 word"
type_synonym u32 = "32 word"
type_synonym u64 = "64 word"
type_synonym bytes = "u8 list"

named_theorems fmt_len \<open>upper bounds on the lengths of formatted fields\<close>
named_theorems fmt_chars \<open>the characters formatted fields consist of\<close>
named_theorems cdefs \<open>model definitions that concrete evaluations unfold\<close>

text \<open>Every unsigned value is below its modulus.\<close>

lemma unat_u8_less [simp]: "unat (b :: u8) < 256"
proof -
  have "unat b < 2 ^ LENGTH(8)" by (rule unsigned_less)
  then show ?thesis by simp
qed

lemma unat_u16_less [simp]: "unat (b :: u16) < 65536"
proof -
  have "unat b < 2 ^ LENGTH(16)" by (rule unsigned_less)
  then show ?thesis by simp
qed

lemma unat_u32_less [simp]: "unat (b :: u32) < 4294967296"
proof -
  have "unat b < 2 ^ LENGTH(32)" by (rule unsigned_less)
  then show ?thesis by simp
qed

lemma unat_u64_less [simp]: "unat (b :: u64) < 18446744073709551616"
proof -
  have "unat b < 2 ^ LENGTH(64)" by (rule unsigned_less)
  then show ?thesis by simp
qed

text \<open>Widening conversions keep the value.\<close>

lemma unat_ucast_up:
  fixes w :: "'a::len word"
  assumes "LENGTH('a) \<le> LENGTH('b::len)"
  shows "unat (ucast w :: 'b word) = unat w"
proof -
  have "unat w < 2 ^ LENGTH('a)" by (rule unsigned_less)
  also have "\<dots> \<le> 2 ^ LENGTH('b)" using assms by simp
  finally show ?thesis by (simp add: unsigned_ucast_eq take_bit_nat_eq_self)
qed

section \<open>C strings in fixed buffers\<close>

text \<open>
  A \<^verbatim>\<open>char buf[N]\<close> field is modelled by the string before its first NUL. After
  \<^verbatim>\<open>snprintf(buf, N, "%s", s)\<close>, and after \<^verbatim>\<open>strncpy(buf, s, N - 1)\<close> into zeroed
  memory, it holds the first \<open>N - 1\<close> characters of \<open>s\<close>.
\<close>

definition cstr :: "nat \<Rightarrow> string \<Rightarrow> string" where
  "cstr n s = take (n - 1) s"

lemma length_cstr_le [fmt_len]: "length (cstr n s) \<le> n - 1"
  by (simp add: cstr_def)

lemma length_cstr_less: "0 < n \<Longrightarrow> length (cstr n s) < n"
  by (auto simp: cstr_def)

lemma cstr_fits: "length s < n \<Longrightarrow> cstr n s = s"
  by (simp add: cstr_def)

lemma cstr_cstr [simp]: "cstr n (cstr n s) = cstr n s"
  by (simp add: cstr_def)

lemma cstr_Nil [simp]: "cstr n [] = []"
  by (simp add: cstr_def)

lemma set_cstr: "set (cstr n s) \<subseteq> set s"
  by (simp add: cstr_def set_take_subset)

text \<open>A \<^verbatim>\<open>const char *\<close> that may be NULL is a \<open>string option\<close>.\<close>

definition str_or :: "string \<Rightarrow> string \<Rightarrow> string" where
  \<comment> \<open>\<^verbatim>\<open>s[0] ? s : d\<close>\<close>
  "str_or s d = (if s = [] then d else s)"

lemma length_str_or: "length s \<le> n \<Longrightarrow> length d \<le> n \<Longrightarrow> length (str_or s d) \<le> n"
  by (simp add: str_or_def)

lemma str_or_nonempty [simp]: "d \<noteq> [] \<Longrightarrow> str_or s d \<noteq> []"
  by (simp add: str_or_def)

text \<open>\<^verbatim>\<open>strstr\<close>: the text from the first occurrence on.\<close>

fun strstr :: "string \<Rightarrow> string \<Rightarrow> string option" where
  "strstr [] pat = (if pat = [] then Some [] else None)"
| "strstr (c # cs) pat = (if take (length pat) (c # cs) = pat then Some (c # cs) else strstr cs pat)"

section \<open>Decimal conversion\<close>

definition digit :: "nat \<Rightarrow> char" where
  "digit d = ''0123456789'' ! d"

definition is_digit :: "char \<Rightarrow> bool" where
  "is_digit c \<longleftrightarrow> 48 \<le> (of_char c :: nat) \<and> (of_char c :: nat) \<le> 57"

definition digit_val :: "char \<Rightarrow> nat" where
  "digit_val c = of_char c - 48"

text \<open>\<^verbatim>\<open>%u\<close>, \<^verbatim>\<open>%llu\<close>, \<^verbatim>\<open>%zu\<close>: the decimal digits without leading zeros.\<close>

fun dec :: "nat \<Rightarrow> string" where
  "dec n = (if n < 10 then [digit n] else dec (n div 10) @ [digit (n mod 10)])"

declare dec.simps [simp del]
lemmas dec_simps [cdefs] = dec.simps digit_def

lemma digit_val_digit: "d < 10 \<Longrightarrow> digit_val (digit d) = d \<and> is_digit (digit d)"
proof -
  assume "d < 10"
  then have "d \<in> {0,1,2,3,4,5,6,7,8,9}" by auto
  then show ?thesis by (auto simp: digit_val_def digit_def is_digit_def)
qed

lemma dec_nonempty [simp]: "dec n \<noteq> []"
  by (subst dec.simps) simp

lemma dec_digits: "c \<in> set (dec n) \<Longrightarrow> is_digit c"
proof (induction n rule: dec.induct)
  case (1 n)
  then show ?case
    by (subst (asm) dec.simps) (auto simp: digit_val_digit split: if_splits)
qed

lemma length_dec: "n < 10 ^ k \<Longrightarrow> 0 < k \<Longrightarrow> length (dec n) \<le> k"
proof (induction k arbitrary: n)
  case 0
  then show ?case by simp
next
  case (Suc k)
  show ?case
  proof (cases "n < 10")
    case True
    then show ?thesis by (subst dec.simps) simp
  next
    case False
    with Suc.prems have "0 < k" by (cases k) auto
    moreover have "n div 10 < 10 ^ k"
      using Suc.prems(1) by (simp add: less_mult_imp_div_less)
    ultimately have "length (dec (n div 10)) \<le> k" by (rule Suc.IH[rotated])
    with False show ?thesis by (subst dec.simps) simp
  qed
qed

text \<open>\<^verbatim>\<open>%d\<close>.\<close>

definition int_dec :: "int \<Rightarrow> string" where
  "int_dec i = (if i < 0 then ''-'' @ dec (nat (- i)) else dec (nat i))"

lemmas int_dec_cdef [cdefs] = int_dec_def

lemma length_int_dec: "- (10 ^ k) < i \<Longrightarrow> i < 10 ^ k \<Longrightarrow> 0 < k \<Longrightarrow> length (int_dec i) \<le> k + 1"
  using length_dec[of "nat i" k] length_dec[of "nat (- i)" k] by (auto simp: int_dec_def nat_less_iff)

text \<open>\<^verbatim>\<open>%0wd\<close> on a non-negative value.\<close>

definition dec0 :: "nat \<Rightarrow> nat \<Rightarrow> string" where
  "dec0 w n = replicate (w - length (dec n)) (CHR ''0'') @ dec n"

lemma length_dec0: "n < 10 ^ w \<Longrightarrow> 0 < w \<Longrightarrow> length (dec0 w n) = w"
  using length_dec[of n w] by (simp add: dec0_def)

definition u8_dec :: "u8 \<Rightarrow> string" where "u8_dec w = dec (unat w)"
definition u16_dec :: "u16 \<Rightarrow> string" where "u16_dec w = dec (unat w)"
definition u32_dec :: "u32 \<Rightarrow> string" where "u32_dec w = dec (unat w)"
definition u64_dec :: "u64 \<Rightarrow> string" where "u64_dec w = dec (unat w)"

lemmas u_dec_defs [cdefs] = u8_dec_def u16_dec_def u32_dec_def u64_dec_def

lemma length_u8_dec [fmt_len]: "length (u8_dec w) \<le> 3"
  unfolding u8_dec_def
  by (rule length_dec) (rule less_le_trans[OF unat_u8_less], simp_all)

lemma length_u16_dec [fmt_len]: "length (u16_dec w) \<le> 5"
  unfolding u16_dec_def
  by (rule length_dec) (rule less_le_trans[OF unat_u16_less], simp_all)

lemma length_u32_dec [fmt_len]: "length (u32_dec w) \<le> 10"
  unfolding u32_dec_def
  by (rule length_dec) (rule less_le_trans[OF unat_u32_less], simp_all)

lemma length_u64_dec [fmt_len]: "length (u64_dec w) \<le> 20"
  unfolding u64_dec_def
  by (rule length_dec) (rule less_le_trans[OF unat_u64_less], simp_all)

section \<open>Hexadecimal conversion\<close>

definition hex_digit :: "nat \<Rightarrow> char" where
  "hex_digit d = ''0123456789abcdef'' ! d"

text \<open>\<^verbatim>\<open>%02x\<close> of a byte, \<^verbatim>\<open>%08x\<close> of a 32-bit word.\<close>

definition hex2 :: "u8 \<Rightarrow> string" where
  "hex2 b = [hex_digit (unat b div 16), hex_digit (unat b mod 16)]"

fun hex_pad :: "nat \<Rightarrow> nat \<Rightarrow> string" where
  "hex_pad 0 n = []"
| "hex_pad (Suc w) n = hex_pad w (n div 16) @ [hex_digit (n mod 16)]"

definition hex8 :: "u32 \<Rightarrow> string" where
  "hex8 w = hex_pad 8 (unat w)"

text \<open>\<^verbatim>\<open>%x\<close>: no padding.\<close>

fun hex :: "nat \<Rightarrow> string" where
  "hex n = (if n < 16 then [hex_digit n] else hex (n div 16) @ [hex_digit (n mod 16)])"

declare hex.simps [simp del]

lemmas hex_simps [cdefs] = hex.simps hex_digit_def hex2_def hex8_def hex_pad.simps

lemma length_hex2 [simp]: "length (hex2 b) = 2"
  by (simp add: hex2_def)

lemma length_hex_pad [simp]: "length (hex_pad w n) = w"
  by (induction w arbitrary: n) auto

lemma length_hex8 [simp]: "length (hex8 w) = 8"
  by (simp add: hex8_def)

lemma length_hex: "n < 16 ^ k \<Longrightarrow> 0 < k \<Longrightarrow> length (hex n) \<le> k"
proof (induction k arbitrary: n)
  case 0
  then show ?case by simp
next
  case (Suc k)
  show ?case
  proof (cases "n < 16")
    case True
    then show ?thesis by (subst hex.simps) simp
  next
    case False
    with Suc.prems have "0 < k" by (cases k) auto
    moreover have "n div 16 < 16 ^ k"
      using Suc.prems(1) by (simp add: less_mult_imp_div_less)
    ultimately have "length (hex (n div 16)) \<le> k" by (rule Suc.IH[rotated])
    with False show ?thesis by (subst hex.simps) simp
  qed
qed

section \<open>Characters of a formatted line\<close>

text \<open>
  One NDJSON record is one line: a formatted record must not contain a line feed.
  \<open>line_safe\<close> also excludes NUL, which would end the C string early.
\<close>

definition line_safe :: "string \<Rightarrow> bool" where
  "line_safe s \<longleftrightarrow> (\<forall>c \<in> set s. of_char c \<noteq> (10 :: nat) \<and> of_char c \<noteq> (0 :: nat))"

lemma line_safe_append [simp]: "line_safe (s @ t) \<longleftrightarrow> line_safe s \<and> line_safe t"
  by (auto simp: line_safe_def)

lemma line_safe_Cons [simp]:
  "line_safe (c # s) \<longleftrightarrow> of_char c \<noteq> (10 :: nat) \<and> of_char c \<noteq> (0 :: nat) \<and> line_safe s"
  by (auto simp: line_safe_def)

lemma line_safe_Nil [simp]: "line_safe []"
  by (simp add: line_safe_def)

lemma line_safe_cstr [fmt_chars]: "line_safe s \<Longrightarrow> line_safe (cstr n s)"
  using set_cstr[of n s] by (auto simp: line_safe_def)

lemma line_safe_str_or [fmt_chars]: "line_safe s \<Longrightarrow> line_safe d \<Longrightarrow> line_safe (str_or s d)"
  by (simp add: str_or_def)

lemma line_safe_dec [simp, fmt_chars]: "line_safe (dec n)"
  using dec_digits[of _ n] by (fastforce simp: line_safe_def is_digit_def)

lemma line_safe_int_dec [simp, fmt_chars]: "line_safe (int_dec i)"
  by (simp add: int_dec_def)

lemma line_safe_dec0 [simp, fmt_chars]: "line_safe (dec0 w n)"
  by (simp add: dec0_def line_safe_def[of "replicate _ _"] del: replicate.simps)

lemma line_safe_u_dec [simp, fmt_chars]:
  "line_safe (u8_dec a)" "line_safe (u16_dec b)" "line_safe (u32_dec c)" "line_safe (u64_dec d)"
  by (simp_all add: u8_dec_def u16_dec_def u32_dec_def u64_dec_def)

lemma line_safe_hex_digit:
  "d < 16 \<Longrightarrow> of_char (hex_digit d) \<noteq> (10 :: nat) \<and> of_char (hex_digit d) \<noteq> (0 :: nat)"
proof -
  assume "d < 16"
  then have "hex_digit d \<in> set ''0123456789abcdef''"
    unfolding hex_digit_def by (intro nth_mem) simp
  then show ?thesis by auto
qed

lemma line_safe_hex_pad [simp, fmt_chars]: "line_safe (hex_pad w n)"
  by (induction w arbitrary: n) (auto simp: line_safe_hex_digit)

lemma line_safe_hex8 [simp, fmt_chars]: "line_safe (hex8 w)"
  by (simp add: hex8_def)

lemma line_safe_hex2 [simp, fmt_chars]: "line_safe (hex2 b)"
  by (simp add: hex2_def line_safe_hex_digit less_mult_imp_div_less)

lemma line_safe_hex [simp, fmt_chars]: "line_safe (hex n)"
proof (induction n rule: hex.induct)
  case (1 n)
  then show ?case by (subst hex.simps) (simp add: line_safe_hex_digit)
qed

section \<open>Byte order\<close>

definition be16 :: "u8 \<Rightarrow> u8 \<Rightarrow> u16" where
  "be16 a b = push_bit 8 (ucast a) OR ucast b"

definition be32 :: "u8 \<Rightarrow> u8 \<Rightarrow> u8 \<Rightarrow> u8 \<Rightarrow> u32" where
  "be32 a b c d = push_bit 24 (ucast a) OR push_bit 16 (ucast b) OR push_bit 8 (ucast c) OR ucast d"

definition le16 :: "u8 \<Rightarrow> u8 \<Rightarrow> u16" where
  "le16 a b = be16 b a"

definition le32 :: "u8 \<Rightarrow> u8 \<Rightarrow> u8 \<Rightarrow> u8 \<Rightarrow> u32" where
  "le32 a b c d = be32 d c b a"

text \<open>\<^verbatim>\<open>(x >> 8 * k) & 0xFF\<close>\<close>

definition octet :: "nat \<Rightarrow> u32 \<Rightarrow> u32" where
  "octet k w = drop_bit (8 * k) w AND 0xFF"

lemma octet_less: "unat (octet k w) < 256"
proof -
  have "octet k w \<le> 0xFF" unfolding octet_def by (rule word_and_le1)
  then show ?thesis by (simp add: word_le_nat_alt)
qed

lemma length_octet_dec [fmt_len]: "length (u32_dec (octet k w)) \<le> 3"
  unfolding u32_dec_def using octet_less[of k w] by (intro length_dec) auto

lemmas byte_defs [cdefs] = be16_def be32_def le16_def le32_def octet_def

lemma unat_of_nat_small: "n < 2 ^ LENGTH('w::len) \<Longrightarrow> unat (of_nat n :: 'w word) = n"
  by (simp add: unsigned_of_nat take_bit_nat_eq_self)

section \<open>Table scans\<close>

text \<open>The first index whose element satisfies a predicate.\<close>

fun find_idx :: "('a \<Rightarrow> bool) \<Rightarrow> 'a list \<Rightarrow> nat option" where
  "find_idx P [] = None"
| "find_idx P (x # xs) = (if P x then Some 0 else map_option Suc (find_idx P xs))"

lemma find_idx_SomeD: "find_idx P xs = Some i \<Longrightarrow> i < length xs \<and> P (xs ! i) \<and> (\<forall>j < i. \<not> P (xs ! j))"
proof (induction xs arbitrary: i)
  case (Cons x xs)
  show ?case
  proof (cases "P x")
    case False
    with Cons.prems obtain k where k: "find_idx P xs = Some k" "i = Suc k" by auto
    from Cons.IH[OF k(1)] k(2) False show ?thesis by (auto simp: nth_Cons split: nat.split)
  qed (use Cons.prems in simp)
qed simp

lemma find_idx_None_iff: "find_idx P xs = None \<longleftrightarrow> (\<forall>x \<in> set xs. \<not> P x)"
  by (induction xs) auto

text \<open>
  The eviction scans \<^verbatim>\<open>best = 0; for (i = 1; i < n; i++) if (key(t[i]) < key(t[best])) best = i\<close>.
\<close>

definition min_slot :: "('a \<Rightarrow> 'k::linorder) \<Rightarrow> 'a list \<Rightarrow> nat" where
  "min_slot key xs = foldl (\<lambda>best i. if key (xs ! i) < key (xs ! best) then i else best) 0 [1..<length xs]"

lemma min_slot_aux:
  assumes "m \<le> n" "b < m" "\<forall>j < m. key (xs ! b) \<le> key (xs ! j)"
  defines "r \<equiv> foldl (\<lambda>best i. if key (xs ! i) < key (xs ! best) then i else best) b [m..<n]"
  shows "r < n \<and> (\<forall>j < n. key (xs ! r) \<le> (key (xs ! j) :: 'k::linorder))"
  using assms(1-3) unfolding r_def
proof (induction "n - m" arbitrary: m b)
  case (Suc k)
  then have m: "m < n" by simp
  let ?b = "if key (xs ! m) < key (xs ! b) then m else b"
  have "\<forall>j < Suc m. key (xs ! ?b) \<le> key (xs ! j)"
    using Suc.prems(3) by (auto simp: less_Suc_eq intro: order_trans less_imp_le)
  with Suc.hyps(1)[of "Suc m" ?b] Suc.hyps(2) Suc.prems m show ?case
    by (simp add: upt_conv_Cons)
qed auto

lemma foldl_min_le:
  "key (xs ! foldl (\<lambda>best i. if key (xs ! i) < key (xs ! best) then i else best) b is) \<le> (key (xs ! b) :: 'k::linorder)"
proof (induction "is" arbitrary: b)
  case (Cons i "is")
  show ?case using Cons[of i] Cons[of b] by (auto intro: order_trans less_imp_le)
qed simp

lemma min_slot_spec:
  assumes "xs \<noteq> []"
  shows "min_slot key xs < length xs" "j < length xs \<Longrightarrow> key (xs ! min_slot key xs) \<le> key (xs ! j)"
proof -
  have "1 \<le> length xs" using assms by (cases xs) simp_all
  from min_slot_aux[OF this, of 0 key xs]
  show "min_slot key xs < length xs" "j < length xs \<Longrightarrow> key (xs ! min_slot key xs) \<le> key (xs ! j)"
    by (simp_all add: min_slot_def)
qed

end
