(* ===== verification/Ring_Buffer.thy ===== *)
theory Ring_Buffer
  imports Prelude
begin

text \<open>
  The ring buffers of \<^verbatim>\<open>agent/agent_core.c\<close> (the event queue \<^verbatim>\<open>eq\<close> and the NDJSON
  \<^verbatim>\<open>spool\<close>) are arrays with a head index, a tail index and a count, all reduced modulo
  the capacity. \<open>ring_view\<close> is the queue such an array represents, oldest element first,
  and \<open>ring_ok\<close> is the representation invariant. The locales below state what the
  clients of the two queues rely on: \<open>drop_newest_fifo\<close> refuses a push when full (event
  queue), \<open>drop_oldest_fifo\<close> overwrites the oldest element (spool). \<open>store\<close> is the form in which
  an element is kept: events and lines are truncated to their buffers.
\<close>

section \<open>Arrays as queues\<close>

definition ring_view :: "'a list \<Rightarrow> nat \<Rightarrow> nat \<Rightarrow> nat \<Rightarrow> 'a list" where
  "ring_view buf cap h n = map (\<lambda>i. buf ! ((h + i) mod cap)) [0..<n]"

definition ring_ok :: "'a list \<Rightarrow> nat \<Rightarrow> nat \<Rightarrow> nat \<Rightarrow> nat \<Rightarrow> bool" where
  "ring_ok buf cap h t n \<longleftrightarrow>
     0 < cap \<and> length buf = cap \<and> h < cap \<and> n \<le> cap \<and> t = (h + n) mod cap"

lemma length_ring_view [simp]: "length (ring_view buf cap h n) = n"
  by (simp add: ring_view_def)

lemma ring_view_0 [simp]: "ring_view buf cap h 0 = []"
  by (simp add: ring_view_def)

lemma ring_view_Nil_iff [simp]: "ring_view buf cap h n = [] \<longleftrightarrow> n = 0"
  by (simp add: ring_view_def)

text \<open>Two positions of the live part of a ring never share an array slot.\<close>

lemma ring_slots_distinct:
  assumes "i < n" "n < cap"
  shows "(h + i) mod cap \<noteq> (h + n) mod (cap :: nat)"
proof
  assume "(h + i) mod cap = (h + n) mod cap"
  then have "cap dvd (h + n) - (h + i)"
    using assms by (metis add_le_cancel_left less_imp_le mod_eq_dvd_iff_nat)
  with assms show False by (auto dest: dvd_imp_le)
qed

lemma ring_view_push:
  assumes "ring_ok buf cap h t n" "n < cap"
  shows "ring_view (buf[t := x]) cap h (Suc n) = ring_view buf cap h n @ [x]"
proof -
  from assms have t: "t = (h + n) mod cap" and l: "t < length buf"
    by (auto simp: ring_ok_def)
  have "(buf[t := x]) ! ((h + i) mod cap) = buf ! ((h + i) mod cap)" if "i < n" for i
    using ring_slots_distinct[OF that assms(2), of h] t by simp
  then show ?thesis using t l by (simp add: ring_view_def)
qed

lemma ring_ok_push:
  assumes "ring_ok buf cap h t n" "n < cap"
  shows "ring_ok (buf[t := x]) cap h ((t + 1) mod cap) (Suc n)"
  using assms by (auto simp: ring_ok_def mod_Suc_eq)

text \<open>Advancing the head by \<open>k\<close> drops the \<open>k\<close> oldest elements.\<close>

lemma ring_view_drop:
  assumes "k \<le> n"
  shows "ring_view buf cap ((h + k) mod cap) (n - k) = drop k (ring_view buf cap h n)"
  by (rule nth_equalityI) (use assms in \<open>auto simp: ring_view_def mod_add_left_eq add.assoc\<close>)

lemma ring_view_take:
  "k \<le> n \<Longrightarrow> ring_view buf cap h k = take k (ring_view buf cap h n)"
  by (simp add: ring_view_def take_map)

lemma ring_ok_drop:
  assumes "ring_ok buf cap h t n" "k \<le> n"
  shows "ring_ok buf cap ((h + k) mod cap) t (n - k)"
proof -
  have "((h + k) mod cap + (n - k)) mod cap = (h + n) mod cap"
    using assms(2) by (simp only: mod_add_left_eq) simp
  with assms show ?thesis by (auto simp: ring_ok_def)
qed

lemma ring_view_nth:
  "i < n \<Longrightarrow> ring_view buf cap h n ! i = buf ! ((h + i) mod cap)"
  by (simp add: ring_view_def)

lemma ring_view_hd:
  assumes "ring_ok buf cap h t n" "0 < n"
  shows "hd (ring_view buf cap h n) = buf ! h"
  using assms by (simp add: hd_conv_nth ring_view_nth ring_ok_def)

section \<open>Queue interfaces\<close>

locale bounded_fifo =
  fixes inv :: "'s \<Rightarrow> bool"
    and view :: "'s \<Rightarrow> 'b list"
    and capacity :: "'s \<Rightarrow> nat"
    and store :: "'a \<Rightarrow> 'b"
    and push :: "'a \<Rightarrow> 's \<Rightarrow> 's"
  assumes bound: "inv s \<Longrightarrow> length (view s) \<le> capacity s"
    and push_inv: "inv s \<Longrightarrow> inv (push x s)"
    and push_capacity: "inv s \<Longrightarrow> capacity (push x s) = capacity s"
begin

lemma pushes_inv: "inv s \<Longrightarrow> inv (fold push xs s)"
  by (induction xs arbitrary: s) (auto intro: push_inv)

lemma pushes_capacity: "inv s \<Longrightarrow> capacity (fold push xs s) = capacity s"
  by (induction xs arbitrary: s) (auto simp: push_capacity push_inv)

end

text \<open>A full queue refuses: the first \<open>capacity\<close> elements survive.\<close>

locale drop_newest_fifo = bounded_fifo +
  assumes push_view_newest:
    "inv s \<Longrightarrow> view (push x s) = (if length (view s) < capacity s then view s @ [store x] else view s)"
begin

lemma pushes_view: "inv s \<Longrightarrow> view (fold push xs s) = take (capacity s) (view s @ map store xs)"
proof (induction xs arbitrary: s)
  case Nil
  then show ?case by (simp add: bound)
next
  case (Cons x xs)
  have "view (fold push xs (push x s)) = take (capacity s) (view (push x s) @ map store xs)"
    using Cons by (simp add: push_inv push_capacity)
  also have "\<dots> = take (capacity s) (view s @ map store (x # xs))"
    using Cons.prems bound[OF Cons.prems]
    by (cases "capacity s - length (view s)")
      (auto simp: push_view_newest intro: arg_cong2[where f = take])
  finally show ?case by simp
qed

end

text \<open>A full queue overwrites: the last \<open>capacity\<close> elements survive.\<close>

locale drop_oldest_fifo = bounded_fifo +
  assumes push_view_oldest:
    "inv s \<Longrightarrow> view (push x s) = (if length (view s) < capacity s then view s @ [store x] else tl (view s) @ [store x])"
    and capacity_pos: "inv s \<Longrightarrow> 0 < capacity s"
begin

lemma push_view_last:
  assumes "inv s"
  shows "view (push x s) = drop (Suc (length (view s)) - capacity s) (view s @ [store x])"
proof (cases "length (view s) < capacity s")
  case True
  with assms show ?thesis by (simp add: push_view_oldest)
next
  case False
  with bound[OF assms] capacity_pos[OF assms] have "length (view s) = capacity s" "view s \<noteq> []"
    by auto
  with assms capacity_pos[OF assms] show ?thesis by (simp add: push_view_oldest drop_Suc)
qed

lemma pushes_view:
  "inv s \<Longrightarrow> view (fold push xs s) =
     drop (length (view s) + length xs - capacity s) (view s @ map store xs)"
proof (induction xs arbitrary: s)
  case Nil
  then show ?case by (simp add: bound)
next
  case (Cons x xs)
  let ?v = "view s" and ?c = "capacity s"
  let ?k = "Suc (length ?v) - ?c"
  have b: "length ?v \<le> ?c" using Cons.prems by (rule bound)
  have "view (fold push xs (push x s)) =
      drop (length (view (push x s)) + length xs - ?c) (view (push x s) @ map store xs)"
    using Cons by (simp add: push_inv push_capacity)
  also have "\<dots> = drop (length (drop ?k (?v @ [store x])) + length xs - ?c) (drop ?k (?v @ [store x]) @ map store xs)"
    using push_view_last[OF Cons.prems] by simp
  also have "drop ?k (?v @ [store x]) @ map store xs = drop ?k (?v @ map store (x # xs))"
    using b capacity_pos[OF Cons.prems] by simp
  also have "drop (length (drop ?k (?v @ [store x])) + length xs - ?c) (drop ?k (?v @ map store (x # xs))) =
      drop (length ?v + length (x # xs) - ?c) (?v @ map store (x # xs))"
    using b capacity_pos[OF Cons.prems] by (simp add: drop_drop) (rule arg_cong2[where f = drop], auto)
  finally show ?case by simp
qed

text \<open>The newest element is always kept.\<close>

lemma push_keeps_newest: "inv s \<Longrightarrow> last (view (push x s)) = store x"
  by (simp add: push_view_oldest)

end

end
