(* ===== verification/Event_Source.thy ===== *)
theory Event_Source
  imports Prelude
begin

text \<open>
  The pull interface all parsers and the agent itself share
  (\<^verbatim>\<open>ipfix_next_event\<close>, \<^verbatim>\<open>bmp_next_event\<close>, \<^verbatim>\<open>nfct_next_event\<close>,
  \<^verbatim>\<open>cpe_agent_next_event\<close>): a call either takes one event off a queue and returns 1, or
  returns another value. \<open>yields nx c evs\<close> says that the drain loop
  \<^verbatim>\<open>while (next_event(c, &ev) == 1)\<close> sees exactly the events \<open>evs\<close>.
\<close>

fun yields :: "('c \<Rightarrow> ('e \<times> 'c) option) \<Rightarrow> 'c \<Rightarrow> 'e list \<Rightarrow> bool" where
  "yields nx c [] \<longleftrightarrow> nx c = None"
| "yields nx c (e # es) \<longleftrightarrow> (case nx c of None \<Rightarrow> False | Some (e', c') \<Rightarrow> e' = e \<and> yields nx c' es)"

text \<open>A plain list as an event queue, for concrete runs.\<close>

fun list_next :: "'e list \<Rightarrow> ('e \<times> 'e list) option" where
  "list_next [] = None"
| "list_next (e # es) = Some (e, es)"

lemma yields_list_next [simp]: "yields list_next q evs \<longleftrightarrow> evs = q"
  by (induction evs arbitrary: q) (auto split: option.splits elim: list_next.elims)

lemma yields_unique: "yields nx c es \<Longrightarrow> yields nx c es' \<Longrightarrow> es = es'"
proof (induction es arbitrary: c es')
  case Nil
  then show ?case by (cases es') auto
next
  case (Cons e es)
  then show ?case by (cases es') (auto split: option.splits)
qed

lemma yields_ConsE:
  assumes "yields nx c (e # es)"
  obtains c' where "nx c = Some (e, c')" "yields nx c' es"
  using assms by (auto split: option.splits)

text \<open>A source whose pending count falls with every event is drained by a finite loop.\<close>

locale event_source =
  fixes nx :: "'c \<Rightarrow> ('e \<times> 'c) option"
    and pending :: "'c \<Rightarrow> nat"
  assumes takes: "nx c = Some (e, c') \<Longrightarrow> pending c' < pending c"
begin

lemma drains: "\<exists>es. yields nx c es \<and> length es \<le> pending c"
proof (induction "pending c" arbitrary: c rule: less_induct)
  case less
  show ?case
  proof (cases "nx c")
    case None
    then show ?thesis by (intro exI[of _ "[]"]) simp
  next
    case (Some p)
    obtain e c' where p: "p = (e, c')" by (cases p)
    with Some have "pending c' < pending c" by (simp add: takes)
    moreover from less[OF this] obtain es where "yields nx c' es" "length es \<le> pending c'"
      by blast
    ultimately show ?thesis using Some p by (intro exI[of _ "e # es"]) simp
  qed
qed

end

end
