(* ===== verification/Config.thy ===== *)
theory Config
  imports Prelude
begin

text \<open>
  \<^verbatim>\<open>include/cpe_agent_config.h\<close> and \<^verbatim>\<open>agent/config_defaults.c\<close>: the agent configuration,
  its defaults and its structural validation.
\<close>

section \<open>Data\<close>

record cpe_agent_config =
  c_router_id :: string
  c_emit_mode :: string
  c_spool_path :: string
  c_spool_max_lines :: u64
  c_demo_target :: string
  c_arping_if :: string
  c_wifi_if :: string
  c_demo_interval_ms :: u32
  c_sample_interval_ms :: u32
  c_probe_timeout_ms :: u32
  c_demo_mode :: bool
  c_https_url :: string
  c_egress_user :: string
  c_egress_password :: string
  c_tls_ca_file :: string
  c_tls_cert_file :: string
  c_tls_key_file :: string
  c_egress_tls_insecure :: bool
  c_tcp_stats_enabled :: bool
  c_tcp_nflog_group :: u16
  c_tcp_nflog_size :: u32
  c_tcp_emit_interval_ms :: u32
  c_tcp_emit_top_n :: u32
  c_tcp_prefix_len :: u8
  c_flow_acct_enabled :: bool
  c_flow_join_update :: bool
  c_flow_emit_destroy :: bool
  c_flow_emit_new :: bool
  c_flow_poll_interval_ms :: u32
  c_flow_dump_interval_ms :: u32
  c_flow_sample_emit_ms :: u32
  c_flow_sample_top_n :: u32
  c_flow_max_flows :: u32
  c_ipc_socket :: string
  c_openai_proxy_url :: string
  c_postgres_proxy_url :: string
  c_generation :: u64

section \<open>Operations\<close>

definition cpe_agent_config_defaults :: cpe_agent_config where
  "cpe_agent_config_defaults = \<lparr>
     c_router_id = ''cpe-lab-1'',
     c_emit_mode = ''stdout'',
     c_spool_path = ''/var/spool/netforensics/cpe_perf.ndjson'',
     c_spool_max_lines = 256,
     c_demo_target = ''1.1.1.1'',
     c_arping_if = [],
     c_wifi_if = [],
     c_demo_interval_ms = 5000,
     c_sample_interval_ms = 5000,
     c_probe_timeout_ms = 1000,
     c_demo_mode = True,
     c_https_url = [],
     c_egress_user = [],
     c_egress_password = [],
     c_tls_ca_file = [],
     c_tls_cert_file = [],
     c_tls_key_file = [],
     c_egress_tls_insecure = True,
     c_tcp_stats_enabled = False,
     c_tcp_nflog_group = 5,
     c_tcp_nflog_size = 60,
     c_tcp_emit_interval_ms = 10000,
     c_tcp_emit_top_n = 20,
     c_tcp_prefix_len = 24,
     c_flow_acct_enabled = False,
     c_flow_join_update = True,
     c_flow_emit_destroy = True,
     c_flow_emit_new = False,
     c_flow_poll_interval_ms = 200,
     c_flow_dump_interval_ms = 200,
     c_flow_sample_emit_ms = 2000,
     c_flow_sample_top_n = 32,
     c_flow_max_flows = 1024,
     c_ipc_socket = ''/var/run/netforensics/cpe_agent.sock'',
     c_openai_proxy_url = [],
     c_postgres_proxy_url = [],
     c_generation = 0 \<rparr>"

text \<open>\<open>None\<close> is the return value 0; \<open>Some msg\<close> is -1 with the text printed into \<^verbatim>\<open>err\<close>.\<close>

definition cpe_agent_config_validate :: "cpe_agent_config option \<Rightarrow> string option" where
  "cpe_agent_config_validate cp =
     (case cp of None \<Rightarrow> Some ''null config''
      | Some c \<Rightarrow>
        if c_router_id c = [] then Some ''router_id empty''
        else if c_emit_mode c \<noteq> ''stdout'' \<and> c_emit_mode c \<noteq> ''spool'' \<and>
                c_emit_mode c \<noteq> ''http'' \<and> c_emit_mode c \<noteq> ''https''
          then Some ''emit.mode must be stdout|spool|http|https''
        else if c_emit_mode c = ''spool'' \<and> c_spool_path c = []
          then Some ''emit.mode=spool requires emit.path''
        else if (c_emit_mode c = ''http'' \<or> c_emit_mode c = ''https'') \<and> c_https_url c = []
          then Some (''emit.mode='' @ c_emit_mode c @ '' requires egress.url'')
        else if c_spool_max_lines c = 0 then Some ''spool_max_lines must be > 0''
        else if c_spool_max_lines c > 1024 then Some (''spool_max_lines exceeds hard cap '' @ dec 1024)
        else if c_demo_interval_ms c = 0 \<and> c_sample_interval_ms c = 0
          then Some ''interval_ms must be > 0''
        else if c_demo_target c = [] then Some ''probe target empty''
        else None)"

section \<open>Facts\<close>

text \<open>The size every string buffer of the struct leaves for its text.\<close>

definition cfg_wf :: "cpe_agent_config \<Rightarrow> bool" where
  "cfg_wf c \<longleftrightarrow>
     length (c_router_id c) < 64 \<and> length (c_emit_mode c) < 16 \<and> length (c_spool_path c) < 256 \<and>
     length (c_demo_target c) < 64 \<and> length (c_arping_if c) < 32 \<and> length (c_wifi_if c) < 32 \<and>
     length (c_https_url c) < 256 \<and> length (c_egress_user c) < 64 \<and>
     length (c_egress_password c) < 128 \<and> length (c_tls_ca_file c) < 256 \<and>
     length (c_tls_cert_file c) < 256 \<and> length (c_tls_key_file c) < 256 \<and>
     length (c_ipc_socket c) < 256 \<and> length (c_openai_proxy_url c) < 256 \<and>
     length (c_postgres_proxy_url c) < 256"

text \<open>What the rest of the agent relies on in an accepted configuration.\<close>

definition cfg_usable :: "cpe_agent_config \<Rightarrow> bool" where
  "cfg_usable c \<longleftrightarrow>
     c_router_id c \<noteq> [] \<and> c_demo_target c \<noteq> [] \<and>
     0 < unat (c_spool_max_lines c) \<and> unat (c_spool_max_lines c) \<le> 1024 \<and>
     c_emit_mode c \<in> {''stdout'', ''spool'', ''http'', ''https''} \<and>
     (c_emit_mode c = ''spool'' \<longrightarrow> c_spool_path c \<noteq> []) \<and>
     (c_emit_mode c \<in> {''http'', ''https''} \<longrightarrow> c_https_url c \<noteq> []) \<and>
     (c_demo_interval_ms c \<noteq> 0 \<or> c_sample_interval_ms c \<noteq> 0)"

lemma word_u64_gt_1024: "(w :: u64) > 1024 \<longleftrightarrow> 1024 < unat w"
  by (simp add: word_less_nat_alt)

lemma word_u64_nonzero: "(w :: u64) \<noteq> 0 \<longleftrightarrow> 0 < unat w"
  by (simp add: unat_gt_0)

lemma validate_iff: "cpe_agent_config_validate (Some c) = None \<longleftrightarrow> cfg_usable c"
  by (auto simp: cpe_agent_config_validate_def cfg_usable_def word_u64_gt_1024 unat_gt_0)

lemma validate_length:
  assumes "cpe_agent_config_validate (Some c) = Some msg"
  shows "length msg < 128"
  using assms by (auto simp: cpe_agent_config_validate_def dec_simps split: if_splits)

lemma defaults_wf: "cfg_wf cpe_agent_config_defaults"
  by (simp add: cfg_wf_def cpe_agent_config_defaults_def)

lemma defaults_usable: "cfg_usable cpe_agent_config_defaults"
  by (simp add: cfg_usable_def cpe_agent_config_defaults_def)

end
