(* ===== verification/Inet.thy ===== *)
theory Inet
  imports Prelude
begin

text \<open>
  The address conversions of the C library that the agent uses: \<^verbatim>\<open>htonl\<close>/\<^verbatim>\<open>ntohl\<close>,
  \<^verbatim>\<open>inet_ntop\<close> and \<^verbatim>\<open>inet_pton\<close> as glibc implements them. An \<^verbatim>\<open>in_addr\<close> value is the
  32-bit number a little-endian machine reads from the four address bytes.
\<close>

section \<open>Byte order\<close>

definition htonl :: "u32 \<Rightarrow> u32" where
  "htonl w = push_bit 24 (octet 0 w) OR push_bit 16 (octet 1 w) OR push_bit 8 (octet 2 w) OR octet 3 w"

lemma bit_octet_iff: "bit (octet k w) n \<longleftrightarrow> n < 8 \<and> bit w (8 * k + n)"
proof -
  have "(0xFF :: u32) = mask 8" by (simp add: mask_eq_exp_minus_1)
  then have "octet k w = drop_bit (8 * k) w AND mask 8" by (simp only: octet_def)
  then show ?thesis
    by (auto simp: bit_and_iff bit_drop_bit_eq bit_mask_iff dest: bit_imp_le_length)
qed

lemma octet_htonl:
  "octet 0 (htonl w) = octet 3 w" "octet 1 (htonl w) = octet 2 w"
  "octet 2 (htonl w) = octet 1 w" "octet 3 (htonl w) = octet 0 w"
  by (rule bit_word_eqI, auto simp: bit_octet_iff htonl_def bit_or_iff bit_push_bit_iff)+

lemma word_octets_eqI:
  assumes "octet 0 a = octet 0 b" "octet 1 a = octet 1 b" "octet 2 a = octet 2 b" "octet 3 a = octet 3 b"
  shows "a = (b :: u32)"
proof (rule bit_word_eqI)
  fix n :: nat
  assume "n < LENGTH(32)"
  then have n: "n div 8 \<in> {0, 1, 2, 3}" by auto
  have "octet (n div 8) a = octet (n div 8) b" using n assms by auto
  then have "bit (octet (n div 8) a) (n mod 8) = bit (octet (n div 8) b) (n mod 8)" by simp
  then show "bit a n = bit b n" by (simp add: bit_octet_iff)
qed

lemma htonl_htonl [simp]: "htonl (htonl w) = w"
  by (rule word_octets_eqI) (simp_all only: octet_htonl)

section \<open>IPv4 text form\<close>

text \<open>\<^verbatim>\<open>inet_ntop(AF_INET, &a, ...)\<close>: the four address bytes in memory order.\<close>

definition inet_ntop4 :: "u32 \<Rightarrow> string" where
  "inet_ntop4 a = dec (unat (octet 0 a)) @ ''.'' @ dec (unat (octet 1 a)) @ ''.'' @
     dec (unat (octet 2 a)) @ ''.'' @ dec (unat (octet 3 a))"

text \<open>
  \<^verbatim>\<open>inet_pton(AF_INET, s, &a)\<close>: the scanner keeps the finished octets (most recent first),
  the octet being read, whether a digit of it was seen, and the number of octets started.
\<close>

fun pton4_scan :: "nat list \<Rightarrow> nat \<Rightarrow> bool \<Rightarrow> nat \<Rightarrow> string \<Rightarrow> nat list option" where
  "pton4_scan fin cur saw octets [] =
     (if octets < 4 then None else Some (rev (cur # fin)))"
| "pton4_scan fin cur saw octets (c # cs) =
     (if is_digit c then
        (let new = cur * 10 + digit_val c in
         if saw \<and> cur = 0 then None
         else if 255 < new then None
         else if saw then pton4_scan fin new True octets cs
         else if 4 < octets + 1 then None
         else pton4_scan fin new True (octets + 1) cs)
      else if c = CHR ''.'' \<and> saw then
        (if octets = 4 then None else pton4_scan (cur # fin) 0 False octets cs)
      else None)"

definition inet_pton4 :: "string \<Rightarrow> u32 option" where
  "inet_pton4 s =
     (case pton4_scan [] 0 False 0 s of
        Some [a, b, c, d] \<Rightarrow> Some (le32 (of_nat a) (of_nat b) (of_nat c) (of_nat d))
      | _ \<Rightarrow> None)"

lemmas inet4_defs [cdefs] = htonl_def inet_ntop4_def inet_pton4_def is_digit_def digit_val_def

lemma length_inet_ntop4: "length (inet_ntop4 a) \<le> 15"
proof -
  have l: "length (dec (unat (octet k a))) \<le> 3" for k
    using length_octet_dec[of k a] by (simp add: u32_dec_def)
  show ?thesis unfolding inet_ntop4_def using l[of 0] l[of 1] l[of 2] l[of 3] by simp
qed

lemma inet_ntop4_nonempty [simp]: "inet_ntop4 a \<noteq> []"
  by (simp add: inet_ntop4_def)

lemma line_safe_inet_ntop4 [simp]: "line_safe (inet_ntop4 a)"
  by (simp add: inet_ntop4_def)

text \<open>Reading back the decimal form of an octet.\<close>

lemma pton4_scan_digit:
  assumes "d < 10" "\<not> (saw \<and> cur = 0)" "cur * 10 + d \<le> 255" "saw \<or> octets < 4"
  shows "pton4_scan fin cur saw octets (digit d # cs) =
    pton4_scan fin (cur * 10 + d) True (if saw then octets else octets + 1) cs"
  using assms digit_val_digit[OF assms(1)] by (auto simp: Let_def)

lemma pton4_scan_dec:
  assumes "n < 256" "octets < 4"
  shows "pton4_scan fin 0 False octets (dec n @ cs) = pton4_scan fin n True (octets + 1) cs"
proof -
  consider "n < 10" | "10 \<le> n" "n < 100" | "100 \<le> n" by linarith
  then show ?thesis
  proof cases
    case 1
    then have "dec n = [digit n]" by (simp add: dec.simps)
    with 1 assms show ?thesis by (simp add: pton4_scan_digit del: pton4_scan.simps)
  next
    case 2
    then have "dec n = [digit (n div 10), digit (n mod 10)]" by (simp add: dec.simps)
    with 2 assms show ?thesis by (simp add: pton4_scan_digit div_eq_0_iff del: pton4_scan.simps)
  next
    case 3
    with assms have "dec n = [digit (n div 10 div 10), digit (n div 10 mod 10), digit (n mod 10)]"
      by (simp add: dec.simps div_less_iff_less_mult)
    moreover have "n div 10 div 10 < 10" "0 < n div 10 div 10" "n div 10 \<le> 25" "0 < n div 10"
      using 3 assms by auto
    moreover have "n div 10 div 10 * 10 + n div 10 mod 10 = n div 10" by simp
    ultimately show ?thesis using assms
      by (simp add: pton4_scan_digit del: pton4_scan.simps)
  qed
qed

lemma pton4_scan_dot:
  "octets < 4 \<Longrightarrow> pton4_scan fin cur True octets (CHR ''.'' # cs) = pton4_scan (cur # fin) 0 False octets cs"
  by (simp add: is_digit_def)

lemma octet_le32:
  "octet 0 (le32 a b c d) = ucast a" "octet 1 (le32 a b c d) = ucast b"
  "octet 2 (le32 a b c d) = ucast c" "octet 3 (le32 a b c d) = ucast d"
  by (rule bit_word_eqI, auto simp: bit_octet_iff le32_def be32_def bit_or_iff bit_push_bit_iff
      bit_ucast_iff dest: bit_imp_le_length)+

lemma ucast_of_octet: "ucast (of_nat (unat (octet k a)) :: u8) = octet k a"
  by (rule bit_word_eqI) (auto simp: bit_ucast_iff bit_octet_iff dest: bit_imp_le_length)

lemma inet_pton4_ntop4: "inet_pton4 (inet_ntop4 a) = Some a"
proof -
  have o: "unat (octet k a) < 256" for k by (rule octet_less)
  have "pton4_scan [] 0 False 0 (inet_ntop4 a) =
      Some [unat (octet 0 a), unat (octet 1 a), unat (octet 2 a), unat (octet 3 a)]"
    using pton4_scan_dec[OF o, of _ _ 3 "[]"]
    by (simp add: inet_ntop4_def pton4_scan_dec[OF o] pton4_scan_dot del: pton4_scan.simps(2))
  moreover have "le32 (of_nat (unat (octet 0 a))) (of_nat (unat (octet 1 a)))
      (of_nat (unat (octet 2 a))) (of_nat (unat (octet 3 a))) = a"
    by (rule word_octets_eqI) (simp_all only: octet_le32 ucast_of_octet)
  ultimately show ?thesis by (simp add: inet_pton4_def)
qed

section \<open>IPv6 text form\<close>

text \<open>The longest run of zero groups: the first one of maximal length, at least two groups.\<close>

fun zero_run :: "nat \<Rightarrow> u16 list \<Rightarrow> (nat \<times> nat) option \<Rightarrow> (nat \<times> nat) option \<Rightarrow> (nat \<times> nat) option" where
  "zero_run i [] cur best =
     (case cur of None \<Rightarrow> best
      | Some (cb, cl) \<Rightarrow> (case best of None \<Rightarrow> Some (cb, cl)
                          | Some (bb, bl) \<Rightarrow> if bl < cl then Some (cb, cl) else Some (bb, bl)))"
| "zero_run i (w # ws) cur best =
     (if w = 0 then
        (case cur of None \<Rightarrow> zero_run (Suc i) ws (Some (i, 1)) best
         | Some (cb, cl) \<Rightarrow> zero_run (Suc i) ws (Some (cb, Suc cl)) best)
      else
        (case cur of None \<Rightarrow> zero_run (Suc i) ws None best
         | Some (cb, cl) \<Rightarrow> zero_run (Suc i) ws None
             (case best of None \<Rightarrow> Some (cb, cl)
              | Some (bb, bl) \<Rightarrow> if bl < cl then Some (cb, cl) else Some (bb, bl))))"

definition best_run :: "u16 list \<Rightarrow> (nat \<times> nat) option" where
  "best_run ws = (case zero_run 0 ws None None of
     Some (b, l) \<Rightarrow> if l < 2 then None else Some (b, l) | None \<Rightarrow> None)"

fun groups16 :: "bytes \<Rightarrow> u16 list" where
  "groups16 (a # b # r) = be16 a b # groups16 r"
| "groups16 _ = []"

definition in_run :: "(nat \<times> nat) option \<Rightarrow> nat \<Rightarrow> bool" where
  "in_run run i = (case run of None \<Rightarrow> False | Some (b, l) \<Rightarrow> b \<le> i \<and> i < b + l)"

definition encaps_v4 :: "(nat \<times> nat) option \<Rightarrow> u16 list \<Rightarrow> bool" where
  "encaps_v4 run ws = (case run of None \<Rightarrow> False
     | Some (b, l) \<Rightarrow> b = 0 \<and> (l = 6 \<or> l = 5 \<and> ws ! 5 = 0xFFFF))"

definition v4_tail :: "bytes \<Rightarrow> string" where
  "v4_tail a = u8_dec (a ! 12) @ ''.'' @ u8_dec (a ! 13) @ ''.'' @ u8_dec (a ! 14) @ ''.'' @ u8_dec (a ! 15)"

fun ntop6_groups :: "bytes \<Rightarrow> u16 list \<Rightarrow> (nat \<times> nat) option \<Rightarrow> nat list \<Rightarrow> string" where
  "ntop6_groups a ws run [] = []"
| "ntop6_groups a ws run (i # is) =
     (if in_run run i then (if run \<noteq> None \<and> fst (the run) = i then '':'' else []) @ ntop6_groups a ws run is
      else (if i \<noteq> 0 then '':'' else []) @
           (if i = 6 \<and> encaps_v4 run ws then v4_tail a
            else hex (unat (ws ! i)) @ ntop6_groups a ws run is))"

definition inet_ntop6 :: "bytes \<Rightarrow> string" where
  "inet_ntop6 a =
     (let ws = groups16 a; run = best_run ws in
      ntop6_groups a ws run [0..<8] @
      (case run of Some (b, l) \<Rightarrow> if b + l = 8 then '':'' else [] | None \<Rightarrow> []))"

lemmas inet6_defs [cdefs] = best_run_def in_run_def encaps_v4_def v4_tail_def inet_ntop6_def

lemma length_v4_tail: "length (v4_tail a) \<le> 15"
  using length_u8_dec[of "a ! 12"] length_u8_dec[of "a ! 13"] length_u8_dec[of "a ! 14"] length_u8_dec[of "a ! 15"]
  by (simp add: v4_tail_def)

lemma length_hex_u16: "length (hex (unat (w :: u16))) \<le> 4"
  by (rule length_hex) (rule less_le_trans[OF unat_u16_less], simp_all)

lemma length_ntop6_groups:
  "length (ntop6_groups a ws run is) \<le> 5 * length is + 11"
proof (induction "is")
  case Nil
  then show ?case by simp
next
  case (Cons i "is")
  with length_v4_tail[of a] length_hex_u16[of "ws ! i"] show ?case by auto
qed

text \<open>The sharper bound uses that the embedded IPv4 tail is written at group 6, the second last.\<close>

lemma length_ntop6_upt:
  "i \<le> 8 \<Longrightarrow> length (ntop6_groups a ws run [i..<8]) \<le> 5 * (8 - i) + (if i \<le> 6 then 6 else 0)"
proof (induction "8 - i" arbitrary: i)
  case 0
  then show ?case by simp
next
  case (Suc n)
  then have i: "i < 8" by simp
  have IH: "length (ntop6_groups a ws run [Suc i..<8]) \<le> 5 * (8 - Suc i) + (if Suc i \<le> 6 then 6 else 0)"
    using Suc by (intro Suc.hyps(1)) auto
  show ?case
    unfolding upt_conv_Cons[OF i] using IH i length_v4_tail[of a] length_hex_u16[of "ws ! i"]
    by (auto split: if_splits)
qed

lemma length_inet_ntop6: "length (inet_ntop6 a) \<le> 47"
  using length_ntop6_upt[of 0 a "groups16 a" "best_run (groups16 a)"]
  by (auto simp: inet_ntop6_def Let_def split: option.split)

lemma line_safe_v4_tail [simp]: "line_safe (v4_tail a)"
  by (simp add: v4_tail_def)

lemma line_safe_ntop6_groups [simp]: "line_safe (ntop6_groups a ws run is)"
  by (induction "is") auto

lemma line_safe_inet_ntop6 [simp]: "line_safe (inet_ntop6 a)"
  by (auto simp: inet_ntop6_def Let_def split: option.split)

end
