(* ===== verification/Nflog.thy ===== *)
theory Nflog
  imports Inet
begin

text \<open>
  \<^verbatim>\<open>src/nflog_netlink.c\<close>: the NFLOG socket set-up messages and the walker over received
  nfnetlink messages. A buffer is a byte list and a pointer into it an offset; every read is
  checked against the buffer, and a read outside it makes the result \<open>None\<close>. The unsigned
  \<^verbatim>\<open>left\<close> counter has 64 bits and wraps. System calls are parameters.
\<close>

section \<open>Checked reads\<close>

definition rd8 :: "bytes \<Rightarrow> nat \<Rightarrow> u8 option" where
  "rd8 buf off = (if off < length buf then Some (buf ! off) else None)"

definition rd16le :: "bytes \<Rightarrow> nat \<Rightarrow> u16 option" where
  "rd16le buf off = (case (rd8 buf off, rd8 buf (off + 1)) of
     (Some a, Some b) \<Rightarrow> Some (le16 a b) | _ \<Rightarrow> None)"

definition rd16be :: "bytes \<Rightarrow> nat \<Rightarrow> u16 option" where
  "rd16be buf off = (case (rd8 buf off, rd8 buf (off + 1)) of
     (Some a, Some b) \<Rightarrow> Some (be16 a b) | _ \<Rightarrow> None)"

definition rd32 :: "(u8 \<Rightarrow> u8 \<Rightarrow> u8 \<Rightarrow> u8 \<Rightarrow> u32) \<Rightarrow> bytes \<Rightarrow> nat \<Rightarrow> u32 option" where
  "rd32 conv buf off = (case (rd8 buf off, rd8 buf (off + 1), rd8 buf (off + 2), rd8 buf (off + 3)) of
     (Some a, Some b, Some c, Some d) \<Rightarrow> Some (conv a b c d) | _ \<Rightarrow> None)"

definition rd64be :: "bytes \<Rightarrow> nat \<Rightarrow> u64 option" where
  "rd64be buf off = (case (rd32 be32 buf off, rd32 be32 buf (off + 4)) of
     (Some h, Some l) \<Rightarrow> Some (push_bit 32 (ucast h) OR ucast l) | _ \<Rightarrow> None)"

text \<open>\<^verbatim>\<open>NFLOG_NLA_ALIGN\<close> and \<^verbatim>\<open>NLMSG_ALIGN\<close>: round up to a multiple of four.\<close>

definition nla_align :: "nat \<Rightarrow> nat" where
  "nla_align n = (n + 3) div 4 * 4"

section \<open>Attributes of one packet message\<close>

record packet_attrs =
  pa_payload :: "(nat \<times> nat) option" \<comment> \<open>offset and length\<close>
  pa_hw_protocol :: u16
  pa_mark :: u32
  pa_ts_sec :: u64
  pa_ts_usec :: u64

definition attrs0 :: packet_attrs where
  "attrs0 = \<lparr> pa_payload = None, pa_hw_protocol = 0, pa_mark = 0, pa_ts_sec = 0, pa_ts_usec = 0 \<rparr>"

text \<open>The switch on the attribute type; \<open>d\<close> is the offset of the data, \<open>dlen\<close> its length.\<close>

definition attr_case :: "bytes \<Rightarrow> u16 \<Rightarrow> nat \<Rightarrow> nat \<Rightarrow> packet_attrs \<Rightarrow> packet_attrs option" where
  "attr_case buf type d dlen st =
     (if type = 1 then
        (if 4 \<le> dlen then map_option (\<lambda>v. st\<lparr>pa_hw_protocol := v\<rparr>) (rd16be buf d) else Some st)
      else if type = 2 then
        (if 4 \<le> dlen then map_option (\<lambda>v. st\<lparr>pa_mark := v\<rparr>) (rd32 be32 buf d) else Some st)
      else if type = 3 then
        (if 16 \<le> dlen then
           (case (rd64be buf d, rd64be buf (d + 8)) of
              (Some s, Some u) \<Rightarrow> Some (st\<lparr>pa_ts_sec := s, pa_ts_usec := u\<rparr>) | _ \<Rightarrow> None)
         else Some st)
      else if type = 9 then
        (if 0 < dlen then Some (st\<lparr>pa_payload := Some (d, dlen)\<rparr>) else Some st)
      else Some st)"

text \<open>The \<^verbatim>\<open>while (nla_ok(nla, rem))\<close> loop; \<open>rem\<close> is a signed int.\<close>

function walk_attrs :: "bytes \<Rightarrow> nat \<Rightarrow> int \<Rightarrow> packet_attrs \<Rightarrow> packet_attrs option" where
  "walk_attrs buf off rem st =
     (if rem < 4 then Some st
      else case rd16le buf off of None \<Rightarrow> None
      | Some nlen \<Rightarrow>
        if unat nlen < 4 \<or> rem < int (unat nlen) then Some st
        else case rd16le buf (off + 2) of None \<Rightarrow> None
        | Some ty \<Rightarrow>
          (case attr_case buf (ty AND 0x3fff) (off + 4) (unat nlen - 4) st of None \<Rightarrow> None
           | Some st' \<Rightarrow>
               walk_attrs buf (off + nla_align (unat nlen)) (rem - int (nla_align (unat nlen))) st'))"
  by pat_completeness auto
termination
  by (relation "measure (\<lambda>(buf, off, rem, st). nat rem)") (auto simp: nla_align_def)

declare walk_attrs.simps [simp del]

text \<open>
  The callback receives the payload bytes, the protocol, the mark, the time stamp, and the
  offset of the message in the buffer, which identifies the call.
\<close>

type_synonym 's packet_cb = "nat \<Rightarrow> bytes \<Rightarrow> u16 \<Rightarrow> u32 \<Rightarrow> u64 \<Rightarrow> u64 \<Rightarrow> 's \<Rightarrow> 's"

definition walk_packet_attrs :: "'s packet_cb \<Rightarrow> bytes \<Rightarrow> nat \<Rightarrow> nat \<Rightarrow> int \<Rightarrow> 's \<Rightarrow> 's option" where
  "walk_packet_attrs cb buf msg attr attrlen s =
     (case walk_attrs buf attr attrlen attrs0 of None \<Rightarrow> None
      | Some st \<Rightarrow>
        (case pa_payload st of None \<Rightarrow> Some s
         | Some (d, n) \<Rightarrow>
             Some (cb msg (take n (drop d buf)) (pa_hw_protocol st) (pa_mark st) (pa_ts_sec st) (pa_ts_usec st) s)))"

section \<open>The message walker\<close>

text \<open>
  \<open>NLMSG_ERROR\<close> is 2, \<open>NLMSG_DONE\<close> is 3, the ULOG subsystem is 4 and its packet message 0.
  For a DONE or ERROR message \<^verbatim>\<open>left\<close> is reduced by the aligned length without a check.
\<close>

function walk_msgs :: "'s packet_cb \<Rightarrow> bytes \<Rightarrow> nat \<Rightarrow> u64 \<Rightarrow> nat \<Rightarrow> 's \<Rightarrow> (nat \<times> 's) option" where
  "walk_msgs cb buf p left count s =
     (if left < 16 then Some (count, s)
      else case rd32 le32 buf p of None \<Rightarrow> None
      | Some nlen \<Rightarrow>
        if nlen < 16 \<or> left < ucast nlen then Some (count, s)
        else case rd16le buf (p + 4) of None \<Rightarrow> None
        | Some type \<Rightarrow>
          (let msglen = unat nlen; al = nla_align msglen in
           if type = 3 \<or> type = 2
           then walk_msgs cb buf (p + al) (left - of_nat al) count s
           else if drop_bit 8 (type AND 0xff00) = 4 \<and> type AND 0x00ff = 0 \<and> 20 < msglen
           then (case walk_packet_attrs cb buf p (p + 20) (int msglen - 20) s of None \<Rightarrow> None
                 | Some s' \<Rightarrow>
                     if left < of_nat al then Some (count + 1, s')
                     else walk_msgs cb buf (p + al) (left - of_nat al) (count + 1) s')
           else if left < of_nat al then Some (count, s)
           else walk_msgs cb buf (p + al) (left - of_nat al) count s))"
  by pat_completeness auto
termination
proof (relation "measure (\<lambda>(cb, buf, p, left, count, s). length buf - p)", goal_cases)
  case 1
  then show ?case by simp
qed (auto simp: rd32_def rd8_def nla_align_def word_less_nat_alt split: option.splits if_splits)

declare walk_msgs.simps [simp del]

text \<open>\<open>Some (-1, s)\<close> for a buffer shorter than one header; otherwise the message count.\<close>

definition nflog_netlink_walk :: "'s packet_cb \<Rightarrow> bytes \<Rightarrow> 's \<Rightarrow> (int \<times> 's) option" where
  "nflog_netlink_walk cb buf s =
     (if length buf < 16 then Some (-1, s)
      else map_option (\<lambda>(n, s'). (int n, s')) (walk_msgs cb buf 0 (of_nat (length buf)) 0 s))"

section \<open>Configuration messages\<close>

definition le16_bytes :: "u16 \<Rightarrow> bytes" where
  "le16_bytes w = [ucast w, ucast (drop_bit 8 w)]"

definition be16_bytes :: "u16 \<Rightarrow> bytes" where
  "be16_bytes w = [ucast (drop_bit 8 w), ucast w]"

definition le32_bytes :: "u32 \<Rightarrow> bytes" where
  "le32_bytes w = [ucast w, ucast (drop_bit 8 w), ucast (drop_bit 16 w), ucast (drop_bit 24 w)]"

definition be32_bytes :: "u32 \<Rightarrow> bytes" where
  "be32_bytes w = [ucast (drop_bit 24 w), ucast (drop_bit 16 w), ucast (drop_bit 8 w), ucast w]"

text \<open>A zero-padded attribute.\<close>

definition pad4 :: "bytes \<Rightarrow> bytes" where
  "pad4 b = b @ replicate (nla_align (length b) - length b) 0"

text \<open>
  The datagram \<^verbatim>\<open>nflog_send_cfg\<close> sends: header (type \<^verbatim>\<open>NFNL_SUBSYS_ULOG << 8 |
  NFULNL_MSG_CONFIG\<close>, flags \<^verbatim>\<open>NLM_F_REQUEST\<close>, sequence 1, pid 0), \<^verbatim>\<open>nfgenmsg\<close>, the
  command attribute (type \<^verbatim>\<open>NFULA_CFG_CMD\<close> = 1, length 5) and the optional extra attribute,
  which is dropped when it does not fit the 256-byte buffer.
\<close>

definition nflog_cfg_msg :: "u16 \<Rightarrow> u8 \<Rightarrow> u8 \<Rightarrow> bytes \<Rightarrow> bytes" where
  "nflog_cfg_msg grp cmd family extra =
     (let body = [family, 0] @ be16_bytes grp @ pad4 (le16_bytes 5 @ le16_bytes 1 @ [cmd]) @
                 (if extra \<noteq> [] \<and> 28 + length extra \<le> 256 then pad4 extra else []);
          off = 16 + length body
      in le32_bytes (of_nat off) @ le16_bytes 0x0401 @ le16_bytes 1 @ le32_bytes 1 @ le32_bytes 0 @ body)"

text \<open>
  System calls act on a world \<open>'w\<close>: \<open>sendto\<close> returns the number of bytes sent, negative on
  error; \<open>closef\<close> closes the socket.
\<close>

definition nflog_send_cfg ::
  "(bytes \<Rightarrow> 'w \<Rightarrow> int \<times> 'w) \<Rightarrow> u16 \<Rightarrow> u8 \<Rightarrow> u8 \<Rightarrow> bytes \<Rightarrow> 'w \<Rightarrow> int \<times> 'w" where
  "nflog_send_cfg sendto grp cmd family extra w =
     (let m = nflog_cfg_msg grp cmd family extra; (wr, w') = sendto m w
      in ((if wr < 0 \<or> wr \<noteq> int (length m) then -1 else 0), w'))"

text \<open>\<^verbatim>\<open>NFULA_CFG_MODE\<close> = 2; the packed mode struct is range, \<^verbatim>\<open>NFULNL_COPY_PACKET\<close> = 2, padding.\<close>

definition nflog_mode_attr :: "u32 \<Rightarrow> bytes" where
  "nflog_mode_attr copy_range =
     le16_bytes 10 @ le16_bytes 2 @ be32_bytes (if copy_range \<noteq> 0 then copy_range else 60) @ [2, 0]"

definition nflog_set_mode :: "(bytes \<Rightarrow> 'w \<Rightarrow> int \<times> 'w) \<Rightarrow> u16 \<Rightarrow> u32 \<Rightarrow> 'w \<Rightarrow> int \<times> 'w" where
  "nflog_set_mode sendto grp copy_range w =
     nflog_send_cfg sendto grp 0 0 (nflog_mode_attr copy_range) w"

text \<open>
  \<^verbatim>\<open>nflog_netlink_open\<close>: \<open>Inl\<close> is -1 with the error text, \<open>Inr fd\<close> an open socket.
  \<open>errno_text\<close> is \<^verbatim>\<open>strerror(errno)\<close>. Commands: \<^verbatim>\<open>PF_BIND\<close> = 3, \<^verbatim>\<open>BIND\<close> = 1;
  families \<^verbatim>\<open>AF_INET\<close> = 2, \<^verbatim>\<open>AF_INET6\<close> = 10, \<^verbatim>\<open>AF_UNSPEC\<close> = 0. The result of the IPv6
  bind is ignored.
\<close>

definition nflog_netlink_open ::
  "int \<Rightarrow> bool \<Rightarrow> (bytes \<Rightarrow> 'w \<Rightarrow> int \<times> 'w) \<Rightarrow> ('w \<Rightarrow> 'w) \<Rightarrow> string \<Rightarrow> u16 \<Rightarrow> u32 \<Rightarrow> 'w \<Rightarrow>
   (string + int) \<times> 'w" where
  "nflog_netlink_open sock bind_ok sendto closef errno_text group0 copy_range w0 =
     (let grp = (if group0 = 0 then 5 else group0) in
      if sock < 0 then (Inl (''socket(NETLINK_NETFILTER): '' @ errno_text), w0)
      else if \<not> bind_ok then (Inl (''bind netlink: '' @ errno_text), closef w0)
      else
        (let (r1, w1) = nflog_send_cfg sendto 0 3 2 [] w0 in
         if r1 \<noteq> 0 then (Inl (''NFLOG PF_BIND IPv4: '' @ errno_text), closef w1)
         else
           (let (_, w2) = nflog_send_cfg sendto 0 3 10 [] w1;
                (r3, w3) = nflog_send_cfg sendto grp 1 0 [] w2 in
            if r3 \<noteq> 0
            then (Inl (''NFLOG BIND group '' @ u16_dec grp @ '': '' @ errno_text @ '' (need CAP_NET_ADMIN?)''),
                  closef w3)
            else
              (let (r4, w4) = nflog_set_mode sendto grp copy_range w3 in
               if r4 \<noteq> 0 then (Inl (''NFLOG MODE: '' @ errno_text), closef w4)
               else (Inr sock, w4)))))"

text \<open>\<^verbatim>\<open>recv\<close>: data, the EAGAIN case, or an error or end of stream.\<close>

datatype recv_result = Received bytes | WouldBlock | RecvFailed

definition nflog_netlink_recv :: "int \<Rightarrow> recv_result \<Rightarrow> int \<times> bytes" where
  "nflog_netlink_recv fd r =
     (if fd < 0 then (-1, [])
      else case r of Received b \<Rightarrow> if b = [] then (-1, []) else (int (length b), b)
           | WouldBlock \<Rightarrow> (0, []) | RecvFailed \<Rightarrow> (-1, []))"

lemmas nflog_defs [cdefs] =
  rd8_def rd16le_def rd16be_def rd32_def rd64be_def nla_align_def attrs0_def attr_case_def
  walk_packet_attrs_def nflog_netlink_walk_def le16_bytes_def be16_bytes_def le32_bytes_def
  be32_bytes_def pad4_def nflog_cfg_msg_def nflog_send_cfg_def nflog_mode_attr_def
  nflog_set_mode_def nflog_netlink_open_def nflog_netlink_recv_def

section \<open>Memory safety\<close>

lemma rd8_in: "off < length buf \<Longrightarrow> rd8 buf off = Some (buf ! off)"
  by (simp add: rd8_def)

lemma rd16le_in: "off + 1 < length buf \<Longrightarrow> rd16le buf off = Some (le16 (buf ! off) (buf ! (off + 1)))"
  by (simp add: rd16le_def rd8_in)

lemma rd16be_in: "off + 1 < length buf \<Longrightarrow> rd16be buf off = Some (be16 (buf ! off) (buf ! (off + 1)))"
  by (simp add: rd16be_def rd8_in)

lemma rd32_in: "off + 3 < length buf \<Longrightarrow>
    rd32 f buf off = Some (f (buf ! off) (buf ! (off + 1)) (buf ! (off + 2)) (buf ! (off + 3)))"
  by (simp add: rd32_def rd8_in)

lemma rd64be_in: "off + 7 < length buf \<Longrightarrow> \<exists>v. rd64be buf off = Some v"
  by (simp add: rd64be_def rd32_in)

definition payload_in :: "bytes \<Rightarrow> packet_attrs \<Rightarrow> bool" where
  "payload_in buf st \<longleftrightarrow> (case pa_payload st of None \<Rightarrow> True | Some (d, n) \<Rightarrow> 0 < n \<and> d + n \<le> length buf)"

lemma attr_case_safe:
  assumes "d + dlen \<le> length buf" "payload_in buf st"
  shows "\<exists>st'. attr_case buf ty d dlen st = Some st' \<and> payload_in buf st'"
proof -
  have "16 \<le> dlen \<Longrightarrow> \<exists>a b. rd64be buf d = Some a \<and> rd64be buf (d + 8) = Some b"
    using assms(1) rd64be_in[of d buf] rd64be_in[of "d + 8" buf] by auto
  then show ?thesis
    using assms by (auto simp: attr_case_def rd16be_in rd32_in payload_in_def)
qed

lemma nla_align_ge: "n \<le> nla_align n" "nla_align n < n + 4" "4 dvd nla_align n"
  by (auto simp: nla_align_def)

lemma nla_align_le: "4 dvd m \<Longrightarrow> n \<le> m \<Longrightarrow> nla_align n \<le> m"
  by (auto simp: nla_align_def elim!: dvdE)

lemma walk_attrs_safe:
  assumes "int off + rem \<le> int (length buf)" "payload_in buf st"
  shows "\<exists>st'. walk_attrs buf off rem st = Some st' \<and> payload_in buf st'"
  using assms
proof (induction buf off rem st rule: walk_attrs.induct)
  case (1 buf off rem st)
  show ?case
  proof (cases "rem < 4")
    case True
    with 1 show ?thesis by (simp add: walk_attrs.simps[of buf off rem st])
  next
    case r: False
    let ?nlen = "le16 (buf ! off) (buf ! (off + 1))"
    let ?ty = "le16 (buf ! (off + 2)) (buf ! (off + 2 + 1))"
    have rd: "rd16le buf off = Some ?nlen" "rd16le buf (off + 2) = Some ?ty"
      using r 1(2) by (simp_all add: rd16le_in)
    show ?thesis
    proof (cases "unat ?nlen < 4 \<or> rem < int (unat ?nlen)")
      case True
      with 1 r rd show ?thesis by (simp add: walk_attrs.simps[of buf off rem st])
    next
      case False
      then have "off + 4 + (unat ?nlen - 4) \<le> length buf" using 1(2) by linarith
      from attr_case_safe[OF this 1(3)] obtain st' where
        st': "attr_case buf (?ty AND 0x3fff) (off + 4) (unat ?nlen - 4) st = Some st'" "payload_in buf st'"
        by blast
      have "\<exists>st''. walk_attrs buf (off + nla_align (unat ?nlen)) (rem - int (nla_align (unat ?nlen))) st' = Some st''
          \<and> payload_in buf st''"
        using 1(1)[OF r rd(1) False rd(2) st'(1)] 1(2) st'(2) by simp
      with r rd False st' show ?thesis by (simp add: walk_attrs.simps[of buf off rem st])
    qed
  qed
qed

lemma walk_packet_attrs_safe:
  assumes "int attr + attrlen \<le> int (length buf)"
  shows "\<exists>s'. walk_packet_attrs cb buf m attr attrlen s = Some s'"
proof -
  have "payload_in buf attrs0" by (simp add: payload_in_def attrs0_def)
  from walk_attrs_safe[OF assms this] show ?thesis
    by (auto simp: walk_packet_attrs_def split: option.split)
qed

text \<open>The aligned length of a message inside an aligned remainder does not exceed it.\<close>

lemma msg_advance:
  fixes left :: u64
  assumes "4 dvd unat left" "nlen \<le> left"
  shows "of_nat (nla_align (unat nlen)) \<le> left"
    "unat (left - of_nat (nla_align (unat nlen))) = unat left - nla_align (unat nlen)"
    "4 dvd unat (left - of_nat (nla_align (unat nlen)))"
proof -
  have l: "nla_align (unat nlen) \<le> unat left"
    using assms by (intro nla_align_le) (auto simp: word_le_nat_alt)
  have "nla_align (unat nlen) < 2 ^ 64"
    using l unat_u64_less[of left] by (simp del: unat_u64_less)
  then have u: "unat (of_nat (nla_align (unat nlen)) :: u64) = nla_align (unat nlen)"
    by (simp add: unsigned_of_nat take_bit_nat_eq_self)
  with l show le: "of_nat (nla_align (unat nlen)) \<le> left" by (simp add: word_le_nat_alt)
  show e: "unat (left - of_nat (nla_align (unat nlen))) = unat left - nla_align (unat nlen)"
    using le u by (simp add: unat_sub)
  show "4 dvd unat (left - of_nat (nla_align (unat nlen)))"
    unfolding e using assms(1) nla_align_ge(3) by (rule dvd_diff_nat)
qed

lemma walk_msgs_safe:
  assumes "p + unat left = length buf" "4 dvd unat left"
  shows "\<exists>r. walk_msgs cb buf p left count s = Some r"
  using assms
proof (induction cb buf p left count s rule: walk_msgs.induct)
  case (1 cb buf p left count s)
  show ?case
  proof (cases "left < 16")
    case True
    then show ?thesis by (simp add: walk_msgs.simps[of cb buf p left])
  next
    case l: False
    then have l16: "16 \<le> unat left" by (simp add: not_less word_le_nat_alt)
    let ?nlen = "le32 (buf ! p) (buf ! (p + 1)) (buf ! (p + 2)) (buf ! (p + 3))"
    let ?ty = "le16 (buf ! (p + 4)) (buf ! (p + 4 + 1))"
    have rd: "rd32 le32 buf p = Some ?nlen" "rd16le buf (p + 4) = Some ?ty"
      using l16 1(4) by (simp_all add: rd16le_in rd32_in)
    show ?thesis
    proof (cases "?nlen < 16 \<or> left < ucast ?nlen")
      case True
      with l rd show ?thesis by (simp add: walk_msgs.simps[of cb buf p left])
    next
      case n: False
      have un: "unat (ucast ?nlen :: u64) = unat ?nlen" by (simp add: unat_ucast_up)
      from n have "ucast ?nlen \<le> left" by (simp add: not_less)
      note adv = msg_advance[OF 1(5) this, unfolded un]
      have le: "unat ?nlen \<le> unat left" using n un by (simp add: not_less word_le_nat_alt)
      let ?al = "nla_align (unat ?nlen)"
      have nx: "p + ?al + unat (left - of_nat ?al) = length buf"
        using adv(1,2) 1(4) l16 le nla_align_le[OF 1(5) le] by simp
      have attrs: "\<exists>s'. walk_packet_attrs cb buf p (p + 20) (int (unat ?nlen) - 20) s = Some s'"
        using le 1(4) by (intro walk_packet_attrs_safe) linarith
      note IH1 = 1(1)[OF l rd(1) n rd(2) refl refl _ nx adv(3)]
      note IH2 = 1(2)[OF l rd(1) n rd(2) refl refl _ _ _ _ nx adv(3)]
      note IH3 = 1(3)[OF l rd(1) n rd(2) refl refl _ _ _ nx adv(3)]
      show ?thesis
        using l rd n attrs IH1 IH2 IH3 adv(1)
        by (subst walk_msgs.simps) (auto simp: Let_def not_less split: option.split)
    qed
  qed
qed

section \<open>Clients of the walker\<close>

text \<open>
  A client hands the walker a callback that keeps its own invariant; then a walk over any
  buffer keeps it.
\<close>

locale packet_sink =
  fixes cb :: "'s packet_cb" and inv :: "'s \<Rightarrow> bool"
  assumes cb_inv: "inv s \<Longrightarrow> inv (cb m b hw mk ts tu s)"
begin

lemma attrs_inv: "inv s \<Longrightarrow> walk_packet_attrs cb buf m attr n s = Some s' \<Longrightarrow> inv s'"
  by (auto simp: walk_packet_attrs_def intro: cb_inv split: option.splits)

lemma msgs_inv: "walk_msgs cb buf p left count s = Some (n, s') \<Longrightarrow> inv s \<Longrightarrow> inv s'"
proof (induction cb\<equiv>cb buf p left count s rule: walk_msgs.induct)
  case (1 buf p left count s)
  note eq = walk_msgs.simps[of cb buf p left count s]
  show ?case
  proof (cases "left < 16")
    case True
    with 1(4,5) show ?thesis by (simp add: eq)
  next
    case l: False
    then obtain nlen where n: "rd32 le32 buf p = Some nlen"
      using 1(4) by (cases "rd32 le32 buf p") (simp_all add: eq)
    show ?thesis
    proof (cases "nlen < 16 \<or> left < ucast nlen")
      case True
      with l n 1(4,5) show ?thesis by (simp add: eq)
    next
      case g: False
      then obtain ty where t: "rd16le buf (p + 4) = Some ty"
        using 1(4) l n by (cases "rd16le buf (p + 4)") (simp_all add: eq)
      note IH = 1(1-3)[OF l n g t refl refl]
      show ?thesis
      proof (cases "ty = 3 \<or> ty = 2")
        case True
        with IH(1)[OF True _ 1(5)] l n g t 1(4) show ?thesis by (simp add: eq Let_def)
      next
        case d: False
        show ?thesis
        proof (cases "drop_bit 8 (ty AND 0xff00) = 4 \<and> ty AND 0x00ff = 0 \<and> 20 < unat nlen")
          case k: True
          then obtain s1 where s1: "walk_packet_attrs cb buf p (p + 20) (int (unat nlen) - 20) s = Some s1"
            using 1(4) l n g t d
            by (cases "walk_packet_attrs cb buf p (p + 20) (int (unat nlen) - 20) s") (auto simp: eq Let_def)
          have "inv s1" by (rule attrs_inv[OF 1(5) s1])
          with IH(2)[OF d k s1 _ _ this] l n g t d k s1 1(4) show ?thesis
            by (auto simp: eq Let_def split: if_splits)
        next
          case k: False
          with IH(3)[OF d k _ _ 1(5)] l n g t d 1(4,5) show ?thesis
            by (auto simp: eq Let_def split: if_splits)
        qed
      qed
    qed
  qed
qed

lemma walk_inv: "nflog_netlink_walk cb buf s = Some (n, s') \<Longrightarrow> inv s \<Longrightarrow> inv s'"
  by (auto simp: nflog_netlink_walk_def split: if_splits dest: msgs_inv)

end

section \<open>Encoded packet messages\<close>

text \<open>
  What the kernel sends for one logged packet with only a payload attribute: header,
  \<^verbatim>\<open>nfgenmsg\<close>, padded attribute.
\<close>

definition enc_packet :: "bytes \<Rightarrow> bytes" where
  "enc_packet pl =
     le32_bytes (of_nat (20 + nla_align (4 + length pl))) @ le16_bytes 0x0400 @ replicate 10 0 @
     [2, 0, 0, 5] @ pad4 (le16_bytes (of_nat (4 + length pl)) @ le16_bytes 9 @ pl)"

lemma length_pad4 [simp]: "length (pad4 b) = nla_align (length b)"
  using nla_align_ge(1)[of "length b"] by (simp add: pad4_def)

lemma length_le_bytes [simp]:
  "length (le16_bytes a) = 2" "length (be16_bytes b) = 2" "length (le32_bytes c) = 4" "length (be32_bytes d) = 4"
  by (simp_all add: le16_bytes_def be16_bytes_def le32_bytes_def be32_bytes_def)

lemma length_enc_packet: "length (enc_packet pl) = 20 + nla_align (4 + length pl)"
  by (simp add: enc_packet_def numeral_eq_Suc)

lemma le16_bytes_inverse: "le16_bytes w = [a, b] \<Longrightarrow> le16 a b = w"
  unfolding le16_bytes_def le16_def be16_def
  by (auto intro!: bit_word_eqI simp: bit_or_iff bit_push_bit_iff bit_ucast_iff bit_drop_bit_eq
      dest: bit_imp_le_length)

lemma ucast_octet: "ucast (ucast (drop_bit (8 * k) w) :: u8) = octet k w"
  by (rule bit_word_eqI) (auto simp: bit_ucast_iff bit_drop_bit_eq bit_octet_iff dest: bit_imp_le_length)

lemma le32_bytes_inverse: "le32_bytes w = [a, b, c, d] \<Longrightarrow> le32 a b c d = w"
proof (rule word_octets_eqI)
  assume w: "le32_bytes w = [a, b, c, d]"
  show "octet 0 (le32 a b c d) = octet 0 w" "octet 1 (le32 a b c d) = octet 1 w"
    "octet 2 (le32 a b c d) = octet 2 w" "octet 3 (le32 a b c d) = octet 3 w"
    using w ucast_octet[of 0 w] ucast_octet[of 1 w] ucast_octet[of 2 w] ucast_octet[of 3 w]
    by (auto simp: octet_le32[unfolded One_nat_def] le32_bytes_def)
qed

lemma rd16le_at: "rd16le (xs @ le16_bytes w @ r) (length xs) = Some w"
proof -
  obtain a b where ab: "le16_bytes w = [a, b]" by (simp add: le16_bytes_def)
  then show ?thesis using le16_bytes_inverse[OF ab] by (simp add: rd16le_def rd8_def nth_append)
qed

lemma rd32le_at: "rd32 le32 (xs @ le32_bytes w @ r) (length xs) = Some w"
proof -
  obtain a b c d where ab: "le32_bytes w = [a, b, c, d]" by (simp add: le32_bytes_def)
  then show ?thesis using le32_bytes_inverse[OF ab] by (simp add: rd32_def rd8_def nth_append)
qed

text \<open>Reading one encoded packet at the current position.\<close>

lemma enc_packet_reads:
  fixes pl :: bytes
  assumes "buf = pre @ enc_packet pl @ post" "length pl \<le> 65000"
  defines "al \<equiv> nla_align (4 + length pl)"
  shows "rd32 le32 buf (length pre) = Some (of_nat (20 + al))"
    "rd16le buf (length pre + 4) = Some 0x0400"
    "rd16le buf (length pre + 20) = Some (of_nat (4 + length pl))"
    "rd16le buf (length pre + 22) = Some 9"
    "take (length pl) (drop (length pre + 24) buf) = pl"
proof -
  let ?h = "le32_bytes (of_nat (20 + al))" and ?t = "le16_bytes 0x0400"
  let ?a = "le16_bytes (of_nat (4 + length pl))"
  obtain z where z: "pad4 (?a @ le16_bytes 9 @ pl) = ?a @ le16_bytes 9 @ pl @ z" by (simp add: pad4_def)
  have e: "enc_packet pl = ?h @ ?t @ replicate 10 0 @ [2, 0, 0, 5] @ ?a @ le16_bytes 9 @ pl @ z"
    unfolding enc_packet_def z[symmetric] al_def ..
  show "rd32 le32 buf (length pre) = Some (of_nat (20 + al))"
    unfolding assms(1) e append_assoc by (rule rd32le_at)
  show "rd16le buf (length pre + 4) = Some 0x0400"
    using rd16le_at[of "pre @ ?h"] unfolding assms(1) e append_assoc by simp
  show "rd16le buf (length pre + 20) = Some (of_nat (4 + length pl))"
    using rd16le_at[of "pre @ ?h @ ?t @ replicate 10 0 @ [2, 0, 0, 5]"] unfolding assms(1) e append_assoc by simp
  show "rd16le buf (length pre + 22) = Some 9"
    using rd16le_at[of "pre @ ?h @ ?t @ replicate 10 0 @ [2, 0, 0, 5] @ ?a"] unfolding assms(1) e append_assoc by simp
  show "take (length pl) (drop (length pre + 24) buf) = pl"
    unfolding assms(1) e by simp
qed

lemma enc_packet_attrs:
  assumes "buf = pre @ enc_packet pl @ post" "length pl \<le> 65000" "pl \<noteq> []"
  shows "walk_packet_attrs cb buf m (length pre + 20) (int (nla_align (4 + length pl))) s =
    Some (cb m pl 0 0 0 0 s)"
proof -
  let ?al = "nla_align (4 + length pl)"
  obtain w :: u16 where w: "w = of_nat (4 + length pl)" by blast
  note rd = enc_packet_reads[OF assms(1,2), folded w]
  have u: "unat w = 4 + length pl"
    using assms(2) unfolding w by (intro unat_of_nat_small) simp
  have o: "length pre + 20 + 2 = length pre + 22" "length pre + 20 + 4 = length pre + 24" by simp_all
  have "walk_attrs buf (length pre + 20) (int ?al) attrs0 =
      walk_attrs buf (length pre + 20 + ?al) 0 (attrs0\<lparr>pa_payload := Some (length pre + 24, length pl)\<rparr>)"
    using nla_align_ge(1)[of "4 + length pl"] u assms(3)
    by (subst walk_attrs.simps) (simp only: o rd(3,4), simp add: attr_case_def)
  also have "\<dots> = Some (attrs0\<lparr>pa_payload := Some (length pre + 24, length pl)\<rparr>)"
    by (subst walk_attrs.simps) simp
  finally show ?thesis using rd(5) by (simp add: walk_packet_attrs_def attrs0_def)
qed

text \<open>The buffer offsets of successive encoded packets.\<close>

fun deliver :: "'s packet_cb \<Rightarrow> nat \<Rightarrow> bytes list \<Rightarrow> 's \<Rightarrow> 's" where
  "deliver cb off [] s = s"
| "deliver cb off (pl # pls) s = deliver cb (off + length (enc_packet pl)) pls (cb off pl 0 0 0 0 s)"

lemma walk_msgs_enc:
  assumes "\<forall>pl \<in> set pls. pl \<noteq> [] \<and> length pl \<le> 65000"
    and "buf = pre @ concat (map enc_packet pls)" "length buf < 2 ^ 64"
    and "left = of_nat (length (concat (map enc_packet pls)))"
  shows "walk_msgs cb buf (length pre) left n s = Some (n + length pls, deliver cb (length pre) pls s)"
  using assms
proof (induction pls arbitrary: pre left n s)
  case Nil
  then show ?case by (simp add: walk_msgs.simps)
next
  case (Cons pl pls)
  let ?al = "nla_align (4 + length pl)" and ?rest = "concat (map enc_packet pls)"
  have buf: "buf = pre @ enc_packet pl @ ?rest" and pl: "pl \<noteq> []" "length pl \<le> 65000"
    using Cons.prems by simp_all
  have al4: "nla_align (20 + ?al) = 20 + ?al" using nla_align_ge(3)[of "4 + length pl"] by (auto simp: nla_align_def elim!: dvdE)
  have alb: "4 + length pl \<le> ?al" "?al < 65010"
    using nla_align_ge[of "4 + length pl"] pl(2) by linarith+
  have nl: "unat (of_nat (20 + ?al) :: u32) = 20 + ?al"
    using alb by (intro unat_of_nat_small) simp
  have lf: "unat left = 20 + ?al + length ?rest"
    using Cons.prems(3) buf unfolding Cons.prems(4)
    by (subst unat_of_nat_small) (simp_all add: length_enc_packet)
  have c1: "\<not> left < 16" using lf by (simp add: word_less_nat_alt)
  have c2: "\<not> ((of_nat (20 + ?al) :: u32) < 16 \<or> left < ucast (of_nat (20 + ?al) :: u32))"
    using lf nl by (simp add: word_less_nat_alt unat_ucast_up)
  have alu: "unat (of_nat (20 + ?al) :: u64) = 20 + ?al"
    using alb by (intro unat_of_nat_small) simp
  have c3: "\<not> left < of_nat (20 + ?al)" using lf alu by (simp add: word_less_nat_alt)
  have ty: "drop_bit 8 ((0x0400 :: u16) AND 0xff00) = 4" "(0x0400 :: u16) AND 0x00ff = 0" by simp_all
  have step: "walk_msgs cb buf (length pre) left n s =
      walk_msgs cb buf (length pre + (20 + ?al)) (left - of_nat (20 + ?al)) (n + 1) (cb (length pre) pl 0 0 0 0 s)"
    using c1 c2 c3 enc_packet_reads(1,2)[OF buf pl(2)] nl al4 ty enc_packet_attrs[OF buf pl(2,1), of cb "length pre" s] alb
    by (subst walk_msgs.simps) (simp add: Let_def)
  have "left - of_nat (20 + ?al) = of_nat (length ?rest)"
    using Cons.prems(4) by (simp add: length_enc_packet)
  moreover have "buf = (pre @ enc_packet pl) @ ?rest" using buf by simp
  ultimately have "walk_msgs cb buf (length (pre @ enc_packet pl)) (left - of_nat (20 + ?al)) (n + 1) (cb (length pre) pl 0 0 0 0 s) =
      Some (n + 1 + length pls, deliver cb (length (pre @ enc_packet pl)) pls (cb (length pre) pl 0 0 0 0 s))"
    using Cons.IH[of "pre @ enc_packet pl"] Cons.prems(1,3) by simp
  with step show ?case by (simp add: length_enc_packet)
qed

lemma nflog_walk_total:
  assumes "length buf < 2 ^ 64" "4 dvd length buf"
  shows "\<exists>n s'. nflog_netlink_walk cb buf s = Some (n, s') \<and> -1 \<le> n"
proof (cases "length buf < 16")
  case True
  then show ?thesis by (simp add: nflog_netlink_walk_def)
next
  case False
  have "unat (of_nat (length buf) :: u64) = length buf"
    using assms(1) by (intro unat_of_nat_small) simp
  then obtain n s' where "walk_msgs cb buf 0 (of_nat (length buf)) 0 s = Some (n, s')"
    using walk_msgs_safe[of 0 "of_nat (length buf)" buf cb 0 s] assms(2) by auto
  with False show ?thesis by (simp add: nflog_netlink_walk_def)
qed

section \<open>Properties\<close>



definition done17 :: bytes where
  "done17 = le32_bytes 17 @ le16_bytes 3 @ replicate 11 0"

text \<open>without the padding the walk is not safe. A buffer holding one \<^verbatim>\<open>NLMSG_DONE\<close>
  message of 17 bytes passes every check; \<^verbatim>\<open>left\<close> is then reduced by 20, wraps, and the
  next header is read beyond the end of the buffer.\<close>

theorem nflog_walk_done_overrun: "nflog_netlink_walk cb done17 s = None"
proof -
  have rd: "rd32 le32 done17 0 = Some 17" "rd16le done17 4 = Some 3"
    using rd32le_at[of "[]" 17] rd16le_at[of "le32_bytes 17" 3] by (simp_all add: done17_def)
  have len: "length done17 = 17" by (simp add: done17_def)
  have "walk_msgs cb done17 0 17 0 s = walk_msgs cb done17 20 (-3) 0 s"
    using rd by (subst walk_msgs.simps) (simp add: nla_align_def)
  also have "\<dots> = None"
    by (subst walk_msgs.simps) (simp add: rd32_def rd8_def len)
  finally show ?thesis by (simp add: nflog_netlink_walk_def len)
qed



text \<open>the count a walk returns is not the number of packets delivered: a packet message
  with a header, \<^verbatim>\<open>nfgenmsg\<close> and one empty attribute is counted and the callback is not called.\<close>

definition bare_packet :: bytes where
  "bare_packet = le32_bytes 24 @ le16_bytes 0x0400 @ replicate 10 0 @ [2, 0, 0, 5] @ le16_bytes 4 @ le16_bytes 9"

theorem nflog_walk_counts_undelivered: "nflog_netlink_walk cb bare_packet s = Some (1, s)"
proof -
  let ?x = "le32_bytes 24 @ le16_bytes 0x0400 @ replicate 10 0 @ [2, 0, 0, 5]"
  have rd: "rd32 le32 bare_packet 0 = Some 24" "rd16le bare_packet 4 = Some 0x0400"
    "rd16le bare_packet 20 = Some 4" "rd16le bare_packet 22 = Some 9"
    using rd32le_at[of "[]" 24] rd16le_at[of "le32_bytes 24" "0x0400"] rd16le_at[of ?x 4 "le16_bytes 9"]
      rd16le_at[of "?x @ le16_bytes 4" 9 "[]"]
    by (simp_all add: bare_packet_def)
  have "walk_attrs bare_packet 20 4 attrs0 = walk_attrs bare_packet 24 0 attrs0"
    using rd(3,4) by (subst walk_attrs.simps) (simp add: nla_align_def attr_case_def)
  then have "walk_packet_attrs cb bare_packet 0 20 4 s = Some s"
    by (simp add: walk_packet_attrs_def walk_attrs.simps[of _ 24] attrs0_def)
  then have "walk_msgs cb bare_packet 0 24 0 s = walk_msgs cb bare_packet 24 0 1 s"
    using rd(1,2) by (subst walk_msgs.simps) (simp add: nla_align_def)
  also have "\<dots> = Some (1, s)" by (subst walk_msgs.simps) simp
  finally show ?thesis by (simp add: nflog_netlink_walk_def bare_packet_def)
qed

lemma nflog_cfg_msg_aligned: "4 dvd length (nflog_cfg_msg grp cmd family extra)"
  "length (nflog_cfg_msg grp cmd family extra) \<le> 256"
  using nla_align_ge[of 5] nla_align_ge(3)[of "length extra"] nla_align_le[of 228 "length extra"]
  by (auto simp: nflog_cfg_msg_def Let_def nla_align_def)

text \<open>every configuration datagram fits the 256-byte buffer it is built in, is a multiple of
  four bytes long, and carries its own length in the netlink header.\<close>

theorem nflog_cfg_msg_wf:
  "let m = nflog_cfg_msg grp cmd family extra
   in length m \<le> 256 \<and> 4 dvd length m \<and> rd32 le32 m 0 = Some (of_nat (length m)) \<and> rd16le m 4 = Some 0x0401"
proof -
  obtain body where b: "nflog_cfg_msg grp cmd family extra =
      le32_bytes (of_nat (16 + length body)) @ le16_bytes 0x0401 @ le16_bytes 1 @ le32_bytes 1 @ le32_bytes 0 @ body"
    unfolding nflog_cfg_msg_def Let_def by blast
  have "length (nflog_cfg_msg grp cmd family extra) = 16 + length body" by (simp add: b)
  then have "rd32 le32 (nflog_cfg_msg grp cmd family extra) 0 = Some (of_nat (length (nflog_cfg_msg grp cmd family extra)))"
    using rd32le_at[of "[]" "of_nat (16 + length body)"] unfolding b by simp
  moreover have "rd16le (nflog_cfg_msg grp cmd family extra) 4 = Some 0x0401"
    using rd16le_at[of "le32_bytes (of_nat (16 + length body))" "0x0401"] unfolding b by simp
  ultimately show ?thesis using nflog_cfg_msg_aligned by (simp add: Let_def)
qed

text \<open>\<^verbatim>\<open>nflog_netlink_open\<close> leaks no socket. If sending keeps the descriptor open and
  \<^verbatim>\<open>close\<close> closes it, then after the call the descriptor is open exactly when it was returned.\<close>

theorem nflog_open_no_leak:
  assumes "\<And>m w. is_open (snd (sendto m w)) = is_open w" "\<And>w. \<not> is_open (closef w)"
    and "is_open w0 = (0 \<le> sock)"
  shows "case nflog_netlink_open sock bind_ok sendto closef err grp copy_range w0 of
           (Inl _, w) \<Rightarrow> \<not> is_open w | (Inr fd, w) \<Rightarrow> fd = sock \<and> is_open w"
proof -
  have cfg: "is_open (snd (nflog_send_cfg sendto g c f x w)) = is_open w" for g c f x w
    using assms(1) by (simp add: nflog_send_cfg_def Let_def split_beta)
  have mode: "is_open (snd (nflog_set_mode sendto g r w)) = is_open w" for g r w
    using cfg by (simp add: nflog_set_mode_def)
  show ?thesis
    unfolding nflog_netlink_open_def Let_def split_beta using assms(2,3) by (simp add: cfg mode)
qed

theorem nflog_open_no_leak_witness:
  "case nflog_netlink_open 3 True (\<lambda>m (l, o'). (int (length m), (l @ [m], o'))) (\<lambda>(l, o'). (l, False)) [] 0 0
      ([] :: bytes list, True) of
     (Inl _, w) \<Rightarrow> \<not> snd w | (Inr fd, w) \<Rightarrow> fd = 3 \<and> snd w"
  by (rule nflog_open_no_leak) (simp_all add: split_beta)

end
