(* ===== verification/Clock.thy ===== *)
theory Clock
  imports Prelude
begin

text \<open>
  The time stamps of the agent: \<^verbatim>\<open>mono_ms\<close> and the \<^verbatim>\<open>iso_now\<close> functions of
  \<^verbatim>\<open>agent/tcp_stats.c\<close>, \<^verbatim>\<open>agent/flow_acct.c\<close> and \<^verbatim>\<open>agent/agent_core.c\<close>, which
  differ in what they clamp. A clock reading is an input: what \<^verbatim>\<open>clock_gettime\<close> returned for
  either clock (\<open>None\<close> is failure) and the result of \<^verbatim>\<open>gmtime_r\<close>.
\<close>

record tm =
  tm_year :: int
  tm_mon :: int
  tm_mday :: int
  tm_hour :: int
  tm_min :: int
  tm_sec :: int

record clock =
  clk_real :: "(int \<times> int) option"
  clk_gmtime :: "int \<Rightarrow> tm option"
  clk_mono :: "(int \<times> int) option"

definition mono_ms :: "clock \<Rightarrow> u64" where
  "mono_ms clk = (case clk_mono clk of None \<Rightarrow> 0
     | Some (sec, nsec) \<Rightarrow> of_int sec * 1000 + of_int nsec div 1000000)"

text \<open>\<^verbatim>\<open>%0wd\<close> of an int.\<close>

definition int0 :: "nat \<Rightarrow> int \<Rightarrow> string" where
  "int0 w i = (if i < 0 then ''-'' @ dec0 (w - 1) (nat (- i)) else dec0 w (nat i))"

definition clamp :: "int \<Rightarrow> int \<Rightarrow> int \<Rightarrow> int" where
  "clamp lo hi x = (if x < lo then lo else if x > hi then hi else x)"

definition epoch_iso :: string where
  "epoch_iso = ''1970-01-01T00:00:00.000Z''"

definition iso_fields :: "int \<Rightarrow> int \<Rightarrow> int \<Rightarrow> int \<Rightarrow> int \<Rightarrow> int \<Rightarrow> int \<Rightarrow> string" where
  "iso_fields y mo d h mi s ms =
     int0 4 y @ ''-'' @ int0 2 mo @ ''-'' @ int0 2 d @ ''T'' @ int0 2 h @ '':'' @ int0 2 mi @ '':'' @
     int0 2 s @ ''.'' @ int0 3 ms @ ''Z''"

text \<open>\<^verbatim>\<open>tv_nsec / 1000000\<close> truncates towards zero; the buffer has 40 bytes.\<close>

definition nsec_ms :: "int \<Rightarrow> int" where
  "nsec_ms nsec = (if nsec < 0 then - (- nsec div 1000000) else nsec div 1000000)"

definition tcp_iso_now :: "clock \<Rightarrow> string" where
  "tcp_iso_now clk = cstr 40
     (case clk_real clk of None \<Rightarrow> epoch_iso
      | Some (sec, nsec) \<Rightarrow>
        (case clk_gmtime clk sec of None \<Rightarrow> epoch_iso
         | Some t \<Rightarrow>
             iso_fields (clamp 0 9999 (tm_year t + 1900)) (clamp 1 12 (tm_mon t + 1)) (clamp 1 31 (tm_mday t))
               (clamp 0 23 (tm_hour t)) (clamp 0 59 (tm_min t)) (clamp 0 60 (tm_sec t)) (clamp 0 999 (nsec_ms nsec))))"

definition flow_iso_now :: "clock \<Rightarrow> string" where
  "flow_iso_now clk = cstr 40
     (case clk_real clk of None \<Rightarrow> epoch_iso
      | Some (sec, nsec) \<Rightarrow>
        (case clk_gmtime clk sec of None \<Rightarrow> epoch_iso
         | Some t \<Rightarrow>
             iso_fields (clamp 0 9999 (tm_year t + 1900)) (tm_mon t + 1) (tm_mday t)
               (tm_hour t) (tm_min t) (tm_sec t) (clamp 0 999 (nsec_ms nsec))))"

definition core_iso_now :: "clock \<Rightarrow> string" where
  "core_iso_now clk = cstr 40
     (case clk_real clk of None \<Rightarrow> epoch_iso
      | Some (sec, nsec) \<Rightarrow>
        (case clk_gmtime clk sec of None \<Rightarrow> epoch_iso
         | Some t \<Rightarrow>
             iso_fields (clamp 0 9999 (tm_year t + 1900)) (tm_mon t + 1) (tm_mday t)
               (tm_hour t) (tm_min t) (tm_sec t) (nsec_ms nsec)))"

lemmas clock_defs [cdefs] =
  mono_ms_def int0_def clamp_def epoch_iso_def iso_fields_def nsec_ms_def dec0_def
  tcp_iso_now_def flow_iso_now_def core_iso_now_def

lemma length_iso_now [fmt_len]:
  "length (tcp_iso_now clk) \<le> 39" "length (flow_iso_now clk) \<le> 39" "length (core_iso_now clk) \<le> 39"
  using length_cstr_le[of 40] by (auto simp: tcp_iso_now_def flow_iso_now_def core_iso_now_def)

lemma line_safe_int0 [simp]: "line_safe (int0 w i)"
  by (simp add: int0_def)

lemma line_safe_iso_fields [simp]: "line_safe (iso_fields y mo d h mi s ms)"
  by (simp add: iso_fields_def)

lemma line_safe_epoch_iso [simp]: "line_safe epoch_iso"
  by (simp add: epoch_iso_def)

lemma line_safe_iso_now [simp]:
  "line_safe (tcp_iso_now clk)" "line_safe (flow_iso_now clk)" "line_safe (core_iso_now clk)"
  by (auto simp: tcp_iso_now_def flow_iso_now_def core_iso_now_def intro!: line_safe_cstr split: option.split)

lemma length_int0: "0 \<le> i \<Longrightarrow> i < 10 ^ w \<Longrightarrow> 0 < w \<Longrightarrow> length (int0 w i) = w"
  by (simp add: int0_def length_dec0 nat_less_iff)

lemma clamp_bounds: "lo \<le> hi \<Longrightarrow> lo \<le> clamp lo hi x \<and> clamp lo hi x \<le> hi"
  by (simp add: clamp_def)

lemma clamp_id: "lo \<le> x \<Longrightarrow> x \<le> hi \<Longrightarrow> clamp lo hi x = x"
  by (simp add: clamp_def)

lemma length_iso_fields:
  assumes "0 \<le> y" "y \<le> 9999" "0 \<le> mo" "mo \<le> 99" "0 \<le> d" "d \<le> 99" "0 \<le> h" "h \<le> 99"
    "0 \<le> mi" "mi \<le> 99" "0 \<le> s" "s \<le> 99" "0 \<le> ms" "ms \<le> 999"
  shows "length (iso_fields y mo d h mi s ms) = 24"
  using assms by (simp add: iso_fields_def length_int0)

text \<open>The clamped variant is exactly 24 characters whatever the library returns.\<close>

lemma length_tcp_iso_now: "length (tcp_iso_now clk) = 24"
proof -
  have "length (iso_fields (clamp 0 9999 y) (clamp 1 12 mo) (clamp 1 31 d) (clamp 0 23 h)
      (clamp 0 59 mi) (clamp 0 60 s) (clamp 0 999 ms)) = 24" for y mo d h mi s ms
    by (rule length_iso_fields) (auto simp: clamp_def)
  then show ?thesis
    by (auto simp: tcp_iso_now_def cstr_fits epoch_iso_def split: option.split)
qed

text \<open>When the library keeps its documented ranges the three variants agree.\<close>

definition tm_ok :: "tm \<Rightarrow> bool" where
  "tm_ok t \<longleftrightarrow> 0 \<le> tm_mon t \<and> tm_mon t \<le> 11 \<and> 1 \<le> tm_mday t \<and> tm_mday t \<le> 31 \<and> 0 \<le> tm_hour t \<and>
     tm_hour t \<le> 23 \<and> 0 \<le> tm_min t \<and> tm_min t \<le> 59 \<and> 0 \<le> tm_sec t \<and> tm_sec t \<le> 60"

lemma iso_now_agree:
  assumes "\<And>sec nsec t. clk_real clk = Some (sec, nsec) \<Longrightarrow> clk_gmtime clk sec = Some t \<Longrightarrow>
      tm_ok t \<and> 0 \<le> nsec \<and> nsec < 1000000000"
  shows "tcp_iso_now clk = core_iso_now clk \<and> flow_iso_now clk = core_iso_now clk"
proof (cases "clk_real clk")
  case (Some p)
  obtain sec nsec where p: "p = (sec, nsec)" by (cases p)
  show ?thesis
  proof (cases "clk_gmtime clk sec")
    case (Some t)
    with \<open>clk_real clk = Some p\<close> p assms have "tm_ok t" "0 \<le> nsec" "nsec < 1000000000" by blast+
    then show ?thesis
      using \<open>clk_real clk = Some p\<close> p Some
      by (simp add: tcp_iso_now_def core_iso_now_def flow_iso_now_def tm_ok_def clamp_id nsec_ms_def)
  qed (use \<open>clk_real clk = Some p\<close> p in \<open>simp add: tcp_iso_now_def core_iso_now_def flow_iso_now_def\<close>)
qed (simp add: tcp_iso_now_def core_iso_now_def flow_iso_now_def)

text \<open>A clock whose system calls fail, for concrete runs.\<close>

definition clk0 :: clock where
  "clk0 = \<lparr> clk_real = None, clk_gmtime = (\<lambda>_. None), clk_mono = None \<rparr>"

lemmas clk0_defs [cdefs] = clk0_def

end
