(* ===== verification/Doubles.thy ===== *)
theory Doubles
  imports Prelude Complex_Main
begin

text \<open>
  The \<^verbatim>\<open>float\<close> and \<^verbatim>\<open>double\<close> arithmetic of the rate, loss and round-trip-time fields.
  A finite floating-point value is the rational number it denotes; every operation of the
  source is the exact operation followed by rounding to the format (nearest, ties to even),
  as IEEE 754 requires. \<open>dbl\<close> rounds to binary64 and \<open>sgl\<close> to binary32. The quantities
  here stay far below the overflow thresholds, so infinities and NaNs do not occur.
\<close>

type_synonym double = rat
type_synonym single = rat

section \<open>Rounding to an integer\<close>

definition rne :: "rat \<Rightarrow> int" where
  "rne x = (let f = \<lfloor>x\<rfloor>; d = x - of_int f in
     if d < 1 / 2 then f else if d > 1 / 2 then f + 1 else if even f then f else f + 1)"

lemma rne_floor: "rne x = \<lfloor>x\<rfloor> \<or> rne x = \<lfloor>x\<rfloor> + 1"
  by (simp add: rne_def Let_def)

lemma rne_of_int [simp]: "rne (of_int n) = n"
  by (simp add: rne_def)

lemma rne_le_int: "x \<le> of_int n \<Longrightarrow> rne x \<le> n"
proof (cases "x = of_int n")
  case False
  assume "x \<le> of_int n"
  with False have "x < of_int n" by simp
  then have "\<lfloor>x\<rfloor> < n" by (simp add: floor_less_iff)
  then show ?thesis using rne_floor[of x] by auto
qed simp

lemma rne_ge_int: "of_int n \<le> x \<Longrightarrow> n \<le> rne x"
  using rne_floor[of x] by (auto simp: le_floor_iff[symmetric])

lemma rne_nonneg: "0 \<le> x \<Longrightarrow> 0 \<le> rne x"
  using rne_ge_int[of 0 x] by simp

section \<open>Rounding to a binary format\<close>

fun bits :: "nat \<Rightarrow> nat" where
  "bits n = (if n = 0 then 0 else Suc (bits (n div 2)))"

declare bits.simps [simp del]

text \<open>\<open>\<lfloor>log\<^sub>2 x\<rfloor>\<close> for positive \<open>x\<close>, from the bit lengths of numerator and denominator.\<close>

definition ilog2 :: "rat \<Rightarrow> int" where
  "ilog2 x = (let (n, d) = quotient_of x; k = int (bits (nat n)) - int (bits (nat d)) in
     if 2 powi k \<le> x then k else k - 1)"

definition fl :: "nat \<Rightarrow> int \<Rightarrow> rat \<Rightarrow> rat" where
  "fl p emin x = (if x = 0 then 0 else
     let e = max (ilog2 \<bar>x\<bar> - (int p - 1)) emin in of_int (rne (x / 2 powi e)) * 2 powi e)"

definition dbl :: "rat \<Rightarrow> double" where "dbl x = fl 53 (-1074) x"
definition sgl :: "rat \<Rightarrow> single" where "sgl x = fl 24 (-149) x"

lemma fl_0 [simp]: "fl p m 0 = 0"
  by (simp add: fl_def)

lemma dbl_0 [simp]: "dbl 0 = 0" and sgl_0 [simp]: "sgl 0 = 0"
  by (simp_all add: dbl_def sgl_def)

lemma fl_nonneg: "0 \<le> x \<Longrightarrow> 0 \<le> fl p m x"
  by (auto simp: fl_def Let_def intro!: mult_nonneg_nonneg rne_nonneg divide_nonneg_nonneg)

lemma dbl_nonneg: "0 \<le> x \<Longrightarrow> 0 \<le> dbl x" and sgl_nonneg: "0 \<le> x \<Longrightarrow> 0 \<le> sgl x"
  by (simp_all add: dbl_def sgl_def fl_nonneg)

text \<open>Integers below \<open>2 ^ p\<close> are represented exactly.\<close>

lemma bits_le: "n < 2 ^ k \<Longrightarrow> bits n \<le> k"
proof (induction k arbitrary: n)
  case 0
  then show ?case by (simp add: bits.simps)
next
  case (Suc k)
  then have "n div 2 < 2 ^ k" by auto
  with Suc.IH show ?case by (subst bits.simps) simp
qed

lemma quotient_of_nat: "quotient_of (of_nat n) = (int n, 1)"
  using quotient_of_int[of "int n"] by (simp add: Rat.of_int_def)

lemma ilog2_of_nat_le: "n < 2 ^ k \<Longrightarrow> ilog2 (of_nat n) \<le> int k - 1"
  using bits_le[of n k] by (simp add: ilog2_def quotient_of_nat bits.simps[of "Suc 0"] bits.simps[of 0] Let_def)

lemma fl_exact:
  assumes "n < 2 ^ p" "m \<le> 0"
  shows "fl p m (of_nat n) = of_nat n"
proof (cases "n = 0")
  case False
  define e where "e = max (ilog2 (of_nat n) - (int p - 1)) m"
  have "e \<le> 0" using ilog2_of_nat_le[OF assms(1)] assms(2) by (simp add: e_def)
  then have q: "(of_nat n :: rat) / 2 powi e = of_int (int n * 2 ^ nat (- e))"
    by (simp add: power_int_def field_simps)
  have "fl p m (of_nat n) = of_int (rne (of_nat n / 2 powi e)) * 2 powi e"
    using False by (simp add: fl_def e_def Let_def)
  also have "\<dots> = of_int (int n * 2 ^ nat (- e)) * 2 powi e"
    unfolding q rne_of_int ..
  also have "\<dots> = of_nat n"
    using q[symmetric] by (simp add: power_int_def field_simps)
  finally show ?thesis .
qed simp

lemma dbl_of_nat: "n < 2 ^ 53 \<Longrightarrow> dbl (of_nat n) = of_nat n"
  unfolding dbl_def by (rule fl_exact) simp_all

section \<open>Rounding stays below a power of two\<close>

lemma bits_ge: "0 < n \<Longrightarrow> 2 ^ (bits n - 1) \<le> n" "n < 2 ^ bits n"
proof (induction n rule: bits.induct)
  case (1 n)
  {
    case 1
    show ?case
    proof (cases "n < 2")
      case True
      with 1 have "n = 1" by simp
      then show ?thesis by (simp add: bits.simps)
    next
      case False
      then have d: "0 < n div 2" "n \<noteq> 0" by simp_all
      have b: "bits n = Suc (bits (n div 2))" "bits (n div 2) = Suc (bits (n div 2 div 2))" using d by (simp_all add: bits.simps)
      have "2 ^ (bits n - 1) = 2 * (2 ^ (bits (n div 2) - 1) :: nat)" using b by simp
      then show ?thesis using "1.IH"(1)[OF d(2) d(1)] by linarith
    qed
  next
    case 2
    show ?case
    proof (cases "n = 0")
      case False
      then have "bits n = Suc (bits (n div 2))" by (subst bits.simps) simp
      then show ?thesis using "1.IH"(2)[OF False] by (simp add: div_less_iff_less_mult mult.commute)
    qed simp
  }
qed

lemma ilog2_le:
  assumes "0 < x" "x \<le> 2 ^ K"
  shows "ilog2 x \<le> int K"
proof -
  obtain n d where q: "quotient_of x = (n, d)" by fastforce
  have d: "0 < d" and x: "x = of_int n / of_int d" using quotient_of_denom_pos[OF q] quotient_of_div[OF q] by simp_all
  then have n: "0 < n" using assms(1) by (simp add: zero_less_divide_iff)
  define k where "k = int (bits (nat n)) - int (bits (nat d))"
  have bn: "0 < bits (nat n)" using n by (subst bits.simps) simp
  have lt: "2 powi (k - 1) < x"
  proof -
    have "(2 :: rat) ^ (bits (nat n) - 1) \<le> of_int n"
      using bits_ge(1)[of "nat n"] n by (metis of_int_of_nat_eq of_nat_le_iff of_nat_numeral of_nat_power int_nat_eq less_imp_le zero_less_nat_eq)
    moreover have "of_int d < (2 :: rat) ^ bits (nat d)"
      using bits_ge(2)[of "nat d"] d by (metis of_int_of_nat_eq of_nat_less_iff of_nat_numeral of_nat_power int_nat_eq less_imp_le)
    moreover have "2 powi (k - 1) = (2 :: rat) ^ (bits (nat n) - 1) / 2 ^ bits (nat d)"
      using bn by (simp add: k_def power_int_diff power_diff)
    ultimately show ?thesis unfolding x using d n by (simp add: frac_less2)
  qed
  have K: "2 powi j \<le> (2 :: rat) ^ K \<Longrightarrow> j \<le> int K" for j
    using power_int_le_imp_le_exp[of "2 :: rat" j "int K"] by (simp add: power_int_def)
  show ?thesis
  proof (cases "2 powi k \<le> x")
    case True
    then show ?thesis using K[of k] assms(2) q by (simp add: ilog2_def k_def[symmetric])
  next
    case False
    then show ?thesis using K[of "k - 1"] lt assms(2) q by (simp add: ilog2_def k_def[symmetric])
  qed
qed

lemma fl_le:
  assumes "0 \<le> x" "x \<le> 2 ^ K" "0 < p" "m \<le> int K"
  shows "fl p m x \<le> 2 ^ K"
proof (cases "x = 0")
  case False
  define e where "e = max (ilog2 \<bar>x\<bar> - (int p - 1)) m"
  have e: "e \<le> int K" using ilog2_le[of x K] assms False by (simp add: e_def)
  have grid: "of_int (2 ^ nat (int K - e)) * 2 powi e = (2 :: rat) ^ K"
  proof -
    have "of_int (2 ^ nat (int K - e)) * 2 powi e = (2 :: rat) powi (int K - e) * 2 powi e" using e by (simp add: power_int_def)
    also have "\<dots> = 2 powi (int K - e + e)" by (subst power_int_add) simp_all
    finally show ?thesis by simp
  qed
  have g: "x / 2 powi e \<le> of_int (2 ^ nat (int K - e))" using assms(2) unfolding grid[symmetric] by (simp add: pos_divide_le_eq)
  have "fl p m x = of_int (rne (x / 2 powi e)) * 2 powi e" using False by (simp add: fl_def e_def Let_def)
  also have "\<dots> \<le> of_int (2 ^ nat (int K - e)) * 2 powi e" using rne_le_int[OF g] by (intro mult_right_mono) (simp_all only: of_int_le_iff, simp)
  also have "\<dots> = 2 ^ K" by (rule grid)
  finally show ?thesis .
qed simp

section \<open>Fixed-point output\<close>

text \<open>\<^verbatim>\<open>%.kf\<close>: the decimal expansion of the value rounded to \<open>k\<close> fractional digits.\<close>

definition fixed :: "nat \<Rightarrow> rat \<Rightarrow> string" where
  "fixed k x = (let n = nat (rne (\<bar>x\<bar> * 10 ^ k)) in
     (if x < 0 then ''-'' else []) @ dec (n div 10 ^ k) @
     (if k = 0 then [] else ''.'' @ dec0 k (n mod 10 ^ k)))"

lemma line_safe_fixed [simp, fmt_chars]: "line_safe (fixed k x)"
  by (simp add: fixed_def Let_def)

lemma length_fixed:
  assumes "0 \<le> x" "x \<le> of_nat (10 ^ m - 1)" "0 < m"
  shows "length (fixed k x) \<le> m + k + 1"
proof -
  define n where "n = nat (rne (\<bar>x\<bar> * 10 ^ k))"
  have "x * 10 ^ k \<le> of_nat (10 ^ m - 1) * 10 ^ k"
    using assms by (intro mult_right_mono) auto
  then have "x * 10 ^ k \<le> of_int (int ((10 ^ m - 1) * 10 ^ k))"
    by (simp add: of_nat_mult)
  then have "rne (x * 10 ^ k) \<le> int ((10 ^ m - 1) * 10 ^ k)" by (rule rne_le_int)
  then have "n \<le> (10 ^ m - 1) * 10 ^ k" using assms(1) by (simp add: n_def nat_le_iff)
  then have "n div 10 ^ k \<le> 10 ^ m - 1"
    by (metis div_le_mono div_mult_self_is_m zero_less_power zero_less_numeral)
  moreover have "(0::nat) < 10 ^ m" by simp
  ultimately have "n div 10 ^ k < 10 ^ m" by linarith
  then have "length (dec (n div 10 ^ k)) \<le> m" using assms(3) by (rule length_dec)
  moreover have "0 < k \<Longrightarrow> length (dec0 k (n mod 10 ^ k)) = k" by (simp add: length_dec0)
  ultimately show ?thesis
    using assms(1) unfolding fixed_def Let_def n_def[symmetric] by auto
qed

lemmas double_defs [cdefs] =
  rne_def bits.simps ilog2_def fl_def dbl_def sgl_def fixed_def dec0_def quotient_of_nat

end
