(* ===== verification/Tcp_Stats.thy ===== *)
theory Tcp_Stats
  imports Nflog Clock Doubles "HOL-Library.Monad_Syntax"
begin

text \<open>
  \<^verbatim>\<open>agent/tcp_stats.c\<close>, the part that works on \<^verbatim>\<open>cpe_tcp_state_t\<close>: the IP/TCP header
  parser, the per-remote and per-prefix aggregation, and the NDJSON formatter. The functions
  of that file that take the agent are in \<open>Agent_Tcp\<close>. A row array with its count
  (\<^verbatim>\<open>remotes[256]\<close>, \<^verbatim>\<open>remote_count\<close>) is the list of its used rows; rows beyond the count
  are never read before they are zeroed.
\<close>

section \<open>Data\<close>

record cpe_tcp_remote =
  rm_remote_ip :: string
  rm_local_ip :: string
  rm_remote_port :: u16
  rm_local_port :: u16
  rm_syn_count :: u32
  rm_fin_count :: u32
  rm_rst_count :: u32
  rm_pkt_count :: u32
  rm_syn_retrans :: u32
  rm_bytes_est :: u64
  rm_last_seen_ms :: u64

record cpe_tcp_prefix =
  px_prefix :: string
  px_remote_count :: u32
  px_syn_count :: u32
  px_fin_count :: u32
  px_rst_count :: u32
  px_pkt_count :: u32
  px_syn_retrans :: u32
  px_bytes_est :: u64

record cpe_tcp_snapshot =
  sn_nflog_group :: u32
  sn_syn_total :: u32
  sn_fin_total :: u32
  sn_rst_total :: u32
  sn_pkt_total :: u32
  sn_syn_retrans_total :: u32
  sn_bytes_total :: u64
  sn_pkts_parsed :: u64
  sn_pkts_non_tcp :: u64
  sn_pkts_parse_fail :: u64
  sn_prefix_len :: u8
  sn_ts_iso :: string
  sn_remotes :: "cpe_tcp_remote list"
  sn_prefixes :: "cpe_tcp_prefix list"

record cpe_tcp_packet =
  pk_src_ip :: string
  pk_dst_ip :: string
  pk_src_port :: u16
  pk_dst_port :: u16
  pk_flags :: u8
  pk_is_ipv6 :: bool
  pk_ip_len :: u16
  pk_seq :: u32

record tcp_flow =
  fw_sip :: u32
  fw_dip :: u32
  fw_sport :: u16
  fw_dport :: u16
  fw_seq :: u32
  fw_used :: bool

record cpe_tcp_state =
  tc_fd :: int
  tc_group :: u16
  tc_copy_range :: u32
  tc_enabled :: bool
  tc_open_ok :: bool
  tc_open_err :: string
  tc_prefix_len :: u8
  tc_emit_interval_ms :: u32
  tc_emit_top_n :: u32
  tc_last_emit_ms :: u64
  tc_snap :: cpe_tcp_snapshot
  tc_flows :: "tcp_flow list"
  tc_flow_i :: nat

definition remote0 :: cpe_tcp_remote where
  "remote0 = \<lparr> rm_remote_ip = [], rm_local_ip = [], rm_remote_port = 0, rm_local_port = 0,
     rm_syn_count = 0, rm_fin_count = 0, rm_rst_count = 0, rm_pkt_count = 0, rm_syn_retrans = 0,
     rm_bytes_est = 0, rm_last_seen_ms = 0 \<rparr>"

definition prefix0 :: cpe_tcp_prefix where
  "prefix0 = \<lparr> px_prefix = [], px_remote_count = 0, px_syn_count = 0, px_fin_count = 0,
     px_rst_count = 0, px_pkt_count = 0, px_syn_retrans = 0, px_bytes_est = 0 \<rparr>"

definition snapshot0 :: cpe_tcp_snapshot where
  "snapshot0 = \<lparr> sn_nflog_group = 0, sn_syn_total = 0, sn_fin_total = 0, sn_rst_total = 0,
     sn_pkt_total = 0, sn_syn_retrans_total = 0, sn_bytes_total = 0, sn_pkts_parsed = 0,
     sn_pkts_non_tcp = 0, sn_pkts_parse_fail = 0, sn_prefix_len = 0, sn_ts_iso = [],
     sn_remotes = [], sn_prefixes = [] \<rparr>"

definition flow0 :: tcp_flow where
  "flow0 = \<lparr> fw_sip = 0, fw_dip = 0, fw_sport = 0, fw_dport = 0, fw_seq = 0, fw_used = False \<rparr>"

definition sn_remote_count :: "cpe_tcp_snapshot \<Rightarrow> u32" where
  "sn_remote_count s = of_nat (length (sn_remotes s))"

definition sn_prefix_count :: "cpe_tcp_snapshot \<Rightarrow> u32" where
  "sn_prefix_count s = of_nat (length (sn_prefixes s))"

text \<open>\<^verbatim>\<open>NFLOG_GROUP_DEFAULT\<close> is 5 and \<^verbatim>\<open>NFLOG_COPY_RANGE_DEFAULT\<close> 60.\<close>

definition cpe_tcp_state_init :: cpe_tcp_state where
  "cpe_tcp_state_init = \<lparr> tc_fd = -1, tc_group = 5, tc_copy_range = 60, tc_enabled = False,
     tc_open_ok = False, tc_open_err = [], tc_prefix_len = 24, tc_emit_interval_ms = 10000,
     tc_emit_top_n = 20, tc_last_emit_ms = 0,
     tc_snap = snapshot0\<lparr>sn_nflog_group := 5, sn_prefix_len := 24\<rparr>,
     tc_flows = replicate 64 flow0, tc_flow_i = 0 \<rparr>"

section \<open>Loss hint\<close>

definition cpe_tcp_loss_hint :: "u32 \<Rightarrow> u32 \<Rightarrow> u32 \<Rightarrow> u32 \<Rightarrow> single" where
  "cpe_tcp_loss_hint syn fin rst syn_retrans =
     (let d = (\<lambda>w::u32. dbl (of_nat (unat w)));
          control = dbl (dbl (d syn + d fin) + d rst) in
      if control < 1 then 0
      else (let bad = dbl (d rst + dbl (1 / 2 * d syn_retrans)); h = sgl (dbl (bad / control))
            in if h < 0 then 0 else if h > 1 then 1 else h))"

section \<open>Parser\<close>

definition is_private_v4 :: "u32 \<Rightarrow> bool" where
  "is_private_v4 be_addr =
     (let a = htonl be_addr in
      a AND 0xff000000 = 0x0a000000 \<or> a AND 0xfff00000 = 0xac100000 \<or> a AND 0xffff0000 = 0xc0a80000 \<or>
      a AND 0xff000000 = 0x7f000000 \<or> a AND 0xffff0000 = 0xa9fe0000)"

text \<open>A read outside the packet makes the outer option \<open>None\<close>; \<open>Some None\<close> is the result -1.\<close>

definition rd_bytes :: "bytes \<Rightarrow> nat \<Rightarrow> nat \<Rightarrow> bytes option" where
  "rd_bytes pkt off n = (if off + n \<le> length pkt then Some (take n (drop off pkt)) else None)"

definition tcp_header :: "bytes \<Rightarrow> nat \<Rightarrow> (u16 \<times> u16 \<times> u32 \<times> u8) option" where
  "tcp_header pkt th = do {
     sport \<leftarrow> rd16be pkt th;
     dport \<leftarrow> rd16be pkt (th + 2);
     seq \<leftarrow> rd32 be32 pkt (th + 4);
     flags \<leftarrow> rd8 pkt (th + 13);
     Some (sport, dport, seq, flags) }"

definition parse_v4 :: "bytes \<Rightarrow> cpe_tcp_packet option option" where
  "parse_v4 pkt = do {
     b0 \<leftarrow> rd8 pkt 0;
     let ihl = unat (b0 AND 0x0f);
     if ihl < 5 \<or> length pkt < ihl * 4 then Some None else do {
       proto \<leftarrow> rd8 pkt 9;
       if proto \<noteq> 6 then Some None
       else if length pkt < ihl * 4 + 14 then Some None
       else do {
         saddr \<leftarrow> rd32 le32 pkt 12;
         daddr \<leftarrow> rd32 le32 pkt 16;
         tot \<leftarrow> rd16be pkt 2;
         (sport, dport, seq, flags) \<leftarrow> tcp_header pkt (ihl * 4);
         Some (Some \<lparr> pk_src_ip = inet_ntop4 saddr, pk_dst_ip = inet_ntop4 daddr, pk_src_port = sport,
           pk_dst_port = dport, pk_flags = flags, pk_is_ipv6 = False,
           pk_ip_len = (if tot = 0 then of_nat (length pkt) else tot), pk_seq = seq \<rparr>) } } }"

text \<open>
  The loop over IPv6 extension headers: hop-by-hop (0), routing (43) and destination options
  (60) carry their length, a fragment header (44) has 8 bytes.
\<close>

function skip_ext :: "bytes \<Rightarrow> u8 \<Rightarrow> nat \<Rightarrow> (u8 \<times> nat) option" where
  "skip_ext pkt nx off =
     (if nx \<noteq> 6 \<and> off + 8 \<le> length pkt then
        (if nx = 0 \<or> nx = 43 \<or> nx = 60 then
           (case rd8 pkt (off + 1) of None \<Rightarrow> None
            | Some ext_len \<Rightarrow>
              (case rd8 pkt off of None \<Rightarrow> None
               | Some nx' \<Rightarrow> skip_ext pkt nx' (off + (unat ext_len + 1) * 8)))
         else if nx = 44 then
           (case rd8 pkt off of None \<Rightarrow> None | Some nx' \<Rightarrow> skip_ext pkt nx' (off + 8))
         else Some (nx, off))
      else Some (nx, off))"
  by pat_completeness auto
termination
  by (relation "measure (\<lambda>(pkt, nx, off). length pkt - off)") auto

declare skip_ext.simps [simp del]

definition parse_v6 :: "bytes \<Rightarrow> cpe_tcp_packet option option" where
  "parse_v6 pkt =
     (if length pkt < 40 + 14 then Some None else do {
       nx0 \<leftarrow> rd8 pkt 6;
       (nx, off) \<leftarrow> skip_ext pkt nx0 40;
       if nx \<noteq> 6 \<or> off + 14 > length pkt then Some None else do {
         src \<leftarrow> rd_bytes pkt 8 16;
         dst \<leftarrow> rd_bytes pkt 24 16;
         plen \<leftarrow> rd16be pkt 4;
         (sport, dport, seq, flags) \<leftarrow> tcp_header pkt off;
         Some (Some \<lparr> pk_src_ip = inet_ntop6 src, pk_dst_ip = inet_ntop6 dst, pk_src_port = sport,
           pk_dst_port = dport, pk_flags = flags, pk_is_ipv6 = True, pk_ip_len = plen + 40, pk_seq = seq \<rparr>) } })"

definition cpe_tcp_parse_ip_packet :: "bytes \<Rightarrow> cpe_tcp_packet option option" where
  "cpe_tcp_parse_ip_packet pkt =
     (if length pkt < 20 then Some None else do {
       b0 \<leftarrow> rd8 pkt 0;
       let ver = drop_bit 4 b0;
       if ver = 4 then parse_v4 pkt else if ver = 6 then parse_v6 pkt else Some None })"

section \<open>Formatter\<close>

text \<open>\<open>None\<close> is the result -1: a short buffer, or a line that does not fit.\<close>

definition remote_json :: "string \<Rightarrow> string \<Rightarrow> u32 \<Rightarrow> cpe_tcp_remote \<Rightarrow> string" where
  \<open>remote_json ts rid grp r =
     ''{"type":"cpe_tcp","ts":"'' @ ts @ ''","router_id":"'' @ rid @
     ''","scope":"remote","remote_ip":"'' @ rm_remote_ip r @ ''","local_ip":"'' @ rm_local_ip r @
     ''","remote_port":'' @ u16_dec (rm_remote_port r) @ '',"local_port":'' @ u16_dec (rm_local_port r) @
     '',"syn":'' @ u32_dec (rm_syn_count r) @ '',"fin":'' @ u32_dec (rm_fin_count r) @
     '',"rst":'' @ u32_dec (rm_rst_count r) @ '',"syn_retrans":'' @ u32_dec (rm_syn_retrans r) @
     '',"pkts":'' @ u32_dec (rm_pkt_count r) @ '',"bytes":'' @ u64_dec (rm_bytes_est r) @
     '',"loss_hint":'' @ fixed 4 (cpe_tcp_loss_hint (rm_syn_count r) (rm_fin_count r) (rm_rst_count r) (rm_syn_retrans r)) @
     '',"nflog_group":'' @ u32_dec grp @ ''}''\<close>

definition prefix_json :: "string \<Rightarrow> string \<Rightarrow> u32 \<Rightarrow> cpe_tcp_prefix \<Rightarrow> string" where
  \<open>prefix_json ts rid grp p =
     ''{"type":"cpe_tcp","ts":"'' @ ts @ ''","router_id":"'' @ rid @
     ''","scope":"prefix","prefix":"'' @ px_prefix p @
     ''","syn":'' @ u32_dec (px_syn_count p) @ '',"fin":'' @ u32_dec (px_fin_count p) @
     '',"rst":'' @ u32_dec (px_rst_count p) @ '',"syn_retrans":'' @ u32_dec (px_syn_retrans p) @
     '',"pkts":'' @ u32_dec (px_pkt_count p) @ '',"bytes":'' @ u64_dec (px_bytes_est p) @
     '',"remotes":'' @ u32_dec (px_remote_count p) @
     '',"loss_hint":'' @ fixed 4 (cpe_tcp_loss_hint (px_syn_count p) (px_fin_count p) (px_rst_count p) (px_syn_retrans p)) @
     '',"nflog_group":'' @ u32_dec grp @ ''}''\<close>

definition summary_json :: "string \<Rightarrow> string \<Rightarrow> cpe_tcp_snapshot \<Rightarrow> string" where
  \<open>summary_json ts rid s =
     ''{"type":"cpe_tcp","ts":"'' @ ts @ ''","router_id":"'' @ rid @
     ''","scope":"summary","syn":'' @ u32_dec (sn_syn_total s) @ '',"fin":'' @ u32_dec (sn_fin_total s) @
     '',"rst":'' @ u32_dec (sn_rst_total s) @ '',"syn_retrans":'' @ u32_dec (sn_syn_retrans_total s) @
     '',"pkts":'' @ u32_dec (sn_pkt_total s) @ '',"bytes":'' @ u64_dec (sn_bytes_total s) @
     '',"remotes":'' @ u32_dec (sn_remote_count s) @ '',"prefixes":'' @ u32_dec (sn_prefix_count s) @
     '',"loss_hint":'' @ fixed 4 (cpe_tcp_loss_hint (sn_syn_total s) (sn_fin_total s) (sn_rst_total s) (sn_syn_retrans_total s)) @
     '',"prefix_len":'' @ u8_dec (sn_prefix_len s) @ '',"nflog_group":'' @ u32_dec (sn_nflog_group s) @
     '',"pkts_parsed":'' @ u64_dec (sn_pkts_parsed s) @ '',"pkts_non_tcp":'' @ u64_dec (sn_pkts_non_tcp s) @
     '',"pkts_parse_fail":'' @ u64_dec (sn_pkts_parse_fail s) @ ''}''\<close>

definition cpe_tcp_format_ndjson ::
  "string option \<Rightarrow> string option \<Rightarrow> cpe_tcp_snapshot \<Rightarrow> cpe_tcp_remote option \<Rightarrow> cpe_tcp_prefix option \<Rightarrow> nat \<Rightarrow>
   string option" where
  "cpe_tcp_format_ndjson router_id scope snap remote pfx buflen =
     (let rid = (case router_id of None \<Rightarrow> ''unknown'' | Some r \<Rightarrow> str_or r ''unknown'');
          sc = (case scope of None \<Rightarrow> ''summary'' | Some s \<Rightarrow> str_or s ''summary'') in
      if buflen < 64 then None
      else
        (let ts = str_or (sn_ts_iso snap) epoch_iso;
             line = (if sc = ''remote'' \<and> remote \<noteq> None then remote_json ts rid (sn_nflog_group snap) (the remote)
                     else if sc = ''prefix'' \<and> pfx \<noteq> None then prefix_json ts rid (sn_nflog_group snap) (the pfx)
                     else summary_json ts rid snap)
         in if length line \<ge> buflen then None else Some line))"

section \<open>Aggregation\<close>

definition ip4_parse :: "string \<Rightarrow> u32" where
  "ip4_parse s = (case inet_pton4 s of None \<Rightarrow> 0 | Some a \<Rightarrow> a)"

text \<open>The network of an address, as text; the buffer has 64 bytes, so the suffix always fits.\<close>

definition prefix_mask :: "u8 \<Rightarrow> u32" where
  "prefix_mask plen = (if plen = 32 then 0xffffffff else push_bit (32 - unat plen) 0xffffffff)"

definition prefix_from_ip4 :: "u32 \<Rightarrow> u8 \<Rightarrow> string" where
  "prefix_from_ip4 be_addr plen0 =
     (let host = htonl be_addr;
          plen = (if plen0 = 0 \<or> plen0 > 32 then 24 else plen0);
          net = host AND prefix_mask plen;
          out = inet_ntop4 (htonl net)
      in if length out + 4 < 64 then out @ cstr (64 - length out) (''/'' @ u8_dec plen) else out)"

definition remote_index :: "cpe_tcp_snapshot \<Rightarrow> string \<Rightarrow> nat \<times> cpe_tcp_snapshot" where
  "remote_index s remote_ip =
     (let fresh = remote0\<lparr>rm_remote_ip := cstr 48 remote_ip\<rparr> in
      case find_idx (\<lambda>r. rm_remote_ip r = remote_ip) (sn_remotes s) of
        Some i \<Rightarrow> (i, s)
      | None \<Rightarrow>
          if length (sn_remotes s) < 256
          then (length (sn_remotes s), s\<lparr>sn_remotes := sn_remotes s @ [fresh]\<rparr>)
          else (let best = min_slot rm_pkt_count (sn_remotes s)
                in (best, s\<lparr>sn_remotes := (sn_remotes s)[best := fresh]\<rparr>)))"

definition prefix_index :: "cpe_tcp_snapshot \<Rightarrow> string \<Rightarrow> nat \<times> cpe_tcp_snapshot" where
  "prefix_index s pfx =
     (let fresh = prefix0\<lparr>px_prefix := cstr 64 pfx\<rparr> in
      case find_idx (\<lambda>p. px_prefix p = pfx) (sn_prefixes s) of
        Some i \<Rightarrow> (i, s)
      | None \<Rightarrow>
          if length (sn_prefixes s) < 128
          then (length (sn_prefixes s), s\<lparr>sn_prefixes := sn_prefixes s @ [fresh]\<rparr>)
          else (let best = min_slot px_pkt_count (sn_prefixes s)
                in (best, s\<lparr>sn_prefixes := (sn_prefixes s)[best := fresh]\<rparr>)))"

text \<open>The 64 most recent SYN four-tuples; a repeated one is a retransmission.\<close>

definition flow_is_retrans :: "cpe_tcp_state \<Rightarrow> u32 \<Rightarrow> u32 \<Rightarrow> u16 \<Rightarrow> u16 \<Rightarrow> u32 \<Rightarrow> bool \<times> cpe_tcp_state" where
  "flow_is_retrans st sip dip sport dport seq =
     (case find_idx (\<lambda>f. fw_used f \<and> fw_sip f = sip \<and> fw_dip f = dip \<and> fw_sport f = sport \<and> fw_dport f = dport)
             (tc_flows st) of
        Some i \<Rightarrow> (True, st\<lparr>tc_flows := (tc_flows st)[i := (tc_flows st ! i)\<lparr>fw_seq := seq\<rparr>]\<rparr>)
      | None \<Rightarrow>
          (False, st\<lparr>tc_flows := (tc_flows st)[tc_flow_i st :=
                       \<lparr> fw_sip = sip, fw_dip = dip, fw_sport = sport, fw_dport = dport, fw_seq = seq, fw_used = True \<rparr>],
                     tc_flow_i := (tc_flow_i st + 1) mod 64\<rparr>))"

text \<open>
  Local address, remote address, local port, remote port: the source is the local side unless
  only the destination is private.
\<close>

definition packet_sides :: "cpe_tcp_packet \<Rightarrow> string \<times> string \<times> u16 \<times> u16" where
  "packet_sides pkt =
     (let sip = ip4_parse (pk_src_ip pkt); dip = ip4_parse (pk_dst_ip pkt) in
      if \<not> pk_is_ipv6 pkt \<and> sip \<noteq> 0 \<and> dip \<noteq> 0 then
        (let sp = is_private_v4 sip; dp = is_private_v4 dip in
         if sp \<and> \<not> dp then (cstr 48 (pk_src_ip pkt), cstr 48 (pk_dst_ip pkt), pk_src_port pkt, pk_dst_port pkt)
         else if dp \<and> \<not> sp then (cstr 48 (pk_dst_ip pkt), cstr 48 (pk_src_ip pkt), pk_dst_port pkt, pk_src_port pkt)
         else (cstr 48 (pk_src_ip pkt), cstr 48 (pk_dst_ip pkt), pk_src_port pkt, pk_dst_port pkt))
      else (cstr 48 (pk_src_ip pkt), cstr 48 (pk_dst_ip pkt), pk_src_port pkt, pk_dst_port pkt))"

text \<open>A SYN-ACK counts as a SYN too.\<close>

definition packet_is_syn :: "cpe_tcp_packet \<Rightarrow> bool" where
  "packet_is_syn pkt =
     (let syn1 = (pk_flags pkt AND 0x02 \<noteq> 0 \<and> \<not> pk_flags pkt AND 0x10 \<noteq> 0)
      in if \<not> syn1 \<and> pk_flags pkt AND 0x02 \<noteq> 0 then True else syn1)"

definition incr :: "bool \<Rightarrow> u32 \<Rightarrow> u32" where
  "incr b n = (if b then n + 1 else n)"

text \<open>The three groups of counter updates of \<^verbatim>\<open>apply_packet\<close>.\<close>

definition bump_totals :: "u16 \<Rightarrow> bool \<Rightarrow> bool \<Rightarrow> bool \<Rightarrow> bool \<Rightarrow> cpe_tcp_snapshot \<Rightarrow> cpe_tcp_snapshot" where
  "bump_totals len syn fin rst retrans s = s\<lparr>
     sn_pkt_total := sn_pkt_total s + 1, sn_bytes_total := sn_bytes_total s + ucast len,
     sn_syn_total := incr syn (sn_syn_total s), sn_fin_total := incr fin (sn_fin_total s),
     sn_rst_total := incr rst (sn_rst_total s), sn_syn_retrans_total := incr retrans (sn_syn_retrans_total s)\<rparr>"

definition bump_remote ::
  "string \<Rightarrow> u16 \<Rightarrow> u16 \<Rightarrow> u64 \<Rightarrow> u16 \<Rightarrow> bool \<Rightarrow> bool \<Rightarrow> bool \<Rightarrow> bool \<Rightarrow> cpe_tcp_remote \<Rightarrow> cpe_tcp_remote" where
  "bump_remote local_ip rport lport now len syn fin rst retrans r = r\<lparr>
     rm_local_ip := cstr 48 local_ip, rm_remote_port := rport, rm_local_port := lport,
     rm_pkt_count := rm_pkt_count r + 1, rm_bytes_est := rm_bytes_est r + ucast len, rm_last_seen_ms := now,
     rm_syn_count := incr syn (rm_syn_count r), rm_fin_count := incr fin (rm_fin_count r),
     rm_rst_count := incr rst (rm_rst_count r), rm_syn_retrans := incr retrans (rm_syn_retrans r)\<rparr>"

definition bump_prefix ::
  "u16 \<Rightarrow> bool \<Rightarrow> bool \<Rightarrow> bool \<Rightarrow> bool \<Rightarrow> bool \<Rightarrow> cpe_tcp_prefix \<Rightarrow> cpe_tcp_prefix" where
  "bump_prefix len syn fin rst retrans new_remote p = p\<lparr>
     px_pkt_count := px_pkt_count p + 1, px_bytes_est := px_bytes_est p + ucast len,
     px_syn_count := incr syn (px_syn_count p), px_fin_count := incr fin (px_fin_count p),
     px_rst_count := incr rst (px_rst_count p), px_syn_retrans := incr retrans (px_syn_retrans p),
     px_remote_count := incr new_remote (px_remote_count p)\<rparr>"

definition count_remote ::
  "string \<Rightarrow> string \<Rightarrow> u16 \<Rightarrow> u16 \<Rightarrow> u64 \<Rightarrow> u16 \<Rightarrow> bool \<Rightarrow> bool \<Rightarrow> bool \<Rightarrow> bool \<Rightarrow> cpe_tcp_snapshot \<Rightarrow> nat \<times> cpe_tcp_snapshot" where
  "count_remote local_ip remote_ip lport rport now len syn fin rst retrans s =
     (let (ri, s2) = remote_index s remote_ip
      in (ri, s2\<lparr>sn_remotes := (sn_remotes s2)[ri :=
            bump_remote local_ip rport lport now len syn fin rst retrans (sn_remotes s2 ! ri)]\<rparr>))"

definition count_prefix ::
  "bool \<Rightarrow> string \<Rightarrow> u8 \<Rightarrow> nat \<Rightarrow> u16 \<Rightarrow> bool \<Rightarrow> bool \<Rightarrow> bool \<Rightarrow> bool \<Rightarrow> cpe_tcp_snapshot \<Rightarrow> cpe_tcp_snapshot" where
  "count_prefix is_ipv6 remote_ip plen ri len syn fin rst retrans s =
     (let raddr = ip4_parse remote_ip in
      if \<not> is_ipv6 \<and> raddr \<noteq> 0 then
        (let (pi, s4) = prefix_index s (prefix_from_ip4 raddr (if plen \<noteq> 0 then plen else 24))
         in s4\<lparr>sn_prefixes := (sn_prefixes s4)[pi :=
              bump_prefix len syn fin rst retrans (rm_pkt_count (sn_remotes s4 ! ri) = 1) (sn_prefixes s4 ! pi)]\<rparr>)
      else s)"

definition apply_packet :: "clock \<Rightarrow> cpe_tcp_packet \<Rightarrow> cpe_tcp_state \<Rightarrow> cpe_tcp_state" where
  "apply_packet clk pkt st =
     (let sip = ip4_parse (pk_src_ip pkt);
          dip = ip4_parse (pk_dst_ip pkt);
          (local_ip, remote_ip, lport, rport) = packet_sides pkt;
          is_syn = packet_is_syn pkt;
          is_fin = (pk_flags pkt AND 0x01 \<noteq> 0);
          is_rst = (pk_flags pkt AND 0x04 \<noteq> 0);
          (retrans, st1) = (if is_syn \<and> \<not> pk_is_ipv6 pkt \<and> sip \<noteq> 0 \<and> dip \<noteq> 0
                            then flow_is_retrans st sip dip (pk_src_port pkt) (pk_dst_port pkt) (pk_seq pkt)
                            else (False, st));
          s1 = bump_totals (pk_ip_len pkt) is_syn is_fin is_rst retrans (tc_snap st1);
          (ri, s2) = count_remote local_ip remote_ip lport rport (mono_ms clk) (pk_ip_len pkt) is_syn is_fin is_rst retrans s1;
          s3 = count_prefix (pk_is_ipv6 pkt) remote_ip (tc_prefix_len st1) ri (pk_ip_len pkt) is_syn is_fin is_rst retrans s2
      in st1\<lparr>tc_snap := s3\<lparr>sn_ts_iso := tcp_iso_now clk\<rparr>\<rparr>)"

text \<open>
  The walker's callback. The state is \<open>None\<close> after a read outside the payload. A message is
  identified by its offset, so \<open>clk\<close> gives the clock readings of each call.
\<close>

definition bump_parse_stats :: "bytes \<Rightarrow> cpe_tcp_snapshot \<Rightarrow> cpe_tcp_snapshot option" where
  "bump_parse_stats payload s =
     (if 1 \<le> length payload then do {
        b0 \<leftarrow> rd8 payload 0;
        let ver = drop_bit 4 b0;
        non4 \<leftarrow> (if ver = 4 \<and> 10 \<le> length payload then map_option (\<lambda>b. b \<noteq> 6) (rd8 payload 9) else Some False);
        if non4 then Some (s\<lparr>sn_pkts_non_tcp := sn_pkts_non_tcp s + 1\<rparr>) else do {
          non6 \<leftarrow> (if ver = 6 \<and> 7 \<le> length payload then map_option (\<lambda>b. b \<noteq> 6) (rd8 payload 6) else Some False);
          if non6 then Some (s\<lparr>sn_pkts_non_tcp := sn_pkts_non_tcp s + 1\<rparr>)
          else Some (s\<lparr>sn_pkts_parse_fail := sn_pkts_parse_fail s + 1\<rparr>) } }
      else Some (s\<lparr>sn_pkts_parse_fail := sn_pkts_parse_fail s + 1\<rparr>))"

definition on_nflog_payload :: "(nat \<Rightarrow> clock) \<Rightarrow> cpe_tcp_state option packet_cb" where
  "on_nflog_payload clk msg payload hw_protocol mark ts_sec ts_usec sto = do {
     st \<leftarrow> sto;
     let st1 = st\<lparr>tc_snap := (tc_snap st)\<lparr>sn_pkts_parsed := sn_pkts_parsed (tc_snap st) + 1\<rparr>\<rparr>;
     r \<leftarrow> cpe_tcp_parse_ip_packet payload;
     (case r of
        None \<Rightarrow> do { s \<leftarrow> bump_parse_stats payload (tc_snap st1); Some (st1\<lparr>tc_snap := s\<rparr>) }
      | Some pkt \<Rightarrow> Some (apply_packet (clk msg) pkt st1)) }"

lemmas tcp_defs [cdefs] =
  remote0_def prefix0_def snapshot0_def flow0_def sn_remote_count_def sn_prefix_count_def cpe_tcp_state_init_def
  cpe_tcp_loss_hint_def is_private_v4_def rd_bytes_def tcp_header_def parse_v4_def skip_ext.simps parse_v6_def
  cpe_tcp_parse_ip_packet_def remote_json_def prefix_json_def summary_json_def cpe_tcp_format_ndjson_def
  ip4_parse_def prefix_mask_def prefix_from_ip4_def remote_index_def prefix_index_def flow_is_retrans_def
  packet_sides_def packet_is_syn_def incr_def bump_totals_def bump_remote_def bump_prefix_def count_remote_def count_prefix_def apply_packet_def
  bump_parse_stats_def on_nflog_payload_def

section \<open>The parser reads inside the packet\<close>

lemma tcp_header_safe: "th + 14 \<le> length pkt \<Longrightarrow> \<exists>r. tcp_header pkt th = Some r"
  by (simp add: tcp_header_def rd16be_in rd32_in rd8_in)

lemma skip_ext_safe: "\<exists>r. skip_ext pkt nx off = Some r"
proof (induction pkt nx off rule: skip_ext.induct)
  case (1 pkt nx off)
  show ?case
  proof (cases "nx \<noteq> 6 \<and> off + 8 \<le> length pkt")
    case True
    then have "rd8 pkt off = Some (pkt ! off)" "rd8 pkt (off + 1) = Some (pkt ! (off + 1))"
      by (simp_all add: rd8_in)
    with 1 True show ?thesis by (subst skip_ext.simps) auto
  next
    case False
    then show ?thesis by (subst skip_ext.simps) auto
  qed
qed

text \<open>What every parsed packet satisfies: its addresses fit their 48-byte buffers, cannot break
  a line, and an IPv4 address reads back.\<close>

definition packet_wf :: "cpe_tcp_packet \<Rightarrow> bool" where
  "packet_wf pkt \<longleftrightarrow> length (pk_src_ip pkt) < 48 \<and> length (pk_dst_ip pkt) < 48 \<and>
     line_safe (pk_src_ip pkt) \<and> line_safe (pk_dst_ip pkt)"

definition parse_good :: "cpe_tcp_packet option option \<Rightarrow> bool" where
  "parse_good r = (case r of None \<Rightarrow> False | Some None \<Rightarrow> True | Some (Some p) \<Rightarrow> packet_wf p)"

lemma parse_good_simps [simp]:
  "\<not> parse_good None" "parse_good (Some None)" "parse_good (Some (Some p)) = packet_wf p"
  by (simp_all add: parse_good_def)

lemma parse_v4_good:
  assumes "20 \<le> length pkt"
  shows "parse_good (parse_v4 pkt)"
proof -
  have "0 < length pkt" using assms by linarith
  note rd0 = rd8_in[OF this]
  have rd: "rd8 pkt 0 = Some (pkt ! 0)" "rd8 pkt 9 = Some (pkt ! 9)" "\<exists>x. rd32 le32 pkt 12 = Some x"
    "\<exists>x. rd32 le32 pkt 16 = Some x" "\<exists>x. rd16be pkt 2 = Some x"
    using assms rd0 by (simp_all add: rd8_in rd32_in rd16be_in)
  let ?ihl = "unat (pkt ! 0 AND 0x0f)"
  have ip: "length (inet_ntop4 a) < 48" for a using length_inet_ntop4[of a] by simp
  show ?thesis
  proof (cases "?ihl < 5 \<or> length pkt < ?ihl * 4 \<or> pkt ! 9 \<noteq> 6 \<or> length pkt < ?ihl * 4 + 14")
    case True
    with rd show ?thesis by (auto simp: parse_v4_def Let_def)
  next
    case False
    then obtain r where "tcp_header pkt (?ihl * 4) = Some r" using tcp_header_safe[of "?ihl * 4" pkt] by auto
    with False rd ip show ?thesis by (cases r) (auto simp: parse_v4_def packet_wf_def Let_def)
  qed
qed

lemma parse_v6_good: "parse_good (parse_v6 pkt)"
proof (cases "length pkt < 40 + 14")
  case False
  then have rd: "rd8 pkt 6 = Some (pkt ! 6)" "\<exists>x. rd_bytes pkt 8 16 = Some x" "\<exists>x. rd_bytes pkt 24 16 = Some x"
    "\<exists>x. rd16be pkt 4 = Some x"
    by (simp_all add: rd8_in rd16be_in rd_bytes_def)
  obtain nx off where sk: "skip_ext pkt (pkt ! 6) 40 = Some (nx, off)"
    using skip_ext_safe[of pkt "pkt ! 6" 40] by auto
  have ip: "length (inet_ntop6 a) < 48" for a using length_inet_ntop6[of a] by simp
  show ?thesis
  proof (cases "nx \<noteq> 6 \<or> off + 14 > length pkt")
    case True
    with False rd sk show ?thesis by (auto simp: parse_v6_def)
  next
    case thr: False
    then obtain r where "tcp_header pkt off = Some r" using tcp_header_safe[of off pkt] by auto
    with False thr rd sk ip show ?thesis by (cases r) (auto simp: parse_v6_def packet_wf_def)
  qed
qed (simp add: parse_v6_def)

lemma parse_ip_good: "parse_good (cpe_tcp_parse_ip_packet pkt)"
proof (cases "length pkt < 20")
  case False
  then have "0 < length pkt" by linarith
  then show ?thesis
    using parse_v4_good[of pkt] parse_v6_good[of pkt] False rd8_in[of 0 pkt]
    by (auto simp: cpe_tcp_parse_ip_packet_def Let_def)
qed (simp add: cpe_tcp_parse_ip_packet_def)

section \<open>State invariant\<close>

definition remote_wf :: "cpe_tcp_remote \<Rightarrow> bool" where
  "remote_wf r \<longleftrightarrow> length (rm_remote_ip r) < 48 \<and> length (rm_local_ip r) < 48 \<and>
     line_safe (rm_remote_ip r) \<and> line_safe (rm_local_ip r)"

definition prefix_wf :: "cpe_tcp_prefix \<Rightarrow> bool" where
  "prefix_wf p \<longleftrightarrow> length (px_prefix p) < 64 \<and> line_safe (px_prefix p)"

text \<open>
  Every packet handed to the parser is accounted for exactly once: as an aggregated packet, as a
  non-TCP packet or as a parse failure. The packet total has 32 bits, the others 64.
\<close>

definition counts_ok :: "cpe_tcp_snapshot \<Rightarrow> bool" where
  "counts_ok s \<longleftrightarrow>
     sn_pkt_total s = ucast (sn_pkts_parsed s - sn_pkts_non_tcp s - sn_pkts_parse_fail s)"

definition snap_wf :: "cpe_tcp_snapshot \<Rightarrow> bool" where
  "snap_wf s \<longleftrightarrow>
     length (sn_remotes s) \<le> 256 \<and> length (sn_prefixes s) \<le> 128 \<and>
     distinct (map rm_remote_ip (sn_remotes s)) \<and> distinct (map px_prefix (sn_prefixes s)) \<and>
     list_all remote_wf (sn_remotes s) \<and> list_all prefix_wf (sn_prefixes s) \<and>
     length (sn_ts_iso s) < 40 \<and> line_safe (sn_ts_iso s)"

definition tcp_inv :: "cpe_tcp_state \<Rightarrow> bool" where
  "tcp_inv st \<longleftrightarrow> snap_wf (tc_snap st) \<and> counts_ok (tc_snap st) \<and> length (tc_flows st) = 64 \<and> tc_flow_i st < 64"

lemma tcp_inv_init: "tcp_inv cpe_tcp_state_init"
  by (simp add: tcp_inv_def snap_wf_def counts_ok_def cpe_tcp_state_init_def snapshot0_def)

text \<open>Rows keyed by a string: a lookup-or-insert followed by an update of the row.\<close>

lemma distinct_map_update:
  assumes "distinct (map f xs)" "i < length xs" "f y = f (xs ! i) \<or> f y \<notin> f ` set xs"
  shows "distinct (map f (xs[i := y]))"
proof -
  have "map f (xs[i := y]) = (map f xs)[i := f y]" by (simp add: map_update)
  moreover have "distinct ((map f xs)[i := f y])"
    using assms by (intro distinct_list_update) (auto simp: nth_eq_iff_index_eq)
  ultimately show ?thesis by simp
qed

lemma list_all_update: "list_all P xs \<Longrightarrow> P y \<Longrightarrow> list_all P (xs[i := y])"
  by (auto simp: list_all_iff dest!: set_update_subset_insert[THEN subsetD])

lemma list_all_nth: "list_all P xs \<Longrightarrow> i < length xs \<Longrightarrow> P (xs ! i)"
  by (simp add: list_all_length)

lemma remote0_wf: "length ip < 48 \<Longrightarrow> line_safe ip \<Longrightarrow> remote_wf (remote0\<lparr>rm_remote_ip := cstr 48 ip\<rparr>)"
  by (simp add: remote_wf_def remote0_def cstr_fits)

lemma prefix0_wf: "length p < 64 \<Longrightarrow> line_safe p \<Longrightarrow> prefix_wf (prefix0\<lparr>px_prefix := cstr 64 p\<rparr>)"
  by (simp add: prefix_wf_def prefix0_def cstr_fits)

text \<open>The snapshot fields a row operation leaves alone.\<close>

definition same_counts :: "cpe_tcp_snapshot \<Rightarrow> cpe_tcp_snapshot \<Rightarrow> bool" where
  "same_counts s t \<longleftrightarrow> sn_pkt_total s = sn_pkt_total t \<and> sn_pkts_parsed s = sn_pkts_parsed t \<and>
     sn_pkts_non_tcp s = sn_pkts_non_tcp t \<and> sn_pkts_parse_fail s = sn_pkts_parse_fail t"

lemma remote_index_wf:
  assumes "snap_wf s" "length ip < 48" "line_safe ip" "remote_index s ip = (i, s')"
  shows "snap_wf s' \<and> i < length (sn_remotes s') \<and> rm_remote_ip (sn_remotes s' ! i) = ip \<and>
    sn_prefixes s' = sn_prefixes s \<and> same_counts s' s"
proof (cases "find_idx (\<lambda>r. rm_remote_ip r = ip) (sn_remotes s)")
  case (Some k)
  with find_idx_SomeD[OF Some] assms show ?thesis by (simp add: remote_index_def same_counts_def)
next
  case None
  then have new: "ip \<notin> rm_remote_ip ` set (sn_remotes s)" by (auto simp: find_idx_None_iff)
  define fresh where "fresh = remote0\<lparr>rm_remote_ip := cstr 48 ip\<rparr>"
  have fr: "rm_remote_ip fresh = ip" "remote_wf fresh"
    using assms(2,3) remote0_wf[OF assms(2,3)] by (simp_all add: fresh_def cstr_fits)
  show ?thesis
  proof (cases "length (sn_remotes s) < 256")
    case True
    with None assms new fr show ?thesis
      by (simp add: remote_index_def Let_def fresh_def[symmetric] snap_wf_def same_counts_def) (auto simp: nth_append)
  next
    case False
    let ?b = "min_slot rm_pkt_count (sn_remotes s)"
    have b: "?b < length (sn_remotes s)" using False by (intro min_slot_spec(1)) auto
    have d: "distinct (map rm_remote_ip ((sn_remotes s)[?b := fresh]))"
      using assms(1) b new fr by (intro distinct_map_update) (auto simp: snap_wf_def)
    show ?thesis
      using None False assms b d fr
      by (auto simp: remote_index_def Let_def fresh_def[symmetric] snap_wf_def same_counts_def list_all_update)
  qed
qed

lemma prefix_index_wf:
  assumes "snap_wf s" "length p < 64" "line_safe p" "prefix_index s p = (i, s')"
  shows "snap_wf s' \<and> i < length (sn_prefixes s') \<and> px_prefix (sn_prefixes s' ! i) = p \<and>
    sn_remotes s' = sn_remotes s \<and> same_counts s' s"
proof (cases "find_idx (\<lambda>r. px_prefix r = p) (sn_prefixes s)")
  case (Some k)
  with find_idx_SomeD[OF Some] assms show ?thesis by (simp add: prefix_index_def same_counts_def)
next
  case None
  then have new: "p \<notin> px_prefix ` set (sn_prefixes s)" by (auto simp: find_idx_None_iff)
  define fresh where "fresh = prefix0\<lparr>px_prefix := cstr 64 p\<rparr>"
  have fr: "px_prefix fresh = p" "prefix_wf fresh"
    using assms(2,3) prefix0_wf[OF assms(2,3)] by (simp_all add: fresh_def cstr_fits)
  show ?thesis
  proof (cases "length (sn_prefixes s) < 128")
    case True
    with None assms new fr show ?thesis
      by (simp add: prefix_index_def Let_def fresh_def[symmetric] snap_wf_def same_counts_def) (auto simp: nth_append)
  next
    case False
    let ?b = "min_slot px_pkt_count (sn_prefixes s)"
    have b: "?b < length (sn_prefixes s)" using False by (intro min_slot_spec(1)) auto
    have d: "distinct (map px_prefix ((sn_prefixes s)[?b := fresh]))"
      using assms(1) b new fr by (intro distinct_map_update) (auto simp: snap_wf_def)
    show ?thesis
      using None False assms b d fr
      by (auto simp: prefix_index_def Let_def fresh_def[symmetric] snap_wf_def same_counts_def list_all_update)
  qed
qed

definition plen_or_24 :: "u8 \<Rightarrow> u8" where
  "plen_or_24 p = (if p = 0 \<or> p > 32 then 24 else p)"

lemma prefix_from_ip4_eq:
  "prefix_from_ip4 a p =
     inet_ntop4 (htonl (htonl a AND prefix_mask (plen_or_24 p))) @ ''/'' @ u8_dec (plen_or_24 p)"
proof -
  define out where "out = inet_ntop4 (htonl (htonl a AND prefix_mask (plen_or_24 p)))"
  have l: "length out \<le> 15" unfolding out_def by (rule length_inet_ntop4)
  then have "length (''/'' @ u8_dec (plen_or_24 p)) < 64 - length out"
    using length_u8_dec[of "plen_or_24 p"] by simp
  then have "cstr (64 - length out) (''/'' @ u8_dec (plen_or_24 p)) = ''/'' @ u8_dec (plen_or_24 p)"
    by (rule cstr_fits)
  with l show ?thesis by (simp add: prefix_from_ip4_def Let_def plen_or_24_def[symmetric] out_def[symmetric])
qed

lemma prefix_from_ip4_wf: "length (prefix_from_ip4 a p) < 64" "line_safe (prefix_from_ip4 a p)"
proof -
  show "length (prefix_from_ip4 a p) < 64"
    using length_inet_ntop4[of "htonl (htonl a AND prefix_mask (plen_or_24 p))"] length_u8_dec[of "plen_or_24 p"]
    by (simp add: prefix_from_ip4_eq)
  show "line_safe (prefix_from_ip4 a p)" by (simp add: prefix_from_ip4_eq)
qed

lemma remote_row_wf:
  assumes "snap_wf s" "i < length (sn_remotes s)" "remote_wf r" "rm_remote_ip r = rm_remote_ip (sn_remotes s ! i)"
  shows "snap_wf (s\<lparr>sn_remotes := (sn_remotes s)[i := r]\<rparr>)"
  using assms distinct_map_update[of rm_remote_ip "sn_remotes s" i r]
  by (simp add: snap_wf_def list_all_update)

lemma prefix_row_wf:
  assumes "snap_wf s" "i < length (sn_prefixes s)" "prefix_wf r" "px_prefix r = px_prefix (sn_prefixes s ! i)"
  shows "snap_wf (s\<lparr>sn_prefixes := (sn_prefixes s)[i := r]\<rparr>)"
  using assms distinct_map_update[of px_prefix "sn_prefixes s" i r]
  by (simp add: snap_wf_def list_all_update)

lemma bump_totals_wf [simp]: "snap_wf (bump_totals len a b c d s) = snap_wf s"
  "sn_remotes (bump_totals len a b c d s) = sn_remotes s" "sn_prefixes (bump_totals len a b c d s) = sn_prefixes s"
  by (simp_all add: bump_totals_def snap_wf_def)

lemma bump_remote_wf:
  "remote_wf r \<Longrightarrow> length l < 48 \<Longrightarrow> line_safe l \<Longrightarrow> remote_wf (bump_remote l rp lp now len a b c d r)"
  "rm_remote_ip (bump_remote l rp lp now len a b c d r) = rm_remote_ip r"
  by (simp_all add: bump_remote_def remote_wf_def cstr_fits)

lemma bump_prefix_wf [simp]:
  "prefix_wf (bump_prefix len a b c d e p) = prefix_wf p" "px_prefix (bump_prefix len a b c d e p) = px_prefix p"
  by (simp_all add: bump_prefix_def prefix_wf_def)

lemma packet_sides_wf:
  assumes "packet_wf pkt" "packet_sides pkt = (l, r, lp, rp)"
  shows "length l < 48 \<and> line_safe l \<and> length r < 48 \<and> line_safe r"
  using assms by (auto simp: packet_sides_def packet_wf_def Let_def cstr_fits split: if_splits)

text \<open>The retransmission ring touches nothing but itself.\<close>

lemma flow_is_retrans_frame:
  assumes "flow_is_retrans st sip dip sp dp seq = (b, st')"
  shows "tc_snap st' = tc_snap st \<and> tc_prefix_len st' = tc_prefix_len st \<and>
    length (tc_flows st') = length (tc_flows st) \<and> (tc_flow_i st < 64 \<longrightarrow> tc_flow_i st' < 64) \<and> tc_fd st' = tc_fd st"
  using assms by (auto simp: flow_is_retrans_def split: option.splits)

text \<open>The steps of \<^verbatim>\<open>apply_packet\<close>.\<close>

lemma apply_packet_steps:
  obtains l r lp rp syn fin rst b st1 ri s2 where
    "packet_sides pkt = (l, r, lp, rp)"
    "syn = packet_is_syn pkt" "fin = (pk_flags pkt AND 0x01 \<noteq> 0)" "rst = (pk_flags pkt AND 0x04 \<noteq> 0)"
    "tc_snap st1 = tc_snap st" "length (tc_flows st1) = length (tc_flows st)"
    "tc_flow_i st < 64 \<Longrightarrow> tc_flow_i st1 < 64" "tc_fd st1 = tc_fd st"
    "count_remote l r lp rp (mono_ms clk) (pk_ip_len pkt) syn fin rst b
       (bump_totals (pk_ip_len pkt) syn fin rst b (tc_snap st)) = (ri, s2)"
    "apply_packet clk pkt st = st1\<lparr>tc_snap :=
       (count_prefix (pk_is_ipv6 pkt) r (tc_prefix_len st) ri (pk_ip_len pkt) syn fin rst b s2)\<lparr>sn_ts_iso := tcp_iso_now clk\<rparr>\<rparr>"
proof -
  let ?sip = "ip4_parse (pk_src_ip pkt)" and ?dip = "ip4_parse (pk_dst_ip pkt)"
  obtain l r lp rp where sides: "packet_sides pkt = (l, r, lp, rp)" by (cases "packet_sides pkt")
  obtain b st1 where rt: "(if packet_is_syn pkt \<and> \<not> pk_is_ipv6 pkt \<and> ?sip \<noteq> 0 \<and> ?dip \<noteq> 0
      then flow_is_retrans st ?sip ?dip (pk_src_port pkt) (pk_dst_port pkt) (pk_seq pkt) else (False, st)) = (b, st1)"
    by fastforce
  then have fr: "tc_snap st1 = tc_snap st \<and> tc_prefix_len st1 = tc_prefix_len st \<and>
      length (tc_flows st1) = length (tc_flows st) \<and> (tc_flow_i st < 64 \<longrightarrow> tc_flow_i st1 < 64) \<and> tc_fd st1 = tc_fd st"
    by (auto dest: flow_is_retrans_frame split: if_splits)
  obtain syn fin rst where fl: "syn = packet_is_syn pkt" "fin = (pk_flags pkt AND 0x01 \<noteq> 0)"
    "rst = (pk_flags pkt AND 0x04 \<noteq> 0)" by blast
  obtain ri s2 where rm: "count_remote l r lp rp (mono_ms clk) (pk_ip_len pkt) syn fin rst b
      (bump_totals (pk_ip_len pkt) syn fin rst b (tc_snap st)) = (ri, s2)" by fastforce
  have "apply_packet clk pkt st = st1\<lparr>tc_snap :=
      (count_prefix (pk_is_ipv6 pkt) r (tc_prefix_len st) ri (pk_ip_len pkt) syn fin rst b s2)\<lparr>sn_ts_iso := tcp_iso_now clk\<rparr>\<rparr>"
    using fr unfolding apply_packet_def Let_def sides prod.case fl[symmetric] by (simp only: rt[folded fl(1)] rm prod.case simp_thms)
  with fr sides rm fl show ?thesis by (intro that) simp_all
qed

lemma ucast_down_add: "(ucast (a + b :: u64) :: u32) = ucast a + ucast b"
proof -
  have "take_bit 32 (x + y) = take_bit 32 (take_bit 64 x + take_bit 64 y)" for x y :: int
    using take_bit_add[of 32 "take_bit 64 x" "take_bit 64 y"] take_bit_add[of 32 x y] by simp
  then show ?thesis by transfer simp
qed

lemma same_counts_ok: "same_counts s t \<Longrightarrow> counts_ok s = counts_ok t"
  by (simp add: same_counts_def counts_ok_def)

lemma count_remote_wf:
  assumes "snap_wf s" "length l < 48" "line_safe l" "length r < 48" "line_safe r"
    "count_remote l r lp rp now len a b c d s = (ri, s')"
  shows "snap_wf s' \<and> ri < length (sn_remotes s') \<and> same_counts s' s"
proof -
  obtain s2 where s2: "remote_index s r = (ri, s2)"
    "s' = s2\<lparr>sn_remotes := (sn_remotes s2)[ri := bump_remote l rp lp now len a b c d (sn_remotes s2 ! ri)]\<rparr>"
    using assms(6) by (auto simp: count_remote_def split: prod.splits)
  note w = remote_index_wf[OF assms(1,4,5) s2(1)]
  then have "remote_wf (sn_remotes s2 ! ri)" by (auto simp: snap_wf_def list_all_nth)
  with w s2(2) assms(2,3) show ?thesis
    by (auto simp: same_counts_def bump_remote_wf intro!: remote_row_wf)
qed

lemma count_prefix_wf:
  assumes "snap_wf s"
  shows "snap_wf (count_prefix v6 r plen ri len a b c d s) \<and> same_counts (count_prefix v6 r plen ri len a b c d s) s \<and>
    sn_remotes (count_prefix v6 r plen ri len a b c d s) = sn_remotes s"
proof (cases "\<not> v6 \<and> ip4_parse r \<noteq> 0")
  case True
  obtain pi s4 where p: "prefix_index s (prefix_from_ip4 (ip4_parse r) (if plen \<noteq> 0 then plen else 24)) = (pi, s4)"
    by fastforce
  note w = prefix_index_wf[OF assms prefix_from_ip4_wf p]
  then have "prefix_wf (sn_prefixes s4 ! pi)" by (auto simp: snap_wf_def list_all_nth)
  with w True p show ?thesis
    by (auto simp: count_prefix_def same_counts_def intro!: prefix_row_wf)
qed (use assms in \<open>auto simp: count_prefix_def same_counts_def\<close>)

text \<open>
  Adding one packet to the aggregates keeps the state well formed; the packet counter moves by
  one, which the caller has recorded in \<^verbatim>\<open>pkts_parsed\<close>.
\<close>

lemma apply_packet_wf:
  assumes "snap_wf (tc_snap st)" "length (tc_flows st) = 64" "tc_flow_i st < 64" "packet_wf pkt"
    and st': "st' = apply_packet clk pkt st"
  shows "snap_wf (tc_snap st') \<and> length (tc_flows st') = 64 \<and> tc_flow_i st' < 64 \<and>
    sn_pkt_total (tc_snap st') = sn_pkt_total (tc_snap st) + 1 \<and>
    sn_pkts_parsed (tc_snap st') = sn_pkts_parsed (tc_snap st) \<and>
    sn_pkts_non_tcp (tc_snap st') = sn_pkts_non_tcp (tc_snap st) \<and>
    sn_pkts_parse_fail (tc_snap st') = sn_pkts_parse_fail (tc_snap st)"
proof (rule apply_packet_steps[of pkt st clk])
  fix l r lp rp syn fin rst b st1 ri s2
  assume sides: "packet_sides pkt = (l, r, lp, rp)"
    and fr: "length (tc_flows st1) = length (tc_flows st)" "tc_flow_i st < 64 \<Longrightarrow> tc_flow_i st1 < 64"
    and rm: "count_remote l r lp rp (mono_ms clk) (pk_ip_len pkt) syn fin rst b
       (bump_totals (pk_ip_len pkt) syn fin rst b (tc_snap st)) = (ri, s2)"
    and res: "apply_packet clk pkt st = st1\<lparr>tc_snap :=
       (count_prefix (pk_is_ipv6 pkt) r (tc_prefix_len st) ri (pk_ip_len pkt) syn fin rst b s2)\<lparr>sn_ts_iso := tcp_iso_now clk\<rparr>\<rparr>"
  have s2: "snap_wf s2 \<and> same_counts s2 (bump_totals (pk_ip_len pkt) syn fin rst b (tc_snap st))"
    using count_remote_wf[OF _ _ _ _ _ rm] assms(1) packet_sides_wf[OF assms(4) sides] by simp
  let ?s3 = "count_prefix (pk_is_ipv6 pkt) r (tc_prefix_len st) ri (pk_ip_len pkt) syn fin rst b s2"
  have s3: "snap_wf ?s3 \<and> same_counts ?s3 s2" using count_prefix_wf s2 by blast
  have "length (tcp_iso_now clk) < 40" using length_iso_now(1)[of clk] by simp
  with s2 s3 fr assms(2,3) show ?thesis
    unfolding st' res by (auto simp: snap_wf_def same_counts_def bump_totals_def)
qed

lemma apply_packet_inv:
  assumes "snap_wf (tc_snap st)" "length (tc_flows st) = 64" "tc_flow_i st < 64" "packet_wf pkt"
    and "counts_ok ((tc_snap st)\<lparr>sn_pkts_parsed := sn_pkts_parsed (tc_snap st) - 1\<rparr>)"
  shows "tcp_inv (apply_packet clk pkt st)"
proof -
  have "(ucast (p - 1 - n - f) :: u32) + 1 = ucast (p - n - f)" for p n f :: u64
    using ucast_down_add[of "p - 1 - n - f" 1] by (simp add: algebra_simps)
  with apply_packet_wf[OF assms(1-4) refl, of clk] assms(5) show ?thesis
    by (simp add: tcp_inv_def counts_ok_def)
qed

lemma bump_parse_stats_wf:
  assumes "snap_wf s"
  shows "\<exists>s'. bump_parse_stats payload s = Some s' \<and> snap_wf s' \<and> sn_pkt_total s' = sn_pkt_total s \<and>
    sn_pkts_parsed s' = sn_pkts_parsed s \<and>
    sn_pkts_non_tcp s' + sn_pkts_parse_fail s' = sn_pkts_non_tcp s + sn_pkts_parse_fail s + 1"
proof (cases payload)
  case Nil
  with assms show ?thesis by (simp add: bump_parse_stats_def snap_wf_def)
next
  case (Cons b bs)
  then have "rd8 payload 0 = Some b" by (simp add: rd8_def)
  moreover have "10 \<le> length payload \<Longrightarrow> rd8 payload 9 = Some (payload ! 9)"
    "7 \<le> length payload \<Longrightarrow> rd8 payload 6 = Some (payload ! 6)" by (simp_all add: rd8_in)
  ultimately show ?thesis
    using assms Cons by (auto simp: bump_parse_stats_def Let_def snap_wf_def)
qed

definition tcp_inv_opt :: "cpe_tcp_state option \<Rightarrow> bool" where
  "tcp_inv_opt sto = (case sto of None \<Rightarrow> False | Some st \<Rightarrow> tcp_inv st)"

lemma on_nflog_payload_inv:
  assumes "tcp_inv_opt sto"
  shows "tcp_inv_opt (on_nflog_payload clk m payload hw mk ts tu sto)"
proof -
  obtain st where st: "sto = Some st" "tcp_inv st" using assms by (cases sto) (auto simp: tcp_inv_opt_def)
  define st1 where "st1 = st\<lparr>tc_snap := (tc_snap st)\<lparr>sn_pkts_parsed := sn_pkts_parsed (tc_snap st) + 1\<rparr>\<rparr>"
  have wf: "snap_wf (tc_snap st1)" "length (tc_flows st1) = 64" "tc_flow_i st1 < 64"
    using st(2) by (simp_all add: st1_def tcp_inv_def snap_wf_def)
  have c: "counts_ok (tc_snap st)" using st(2) by (simp add: tcp_inv_def)
  obtain r where r: "cpe_tcp_parse_ip_packet payload = Some r" "parse_good (Some r)"
    using parse_ip_good[of payload] by (cases "cpe_tcp_parse_ip_packet payload") auto
  show ?thesis
  proof (cases r)
    case None
    obtain s' where s': "bump_parse_stats payload (tc_snap st1) = Some s'" "snap_wf s'"
      "sn_pkt_total s' = sn_pkt_total (tc_snap st1)" "sn_pkts_parsed s' = sn_pkts_parsed (tc_snap st1)"
      "sn_pkts_non_tcp s' + sn_pkts_parse_fail s' = sn_pkts_non_tcp (tc_snap st1) + sn_pkts_parse_fail (tc_snap st1) + 1"
      using bump_parse_stats_wf[OF wf(1)] by blast
    have "counts_ok s'"
      using c s'(3-5) unfolding counts_ok_def st1_def diff_diff_eq by simp
    with None r s'(1,2) wf st show ?thesis
      by (simp add: on_nflog_payload_def st1_def tcp_inv_opt_def tcp_inv_def Let_def)
  next
    case (Some pkt)
    with r have "packet_wf pkt" by simp
    moreover have "counts_ok ((tc_snap st1)\<lparr>sn_pkts_parsed := sn_pkts_parsed (tc_snap st1) - 1\<rparr>)"
      using c by (simp add: counts_ok_def st1_def)
    ultimately have "tcp_inv (apply_packet (clk m) pkt st1)" using wf by (intro apply_packet_inv)
    with Some r st show ?thesis
      by (simp add: on_nflog_payload_def st1_def[symmetric] tcp_inv_opt_def Let_def)
  qed
qed

interpretation tcp_sink: packet_sink "on_nflog_payload clk" tcp_inv_opt for clk
  by unfold_locales (rule on_nflog_payload_inv)

section \<open>Lookup after aggregation\<close>

definition remote_row :: "cpe_tcp_snapshot \<Rightarrow> string \<Rightarrow> cpe_tcp_remote option" where
  "remote_row s ip = find (\<lambda>r. rm_remote_ip r = ip) (sn_remotes s)"

text \<open>Looking up a key in a table of rows with distinct keys.\<close>

lemma find_nth:
  assumes "distinct (map f xs)" "i < length xs" "f (xs ! i) = k"
  shows "find (\<lambda>r. f r = k) xs = Some (xs ! i)"
proof -
  have "\<not> f (xs ! j) = k" if "j < i" for j
    using assms that nth_eq_iff_index_eq[of "map f xs" j i] by auto
  with assms(2,3) show ?thesis by (auto simp: find_Some_iff)
qed

lemma find_other_update:
  assumes "f y \<noteq> k" "f (xs ! i) \<noteq> k"
  shows "find (\<lambda>r. f r = k) (xs[i := y]) = find (\<lambda>r. f r = k) xs"
  using assms by (induction xs arbitrary: i) (auto split: nat.split)

lemma find_other_append: "f y \<noteq> k \<Longrightarrow> find (\<lambda>r. f r = k) (xs @ [y]) = find (\<lambda>r. f r = k) xs"
  by (induction xs) auto

lemma find_evicted:
  assumes "distinct (map f xs)" "i < length xs" "f (xs ! i) = k" "f y \<noteq> k"
  shows "find (\<lambda>r. f r = k) (xs[i := y]) = None"
proof -
  have "f (xs[i := y] ! j) \<noteq> k" if "j < length xs" for j
    using assms that nth_eq_iff_index_eq[of "map f xs" j i] by (cases "j = i") auto
  then show ?thesis by (auto simp: find_None_iff in_set_conv_nth)
qed

text \<open>
  Lookup-or-insert with eviction: afterwards the row of \<open>ip\<close> is the old one or a fresh one, an
  eviction removes only the row with the smallest packet count, every other row is unchanged.
\<close>

definition evicted :: "cpe_tcp_snapshot \<Rightarrow> string \<Rightarrow> string option" where
  "evicted s ip =
     (if remote_row s ip = None \<and> 256 \<le> length (sn_remotes s)
      then Some (rm_remote_ip (sn_remotes s ! min_slot rm_pkt_count (sn_remotes s))) else None)"

lemma remote_row_find_idx:
  "find_idx (\<lambda>r. rm_remote_ip r = ip) (sn_remotes s) = None \<longleftrightarrow> remote_row s ip = None"
  by (auto simp: remote_row_def find_idx_None_iff find_None_iff)

lemma remote_index_rows:
  assumes "snap_wf s" "length ip < 48" "line_safe ip" "remote_index s ip = (i, s')"
  shows "sn_remotes s' ! i = (case remote_row s ip of Some r \<Rightarrow> r | None \<Rightarrow> remote0\<lparr>rm_remote_ip := ip\<rparr>)"
    and "ip' \<noteq> ip \<Longrightarrow> remote_row s' ip' = (if evicted s ip = Some ip' then None else remote_row s ip')"
proof -
  have d: "distinct (map rm_remote_ip (sn_remotes s))" using assms(1) by (simp add: snap_wf_def)
  have ci: "cstr 48 ip = ip" using assms(2) by (rule cstr_fits)
  show "sn_remotes s' ! i = (case remote_row s ip of Some r \<Rightarrow> r | None \<Rightarrow> remote0\<lparr>rm_remote_ip := ip\<rparr>)"
  proof (cases "find_idx (\<lambda>r. rm_remote_ip r = ip) (sn_remotes s)")
    case (Some k)
    with find_idx_SomeD[OF Some] find_nth[OF d, of k ip] assms(4) show ?thesis
      by (simp add: remote_index_def remote_row_def)
  next
    case None
    moreover from None have "remote_row s ip = None" by (simp add: remote_row_find_idx)
    moreover have "\<not> length (sn_remotes s) < 256 \<Longrightarrow> min_slot rm_pkt_count (sn_remotes s) < length (sn_remotes s)"
      by (intro min_slot_spec(1)) auto
    ultimately show ?thesis using assms(4) ci by (auto simp: remote_index_def Let_def split: if_splits)
  qed
  show "remote_row s' ip' = (if evicted s ip = Some ip' then None else remote_row s ip')" if ne: "ip' \<noteq> ip"
  proof (cases "find_idx (\<lambda>r. rm_remote_ip r = ip) (sn_remotes s)")
    case (Some k)
    then have "remote_row s ip \<noteq> None" using remote_row_find_idx[of ip s] by auto
    with Some assms(4) show ?thesis by (auto simp: remote_index_def evicted_def)
  next
    case None
    then have n: "remote_row s ip = None" by (simp add: remote_row_find_idx)
    let ?b = "min_slot rm_pkt_count (sn_remotes s)" and ?f = "remote0\<lparr>rm_remote_ip := ip\<rparr>"
    have b: "\<not> length (sn_remotes s) < 256 \<Longrightarrow> ?b < length (sn_remotes s)" by (intro min_slot_spec(1)) auto
    show ?thesis
    proof (cases "length (sn_remotes s) < 256")
      case True
      with None assms(4) ci ne n show ?thesis
        by (auto simp: remote_index_def evicted_def remote_row_def find_other_append)
    next
      case False
      with None assms(4) ci have "sn_remotes s' = (sn_remotes s)[?b := ?f]"
        by (auto simp: remote_index_def Let_def)
      with False n ne b find_evicted[OF d, of ?b ip' ?f] find_other_update[of rm_remote_ip ?f ip' "sn_remotes s" ?b]
      show ?thesis by (auto simp: evicted_def remote_row_def)
    qed
  qed
qed

section \<open>Loss hint and line lengths\<close>

lemma loss_hint_bounds: "0 \<le> cpe_tcp_loss_hint syn fin rst re \<and> cpe_tcp_loss_hint syn fin rst re \<le> 1"
  by (simp add: cpe_tcp_loss_hint_def Let_def)

lemma length_loss [fmt_len]: "length (fixed 4 (cpe_tcp_loss_hint syn fin rst re)) \<le> 6"
proof -
  let ?h = "cpe_tcp_loss_hint syn fin rst re"
  have "0 \<le> ?h" "?h \<le> of_nat (10 ^ 1 - 1)" using loss_hint_bounds[of syn fin rst re] by auto
  then have "length (fixed 4 ?h) \<le> 1 + 4 + 1" by (rule length_fixed) simp
  then show ?thesis by simp
qed

lemma length_remote_json:
  assumes "length ts \<le> 39" "length rid \<le> 63" "remote_wf r"
  shows "length (remote_json ts rid g r) < 640"
  using assms length_u16_dec[of "rm_remote_port r"] length_u16_dec[of "rm_local_port r"]
    length_u32_dec[of "rm_syn_count r"] length_u32_dec[of "rm_fin_count r"] length_u32_dec[of "rm_rst_count r"]
    length_u32_dec[of "rm_syn_retrans r"] length_u32_dec[of "rm_pkt_count r"] length_u64_dec[of "rm_bytes_est r"]
    length_u32_dec[of g] length_loss[of "rm_syn_count r" "rm_fin_count r" "rm_rst_count r" "rm_syn_retrans r"]
  unfolding remote_json_def remote_wf_def by simp

lemma length_prefix_json:
  assumes "length ts \<le> 39" "length rid \<le> 63" "prefix_wf p"
  shows "length (prefix_json ts rid g p) < 640"
  using assms length_u32_dec[of "px_syn_count p"] length_u32_dec[of "px_fin_count p"] length_u32_dec[of "px_rst_count p"]
    length_u32_dec[of "px_syn_retrans p"] length_u32_dec[of "px_pkt_count p"] length_u64_dec[of "px_bytes_est p"]
    length_u32_dec[of "px_remote_count p"] length_u32_dec[of g]
    length_loss[of "px_syn_count p" "px_fin_count p" "px_rst_count p" "px_syn_retrans p"]
  unfolding prefix_json_def prefix_wf_def by simp

lemma length_summary_json:
  assumes "length ts \<le> 39" "length rid \<le> 63"
  shows "length (summary_json ts rid s) < 640"
  using assms length_u32_dec[of "sn_syn_total s"] length_u32_dec[of "sn_fin_total s"] length_u32_dec[of "sn_rst_total s"]
    length_u32_dec[of "sn_syn_retrans_total s"] length_u32_dec[of "sn_pkt_total s"] length_u64_dec[of "sn_bytes_total s"]
    length_u32_dec[of "sn_remote_count s"] length_u32_dec[of "sn_prefix_count s"] length_u8_dec[of "sn_prefix_len s"]
    length_u32_dec[of "sn_nflog_group s"] length_u64_dec[of "sn_pkts_parsed s"] length_u64_dec[of "sn_pkts_non_tcp s"]
    length_u64_dec[of "sn_pkts_parse_fail s"]
    length_loss[of "sn_syn_total s" "sn_fin_total s" "sn_rst_total s" "sn_syn_retrans_total s"]
  unfolding summary_json_def by simp

lemma line_safe_json:
  assumes "line_safe ts" "line_safe rid"
  shows "remote_wf r \<Longrightarrow> line_safe (remote_json ts rid g r)"
    "prefix_wf p \<Longrightarrow> line_safe (prefix_json ts rid g p)" "line_safe (summary_json ts rid s)"
  using assms unfolding remote_json_def prefix_json_def summary_json_def remote_wf_def prefix_wf_def by simp_all

lemma apply_packet_rows:
  assumes "snap_wf (tc_snap st)" "packet_wf pkt" "packet_sides pkt = (l, r, lp, rp)"
    and s': "s' = tc_snap (apply_packet clk pkt st)"
  shows "\<exists>re. remote_row s' r = Some (bump_remote l rp lp (mono_ms clk) (pk_ip_len pkt)
        (packet_is_syn pkt) (pk_flags pkt AND 0x01 \<noteq> 0) (pk_flags pkt AND 0x04 \<noteq> 0) re
        (case remote_row (tc_snap st) r of Some q \<Rightarrow> q | None \<Rightarrow> remote0\<lparr>rm_remote_ip := r\<rparr>))"
    and "ip' \<noteq> r \<Longrightarrow> remote_row s' ip' = (if evicted (tc_snap st) r = Some ip' then None else remote_row (tc_snap st) ip')"
proof -
  obtain syn fin rst b st1 ri s2 where
    fl: "syn = packet_is_syn pkt" "fin = (pk_flags pkt AND 0x01 \<noteq> 0)" "rst = (pk_flags pkt AND 0x04 \<noteq> 0)"
    and rm: "count_remote l r lp rp (mono_ms clk) (pk_ip_len pkt) syn fin rst b
       (bump_totals (pk_ip_len pkt) syn fin rst b (tc_snap st)) = (ri, s2)"
    and res: "apply_packet clk pkt st = st1\<lparr>tc_snap :=
       (count_prefix (pk_is_ipv6 pkt) r (tc_prefix_len st) ri (pk_ip_len pkt) syn fin rst b s2)\<lparr>sn_ts_iso := tcp_iso_now clk\<rparr>\<rparr>"
    by (rule apply_packet_steps[of pkt st clk]) (use assms(3) in auto)
  let ?s1 = "bump_totals (pk_ip_len pkt) syn fin rst b (tc_snap st)"
  note side = packet_sides_wf[OF assms(2,3)]
  obtain t where t: "remote_index ?s1 r = (ri, t)"
    "s2 = t\<lparr>sn_remotes := (sn_remotes t)[ri := bump_remote l rp lp (mono_ms clk) (pk_ip_len pkt) syn fin rst b (sn_remotes t ! ri)]\<rparr>"
    using rm by (auto simp: count_remote_def split: prod.splits)
  have w1: "snap_wf ?s1" using assms(1) by simp
  have sr: "length r < 48" "line_safe r" using side by simp_all
  note iw = remote_index_wf[OF w1 sr t(1)] and ir = remote_index_rows[OF w1 sr t(1)]
  have row1: "remote_row ?s1 k = remote_row (tc_snap st) k" "evicted ?s1 k = evicted (tc_snap st) k" for k
    by (simp_all add: remote_row_def evicted_def)
  have w2: "snap_wf s2" using count_remote_wf[OF w1 _ _ sr rm] side by simp
  have rows: "remote_row s' k = remote_row s2 k" for k
    using count_prefix_wf[OF w2] unfolding s' res by (simp add: remote_row_def)
  let ?y = "bump_remote l rp lp (mono_ms clk) (pk_ip_len pkt) syn fin rst b (sn_remotes t ! ri)"
  have "remote_row s2 r = Some ?y"
    using w2 iw t(2) find_nth[of rm_remote_ip "sn_remotes s2" ri r]
    by (simp add: remote_row_def snap_wf_def bump_remote_wf)
  then show "\<exists>re. remote_row s' r = Some (bump_remote l rp lp (mono_ms clk) (pk_ip_len pkt)
        (packet_is_syn pkt) (pk_flags pkt AND 0x01 \<noteq> 0) (pk_flags pkt AND 0x04 \<noteq> 0) re
        (case remote_row (tc_snap st) r of Some q \<Rightarrow> q | None \<Rightarrow> remote0\<lparr>rm_remote_ip := r\<rparr>))"
    unfolding rows ir(1) unfolding row1 unfolding fl by (rule exI[of _ b])
  show "remote_row s' ip' = (if evicted (tc_snap st) r = Some ip' then None else remote_row (tc_snap st) ip')"
    if ne: "ip' \<noteq> r"
    using ir(2)[OF ne] find_other_update[of rm_remote_ip ?y ip' "sn_remotes t" ri] iw t(2) ne
    unfolding rows row1 by (simp add: remote_row_def bump_remote_wf)
qed

lemma evicted_min:
  assumes "evicted s ip = Some v" "q \<in> set (sn_remotes s)" "distinct (map rm_remote_ip (sn_remotes s))"
  shows "\<exists>w. remote_row s v = Some w \<and> rm_pkt_count w \<le> rm_pkt_count q"
proof -
  let ?b = "min_slot rm_pkt_count (sn_remotes s)"
  have ne: "sn_remotes s \<noteq> []" using assms(2) by auto
  have v: "v = rm_remote_ip (sn_remotes s ! ?b)" using assms(1) by (simp add: evicted_def split: if_splits)
  have "remote_row s v = Some (sn_remotes s ! ?b)"
    unfolding remote_row_def using min_slot_spec(1)[OF ne] v by (intro find_nth assms(3)) simp_all
  with min_slot_spec(2)[OF ne] assms(2) show ?thesis by (auto simp: in_set_conv_nth)
qed

section \<open>Encoded IPv4 packets\<close>

text \<open>An IPv4 header with \<open>ihl\<close> words, options included, followed by a TCP header.\<close>

definition enc_tcp4 :: "u8 \<Rightarrow> bytes \<Rightarrow> u16 \<Rightarrow> u32 \<Rightarrow> u32 \<Rightarrow> u16 \<Rightarrow> u16 \<Rightarrow> u32 \<Rightarrow> u8 \<Rightarrow> bytes \<Rightarrow> bytes" where
  "enc_tcp4 ihl opts tot saddr daddr sport dport seq flags rest =
     [0x40 OR ihl, 0] @ be16_bytes tot @ replicate 5 0 @ [6, 0, 0] @ le32_bytes saddr @ le32_bytes daddr @ opts @
     be16_bytes sport @ be16_bytes dport @ be32_bytes seq @ replicate 5 0 @ [flags] @ rest"

lemma rd16be_at: "rd16be (xs @ be16_bytes w @ r) (length xs) = Some w"
proof -
  obtain a b where ab: "be16_bytes w = [a, b]" by (simp add: be16_bytes_def)
  then have "le16_bytes w = [b, a]" by (simp add: be16_bytes_def le16_bytes_def)
  from le16_bytes_inverse[OF this] ab show ?thesis by (simp add: rd16be_def rd8_def nth_append le16_def)
qed

lemma rd32be_at: "rd32 be32 (xs @ be32_bytes w @ r) (length xs) = Some w"
proof -
  obtain a b c d where ab: "be32_bytes w = [a, b, c, d]" by (simp add: be32_bytes_def)
  then have "le32_bytes w = [d, c, b, a]" by (simp add: be32_bytes_def le32_bytes_def)
  from le32_bytes_inverse[OF this] ab show ?thesis by (simp add: rd32_def rd8_def nth_append le32_def)
qed

lemma ihl_byte:
  fixes ihl :: u8
  assumes "unat ihl < 16"
  shows "drop_bit 4 (0x40 OR ihl) = 4" "(0x40 OR ihl) AND 0x0f = ihl"
proof -
  obtain k where k: "ihl = of_nat k" "k < 16"
  proof
    show "ihl = of_nat (unat ihl)" by simp
  qed (rule assms)
  from k(2) have "k = 0 \<or> k = 1 \<or> k = 2 \<or> k = 3 \<or> k = 4 \<or> k = 5 \<or> k = 6 \<or> k = 7 \<or> k = 8 \<or> k = 9 \<or>
      k = 10 \<or> k = 11 \<or> k = 12 \<or> k = 13 \<or> k = 14 \<or> k = 15" by presburger
  then show "drop_bit 4 (0x40 OR ihl) = 4" "(0x40 OR ihl) AND 0x0f = ihl" unfolding k(1) by auto
qed

lemma rd8_at: "rd8 (xs @ b # r) (length xs) = Some b"
  by (simp add: rd8_def)

section \<open>Properties\<close>

text \<open>C6: the header parser is memory safe on every byte string: it never reads outside the packet,
  its IPv6 extension-header loop ends, and the addresses of a parsed packet fit their buffers.\<close>

theorem tcp_parser_safe:
  "case cpe_tcp_parse_ip_packet pkt of None \<Rightarrow> False | Some None \<Rightarrow> True
   | Some (Some p) \<Rightarrow> length (pk_src_ip p) < 48 \<and> length (pk_dst_ip p) < 48 \<and>
       line_safe (pk_src_ip p) \<and> line_safe (pk_dst_ip p)"
  using parse_ip_good[of pkt] by (simp add: parse_good_def packet_wf_def split: option.splits)

text \<open>C13: a well-formed IPv4 packet with any number of option words is parsed to exactly its
  addresses, ports, sequence number, flags and total length.\<close>

theorem tcp_parse_v4_roundtrip:
  assumes "5 \<le> unat ihl" "unat ihl < 16" "length opts = (unat ihl - 5) * 4" "tot \<noteq> 0"
  shows "cpe_tcp_parse_ip_packet (enc_tcp4 ihl opts tot saddr daddr sport dport seq flags rest) =
    Some (Some \<lparr> pk_src_ip = inet_ntop4 saddr, pk_dst_ip = inet_ntop4 daddr, pk_src_port = sport,
      pk_dst_port = dport, pk_flags = flags, pk_is_ipv6 = False, pk_ip_len = tot, pk_seq = seq \<rparr>)"
proof -
  let ?p = "enc_tcp4 ihl opts tot saddr daddr sport dport seq flags rest"
  let ?a = "[0x40 OR ihl, 0] @ be16_bytes tot @ replicate 5 0 @ [6, 0, 0]"
  let ?h = "?a @ le32_bytes saddr @ le32_bytes daddr @ opts"
  have lh: "length ?h = unat ihl * 4" using assms(1,3) by simp
  have len: "length ?p = unat ihl * 4 + 14 + length rest" using assms(1,3) by (simp add: enc_tcp4_def)
  have rd: "rd8 ?p 0 = Some (0x40 OR ihl)" "rd8 ?p 9 = Some 6" "rd16be ?p 2 = Some tot"
    "rd32 le32 ?p 12 = Some saddr" "rd32 le32 ?p 16 = Some daddr"
    using rd8_at[of "[]" "0x40 OR ihl"] rd8_at[of "[0x40 OR ihl, 0] @ be16_bytes tot @ replicate 5 0" 6]
      rd16be_at[of "[0x40 OR ihl, 0]" tot] rd32le_at[of ?a saddr] rd32le_at[of "?a @ le32_bytes saddr" daddr]
    by (simp_all add: enc_tcp4_def numeral_2_eq_2[symmetric])
  have "rd16be ?p (length ?h) = Some sport" "rd16be ?p (length (?h @ be16_bytes sport)) = Some dport"
    "rd32 be32 ?p (length (?h @ be16_bytes sport @ be16_bytes dport)) = Some seq"
    "rd8 ?p (length (?h @ be16_bytes sport @ be16_bytes dport @ be32_bytes seq @ replicate 5 0)) = Some flags"
    unfolding enc_tcp4_def
    using rd16be_at[of ?h sport] rd16be_at[of "?h @ be16_bytes sport" dport]
      rd32be_at[of "?h @ be16_bytes sport @ be16_bytes dport" seq]
      rd8_at[of "?h @ be16_bytes sport @ be16_bytes dport @ be32_bytes seq @ replicate 5 0" flags]
    by simp_all
  then have "tcp_header ?p (unat ihl * 4) = Some (sport, dport, seq, flags)"
    unfolding tcp_header_def lh[symmetric] by (simp add: add.commute add.left_commute)
  then show ?thesis
    using rd len assms ihl_byte[OF assms(2)] by (simp add: cpe_tcp_parse_ip_packet_def parse_v4_def Let_def)
qed

theorem tcp_parse_v4_roundtrip_witness:
  "cpe_tcp_parse_ip_packet (enc_tcp4 6 [1, 1, 1, 1] 60 0x0100000A 0x08080808 1234 443 7 2 []) =
    Some (Some \<lparr> pk_src_ip = inet_ntop4 0x0100000A, pk_dst_ip = inet_ntop4 0x08080808, pk_src_port = 1234,
      pk_dst_port = 443, pk_flags = 2, pk_is_ipv6 = False, pk_ip_len = 60, pk_seq = 7 \<rparr>)"
  by (rule tcp_parse_v4_roundtrip) simp_all



text \<open>aggregating a packet updates exactly the row of its remote address (created if missing):
  packet and byte counts, last-seen time, the SYN, FIN and RST counts by the flags. Every other
  remote keeps its row, except that a full table gives up one row, a row with the smallest packet
  count.\<close>

theorem apply_packet_remote_rows:
  assumes "tcp_inv st" "packet_wf pkt" "packet_sides pkt = (l, r, lp, rp)"
    and "s' = tc_snap (apply_packet clk pkt st)"
    and "old = (case remote_row (tc_snap st) r of Some q \<Rightarrow> q | None \<Rightarrow> remote0\<lparr>rm_remote_ip := r\<rparr>)"
  shows "(\<exists>new. remote_row s' r = Some new \<and> rm_pkt_count new = rm_pkt_count old + 1 \<and>
        rm_bytes_est new = rm_bytes_est old + ucast (pk_ip_len pkt) \<and> rm_last_seen_ms new = mono_ms clk \<and>
        rm_syn_count new = (if pk_flags pkt AND 2 = 0 then rm_syn_count old else rm_syn_count old + 1) \<and>
        rm_fin_count new = (if pk_flags pkt AND 1 = 0 then rm_fin_count old else rm_fin_count old + 1) \<and>
        rm_rst_count new = (if pk_flags pkt AND 4 = 0 then rm_rst_count old else rm_rst_count old + 1)) \<and>
      (\<forall>ip'. ip' \<noteq> r \<longrightarrow> remote_row s' ip' = (if evicted (tc_snap st) r = Some ip' then None else remote_row (tc_snap st) ip')) \<and>
      (\<forall>v q. evicted (tc_snap st) r = Some v \<longrightarrow> q \<in> set (sn_remotes (tc_snap st)) \<longrightarrow>
        (\<exists>w. remote_row (tc_snap st) v = Some w \<and> rm_pkt_count w \<le> rm_pkt_count q))"
proof -
  have w: "snap_wf (tc_snap st)" using assms(1) by (simp add: tcp_inv_def)
  then have d: "distinct (map rm_remote_ip (sn_remotes (tc_snap st)))" by (simp add: snap_wf_def)
  note rows = apply_packet_rows[OF w assms(2,3,4)]
  from rows(1) obtain re where "remote_row s' r = Some (bump_remote l rp lp (mono_ms clk) (pk_ip_len pkt)
        (packet_is_syn pkt) (pk_flags pkt AND 0x01 \<noteq> 0) (pk_flags pkt AND 0x04 \<noteq> 0) re old)"
    unfolding assms(5) by blast
  then show ?thesis
    using rows(2) evicted_min[OF _ _ d] by (simp add: bump_remote_def incr_def packet_is_syn_def)
qed

definition sample_packet :: cpe_tcp_packet where
  "sample_packet = \<lparr> pk_src_ip = ''10.0.0.1'', pk_dst_ip = ''8.8.8.8'', pk_src_port = 1234, pk_dst_port = 443,
     pk_flags = 2, pk_is_ipv6 = False, pk_ip_len = 60, pk_seq = 7 \<rparr>"

lemma sample_packet_wf: "packet_wf sample_packet"
  by (simp add: packet_wf_def sample_packet_def)

theorem apply_packet_remote_rows_witness:
  "\<exists>l r lp rp new. packet_sides sample_packet = (l, r, lp, rp) \<and>
     remote_row (tc_snap (apply_packet clk0 sample_packet cpe_tcp_state_init)) r = Some new \<and> rm_pkt_count new = 1"
proof -
  obtain l r lp rp where s: "packet_sides sample_packet = (l, r, lp, rp)" by (cases "packet_sides sample_packet")
  have "remote_row (tc_snap cpe_tcp_state_init) r = None"
    by (simp add: remote_row_def cpe_tcp_state_init_def snapshot0_def)
  then show ?thesis
    using apply_packet_remote_rows[OF tcp_inv_init sample_packet_wf s refl refl, of clk0] s
    by (auto simp: remote0_def)
qed

text \<open>every summary, remote and prefix record of a well-formed snapshot fits the 640-byte line
  buffer, so the formatter never reports truncation, and it is a single line.\<close>

theorem tcp_ndjson_fits:
  assumes "snap_wf s" "length rid < 64" "line_safe rid"
    "\<forall>r. rem = Some r \<longrightarrow> remote_wf r" "\<forall>p. pfx = Some p \<longrightarrow> prefix_wf p"
  shows "\<exists>line. cpe_tcp_format_ndjson (Some rid) scope s rem pfx 640 = Some line \<and> length line < 640 \<and> line_safe line"
proof -
  let ?ts = "str_or (sn_ts_iso s) epoch_iso" and ?rid = "str_or rid ''unknown''"
  have ts: "length ?ts \<le> 39" "line_safe ?ts"
    using assms(1) by (auto simp: snap_wf_def str_or_def epoch_iso_def)
  have rid: "length ?rid \<le> 63" "line_safe ?rid" using assms(2,3) by (auto simp: str_or_def)
  define line where "line =
    (if (case scope of None \<Rightarrow> ''summary'' | Some x \<Rightarrow> str_or x ''summary'') = ''remote'' \<and> rem \<noteq> None
     then remote_json ?ts ?rid (sn_nflog_group s) (the rem)
     else if (case scope of None \<Rightarrow> ''summary'' | Some x \<Rightarrow> str_or x ''summary'') = ''prefix'' \<and> pfx \<noteq> None
     then prefix_json ?ts ?rid (sn_nflog_group s) (the pfx) else summary_json ?ts ?rid s)"
  have "length line < 640 \<and> line_safe line"
    using length_remote_json[OF ts(1) rid(1)] length_prefix_json[OF ts(1) rid(1)] length_summary_json[OF ts(1) rid(1)]
      line_safe_json[OF ts(2) rid(2)] assms(4,5) unfolding line_def by (auto split del: option.split)
  moreover have "cpe_tcp_format_ndjson (Some rid) scope s rem pfx 640 = (if 640 \<le> length line then None else Some line)"
    unfolding cpe_tcp_format_ndjson_def line_def Let_def option.case by simp
  ultimately show ?thesis by simp
qed

theorem tcp_ndjson_fits_witness:
  "\<exists>line. cpe_tcp_format_ndjson (Some ''cpe-lab-1'') (Some ''remote'') (tc_snap cpe_tcp_state_init) (Some remote0) None 640 =
     Some line \<and> length line < 640 \<and> line_safe line"
  by (rule tcp_ndjson_fits)
    (use tcp_inv_init in \<open>simp_all add: tcp_inv_def remote_wf_def remote0_def\<close>)

lemma inet_ntop4_inj: "inet_ntop4 a = inet_ntop4 b \<longleftrightarrow> a = b"
  by (metis inet_pton4_ntop4 option.inject)

text \<open>two remote addresses fall into the same prefix row exactly when they agree on the network
  bits of the configured length (24 when it is out of range).\<close>

theorem prefix_groups_networks:
  "prefix_from_ip4 a plen = prefix_from_ip4 b plen \<longleftrightarrow>
     (let m = prefix_mask (if plen = 0 \<or> plen > 32 then 24 else plen) in htonl a AND m = htonl b AND m)"
proof -
  have "htonl x = htonl y \<longleftrightarrow> x = y" for x y by (metis htonl_htonl)
  then show ?thesis
    unfolding plen_or_24_def[symmetric] Let_def by (simp add: prefix_from_ip4_eq inet_ntop4_inj)
qed

text \<open>the loss hint of any counters, wrapped or not, is a number between 0 and 1.\<close>

theorem loss_hint_range: "0 \<le> cpe_tcp_loss_hint syn fin rst re \<and> cpe_tcp_loss_hint syn fin rst re \<le> 1"
  by (rule loss_hint_bounds)

end
