(* ===== verification/Flow_Correlate.thy ===== *)
theory Flow_Correlate
  imports Event_Source
begin

text \<open>
  \<^verbatim>\<open>src/flow_correlate.c\<close> and \<^verbatim>\<open>src/ipfix_ingest.c\<close>: the unified flow observation
  \<^verbatim>\<open>nf_flow_obs_t\<close>, its construction from an IPFIX record and from a conntrack event, the
  WAN 5-tuple correlation of a CPE observation with a core observation, and the NDJSON line.

  libipfix and libnetdiag are not part of the repository. Their record types are modelled by
  the fields these sources read, and their functions are parameters: \<open>flow_key\<close> for
  \<^verbatim>\<open>ipfix_record_flow_key\<close> (\<open>None\<close> for a negative return), \<open>tuple4\<close> and
  \<open>tuple6\<close> for \<^verbatim>\<open>nfct_event_forensics_tuple\<close> and its IPv6 form (\<open>None\<close> when
  the return value is not 1), \<open>feed\<close> and \<open>next\<close> for the message parser.
\<close>

section \<open>Data\<close>

datatype nfct_event_type = NFCT_EVENT_NEW | NFCT_EVENT_UPDATE | NFCT_EVENT_DESTROY | NFCT_EVENT_OTHER

text \<open>The fields of \<^verbatim>\<open>nfct_event_t\<close> that \<^verbatim>\<open>flow_correlate.c\<close> and \<^verbatim>\<open>flow_acct.c\<close> read.\<close>

record nfct_event =
  ne_type :: nfct_event_type
  ne_is_destroy :: bool
  ne_has_id :: bool
  ne_id :: u32
  ne_has_lan :: bool
  ne_has_wan :: bool
  ne_is_ipv6 :: bool
  ne_protocol :: u8
  ne_lan_src_ip :: u32
  ne_lan_dst_ip :: u32
  ne_wan_src_ip :: u32
  ne_lan_src_ip6 :: bytes
  ne_lan_dst_ip6 :: bytes
  ne_wan_src_ip6 :: bytes
  ne_wan_dst_ip6 :: bytes
  ne_lan_src_port :: u16
  ne_lan_dst_port :: u16
  ne_wan_src_port :: u16
  ne_has_counters :: bool
  ne_orig_packets :: u64
  ne_orig_bytes :: u64
  ne_reply_packets :: u64
  ne_reply_bytes :: u64

record ipfix_flow_key =
  fk_src_ipv4 :: u32
  fk_dst_ipv4 :: u32
  fk_src_port :: u16
  fk_dst_port :: u16
  fk_protocol :: u8
  fk_has_start_ms :: bool
  fk_flow_start_ms :: u64
  fk_has_5tuple :: bool

record nf_flow_obs =
  ts_ms :: u64
  src_ip :: u32
  dst_ip :: u32
  src_port :: u16
  dst_port :: u16
  protocol :: u8
  wan_src_ip :: u32
  wan_src_port :: u16
  src_ip6 :: bytes
  dst_ip6 :: bytes
  wan_src_ip6 :: bytes
  wan_dst_ip6 :: bytes
  router_id :: string
  from_cpe :: bool
  is_ipv6 :: bool
  is_destroy :: bool
  has_ct_id :: bool
  ct_id :: u32
  event :: string

definition zero16 :: bytes where
  "zero16 = replicate 16 0"

text \<open>\<^verbatim>\<open>memset(out, 0, sizeof(*out))\<close>\<close>

definition obs_zero :: nf_flow_obs where
  "obs_zero = \<lparr> ts_ms = 0, src_ip = 0, dst_ip = 0, src_port = 0, dst_port = 0, protocol = 0,
     wan_src_ip = 0, wan_src_port = 0, src_ip6 = zero16, dst_ip6 = zero16, wan_src_ip6 = zero16,
     wan_dst_ip6 = zero16, router_id = [], from_cpe = False, is_ipv6 = False, is_destroy = False,
     has_ct_id = False, ct_id = 0, event = [] \<rparr>"

section \<open>Operations\<close>

text \<open>
  Result: \<open>Some out\<close> when the C function returns 0, \<open>None\<close> when it returns -1 (the
  callers never read the output then).
\<close>

definition nf_obs_from_ipfix ::
  "('rec \<Rightarrow> ipfix_flow_key option) \<Rightarrow> 'rec option \<Rightarrow> string option \<Rightarrow> u64 \<Rightarrow> nf_flow_obs option" where
  "nf_obs_from_ipfix flow_key rec rid fallback_ts_ms =
     (case rec of None \<Rightarrow> None
      | Some r \<Rightarrow>
        (case flow_key r of None \<Rightarrow> None
         | Some key \<Rightarrow>
           (let out = obs_zero\<lparr> src_ip := fk_src_ipv4 key, dst_ip := fk_dst_ipv4 key,
                        src_port := fk_src_port key, dst_port := fk_dst_port key,
                        protocol := fk_protocol key,
                        ts_ms := (if fk_has_start_ms key then fk_flow_start_ms key else fallback_ts_ms),
                        from_cpe := False \<rparr>;
                out = (case rid of None \<Rightarrow> out | Some s \<Rightarrow> out\<lparr> router_id := cstr 64 s \<rparr>)
            in if fk_has_5tuple key then Some out else None)))"

fun nfct_obs_event :: "nfct_event_type \<Rightarrow> string" where
  "nfct_obs_event NFCT_EVENT_NEW = ''NEW''"
| "nfct_obs_event NFCT_EVENT_UPDATE = ''UPDATE''"
| "nfct_obs_event NFCT_EVENT_DESTROY = ''DESTROY''"
| "nfct_obs_event NFCT_EVENT_OTHER = ''PARTIAL''"

type_synonym tuple4 = "u32 \<times> u16 \<times> u32 \<times> u16 \<times> u8"
type_synonym tuple6 = "bytes \<times> u16 \<times> bytes \<times> u16 \<times> u8"

definition nf_obs_from_nfct ::
  "(nfct_event \<Rightarrow> tuple4 option) \<Rightarrow> (nfct_event \<Rightarrow> tuple6 option) \<Rightarrow>
   nfct_event option \<Rightarrow> string option \<Rightarrow> u64 \<Rightarrow> nf_flow_obs option" where
  "nf_obs_from_nfct t4 t6 evp rid ts =
     (case evp of None \<Rightarrow> None
      | Some ev \<Rightarrow>
        (let out = obs_zero\<lparr> ts_ms := ts, from_cpe := True,
                     is_destroy := (ne_is_destroy ev \<or> ne_type ev = NFCT_EVENT_DESTROY),
                     has_ct_id := ne_has_id ev, ct_id := ne_id ev,
                     event := nfct_obs_event (ne_type ev) \<rparr>;
             out = (case rid of None \<Rightarrow> out | Some s \<Rightarrow> out\<lparr> router_id := cstr 64 s \<rparr>)
         in if is_destroy out \<and> \<not> ne_has_lan ev \<and> \<not> ne_has_wan ev \<and> ne_has_id ev
            then Some (out\<lparr> protocol := 0 \<rparr>)
            else if ne_is_ipv6 ev
            then (case t6 ev of None \<Rightarrow> None
                  | Some (lan, lp, wan, wp, proto) \<Rightarrow>
                      Some (out\<lparr> is_ipv6 := True, src_ip6 := lan, wan_src_ip6 := wan,
                                 dst_ip6 := ne_lan_dst_ip6 ev, wan_dst_ip6 := ne_wan_dst_ip6 ev,
                                 src_port := lp, wan_src_port := wp,
                                 dst_port := ne_lan_dst_port ev, protocol := proto \<rparr>))
            else (case t4 ev of None \<Rightarrow> None
                  | Some (lan, lp, wan, wp, proto) \<Rightarrow>
                      Some (out\<lparr> src_ip := lan, src_port := lp, dst_ip := ne_lan_dst_ip ev,
                                 dst_port := ne_lan_dst_port ev, wan_src_ip := wan,
                                 wan_src_port := wp, protocol := proto \<rparr>))))"

text \<open>The loop that looks for a non-zero byte of the destination.\<close>

fun dst_zero :: "bytes \<Rightarrow> bool" where
  "dst_zero [] = True"
| "dst_zero (b # bs) = (if b \<noteq> 0 then False else dst_zero bs)"

definition nf_flows_correlate ::
  "nf_flow_obs option \<Rightarrow> nf_flow_obs option \<Rightarrow> u64 \<Rightarrow> int" where
  "nf_flows_correlate cpep corep max_skew_ms =
     (case (cpep, corep) of
        (Some cpe, Some core) \<Rightarrow>
          if \<not> from_cpe cpe \<or> from_cpe core then -1
          else if is_ipv6 cpe \<noteq> is_ipv6 core then 0
          else if protocol cpe \<noteq> protocol core then 0
          else if is_ipv6 cpe \<and> wan_src_ip6 cpe \<noteq> src_ip6 core then 0
          else if is_ipv6 cpe \<and> wan_src_port cpe \<noteq> src_port core then 0
          else if is_ipv6 cpe \<and> \<not> dst_zero (dst_ip6 cpe) \<and> dst_ip6 cpe \<noteq> dst_ip6 core then 0
          else if \<not> is_ipv6 cpe \<and> (wan_src_ip cpe \<noteq> src_ip core \<or> wan_src_port cpe \<noteq> src_port core)
            then 0
          else if \<not> is_ipv6 cpe \<and> dst_ip cpe \<noteq> 0 \<and> dst_ip core \<noteq> 0 \<and> dst_ip cpe \<noteq> dst_ip core
            then 0
          else (let dt = (if ts_ms cpe > ts_ms core then ts_ms cpe - ts_ms core
                          else ts_ms core - ts_ms cpe)
                in if dt > max_skew_ms then 0 else 1)
      | _ \<Rightarrow> -1)"

fun ipv6_hex :: "bytes \<Rightarrow> string" where
  "ipv6_hex (a # b # c # rest) = hex2 a @ hex2 b @ '':'' @ ipv6_hex (c # rest)"
| "ipv6_hex [a, b] = hex2 a @ hex2 b"
| "ipv6_hex [a] = hex2 a"
| "ipv6_hex [] = []"

definition dotted :: "u32 \<Rightarrow> string" where
  "dotted ip = u32_dec (octet 3 ip) @ ''.'' @ u32_dec (octet 2 ip) @ ''.'' @
     u32_dec (octet 1 ip) @ ''.'' @ u32_dec (octet 0 ip)"

definition ct_id_suffix :: "nf_flow_obs \<Rightarrow> string" where
  \<open>ct_id_suffix obs = (if has_ct_id obs then '',"ct_id":'' @ u32_dec (ct_id obs) @ ''}'' else ''}'')\<close>

definition cpe_nat_head :: "nf_flow_obs \<Rightarrow> string" where
  \<open>cpe_nat_head obs = ''{"type":"cpe_nat","event":"'' @ str_or (event obs) ''NEW'' @
     ''","router":"'' @ router_id obs @ ''","ts":'' @ u64_dec (ts_ms obs)\<close>

text \<open>The text the \<^verbatim>\<open>snprintf\<close> calls of \<^verbatim>\<open>nf_obs_format\<close> produce, before truncation.\<close>

definition nf_obs_text :: "nf_flow_obs \<Rightarrow> string" where
  \<open>nf_obs_text obs =
     (if from_cpe obs then
        if is_destroy obs \<and> src_port obs = 0 \<and> wan_src_port obs = 0 \<and> has_ct_id obs then
          ''{"type":"cpe_nat","event":"DESTROY","router":"'' @ router_id obs @
          ''","ts":'' @ u64_dec (ts_ms obs) @ '',"ct_id":'' @ u32_dec (ct_id obs) @ ''}''
        else if is_ipv6 obs then
          cpe_nat_head obs @ '',"ip_version":6,"lan":"['' @ cstr 48 (ipv6_hex (src_ip6 obs)) @ '']:'' @
          u16_dec (src_port obs) @ ''","wan":"['' @ cstr 48 (ipv6_hex (wan_src_ip6 obs)) @ '']:'' @
          u16_dec (wan_src_port obs) @ ''","proto":'' @ u8_dec (protocol obs) @ ct_id_suffix obs
        else
          cpe_nat_head obs @ '',"ip_version":4,"lan":"'' @ dotted (src_ip obs) @ '':'' @
          u16_dec (src_port obs) @ ''","wan":"'' @ dotted (wan_src_ip obs) @ '':'' @
          u16_dec (wan_src_port obs) @ ''","proto":'' @ u8_dec (protocol obs) @ ct_id_suffix obs
      else
        ''{"type":"ipfix","router":"'' @ router_id obs @ ''","ts":'' @ u64_dec (ts_ms obs) @
        '',"flow":"'' @ dotted (src_ip obs) @ '':'' @ u16_dec (src_port obs) @ ''>'' @
        dotted (dst_ip obs) @ '':'' @ u16_dec (dst_port obs) @
        ''","proto":'' @ u8_dec (protocol obs) @ ''}'')\<close>

text \<open>
  Returns 0 with the buffer contents. The return value of \<^verbatim>\<open>snprintf\<close> is ignored, so a
  text that does not fit is cut at \<open>buflen - 1\<close> characters and still reported as success.
\<close>

definition nf_obs_format :: "nf_flow_obs option \<Rightarrow> nat \<Rightarrow> string option" where
  "nf_obs_format obsp buflen =
     (case obsp of None \<Rightarrow> None
      | Some obs \<Rightarrow> if buflen < 32 then None else Some (cstr buflen (nf_obs_text obs)))"

section \<open>IPFIX ingest\<close>

datatype 'rec ipfix_event = IPFIX_DATA_RECORD 'rec u32 | IPFIX_OTHER

text \<open>
  The loop of \<^verbatim>\<open>nf_ipfix_collect_flows\<close>. \<open>next\<close> is \<^verbatim>\<open>ipfix_next_event\<close>: \<open>None\<close>
  when it does not return 1. Each call takes one event from the parser's queue; the loop is
  a partial function because the queue is the library's.
\<close>

partial_function (option) ipfix_drain ::
  "('ctx \<Rightarrow> ('rec ipfix_event \<times> 'ctx) option) \<Rightarrow> ('rec \<Rightarrow> ipfix_flow_key option) \<Rightarrow>
   string option \<Rightarrow> nat \<Rightarrow> 'ctx \<Rightarrow> nf_flow_obs list \<Rightarrow> ('ctx \<times> nf_flow_obs list) option" where
  "ipfix_drain next flow_key rid max_out ctx out =
     (case next ctx of None \<Rightarrow> Some (ctx, out)
      | Some (ev, ctx') \<Rightarrow>
        (case ev of
           IPFIX_OTHER \<Rightarrow> ipfix_drain next flow_key rid max_out ctx' out
         | IPFIX_DATA_RECORD r export_time \<Rightarrow>
             if max_out \<le> length out then Some (ctx', out)
             else (case nf_obs_from_ipfix flow_key (Some r) rid (ucast export_time * 1000) of
                     Some obs \<Rightarrow> ipfix_drain next flow_key rid max_out ctx' (out @ [obs])
                   | None \<Rightarrow> ipfix_drain next flow_key rid max_out ctx' out)))"

text \<open>\<open>Some (Inl ())\<close> is the return value -1; \<open>Some (Inr (ctx, out))\<close> returns \<open>length out\<close>.\<close>

definition nf_ipfix_collect_flows ::
  "('ctx \<Rightarrow> bytes \<Rightarrow> bool \<times> 'ctx) \<Rightarrow> ('ctx \<Rightarrow> ('rec ipfix_event \<times> 'ctx) option) \<Rightarrow>
   ('rec \<Rightarrow> ipfix_flow_key option) \<Rightarrow> 'ctx \<Rightarrow> bytes \<Rightarrow> string option \<Rightarrow> nat \<Rightarrow>
   (unit + 'ctx \<times> nf_flow_obs list) option" where
  "nf_ipfix_collect_flows feed next flow_key ctx msg rid max_out =
     (if max_out = 0 then Some (Inl ())
      else let (ok, ctx') = feed ctx msg
           in if \<not> ok then Some (Inl ())
              else map_option Inr (ipfix_drain next flow_key rid max_out ctx' []))"

lemmas correlate_defs [cdefs] =
  zero16_def obs_zero_def nf_obs_from_ipfix_def nf_obs_from_nfct_def nf_flows_correlate_def
  dotted_def ct_id_suffix_def cpe_nat_head_def nf_obs_text_def nf_obs_format_def
  nf_ipfix_collect_flows_def str_or_def cstr_def

section \<open>Correlation\<close>

text \<open>
  What a match means: same address family and protocol, the post-NAT source of the CPE
  record is the source of the core record, the destinations do not contradict each other,
  and the time stamps differ by at most the allowed skew (as numbers, without wrap-around).
\<close>

definition wan_endpoint_match :: "nf_flow_obs \<Rightarrow> nf_flow_obs \<Rightarrow> bool" where
  "wan_endpoint_match cpe core \<longleftrightarrow> wan_src_port cpe = src_port core \<and>
     (if is_ipv6 cpe then wan_src_ip6 cpe = src_ip6 core else wan_src_ip cpe = src_ip core)"

definition dst_compatible :: "nf_flow_obs \<Rightarrow> nf_flow_obs \<Rightarrow> bool" where
  "dst_compatible cpe core \<longleftrightarrow>
     (if is_ipv6 cpe then (\<forall>b \<in> set (dst_ip6 cpe). b = 0) \<or> dst_ip6 cpe = dst_ip6 core
      else dst_ip cpe = 0 \<or> dst_ip core = 0 \<or> dst_ip cpe = dst_ip core)"

definition skew_le :: "u64 \<Rightarrow> u64 \<Rightarrow> u64 \<Rightarrow> bool" where
  "skew_le a b d \<longleftrightarrow> unat a \<le> unat b + unat d \<and> unat b \<le> unat a + unat d"

lemma dst_zero_iff: "dst_zero bs \<longleftrightarrow> (\<forall>b \<in> set bs. b = 0)"
  by (induction bs) auto

lemma abs_diff_skew:
  fixes a b d :: u64
  shows "(if a > b then a - b else b - a) > d \<longleftrightarrow> \<not> skew_le a b d"
proof (cases "a > b")
  case True
  then have "unat (a - b) = unat a - unat b" and "unat b < unat a"
    by (simp add: unat_sub, simp add: word_less_nat_alt)
  with True show ?thesis by (auto simp: skew_le_def word_less_nat_alt)
next
  case False
  then have "unat (b - a) = unat b - unat a" and "unat a \<le> unat b"
    by (simp add: unat_sub not_less, simp add: word_le_nat_alt not_less)
  with False show ?thesis by (auto simp: skew_le_def word_less_nat_alt)
qed

lemma correlate_result:
  "nf_flows_correlate (Some cpe) (Some core) skew =
     (if \<not> from_cpe cpe \<or> from_cpe core then -1
      else if is_ipv6 cpe = is_ipv6 core \<and> protocol cpe = protocol core \<and>
              wan_endpoint_match cpe core \<and> dst_compatible cpe core \<and>
              skew_le (ts_ms cpe) (ts_ms core) skew
           then 1 else 0)"
  unfolding nf_flows_correlate_def Let_def abs_diff_skew option.case prod.case
  by (auto simp: wan_endpoint_match_def dst_compatible_def dst_zero_iff)

section \<open>Formatting\<close>

text \<open>The sizes the C struct enforces.\<close>

definition obs_wf :: "nf_flow_obs \<Rightarrow> bool" where
  "obs_wf obs \<longleftrightarrow> length (router_id obs) < 64 \<and> length (event obs) < 16 \<and>
     length (src_ip6 obs) = 16 \<and> length (dst_ip6 obs) = 16 \<and>
     length (wan_src_ip6 obs) = 16 \<and> length (wan_dst_ip6 obs) = 16"

lemma obs_zero_wf: "obs_wf obs_zero"
  by (simp add: obs_wf_def obs_zero_def zero16_def)

lemma nfct_obs_event_length: "length (nfct_obs_event t) < 16"
  by (cases t) auto

lemma obs_from_ipfix_wf: "nf_obs_from_ipfix fk r rid ts = Some obs \<Longrightarrow> obs_wf obs"
  by (auto simp: nf_obs_from_ipfix_def Let_def obs_wf_def obs_zero_def zero16_def length_cstr_less
      split: option.splits if_splits)

lemma obs_from_ipfix_v4:
  "nf_obs_from_ipfix fk r rid ts = Some obs \<Longrightarrow> \<not> is_ipv6 obs \<and> \<not> from_cpe obs"
  by (auto simp: nf_obs_from_ipfix_def Let_def obs_zero_def split: option.splits if_splits)

lemma length_dotted: "length (dotted ip) \<le> 15"
proof -
  have l: "length (u32_dec (octet k ip)) \<le> 3" for k by (rule length_octet_dec)
  show ?thesis unfolding dotted_def using l[of 0] l[of 1] l[of 2] l[of 3] by simp
qed

lemma length_ct_id_suffix: "length (ct_id_suffix obs) \<le> 20"
  using length_u32_dec[of "ct_id obs"] by (simp add: ct_id_suffix_def)

lemma length_cpe_nat_head: "obs_wf obs \<Longrightarrow> length (cpe_nat_head obs) \<le> 144"
  using length_u64_dec[of "ts_ms obs"]
  by (auto simp: cpe_nat_head_def obs_wf_def str_or_def)

lemma length_nf_obs_text: "obs_wf obs \<Longrightarrow> length (nf_obs_text obs) \<le> 340"
  using length_cpe_nat_head[of obs] length_ct_id_suffix[of obs]
    length_dotted[of "src_ip obs"] length_dotted[of "wan_src_ip obs"] length_dotted[of "dst_ip obs"]
    length_u16_dec[of "src_port obs"] length_u16_dec[of "wan_src_port obs"]
    length_u16_dec[of "dst_port obs"] length_u8_dec[of "protocol obs"]
    length_u64_dec[of "ts_ms obs"] length_u32_dec[of "ct_id obs"]
    length_cstr_le[of 48 "ipv6_hex (src_ip6 obs)"] length_cstr_le[of 48 "ipv6_hex (wan_src_ip6 obs)"]
  by (auto simp: nf_obs_text_def obs_wf_def)

lemma line_safe_ipv6_hex [simp]: "line_safe (ipv6_hex a)"
  by (induction a rule: ipv6_hex.induct) auto

lemma length_ipv6_hex: "length (ipv6_hex a) = 2 * length a + (length a - 1) div 2"
  by (induction a rule: ipv6_hex.induct) auto

lemma line_safe_dotted [simp]: "line_safe (dotted ip)"
  by (simp add: dotted_def)

lemma line_safe_nf_obs_text:
  "line_safe (router_id obs) \<Longrightarrow> line_safe (event obs) \<Longrightarrow> line_safe (nf_obs_text obs)"
  by (simp add: nf_obs_text_def cpe_nat_head_def ct_id_suffix_def fmt_chars)

lemma nf_obs_text_braces: "hd (nf_obs_text obs) = CHR ''{'' \<and> last (nf_obs_text obs) = CHR ''}''"
  by (simp add: nf_obs_text_def cpe_nat_head_def ct_id_suffix_def)

section \<open>IPFIX ingest\<close>

text \<open>The observations a list of parser events stands for.\<close>

fun ipfix_obs :: "('rec \<Rightarrow> ipfix_flow_key option) \<Rightarrow> string option \<Rightarrow> 'rec ipfix_event list \<Rightarrow> nf_flow_obs list" where
  "ipfix_obs fk rid [] = []"
| "ipfix_obs fk rid (IPFIX_OTHER # es) = ipfix_obs fk rid es"
| "ipfix_obs fk rid (IPFIX_DATA_RECORD r t # es) =
     (case nf_obs_from_ipfix fk (Some r) rid (ucast t * 1000) of
        Some ob \<Rightarrow> ob # ipfix_obs fk rid es | None \<Rightarrow> ipfix_obs fk rid es)"

lemma ipfix_drain_take:
  assumes "yields nx c es" "length out \<le> m"
  shows "\<exists>c'. ipfix_drain nx fk rid m c out = Some (c', take m (out @ ipfix_obs fk rid es))"
  using assms
proof (induction es arbitrary: c out)
  case Nil
  then show ?case by (simp add: ipfix_drain.simps)
next
  case (Cons e es)
  from Cons.prems(1) obtain c' where nx: "nx c = Some (e, c')" and y: "yields nx c' es"
    by (rule yields_ConsE)
  note IH = Cons.IH[OF y]
  show ?case
  proof (cases e)
    case IPFIX_OTHER
    with nx IH[OF Cons.prems(2)] show ?thesis by (simp add: ipfix_drain.simps[of nx fk rid m c])
  next
    case (IPFIX_DATA_RECORD r t)
    show ?thesis
    proof (cases "m \<le> length out")
      case True
      with Cons.prems(2) nx IPFIX_DATA_RECORD show ?thesis
        by (simp add: ipfix_drain.simps[of nx fk rid m c])
    next
      case False
      then show ?thesis
        using IH[of out] IH[of "out @ [_]"] nx IPFIX_DATA_RECORD
        by (auto simp: ipfix_drain.simps[of nx fk rid m c] split: option.split)
    qed
  qed
qed

section \<open>Properties\<close>


text \<open>every well-formed observation fits the agent's 768-byte line buffer (341 bytes are
  enough), so \<^verbatim>\<open>nf_obs_format\<close>, which ignores truncation, always delivers the whole JSON
  object on a single line when the router id and event name contain no line feed.\<close>

theorem nf_obs_format_complete:
  assumes "obs_wf obs" "line_safe (router_id obs)" "line_safe (event obs)" "341 \<le> n"
  shows "nf_obs_format (Some obs) n = Some (nf_obs_text obs) \<and>
    length (nf_obs_text obs) < n \<and> line_safe (nf_obs_text obs) \<and>
    hd (nf_obs_text obs) = CHR ''{'' \<and> last (nf_obs_text obs) = CHR ''}''"
proof -
  have l: "length (nf_obs_text obs) < n" using length_nf_obs_text[OF assms(1)] assms(4) by simp
  then have "cstr n (nf_obs_text obs) = nf_obs_text obs" by (rule cstr_fits)
  with l assms line_safe_nf_obs_text nf_obs_text_braces show ?thesis
    by (simp add: nf_obs_format_def)
qed

definition sample_nat_event :: nfct_event where
  "sample_nat_event = \<lparr> ne_type = NFCT_EVENT_NEW, ne_is_destroy = False, ne_has_id = True, ne_id = 7,
     ne_has_lan = True, ne_has_wan = True, ne_is_ipv6 = False, ne_protocol = 6,
     ne_lan_src_ip = 0xC0A80164, ne_lan_dst_ip = 0x01010101, ne_wan_src_ip = 0xCB007109,
     ne_lan_src_ip6 = zero16, ne_lan_dst_ip6 = zero16, ne_wan_src_ip6 = zero16,
     ne_wan_dst_ip6 = zero16, ne_lan_src_port = 40000, ne_lan_dst_port = 443,
     ne_wan_src_port = 50000, ne_has_counters = False, ne_orig_packets = 0, ne_orig_bytes = 0,
     ne_reply_packets = 0, ne_reply_bytes = 0 \<rparr>"

definition sample_key :: ipfix_flow_key where
  "sample_key = \<lparr> fk_src_ipv4 = 0xCB007109, fk_dst_ipv4 = 0x01010101, fk_src_port = 50000,
     fk_dst_port = 443, fk_protocol = 6, fk_has_start_ms = True, fk_flow_start_ms = 1200,
     fk_has_5tuple = True \<rparr>"

theorem nf_obs_format_complete_witness:
  "nf_obs_format (Some obs_zero) 768 = Some (nf_obs_text obs_zero)"
  using nf_obs_format_complete[of obs_zero 768] by (simp add: obs_zero_wf) (simp add: obs_zero_def)

text \<open>collecting one IPFIX message returns, in order, the first \<^verbatim>\<open>max_out\<close> flow
  observations among the events the parser queued, skips every other event and every record
  without a 5-tuple, and terminates whenever the parser's queue is finite.\<close>

theorem nf_ipfix_collect_flows_spec:
  assumes "feed ctx msg = (True, ctx')" "yields nx ctx' evs" "0 < max_out"
  shows "\<exists>ctx''. nf_ipfix_collect_flows feed nx fk ctx msg rid max_out =
    Some (Inr (ctx'', take max_out (ipfix_obs fk rid evs)))"
  using ipfix_drain_take[OF assms(2), of "[]" max_out fk rid] assms
  by (auto simp: nf_ipfix_collect_flows_def)

theorem nf_ipfix_collect_flows_spec_witness:
  "\<exists>c. nf_ipfix_collect_flows (\<lambda>q m. (True, q)) list_next Some
     [IPFIX_OTHER, IPFIX_DATA_RECORD sample_key 1, IPFIX_DATA_RECORD sample_key 2] [] None 1 =
   Some (Inr (c, [the (nf_obs_from_ipfix Some (Some sample_key) None 1000)]))"
  using nf_ipfix_collect_flows_spec[of "\<lambda>q m. (True, q)"
      "[IPFIX_OTHER, IPFIX_DATA_RECORD sample_key 1, IPFIX_DATA_RECORD sample_key 2]" "[]"
      "[IPFIX_OTHER, IPFIX_DATA_RECORD sample_key 1, IPFIX_DATA_RECORD sample_key 2]"
      list_next "[IPFIX_OTHER, IPFIX_DATA_RECORD sample_key 1, IPFIX_DATA_RECORD sample_key 2]" 1 Some None]
  by (simp add: nf_obs_from_ipfix_def sample_key_def Let_def)

text \<open>the whole IPv4 path. A conntrack event with a translated tuple and the IPFIX record of
  the same connection, exported with the translated source, correlate when their time stamps are
  within the skew.\<close>

theorem nat_event_correlates_with_core_record:
  assumes "\<not> ne_is_ipv6 ev" "ne_has_lan ev"
    and "t4 ev = Some (lan, lp, wan, wp, proto)"
    and "fk r = Some key" "fk_has_5tuple key"
    and "fk_src_ipv4 key = wan" "fk_src_port key = wp" "fk_protocol key = proto"
    and "fk_dst_ipv4 key = ne_lan_dst_ip ev"
    and "fk_has_start_ms key"
    and "skew_le ts (fk_flow_start_ms key) skew"
  shows "nf_flows_correlate (nf_obs_from_nfct t4 t6 (Some ev) rid ts)
           (nf_obs_from_ipfix fk (Some r) rid' fb) skew = 1"
  using assms
  by (simp add: nf_obs_from_nfct_def nf_obs_from_ipfix_def Let_def correlate_result obs_zero_def
      wan_endpoint_match_def dst_compatible_def split: option.split)

theorem nat_event_correlates_with_core_record_witness:
  "nf_flows_correlate
     (nf_obs_from_nfct (\<lambda>e. Some (ne_lan_src_ip e, ne_lan_src_port e, ne_wan_src_ip e, ne_wan_src_port e, ne_protocol e))
        (\<lambda>_. None) (Some sample_nat_event) (Some ''cpe-1'') 1000)
     (nf_obs_from_ipfix Some (Some sample_key) None 0) 500 = 1"
  by (rule nat_event_correlates_with_core_record[where key = sample_key and lan = "0xC0A80164" and
        lp = 40000 and wan = "0xCB007109" and wp = 50000 and proto = 6])
    (simp_all add: sample_nat_event_def sample_key_def skew_le_def)

text \<open>an IPv6 conntrack observation never correlates with anything the IPFIX ingest
  produces, because \<^verbatim>\<open>nf_obs_from_ipfix\<close> fills the IPv4 fields only and never sets
  \<^verbatim>\<open>is_ipv6\<close>: the IPv6 branch of the correlator is dead on this path.\<close>

theorem ipv6_nat_never_correlates_with_ipfix:
  assumes "nf_obs_from_nfct t4 t6 (Some ev) rid ts = Some cpe" "is_ipv6 cpe"
  shows "nf_flows_correlate (Some cpe) (nf_obs_from_ipfix fk r rid' fb) skew \<noteq> 1"
proof (cases "nf_obs_from_ipfix fk r rid' fb")
  case None
  then show ?thesis by (simp add: nf_flows_correlate_def)
next
  case (Some core)
  with obs_from_ipfix_v4[OF Some] assms(2) show ?thesis by (simp add: correlate_result)
qed

theorem ipv6_nat_never_correlates_with_ipfix_witness:
  "nf_flows_correlate
     (nf_obs_from_nfct (\<lambda>_. None) (\<lambda>e. Some (ne_lan_src_ip6 e, 1, ne_wan_src_ip6 e, 2, 6))
        (Some (sample_nat_event\<lparr>ne_is_ipv6 := True\<rparr>)) None 0)
     (nf_obs_from_ipfix Some (Some sample_key) None 0) 500 \<noteq> 1"
  using ipv6_nat_never_correlates_with_ipfix[of "\<lambda>_. None" "\<lambda>e. Some (ne_lan_src_ip6 e, 1, ne_wan_src_ip6 e, 2, 6)"
      "sample_nat_event\<lparr>ne_is_ipv6 := True\<rparr>" None 0 _ Some "Some sample_key" None 0 500]
  by (simp add: nf_obs_from_nfct_def sample_nat_event_def Let_def)

end
