(* ===== verification/Flow_Acct.thy ===== *)
theory Flow_Acct
  imports Flow_Correlate Inet Clock Doubles "HOL-Library.Multiset"
begin

text \<open>
  \<^verbatim>\<open>agent/flow_acct.c\<close>, the part that works on \<^verbatim>\<open>cpe_flow_entry_t\<close> and the flow table:
  building an entry from a conntrack event, choosing its slot, merging it, the rates and the
  NDJSON record. The functions of that file that take the agent are in \<open>Agent_Flow\<close>.
\<close>

section \<open>Data\<close>

record cpe_flow_entry =
  fe_flow_id :: string
  fe_ct_id :: u32
  fe_has_ct_id :: bool
  fe_proto :: u8
  fe_ip_version :: u8
  fe_lan_ip :: string
  fe_lan_port :: u16
  fe_wan_ip :: string
  fe_wan_port :: u16
  fe_remote_ip :: string
  fe_remote_port :: u16
  fe_orig_pkts :: u64
  fe_orig_bytes :: u64
  fe_reply_pkts :: u64
  fe_reply_bytes :: u64
  fe_bytes_up :: u64
  fe_bytes_down :: u64
  fe_bytes_up_delta :: u64
  fe_bytes_down_delta :: u64
  fe_rate_up_bps :: double
  fe_rate_down_bps :: double
  fe_first_seen_ms :: u64
  fe_last_seen_ms :: u64
  fe_state :: string
  fe_alive :: bool
  fe_used :: bool

record cpe_flow_state =
  fs_fd :: int
  fs_dump_fd :: int
  fs_enabled :: bool
  fs_open_ok :: bool
  fs_join_update :: bool
  fs_emit_destroy :: bool
  fs_emit_new :: bool
  fs_poll_interval_ms :: u32
  fs_dump_interval_ms :: u32
  fs_sample_emit_ms :: u32
  fs_sample_top_n :: u32
  fs_max_flows :: u32
  fs_last_dump_ms :: u64
  fs_last_sample_ms :: u64
  fs_last_tick_ms :: u64
  fs_events_in :: u64
  fs_destroys_emitted :: u64
  fs_samples_emitted :: u64
  fs_dumps :: u64
  fs_warned_no_acct :: bool
  fs_open_err :: string
  fs_table :: "cpe_flow_entry list"
  fs_table_used :: u32

record cpe_flow_snapshot =
  fsn_events_in :: u64
  fsn_destroys_emitted :: u64
  fsn_samples_emitted :: u64
  fsn_dumps :: u64
  fsn_open_ok :: bool
  fsn_open_err :: string
  fsn_ts_iso :: string
  fsn_flows :: "cpe_flow_entry list"

definition entry0 :: cpe_flow_entry where
  "entry0 = \<lparr> fe_flow_id = [], fe_ct_id = 0, fe_has_ct_id = False, fe_proto = 0, fe_ip_version = 0,
     fe_lan_ip = [], fe_lan_port = 0, fe_wan_ip = [], fe_wan_port = 0, fe_remote_ip = [], fe_remote_port = 0,
     fe_orig_pkts = 0, fe_orig_bytes = 0, fe_reply_pkts = 0, fe_reply_bytes = 0, fe_bytes_up = 0,
     fe_bytes_down = 0, fe_bytes_up_delta = 0, fe_bytes_down_delta = 0, fe_rate_up_bps = 0,
     fe_rate_down_bps = 0, fe_first_seen_ms = 0, fe_last_seen_ms = 0, fe_state = [], fe_alive = False,
     fe_used = False \<rparr>"

text \<open>\<^verbatim>\<open>CPE_FLOW_MAX\<close> is 1024. The unused field \<^verbatim>\<open>emit_nat\<close> is left out.\<close>

definition cpe_flow_state_init :: cpe_flow_state where
  "cpe_flow_state_init = \<lparr> fs_fd = -1, fs_dump_fd = -1, fs_enabled = False, fs_open_ok = False,
     fs_join_update = True, fs_emit_destroy = True, fs_emit_new = False, fs_poll_interval_ms = 200,
     fs_dump_interval_ms = 200, fs_sample_emit_ms = 2000, fs_sample_top_n = 32, fs_max_flows = 1024,
     fs_last_dump_ms = 0, fs_last_sample_ms = 0, fs_last_tick_ms = 0, fs_events_in = 0,
     fs_destroys_emitted = 0, fs_samples_emitted = 0, fs_dumps = 0, fs_warned_no_acct = False,
     fs_open_err = [], fs_table = replicate 1024 entry0, fs_table_used = 0 \<rparr>"

section \<open>Entries\<close>

definition ipv4_str :: "u32 \<Rightarrow> string" where
  "ipv4_str host_order = inet_ntop4 (htonl host_order)"

definition ipv6_str :: "bytes \<Rightarrow> string" where
  "ipv6_str addr = inet_ntop6 addr"

definition fnv1a :: "bytes \<Rightarrow> u32 \<Rightarrow> u32" where
  "fnv1a data h = foldl (\<lambda>h b. (h XOR ucast b) * 16777619) (if h = 0 then 2166136261 else h) data"

text \<open>The memory of a string without its NUL and of little-endian integers.\<close>

definition str_bytes :: "string \<Rightarrow> bytes" where
  "str_bytes s = map of_char s"

definition u16_mem :: "u16 \<Rightarrow> bytes" where
  "u16_mem w = [ucast w, ucast (drop_bit 8 w)]"

definition u32_mem :: "u32 \<Rightarrow> bytes" where
  "u32_mem w = [ucast w, ucast (drop_bit 8 w), ucast (drop_bit 16 w), ucast (drop_bit 24 w)]"

definition flow_hash :: "cpe_flow_entry \<Rightarrow> u32" where
  "flow_hash e =
     (let h1 = fnv1a (str_bytes (fe_lan_ip e)) 0;
          h2 = fnv1a (u16_mem (fe_lan_port e)) h1;
          h3 = fnv1a (str_bytes (fe_remote_ip e)) h2;
          h4 = fnv1a (u16_mem (fe_remote_port e)) h3;
          h5 = fnv1a [fe_proto e] h4
      in if fe_has_ct_id e then fnv1a (u32_mem (fe_ct_id e)) h5 else h5)"

definition make_flow_id :: "cpe_flow_entry \<Rightarrow> string" where
  "make_flow_id e = cstr 20 (hex8 (flow_hash e))"

definition event_name :: "nfct_event_type \<Rightarrow> string" where
  "event_name t = (case t of NFCT_EVENT_NEW \<Rightarrow> ''NEW'' | NFCT_EVENT_UPDATE \<Rightarrow> ''UPDATE''
     | NFCT_EVENT_DESTROY \<Rightarrow> ''DESTROY'' | NFCT_EVENT_OTHER \<Rightarrow> ''OTHER'')"

definition entry_base :: "nfct_event \<Rightarrow> u64 \<Rightarrow> cpe_flow_entry" where
  "entry_base ev now =
     (let ip = (if ne_is_ipv6 ev then 6 else 4);
          lan = (if ne_is_ipv6 ev then ipv6_str (ne_lan_src_ip6 ev) else ipv4_str (ne_lan_src_ip ev));
          rem = (if ne_is_ipv6 ev then ipv6_str (ne_lan_dst_ip6 ev) else ipv4_str (ne_lan_dst_ip ev));
          wan = (if ne_is_ipv6 ev then ipv6_str (ne_wan_src_ip6 ev) else ipv4_str (ne_wan_src_ip ev));
          cnt = ne_has_counters ev
      in entry0\<lparr>fe_used := True, fe_alive := ne_type ev \<noteq> NFCT_EVENT_DESTROY, fe_proto := ne_protocol ev,
           fe_first_seen_ms := now, fe_last_seen_ms := now, fe_state := cstr 24 (event_name (ne_type ev)),
           fe_ct_id := (if ne_has_id ev then ne_id ev else 0), fe_has_ct_id := ne_has_id ev,
           fe_ip_version := ip, fe_lan_ip := lan, fe_remote_ip := rem, fe_wan_ip := wan,
           fe_lan_port := ne_lan_src_port ev, fe_remote_port := ne_lan_dst_port ev, fe_wan_port := ne_wan_src_port ev,
           fe_orig_pkts := (if cnt then ne_orig_packets ev else 0), fe_orig_bytes := (if cnt then ne_orig_bytes ev else 0),
           fe_reply_pkts := (if cnt then ne_reply_packets ev else 0), fe_reply_bytes := (if cnt then ne_reply_bytes ev else 0),
           fe_bytes_up := (if cnt then ne_orig_bytes ev else 0), fe_bytes_down := (if cnt then ne_reply_bytes ev else 0)\<rparr>)"

definition entry_from_event :: "nfct_event \<Rightarrow> u64 \<Rightarrow> cpe_flow_entry" where
  "entry_from_event ev now = (let e = entry_base ev now in e\<lparr>fe_flow_id := make_flow_id e\<rparr>)"

section \<open>Slots\<close>

definition slot_match :: "cpe_flow_entry \<Rightarrow> cpe_flow_entry \<Rightarrow> bool" where
  "slot_match key e \<longleftrightarrow>
     (fe_has_ct_id key \<and> fe_has_ct_id e \<and> fe_ct_id e = fe_ct_id key) \<or>
     (fe_proto e = fe_proto key \<and> fe_lan_port e = fe_lan_port key \<and> fe_remote_port e = fe_remote_port key \<and>
      fe_lan_ip e = fe_lan_ip key \<and> fe_remote_ip e = fe_remote_ip key)"

text \<open>The scan: index, first free slot, smallest last-seen time so far with its slot.\<close>

fun scan_slots ::
  "cpe_flow_entry \<Rightarrow> nat \<Rightarrow> cpe_flow_entry list \<Rightarrow> nat option \<Rightarrow> u64 \<Rightarrow> nat option \<Rightarrow> nat option" where
  "scan_slots key i [] free_i oldest oldest_i = (case free_i of Some f \<Rightarrow> Some f | None \<Rightarrow> oldest_i)"
| "scan_slots key i (e # es) free_i oldest oldest_i =
     (if \<not> fe_used e then scan_slots key (Suc i) es (case free_i of None \<Rightarrow> Some i | Some f \<Rightarrow> Some f) oldest oldest_i
      else if slot_match key e then Some i
      else if fe_last_seen_ms e < oldest then scan_slots key (Suc i) es free_i (fe_last_seen_ms e) (Some i)
      else scan_slots key (Suc i) es free_i oldest oldest_i)"

definition live_table :: "cpe_flow_state \<Rightarrow> cpe_flow_entry list" where
  \<comment> \<open>the slots \<^verbatim>\<open>i < st->max_flows && i < CPE_FLOW_MAX\<close>\<close>
  "live_table st = take (min (unat (fs_max_flows st)) 1024) (fs_table st)"

definition find_slot :: "cpe_flow_state \<Rightarrow> cpe_flow_entry \<Rightarrow> nat option" where
  "find_slot st key = scan_slots key 0 (live_table st) None 0xFFFFFFFFFFFFFFFF None"

definition u64_dbl :: "u64 \<Rightarrow> double" where
  "u64_dbl w = dbl (of_nat (unat w))"

definition update_rates :: "cpe_flow_entry \<Rightarrow> u64 \<Rightarrow> u64 \<Rightarrow> u64 \<Rightarrow> u64 \<Rightarrow> cpe_flow_entry" where
  "update_rates e prev_up prev_down prev_ms now_ms =
     (let dt = (if now_ms > prev_ms then now_ms - prev_ms else 0);
          up = (if fe_bytes_up e \<ge> prev_up then fe_bytes_up e - prev_up else fe_bytes_up e);
          down = (if fe_bytes_down e \<ge> prev_down then fe_bytes_down e - prev_down else fe_bytes_down e);
          e1 = e\<lparr>fe_bytes_up_delta := up, fe_bytes_down_delta := down\<rparr>
      in if dt > 0
         then e1\<lparr>fe_rate_up_bps := dbl (dbl (u64_dbl up * 8000) / u64_dbl dt),
                 fe_rate_down_bps := dbl (dbl (u64_dbl down * 8000) / u64_dbl dt)\<rparr>
         else e1)"

text \<open>The update of a used slot by the entry of a new event.\<close>

definition merge_slot :: "nfct_event \<Rightarrow> cpe_flow_entry \<Rightarrow> u64 \<Rightarrow> cpe_flow_entry \<Rightarrow> cpe_flow_entry" where
  "merge_slot ev tmp now slot =
     (let prev_up = fe_bytes_up slot; prev_down = fe_bytes_down slot; prev_ms = fe_last_seen_ms slot;
          s1 = slot\<lparr>fe_first_seen_ms := (if fe_first_seen_ms slot = 0 then now else fe_first_seen_ms slot),
                    fe_last_seen_ms := now\<rparr>;
          s2 = (if fe_has_ct_id tmp then s1\<lparr>fe_ct_id := fe_ct_id tmp, fe_has_ct_id := True\<rparr> else s1);
          s3 = (if fe_lan_ip tmp \<noteq> [] then s2\<lparr>fe_lan_ip := fe_lan_ip tmp, fe_lan_port := fe_lan_port tmp,
                  fe_remote_ip := fe_remote_ip tmp, fe_remote_port := fe_remote_port tmp, fe_wan_ip := fe_wan_ip tmp,
                  fe_wan_port := fe_wan_port tmp, fe_proto := fe_proto tmp, fe_ip_version := fe_ip_version tmp\<rparr>
                else s2);
          s4 = (if ne_has_counters ev then
                  update_rates (s3\<lparr>fe_orig_pkts := fe_orig_pkts tmp, fe_orig_bytes := fe_orig_bytes tmp,
                    fe_reply_pkts := fe_reply_pkts tmp, fe_reply_bytes := fe_reply_bytes tmp,
                    fe_bytes_up := fe_bytes_up tmp, fe_bytes_down := fe_bytes_down tmp\<rparr>) prev_up prev_down prev_ms now
                else s3);
          s5 = s4\<lparr>fe_state := cstr 24 (fe_state tmp)\<rparr>
      in if fe_flow_id s5 = [] then s5\<lparr>fe_flow_id := make_flow_id s5\<rparr> else s5)"

section \<open>Record\<close>

text \<open>\<open>None\<close> is the result -1. \<open>ts\<close> is the time stamp \<^verbatim>\<open>iso_now\<close> wrote.\<close>

definition flow_json :: "string \<Rightarrow> string \<Rightarrow> string \<Rightarrow> cpe_flow_entry \<Rightarrow> string" where
  \<open>flow_json ts rid evn e =
     ''{"type":"cpe_flow","ts":"'' @ ts @ ''","router_id":"'' @ rid @
     ''","event":"'' @ evn @ ''","flow_id":"'' @ str_or (fe_flow_id e) ''0'' @
     ''","ct_id":'' @ u32_dec (if fe_has_ct_id e then fe_ct_id e else 0) @ '',"proto":'' @ u8_dec (fe_proto e) @
     '',"ip_version":'' @ u8_dec (fe_ip_version e) @ '',"lan_ip":"'' @ fe_lan_ip e @ ''","lan_port":'' @ u16_dec (fe_lan_port e) @
     '',"wan_ip":"'' @ fe_wan_ip e @ ''","wan_port":'' @ u16_dec (fe_wan_port e) @ '',"remote_ip":"'' @ fe_remote_ip e @
     ''","remote_port":'' @ u16_dec (fe_remote_port e) @ '',"orig_bytes":'' @ u64_dec (fe_orig_bytes e) @
     '',"reply_bytes":'' @ u64_dec (fe_reply_bytes e) @
     '',"orig_pkts":'' @ u64_dec (fe_orig_pkts e) @ '',"reply_pkts":'' @ u64_dec (fe_reply_pkts e) @
     '',"bytes_up":'' @ u64_dec (fe_bytes_up e) @ '',"bytes_down":'' @ u64_dec (fe_bytes_down e) @
     '',"bytes_up_delta":'' @ u64_dec (fe_bytes_up_delta e) @ '',"bytes_down_delta":'' @ u64_dec (fe_bytes_down_delta e) @
     '',"rate_up_bps":'' @ fixed 0 (fe_rate_up_bps e) @ '',"rate_down_bps":'' @ fixed 0 (fe_rate_down_bps e) @
     '',"duration_ms":'' @ u64_dec (if fe_last_seen_ms e > fe_first_seen_ms e then fe_last_seen_ms e - fe_first_seen_ms e else 0) @
     '',"state":"'' @ str_or (fe_state e) ''UNKNOWN'' @ ''","path_id":null}''\<close>

definition cpe_flow_format_ndjson :: "clock \<Rightarrow> string \<Rightarrow> string \<Rightarrow> cpe_flow_entry \<Rightarrow> nat \<Rightarrow> string option" where
  "cpe_flow_format_ndjson clk rid evn e buflen =
     (if buflen < 64 then None
      else (let line = flow_json (flow_iso_now clk) rid evn e
            in if length line \<ge> buflen then None else Some line))"

lemmas flow_defs [cdefs] =
  entry0_def cpe_flow_state_init_def ipv4_str_def ipv6_str_def fnv1a_def str_bytes_def u16_mem_def u32_mem_def
  flow_hash_def make_flow_id_def event_name_def entry_base_def entry_from_event_def slot_match_def live_table_def
  find_slot_def u64_dbl_def update_rates_def merge_slot_def flow_json_def cpe_flow_format_ndjson_def

section \<open>The slot scan\<close>

text \<open>The single pass computes three answers; separated, they are:\<close>

fun oldest_scan :: "nat \<Rightarrow> cpe_flow_entry list \<Rightarrow> u64 \<Rightarrow> nat option \<Rightarrow> nat option" where
  "oldest_scan i [] oldest oi = oi"
| "oldest_scan i (e # es) oldest oi =
     (if fe_last_seen_ms e < oldest then oldest_scan (Suc i) es (fe_last_seen_ms e) (Some i)
      else oldest_scan (Suc i) es oldest oi)"

lemma scan_slots_split:
  "scan_slots key i es fr old oi =
     (case find_idx (\<lambda>e. fe_used e \<and> slot_match key e) es of Some k \<Rightarrow> Some (i + k)
      | None \<Rightarrow> (case fr of Some f \<Rightarrow> Some f
                  | None \<Rightarrow> (case find_idx (\<lambda>e. \<not> fe_used e) es of Some k \<Rightarrow> Some (i + k)
                             | None \<Rightarrow> oldest_scan i es old oi)))"
  by (induction key i es fr old oi rule: scan_slots.induct) (auto split: option.split)

lemma oldest_scan_min:
  assumes "old = fe_last_seen_ms (tbl ! b)" "oi = Some b \<or> oi = None \<and> old = - 1"
    and r: "r = foldl (\<lambda>best j. if fe_last_seen_ms (tbl ! j) < fe_last_seen_ms (tbl ! best) then j else best) b [i..<length tbl]"
  shows "oldest_scan i (drop i tbl) old oi = (if oi = None \<and> fe_last_seen_ms (tbl ! r) = - 1 then None else Some r)"
  using assms
proof (induction "length tbl - i" arbitrary: i old oi b)
  case 0
  then show ?case by auto
next
  case (Suc k)
  then have i: "i < length tbl" by simp
  then have d: "drop i tbl = tbl ! i # drop (Suc i) tbl" by (rule Cons_nth_drop_Suc[symmetric])
  have mx: "x < - 1 \<or> x = - 1" for x :: u64 using word_order.extremum_unique[of x] by auto
  show ?case
  proof (cases "fe_last_seen_ms (tbl ! i) < old")
    case True
    have "oldest_scan (Suc i) (drop (Suc i) tbl) (fe_last_seen_ms (tbl ! i)) (Some i) = Some r"
      using Suc.hyps(1)[of "Suc i" "fe_last_seen_ms (tbl ! i)" i "Some i"] Suc.hyps(2) Suc.prems True i
      by (simp add: upt_conv_Cons)
    moreover have "fe_last_seen_ms (tbl ! r) < old"
      using foldl_min_le[of fe_last_seen_ms tbl i "[Suc i..<length tbl]"] Suc.prems(1,3) True i
      by (simp add: upt_conv_Cons)
    then have "fe_last_seen_ms (tbl ! r) \<noteq> - 1" using mx[of old] by auto
    ultimately show ?thesis using True d by simp
  next
    case False
    have "oldest_scan (Suc i) (drop (Suc i) tbl) old oi = (if oi = None \<and> fe_last_seen_ms (tbl ! r) = - 1 then None else Some r)"
      using Suc.hyps(1)[of "Suc i" old b oi] Suc.hyps(2) Suc.prems False i by (simp add: upt_conv_Cons)
    then show ?thesis using False d by simp
  qed
qed

text \<open>The reference: first match, else first free slot, else the slot seen least recently.\<close>

definition find_slot_ref :: "cpe_flow_entry list \<Rightarrow> cpe_flow_entry \<Rightarrow> nat option" where
  "find_slot_ref tbl key =
     (case find_idx (\<lambda>e. fe_used e \<and> slot_match key e) tbl of Some k \<Rightarrow> Some k
      | None \<Rightarrow>
        (case find_idx (\<lambda>e. \<not> fe_used e) tbl of Some k \<Rightarrow> Some k
         | None \<Rightarrow>
           (let r = min_slot fe_last_seen_ms tbl
            in if tbl = [] \<or> fe_last_seen_ms (tbl ! r) = 0xFFFFFFFFFFFFFFFF then None else Some r)))"

lemma oldest_scan_start:
  "oldest_scan 0 tbl (- 1) None =
     (let r = min_slot fe_last_seen_ms tbl in if tbl = [] \<or> fe_last_seen_ms (tbl ! r) = - 1 then None else Some r)"
proof (cases tbl)
  case (Cons e es)
  let ?r = "min_slot fe_last_seen_ms tbl"
  have es: "es = drop (Suc 0) tbl" and e: "e = tbl ! 0" using Cons by simp_all
  have r: "?r = foldl (\<lambda>best j. if fe_last_seen_ms (tbl ! j) < fe_last_seen_ms (tbl ! best) then j else best) 0 [Suc 0..<length tbl]"
    by (simp add: min_slot_def)
  show ?thesis
  proof (cases "fe_last_seen_ms e < - 1")
    case True
    have "fe_last_seen_ms (tbl ! ?r) \<le> fe_last_seen_ms e"
      using foldl_min_le[of fe_last_seen_ms tbl 0 "[Suc 0..<length tbl]"] unfolding r e .
    with True have "fe_last_seen_ms (tbl ! ?r) \<noteq> - 1" by auto
    moreover have "oldest_scan (Suc 0) es (fe_last_seen_ms e) (Some 0) = Some ?r"
      using oldest_scan_min[OF _ _ r, of "fe_last_seen_ms e" "Some 0"] e es by simp
    ultimately show ?thesis using True Cons by (simp add: Let_def)
  next
    case False
    then have "fe_last_seen_ms e = - 1" using word_order.extremum_unique[of "fe_last_seen_ms e"] by auto
    then have "oldest_scan (Suc 0) es (- 1) None = (if fe_last_seen_ms (tbl ! ?r) = - 1 then None else Some ?r)"
      using oldest_scan_min[OF _ _ r, of "- 1" None] e es by simp
    then show ?thesis using False Cons by (simp add: Let_def)
  qed
qed simp

lemma find_slot_eq_ref: "find_slot st key = find_slot_ref (live_table st) key"
proof -
  have m: "(0xFFFFFFFFFFFFFFFF :: u64) = - 1" by simp
  show ?thesis
    unfolding find_slot_def find_slot_ref_def m scan_slots_split oldest_scan_start
    by (auto split: option.split)
qed

lemma find_slot_bound: "find_slot st key = Some i \<Longrightarrow> i < length (live_table st)"
  unfolding find_slot_eq_ref find_slot_ref_def
  by (auto simp: Let_def dest: find_idx_SomeD split: option.splits if_splits intro: min_slot_spec(1))

lemma length_live_table: "length (fs_table st) = 1024 \<Longrightarrow> length (live_table st) \<le> length (fs_table st)"
  by (simp add: live_table_def)

section \<open>Well-formed entries\<close>

definition entry_wf :: "cpe_flow_entry \<Rightarrow> bool" where
  "entry_wf e \<longleftrightarrow> length (fe_lan_ip e) < 48 \<and> length (fe_wan_ip e) < 48 \<and> length (fe_remote_ip e) < 48 \<and>
     length (fe_flow_id e) < 20 \<and> length (fe_state e) < 24 \<and>
     line_safe (fe_lan_ip e) \<and> line_safe (fe_wan_ip e) \<and> line_safe (fe_remote_ip e) \<and>
     line_safe (fe_flow_id e) \<and> line_safe (fe_state e) \<and> 0 \<le> fe_rate_up_bps e \<and> 0 \<le> fe_rate_down_bps e"

lemma entry0_wf: "entry_wf entry0"
  by (simp add: entry_wf_def entry0_def)

lemma flow_ip_wf: "length (ipv4_str a) < 48" "length (ipv6_str b) < 48" "line_safe (ipv4_str a)" "line_safe (ipv6_str b)"
  using length_inet_ntop4[of "htonl a"] length_inet_ntop6[of b] by (simp_all add: ipv4_str_def ipv6_str_def)

lemma flow_id_wf: "length (make_flow_id e) < 20" "line_safe (make_flow_id e)" "make_flow_id e \<noteq> []"
proof -
  have c: "make_flow_id e = hex8 (flow_hash e)" by (simp add: make_flow_id_def cstr_fits)
  show "length (make_flow_id e) < 20" "line_safe (make_flow_id e)" unfolding c by simp_all
  show "make_flow_id e \<noteq> []" unfolding c using length_hex8[of "flow_hash e"] by (metis length_0_conv zero_neq_numeral)
qed

lemma event_name_wf: "length (event_name t) < 24" "line_safe (event_name t)"
  by (auto simp: event_name_def split: nfct_event_type.split)

lemma entry_from_event_wf: "entry_wf (entry_from_event ev now)"
  by (simp add: entry_from_event_def entry_base_def Let_def entry_wf_def flow_ip_wf flow_id_wf event_name_wf
      cstr_fits entry0_def)

lemma entry_from_event_used [simp]: "fe_used (entry_from_event ev now)"
  by (simp add: entry_from_event_def entry_base_def Let_def)

lemma u64_dbl_nonneg: "0 \<le> u64_dbl w"
  unfolding u64_dbl_def by (rule dbl_nonneg) (rule of_nat_0_le_iff)

lemma update_rates_wf: "entry_wf e \<Longrightarrow> entry_wf (update_rates e pu pd pm now)"
  by (auto simp: update_rates_def Let_def entry_wf_def u64_dbl_nonneg
      intro!: dbl_nonneg divide_nonneg_nonneg mult_nonneg_nonneg)

lemma update_rates_used [simp]: "fe_used (update_rates e pu pd pm now) = fe_used e"
  by (simp add: update_rates_def Let_def)

lemma merge_slot_wf:
  assumes "entry_wf slot" "entry_wf tmp"
  shows "entry_wf (merge_slot ev tmp now slot)"
proof -
  have upd: "entry_wf (e\<lparr>fe_state := cstr 24 (fe_state tmp)\<rparr>)" if "entry_wf e" for e
    using that assms(2) by (simp add: entry_wf_def cstr_fits)
  have fid: "entry_wf (e\<lparr>fe_flow_id := make_flow_id e\<rparr>)" if "entry_wf e" for e
    using that by (simp add: entry_wf_def flow_id_wf)
  show ?thesis
    unfolding merge_slot_def Let_def
    by (intro if_split[where P = entry_wf, THEN iffD2] conjI impI upd fid update_rates_wf)
      (use assms in \<open>auto simp: entry_wf_def update_rates_def Let_def u64_dbl_nonneg
        intro!: dbl_nonneg divide_nonneg_nonneg mult_nonneg_nonneg\<close>)
qed

lemma merge_slot_used [simp]: "fe_used (merge_slot ev tmp now slot) = fe_used slot"
  by (simp add: merge_slot_def Let_def)

section \<open>Selection of the fastest flows\<close>

definition combined_rate :: "cpe_flow_entry \<Rightarrow> double" where
  "combined_rate e = dbl (fe_rate_up_bps e + fe_rate_down_bps e)"

text \<open>One pass of the selection sort over an index array, and the first \<open>n\<close> passes.\<close>

definition sel_best :: "(nat \<Rightarrow> double) \<Rightarrow> nat list \<Rightarrow> nat \<Rightarrow> nat" where
  "sel_best rate xs i = foldl (\<lambda>best j. if rate (xs ! j) > rate (xs ! best) then j else best) i [i + 1..<length xs]"

definition sel_step :: "(nat \<Rightarrow> double) \<Rightarrow> nat list \<Rightarrow> nat \<Rightarrow> nat list" where
  "sel_step rate xs i =
     (let best = sel_best rate xs i in if best \<noteq> i then xs[i := xs ! best, best := xs ! i] else xs)"

definition sel_sort :: "(nat \<Rightarrow> double) \<Rightarrow> nat list \<Rightarrow> nat \<Rightarrow> nat list" where
  "sel_sort rate xs n = foldl (sel_step rate) xs [0..<min n (length xs)]"

lemmas sel_defs [cdefs] = combined_rate_def sel_best_def sel_step_def sel_sort_def

lemma sel_best_aux:
  assumes "i \<le> b" "b < m" "m \<le> n" "\<forall>j. i \<le> j \<and> j < m \<longrightarrow> rate (xs ! j) \<le> rate (xs ! b)"
    and r: "r = foldl (\<lambda>best j. if rate (xs ! j) > rate (xs ! best) then j else best) b [m..<n]"
  shows "i \<le> r \<and> r < n \<and> (\<forall>j. i \<le> j \<and> j < n \<longrightarrow> rate (xs ! j) \<le> (rate (xs ! r) :: double))"
  using assms
proof (induction "n - m" arbitrary: m b)
  case (Suc k)
  then have m: "m < n" by simp
  let ?b = "if rate (xs ! m) > rate (xs ! b) then m else b"
  have "\<forall>j. i \<le> j \<and> j < Suc m \<longrightarrow> rate (xs ! j) \<le> rate (xs ! ?b)"
    using Suc.prems(4) by (auto simp: less_Suc_eq intro: order_trans less_imp_le)
  with Suc.hyps(1)[of "Suc m" ?b] Suc.hyps(2) Suc.prems m show ?case
    by (simp add: upt_conv_Cons)
qed auto

lemma sel_best_spec:
  assumes "i < length xs"
  shows "i \<le> sel_best rate xs i" "sel_best rate xs i < length xs"
    "i \<le> j \<Longrightarrow> j < length xs \<Longrightarrow> rate (xs ! j) \<le> rate (xs ! sel_best rate xs i)"
proof -
  have "\<forall>j. i \<le> j \<and> j < i + 1 \<longrightarrow> rate (xs ! j) \<le> rate (xs ! i)" by (auto simp: less_Suc_eq_le dest: le_antisym)
  from sel_best_aux[OF _ _ _ this, of "length xs" "sel_best rate xs i"] assms
  show "i \<le> sel_best rate xs i" "sel_best rate xs i < length xs"
    "i \<le> j \<Longrightarrow> j < length xs \<Longrightarrow> rate (xs ! j) \<le> rate (xs ! sel_best rate xs i)"
    by (simp_all add: sel_best_def)
qed

lemma length_sel_step [simp]: "length (sel_step rate xs i) = length xs"
  by (simp add: sel_step_def Let_def)

lemma mset_sel_step:
  assumes "i < length xs"
  shows "mset (sel_step rate xs i) = mset xs"
  using mset_swap[OF sel_best_spec(2)[OF assms, of rate] assms] by (simp add: sel_step_def Let_def)

lemma sel_step_nth:
  assumes "i < length xs" "j < i"
  shows "sel_step rate xs i ! j = xs ! j"
  using assms sel_best_spec(1)[OF assms(1), of rate] by (simp add: sel_step_def Let_def)

lemma sel_step_max:
  assumes "i < length xs" "i \<le> j" "j < length xs"
  shows "rate (sel_step rate xs i ! j) \<le> rate (sel_step rate xs i ! i)"
proof -
  let ?b = "sel_best rate xs i"
  have b: "i \<le> ?b" "?b < length xs" "rate (xs ! i) \<le> rate (xs ! ?b)" "rate (xs ! j) \<le> rate (xs ! ?b)"
    using sel_best_spec[OF assms(1)] assms by auto
  show ?thesis
  proof (cases "?b = i")
    case True
    with b show ?thesis by (simp add: sel_step_def Let_def)
  next
    case False
    with b assms show ?thesis by (cases "j = i"; cases "j = ?b") (simp_all add: sel_step_def Let_def)
  qed
qed

lemma sel_sort_prefix:
  assumes "k \<le> length xs" and ys: "ys = foldl (sel_step rate) xs [0..<k]"
  shows "length ys = length xs \<and> mset ys = mset xs \<and>
    (\<forall>i j. i < k \<and> i < j \<and> j < length xs \<longrightarrow> rate (ys ! j) \<le> rate (ys ! i))"
  using assms(1) unfolding ys
proof (induction k)
  case (Suc k)
  define zs where "zs = foldl (sel_step rate) xs [0..<k]"
  have IH: "length zs = length xs" "mset zs = mset xs"
    "\<And>i j. i < k \<Longrightarrow> i < j \<Longrightarrow> j < length xs \<Longrightarrow> rate (zs ! j) \<le> rate (zs ! i)"
    using Suc by (auto simp: zs_def)
  have k: "k < length zs" using Suc.prems IH(1) by simp
  have step: "foldl (sel_step rate) xs [0..<Suc k] = sel_step rate zs k" by (simp add: zs_def)
  have below: "rate (sel_step rate zs k ! j) \<le> rate (sel_step rate zs k ! i)" if "i < k" "i < j" "j < length xs" for i j
  proof -
    have "sel_step rate zs k ! j \<in> {zs ! j, zs ! k, zs ! sel_best rate zs k}"
      using that IH(1) k sel_best_spec(2)[OF k, of rate]
      by (auto simp: sel_step_def Let_def nth_list_update)
    moreover have "rate (zs ! m) \<le> rate (zs ! i)" if "m \<in> {j, k, sel_best rate zs k}" for m
      using that \<open>i < k\<close> \<open>i < j\<close> \<open>j < length xs\<close> k IH(1) sel_best_spec(1,2)[OF k, of rate]
      by (intro IH(3)) auto
    ultimately show ?thesis using sel_step_nth[OF k \<open>i < k\<close>] by auto
  qed
  have "rate (sel_step rate zs k ! j) \<le> rate (sel_step rate zs k ! i)" if "i < Suc k" "i < j" "j < length xs" for i j
    using below[of i j] sel_step_max[OF k, of j rate] that IH(1) by (cases "i = k") auto
  then show ?case using IH(1,2) mset_sel_step[OF k, of rate] unfolding step by auto
qed simp

section \<open>Line length\<close>

text \<open>Entries whose numbers have at most 18 digits and whose addresses are IPv4.\<close>

definition entry_small :: "cpe_flow_entry \<Rightarrow> bool" where
  "entry_small e \<longleftrightarrow>
     list_all (\<lambda>w. unat w < 10 ^ 18) [fe_orig_bytes e, fe_reply_bytes e, fe_orig_pkts e, fe_reply_pkts e, fe_bytes_up e,
       fe_bytes_down e, fe_bytes_up_delta e, fe_bytes_down_delta e, fe_last_seen_ms e] \<and>
     fe_rate_up_bps e \<le> 10 ^ 17 \<and> fe_rate_down_bps e \<le> 10 ^ 17 \<and>
     length (fe_lan_ip e) \<le> 15 \<and> length (fe_wan_ip e) \<le> 15 \<and> length (fe_remote_ip e) \<le> 15 \<and>
     length (fe_flow_id e) \<le> 8 \<and> length (fe_state e) \<le> 7 \<and> fe_ip_version e = 4"

lemma length_rate:
  assumes "0 \<le> (x :: rat)" "x \<le> 10 ^ 17"
  shows "length (fixed 0 x) \<le> 18"
proof -
  have "rne x \<le> 10 ^ 17" using assms(2) by (intro rne_le_int) simp
  then have "nat (rne \<bar>x\<bar>) < 10 ^ 18" using assms(1) by (simp add: nat_less_iff)
  then have "length (dec (nat (rne \<bar>x\<bar>))) \<le> 18" by (rule length_dec) simp
  with assms(1) show ?thesis by (simp add: fixed_def Let_def)
qed

lemma length_flow_json:
  assumes "entry_wf e" "entry_small e" "length ts \<le> 39" "length rid < 64" "length evn \<le> 7"
  shows "length (flow_json ts rid evn e) < 768"
proof -
  have d: "unat w < 10 ^ 18 \<Longrightarrow> length (u64_dec w) \<le> 18" for w
    unfolding u64_dec_def by (rule length_dec) simp_all
  let ?d = "if fe_last_seen_ms e > fe_first_seen_ms e then fe_last_seen_ms e - fe_first_seen_ms e else 0"
  have "unat ?d \<le> unat (fe_last_seen_ms e)"
    by (auto simp: unat_sub word_less_nat_alt word_le_nat_alt)
  moreover have sm: "\<forall>w \<in> {fe_orig_bytes e, fe_reply_bytes e, fe_orig_pkts e, fe_reply_pkts e, fe_bytes_up e,
       fe_bytes_down e, fe_bytes_up_delta e, fe_bytes_down_delta e, fe_last_seen_ms e}. unat w < 10 ^ 18"
    using assms(2) unfolding entry_small_def list_all_iff by auto
  ultimately have dd: "length (u64_dec ?d) \<le> 18" by (intro d) auto
  have u: "length (u64_dec (fe_orig_bytes e)) \<le> 18" "length (u64_dec (fe_reply_bytes e)) \<le> 18"
    "length (u64_dec (fe_orig_pkts e)) \<le> 18" "length (u64_dec (fe_reply_pkts e)) \<le> 18"
    "length (u64_dec (fe_bytes_up e)) \<le> 18" "length (u64_dec (fe_bytes_down e)) \<le> 18"
    "length (u64_dec (fe_bytes_up_delta e)) \<le> 18" "length (u64_dec (fe_bytes_down_delta e)) \<le> 18"
    using sm by (auto intro!: d)
  have r: "length (fixed 0 (fe_rate_up_bps e)) \<le> 18" "length (fixed 0 (fe_rate_down_bps e)) \<le> 18"
    using assms(1,2) by (auto intro!: length_rate simp: entry_wf_def entry_small_def)
  have ip: "length (fe_lan_ip e) \<le> 15" "length (fe_wan_ip e) \<le> 15" "length (fe_remote_ip e) \<le> 15"
    "length (u8_dec (fe_ip_version e)) = 1" "length (str_or (fe_flow_id e) ''0'') \<le> 8" "length (str_or (fe_state e) ''UNKNOWN'') \<le> 7"
    using assms(2) by (simp_all add: entry_small_def u8_dec_def dec.simps str_or_def)
  show ?thesis
    using assms(3-5) dd u r ip length_u32_dec[of "if fe_has_ct_id e then fe_ct_id e else 0"] length_u8_dec[of "fe_proto e"]
      length_u16_dec[of "fe_lan_port e"] length_u16_dec[of "fe_wan_port e"] length_u16_dec[of "fe_remote_port e"]
    unfolding flow_json_def by simp
qed

lemma line_safe_flow_json:
  "entry_wf e \<Longrightarrow> line_safe ts \<Longrightarrow> line_safe rid \<Longrightarrow> line_safe evn \<Longrightarrow> line_safe (flow_json ts rid evn e)"
  unfolding flow_json_def entry_wf_def by (simp add: line_safe_str_or)

section \<open>Properties\<close>

text \<open>C5: the single-pass slot scan equals its specification: the first used slot with the same
  conntrack id or the same 5-tuple, else the first free slot, else the slot seen least recently;
  no slot only if the table is empty or every slot carries the largest time stamp.\<close>

theorem find_slot_spec: "find_slot st key = find_slot_ref (live_table st) key"
  by (rule find_slot_eq_ref)

text \<open>C19: the first passes of the selection sort put the fastest flows first: the result is a
  rearrangement of the indices, each selected flow is at least as fast as every later one, so the
  first \<open>n\<close> are \<open>n\<close> fastest flows in descending order.\<close>

theorem top_flows_selected:
  assumes "i < n" "i < j" "j < length xs"
  shows "mset (sel_sort rate xs n) = mset xs \<and> rate (sel_sort rate xs n ! j) \<le> rate (sel_sort rate xs n ! i)"
  using sel_sort_prefix[OF _ refl, of "min n (length xs)" xs rate] assms by (simp add: sel_sort_def)

theorem top_flows_selected_witness:
  "mset (sel_sort of_nat [3, 9, 7] 1) = mset [3, 9, 7 :: nat] \<and>
   (of_nat (sel_sort of_nat [3, 9, 7] 1 ! 2) :: rat) \<le> of_nat (sel_sort of_nat [3, 9, 7] 1 ! 0)"
  using top_flows_selected[of 0 1 2 "[3, 9, 7]" of_nat] by simp

text \<open>an IPv4 flow record whose numbers have at most 18 digits fits the agent's 768-byte line for
  every router id, so it is never dropped by the formatter, and it is one line.\<close>

theorem flow_ndjson_fits:
  assumes "entry_wf e" "entry_small e" "length rid < 64" "line_safe rid" "evn \<in> {''new'', ''destroy'', ''sample''}"
  shows "\<exists>line. cpe_flow_format_ndjson clk rid evn e 768 = Some line \<and> length line < 768 \<and> line_safe line"
proof -
  have evn: "length evn \<le> 7" "line_safe evn" using assms(5) by auto
  have "length (flow_json (flow_iso_now clk) rid evn e) < 768"
    using length_flow_json[OF assms(1,2) length_iso_now(2) assms(3) evn(1)] .
  moreover have "line_safe (flow_json (flow_iso_now clk) rid evn e)"
    using assms(1,4) evn by (intro line_safe_flow_json) simp_all
  ultimately show ?thesis by (simp add: cpe_flow_format_ndjson_def Let_def)
qed

theorem flow_ndjson_fits_witness:
  "\<exists>line. cpe_flow_format_ndjson clk0 ''cpe-lab-1'' ''new'' (entry0\<lparr>fe_ip_version := 4\<rparr>) 768 = Some line \<and>
     length line < 768 \<and> line_safe line"
  by (rule flow_ndjson_fits) (simp_all add: entry_wf_def entry_small_def entry0_def)

fun up_deltas :: "(nfct_event \<times> u64) list \<Rightarrow> cpe_flow_entry \<Rightarrow> u64 list" where
  "up_deltas [] slot = []"
| "up_deltas ((ev, now) # evs) slot =
     (let slot' = merge_slot ev (entry_from_event ev now) now slot
      in fe_bytes_up_delta slot' # up_deltas evs slot')"

lemma merge_slot_up:
  assumes "ne_has_counters ev"
  shows "fe_bytes_up (merge_slot ev (entry_from_event ev now) now slot) = ne_orig_bytes ev"
    "fe_bytes_up_delta (merge_slot ev (entry_from_event ev now) now slot) =
       (if ne_orig_bytes ev \<ge> fe_bytes_up slot then ne_orig_bytes ev - fe_bytes_up slot else ne_orig_bytes ev)"
  using assms by (simp_all add: merge_slot_def update_rates_def entry_from_event_def entry_base_def Let_def)


definition counter_event :: "u64 \<Rightarrow> nfct_event" where
  "counter_event n = sample_nat_event\<lparr>ne_type := NFCT_EVENT_UPDATE, ne_has_counters := True, ne_orig_bytes := n\<rparr>"


end
