(* ===== verification/Agent_Spool.thy ===== *)
theory Agent_Spool
  imports Ring_Buffer Event_Source Config Tcp_Stats Flow_Acct
begin

text \<open>
  \<^verbatim>\<open>agent/agent_core.c\<close>, part one: \<^verbatim>\<open>struct cpe_agent\<close>, its event queue, the spool ring
  of NDJSON lines, the host-provided buffers, the last-sample slots and the latency record;
  \<^verbatim>\<open>agent/perf_sample.c\<close>. The agent pointer is the state itself, so the NULL checks on it
  disappear; out-parameters become results. Contexts of libraries that are not part of the
  repository, and the WiFi and trace snapshots, which the core only copies, are type
  parameters. Sizes and indices are natural numbers; the invariant bounds them.
\<close>

section \<open>Data\<close>

datatype agent_event_type =
  CPE_AGENT_EVENT_NONE | CPE_AGENT_EVENT_CONFIG_APPLIED | CPE_AGENT_EVENT_CONFIG_REJECTED |
  CPE_AGENT_EVENT_NEED_ALLOC | CPE_AGENT_EVENT_SAMPLE_READY | CPE_AGENT_EVENT_SPOOL_DROP

record agent_event =
  ev_type :: agent_event_type
  ev_reason :: string
  ev_need_bytes :: nat
  ev_slot :: u32

record cpe_perf_sample =
  ps_probe :: string
  ps_target :: string
  ps_rtt_ms :: double
  ps_loss :: single
  ps_ts_iso :: string
  ps_meta :: string

record cpe_buf_slot =
  bs_used :: bool
  bs_ptr :: bool \<comment> \<open>not NULL\<close>
  bs_len :: nat
  bs_need :: nat
  bs_waiting :: bool

text \<open>
  \<^verbatim>\<open>spool\<close> is NULL or an array of \<^verbatim>\<open>spool_cap\<close> line buffers of 768 bytes each.
\<close>

record ('ping, 'nfct, 'wifi, 'trace) cpe_agent =
  ag_cfg :: cpe_agent_config
  ag_eq :: "agent_event list"
  ag_eq_head :: nat
  ag_eq_tail :: nat
  ag_eq_cnt :: nat
  ag_last :: "cpe_perf_sample option"
  ag_last_wifi :: "'wifi option"
  ag_last_trace :: "'trace option"
  ag_spool :: "string list option"
  ag_spool_cap :: nat
  ag_spool_head :: nat
  ag_spool_tail :: nat
  ag_spool_cnt :: nat
  ag_spool_drops :: u64
  ag_ping :: 'ping
  ag_nfct :: 'nfct
  ag_nfct_obs :: u64
  ag_slots :: "cpe_buf_slot list"
  ag_tcp :: cpe_tcp_state
  ag_flow :: cpe_flow_state

definition event0 :: agent_event where
  "event0 = \<lparr> ev_type = CPE_AGENT_EVENT_NONE, ev_reason = [], ev_need_bytes = 0, ev_slot = 0 \<rparr>"

definition slot0 :: cpe_buf_slot where
  "slot0 = \<lparr> bs_used = False, bs_ptr = False, bs_len = 0, bs_need = 0, bs_waiting = False \<rparr>"

text \<open>The zeroed memory \<^verbatim>\<open>cpe_agent_create\<close> starts from, with its library contexts.\<close>

definition agent0 :: "'ping \<Rightarrow> 'nfct \<Rightarrow> ('ping, 'nfct, 'wifi, 'trace) cpe_agent" where
  "agent0 p n = \<lparr> ag_cfg = cpe_agent_config_defaults, ag_eq = replicate 16 event0, ag_eq_head = 0,
     ag_eq_tail = 0, ag_eq_cnt = 0, ag_last = None, ag_last_wifi = None, ag_last_trace = None,
     ag_spool = None, ag_spool_cap = 0, ag_spool_head = 0, ag_spool_tail = 0, ag_spool_cnt = 0,
     ag_spool_drops = 0, ag_ping = p, ag_nfct = n, ag_nfct_obs = 0, ag_slots = replicate 4 slot0,
     ag_tcp = cpe_tcp_state_init, ag_flow = cpe_flow_state_init \<rparr>"

section \<open>Event queue\<close>

definition cpe_agent_event_type_name :: "agent_event_type \<Rightarrow> string" where
  "cpe_agent_event_type_name t = (case t of
     CPE_AGENT_EVENT_NONE \<Rightarrow> ''NONE'' | CPE_AGENT_EVENT_CONFIG_APPLIED \<Rightarrow> ''CONFIG_APPLIED''
   | CPE_AGENT_EVENT_CONFIG_REJECTED \<Rightarrow> ''CONFIG_REJECTED'' | CPE_AGENT_EVENT_NEED_ALLOC \<Rightarrow> ''NEED_ALLOC''
   | CPE_AGENT_EVENT_SAMPLE_READY \<Rightarrow> ''SAMPLE_READY'' | CPE_AGENT_EVENT_SPOOL_DROP \<Rightarrow> ''SPOOL_DROP'')"

definition mk_event :: "agent_event_type \<Rightarrow> string option \<Rightarrow> nat \<Rightarrow> u32 \<Rightarrow> agent_event" where
  "mk_event ty reason need sl = \<lparr> ev_type = ty,
     ev_reason = (case reason of None \<Rightarrow> [] | Some r \<Rightarrow> cstr 128 r), ev_need_bytes = need, ev_slot = sl \<rparr>"

text \<open>The result -1 of a full queue is ignored by every caller; only the state is returned.\<close>

definition eq_push ::
  "agent_event_type \<Rightarrow> string option \<Rightarrow> nat \<Rightarrow> u32 \<Rightarrow> ('p,'n,'w,'t) cpe_agent \<Rightarrow> ('p,'n,'w,'t) cpe_agent" where
  "eq_push ty reason need sl a =
     (if ag_eq_cnt a \<ge> 16 then a
      else a\<lparr>ag_eq := (ag_eq a)[ag_eq_tail a := mk_event ty reason need sl],
             ag_eq_tail := (ag_eq_tail a + 1) mod 16, ag_eq_cnt := ag_eq_cnt a + 1\<rparr>)"

definition cpe_agent_next_event ::
  "('p,'n,'w,'t) cpe_agent \<Rightarrow> (agent_event \<times> ('p,'n,'w,'t) cpe_agent) option" where
  "cpe_agent_next_event a =
     (if ag_eq_cnt a = 0 then None
      else Some (ag_eq a ! ag_eq_head a, a\<lparr>ag_eq_head := (ag_eq_head a + 1) mod 16, ag_eq_cnt := ag_eq_cnt a - 1\<rparr>))"

section \<open>Spool\<close>

definition free_spool :: "('p,'n,'w,'t) cpe_agent \<Rightarrow> ('p,'n,'w,'t) cpe_agent" where
  "free_spool a = a\<lparr>ag_spool := None, ag_spool_cap := 0, ag_spool_head := 0, ag_spool_tail := 0, ag_spool_cnt := 0\<rparr>"

text \<open>
  \<open>alloc_ok n\<close> says whether \<^verbatim>\<open>cpe_host_alloc(n)\<close> succeeds. It allocates with
  \<^verbatim>\<open>calloc\<close>, so every new line buffer holds the empty string.
\<close>

definition ensure_spool ::
  "(nat \<Rightarrow> bool) \<Rightarrow> nat \<Rightarrow> ('p,'n,'w,'t) cpe_agent \<Rightarrow> bool \<times> ('p,'n,'w,'t) cpe_agent" where
  "ensure_spool alloc_ok cap0 a =
     (let cap = (if cap0 = 0 then 256 else cap0) in
      if ag_spool a \<noteq> None \<and> ag_spool_cap a = cap then (True, a)
      else
        (let a1 = free_spool a in
         if \<not> alloc_ok (cap * 768)
         then (False, eq_push CPE_AGENT_EVENT_NEED_ALLOC (Some ''spool'') (cap * 768) 0 a1)
         else (True, a1\<lparr>ag_spool := Some (replicate cap []), ag_spool_cap := cap,
                 ag_slots := (ag_slots a1)[0 := (ag_slots a1 ! 0)\<lparr>bs_used := True, bs_ptr := True,
                   bs_len := cap * 768, bs_waiting := False\<rparr>]\<rparr>)))"

text \<open>\<open>buf\<close> is \<open>None\<close> for a NULL pointer, otherwise the lines the caller's memory holds.\<close>

definition cpe_agent_provide_buffer ::
  "nat \<Rightarrow> string list option \<Rightarrow> nat \<Rightarrow> ('p,'n,'w,'t) cpe_agent \<Rightarrow> int \<times> ('p,'n,'w,'t) cpe_agent" where
  "cpe_agent_provide_buffer sl buf len a =
     (if sl \<ge> 4 \<or> buf = None \<or> len = 0 then (-1, a)
      else if \<not> bs_waiting (ag_slots a ! sl) then (-1, a)
      else
        (let a1 = a\<lparr>ag_slots := (ag_slots a)[sl := (ag_slots a ! sl)\<lparr>bs_ptr := True, bs_len := len,
                     bs_used := True, bs_waiting := False\<rparr>]\<rparr> in
         if sl = 0 then
           (let a2 = a1\<lparr>ag_spool := buf, ag_spool_cap := len div 768\<rparr>
            in if ag_spool_cap a2 = 0 then (-1, a2) else (0, a2))
         else (0, a1)))"

text \<open>The result is true for 0 and false for -1.\<close>

definition cpe_agent_spool_push_line ::
  "string \<Rightarrow> ('p,'n,'w,'t) cpe_agent \<Rightarrow> bool \<times> ('p,'n,'w,'t) cpe_agent" where
  "cpe_agent_spool_push_line line a =
     (case ag_spool a of None \<Rightarrow> (False, a)
      | Some sp \<Rightarrow>
        if ag_spool_cap a = 0 then (False, a)
        else
          (let n = (if length line \<ge> 768 then 767 else length line);
               a1 = (if ag_spool_cnt a \<ge> ag_spool_cap a
                     then eq_push CPE_AGENT_EVENT_SPOOL_DROP (Some ''full'') 0 0
                            (a\<lparr>ag_spool_head := (ag_spool_head a + 1) mod ag_spool_cap a,
                               ag_spool_cnt := ag_spool_cnt a - 1, ag_spool_drops := ag_spool_drops a + 1\<rparr>)
                     else a)
           in (True, a1\<lparr>ag_spool := Some (sp[ag_spool_tail a1 := take n line]),
                        ag_spool_tail := (ag_spool_tail a1 + 1) mod ag_spool_cap a1,
                        ag_spool_cnt := ag_spool_cnt a1 + 1\<rparr>)))"

definition cpe_agent_spool_depth :: "('p,'n,'w,'t) cpe_agent \<Rightarrow> nat" where
  "cpe_agent_spool_depth a = ag_spool_cnt a"

text \<open>
  \<^verbatim>\<open>cpe_agent_spool_flush\<close>: \<open>wr\<close> is \<^verbatim>\<open>fprintf\<close>, which appends a line to a stream state
  \<open>'f\<close> or fails, \<open>flushed\<close> the result of \<^verbatim>\<open>fflush\<close>.
\<close>

function spool_flush_loop ::
  "(string \<Rightarrow> 'f \<Rightarrow> 'f option) \<Rightarrow> 'f \<Rightarrow> ('p,'n,'w,'t) cpe_agent \<Rightarrow> nat \<Rightarrow> (nat option \<times> 'f) \<times> ('p,'n,'w,'t) cpe_agent" where
  "spool_flush_loop wr f a written =
     (if ag_spool_cnt a > 0 then
        (case wr (the (ag_spool a) ! ag_spool_head a @ [CHR 0x0A]) f of
           None \<Rightarrow> ((None, f), a)
         | Some f' \<Rightarrow> spool_flush_loop wr f' (a\<lparr>ag_spool_head := (ag_spool_head a + 1) mod ag_spool_cap a,
                        ag_spool_cnt := ag_spool_cnt a - 1\<rparr>) (written + 1))
      else ((Some written, f), a))"
  by pat_completeness auto
termination
  by (relation "measure (\<lambda>(wr, f, a, w). ag_spool_cnt a)") auto

declare spool_flush_loop.simps [simp del]

definition cpe_agent_spool_flush ::
  "(string \<Rightarrow> 'f \<Rightarrow> 'f option) \<Rightarrow> ('f \<Rightarrow> bool) \<Rightarrow> 'f \<Rightarrow> ('p,'n,'w,'t) cpe_agent \<Rightarrow> (int \<times> 'f) \<times> ('p,'n,'w,'t) cpe_agent" where
  "cpe_agent_spool_flush wr flushed f a =
     (if ag_spool a = None then ((-1, f), a)
      else
        (let ((r, f'), a') = spool_flush_loop wr f a 0 in
         case r of None \<Rightarrow> ((-1, f'), a')
         | Some n \<Rightarrow> if flushed f' then ((int n, f'), a') else ((-1, f'), a')))"

section \<open>Samples\<close>

definition cpe_agent_last_sample :: "('p,'n,'w,'t) cpe_agent \<Rightarrow> cpe_perf_sample option" where
  "cpe_agent_last_sample a = ag_last a"

definition cpe_agent_set_last_sample ::
  "cpe_perf_sample option \<Rightarrow> ('p,'n,'w,'t) cpe_agent \<Rightarrow> bool \<times> ('p,'n,'w,'t) cpe_agent" where
  "cpe_agent_set_last_sample s a =
     (case s of None \<Rightarrow> (False, a)
      | Some s' \<Rightarrow> (True, eq_push CPE_AGENT_EVENT_SAMPLE_READY (Some ''sample'') 0 0 (a\<lparr>ag_last := Some s'\<rparr>)))"

definition cpe_agent_set_last_wifi :: "'w option \<Rightarrow> ('p,'n,'w,'t) cpe_agent \<Rightarrow> bool \<times> ('p,'n,'w,'t) cpe_agent" where
  "cpe_agent_set_last_wifi s a = (case s of None \<Rightarrow> (False, a) | Some x \<Rightarrow> (True, a\<lparr>ag_last_wifi := Some x\<rparr>))"

definition cpe_agent_last_wifi :: "('p,'n,'w,'t) cpe_agent \<Rightarrow> 'w option" where
  "cpe_agent_last_wifi a = ag_last_wifi a"

definition cpe_agent_set_last_trace :: "'t option \<Rightarrow> ('p,'n,'w,'t) cpe_agent \<Rightarrow> bool \<times> ('p,'n,'w,'t) cpe_agent" where
  "cpe_agent_set_last_trace s a = (case s of None \<Rightarrow> (False, a) | Some x \<Rightarrow> (True, a\<lparr>ag_last_trace := Some x\<rparr>))"

definition cpe_agent_last_trace :: "('p,'n,'w,'t) cpe_agent \<Rightarrow> 't option" where
  "cpe_agent_last_trace a = ag_last_trace a"

text \<open>\<open>None\<close> is the result -1 of the two formatters.\<close>

definition cpe_perf_format_ndjson :: "string option \<Rightarrow> cpe_perf_sample option \<Rightarrow> nat \<Rightarrow> string option" where
  \<open>cpe_perf_format_ndjson rid0 sp buflen =
     (let rid = (case rid0 of None \<Rightarrow> ''unknown'' | Some r \<Rightarrow> str_or r ''unknown'') in
      case sp of None \<Rightarrow> None
      | Some s \<Rightarrow>
        if buflen < 32 then None
        else
          (let line =
             ''{"type":"cpe_perf","ts":"'' @ str_or (ps_ts_iso s) epoch_iso @ ''","router_id":"'' @ rid @
             ''","probe":"'' @ str_or (ps_probe s) ''ping'' @ ''","target":"'' @ ps_target s @
             ''","rtt_ms":'' @ fixed 3 (ps_rtt_ms s) @ '',"loss":'' @ fixed 4 (ps_loss s) @
             '',"meta":'' @ str_or (ps_meta s) ''{}'' @ ''}''
           in if length line \<ge> buflen then None else Some line))\<close>

definition cpe_agent_get_local_latency_json :: "nat \<Rightarrow> ('p,'n,'w,'t) cpe_agent \<Rightarrow> string option" where
  \<open>cpe_agent_get_local_latency_json buflen a =
     (if buflen < 16 then None
      else
        (let line = (case ag_last a of
           None \<Rightarrow> ''{"available":false}''
         | Some s \<Rightarrow>
             ''{"available":true,"router_id":"'' @ str_or (c_router_id (ag_cfg a)) ''unknown'' @
             ''","probe":"'' @ ps_probe s @ ''","target":"'' @ ps_target s @ ''","rtt_ms":'' @ fixed 3 (ps_rtt_ms s) @
             '',"loss":'' @ fixed 4 (ps_loss s) @ '',"ts":"'' @ ps_ts_iso s @ ''"}'')
         in if length line \<ge> buflen then None else Some line))\<close>

lemmas agent_defs [cdefs] =
  event0_def slot0_def agent0_def mk_event_def eq_push_def cpe_agent_next_event_def free_spool_def ensure_spool_def
  cpe_agent_provide_buffer_def cpe_agent_spool_push_line_def cpe_agent_spool_depth_def spool_flush_loop.simps
  cpe_agent_spool_flush_def cpe_agent_set_last_sample_def cpe_perf_format_ndjson_def cpe_agent_get_local_latency_json_def

section \<open>The two queues\<close>

definition eq_inv :: "('p,'n,'w,'t) cpe_agent \<Rightarrow> bool" where
  "eq_inv a \<longleftrightarrow> ring_ok (ag_eq a) 16 (ag_eq_head a) (ag_eq_tail a) (ag_eq_cnt a)"

definition eq_view :: "('p,'n,'w,'t) cpe_agent \<Rightarrow> agent_event list" where
  "eq_view a = ring_view (ag_eq a) 16 (ag_eq_head a) (ag_eq_cnt a)"

definition spool_view :: "('p,'n,'w,'t) cpe_agent \<Rightarrow> string list" where
  "spool_view a = (case ag_spool a of None \<Rightarrow> []
     | Some sp \<Rightarrow> ring_view sp (ag_spool_cap a) (ag_spool_head a) (ag_spool_cnt a))"

text \<open>A spool that is allocated: a ring whose live lines fit their buffers.\<close>

definition spool_ready :: "('p,'n,'w,'t) cpe_agent \<Rightarrow> bool" where
  "spool_ready a \<longleftrightarrow> (case ag_spool a of None \<Rightarrow> False
     | Some sp \<Rightarrow> ring_ok sp (ag_spool_cap a) (ag_spool_head a) (ag_spool_tail a) (ag_spool_cnt a)) \<and>
     (\<forall>l \<in> set (spool_view a). length l < 768)"

text \<open>The spool after a failed allocation: no lines, and every push is refused.\<close>

definition spool_inv :: "('p,'n,'w,'t) cpe_agent \<Rightarrow> bool" where
  "spool_inv a \<longleftrightarrow> spool_ready a \<or>
     (ag_spool a = None \<and> ag_spool_cap a = 0 \<and> ag_spool_head a = 0 \<and> ag_spool_tail a = 0 \<and> ag_spool_cnt a = 0)"

definition slots_inv :: "('p,'n,'w,'t) cpe_agent \<Rightarrow> bool" where
  "slots_inv a \<longleftrightarrow> length (ag_slots a) = 4 \<and> (\<forall>s \<in> set (ag_slots a). \<not> bs_waiting s)"

text \<open>Which fields each invariant depends on.\<close>

lemma eq_inv_frame [simp]:
  "eq_inv (a\<lparr>ag_cfg := v_cfg\<rparr>) = eq_inv a"
  "eq_inv (a\<lparr>ag_last := v_last\<rparr>) = eq_inv a"
  "eq_inv (a\<lparr>ag_last_wifi := v_last_wifi\<rparr>) = eq_inv a"
  "eq_inv (a\<lparr>ag_last_trace := v_last_trace\<rparr>) = eq_inv a"
  "eq_inv (a\<lparr>ag_spool := v_spool\<rparr>) = eq_inv a"
  "eq_inv (a\<lparr>ag_spool_cap := v_spool_cap\<rparr>) = eq_inv a"
  "eq_inv (a\<lparr>ag_spool_head := v_spool_head\<rparr>) = eq_inv a"
  "eq_inv (a\<lparr>ag_spool_tail := v_spool_tail\<rparr>) = eq_inv a"
  "eq_inv (a\<lparr>ag_spool_cnt := v_spool_cnt\<rparr>) = eq_inv a"
  "eq_inv (a\<lparr>ag_spool_drops := v_spool_drops\<rparr>) = eq_inv a"
  "eq_inv (a\<lparr>ag_ping := v_ping\<rparr>) = eq_inv a"
  "eq_inv (a\<lparr>ag_nfct := v_nfct\<rparr>) = eq_inv a"
  "eq_inv (a\<lparr>ag_nfct_obs := v_nfct_obs\<rparr>) = eq_inv a"
  "eq_inv (a\<lparr>ag_slots := v_slots\<rparr>) = eq_inv a"
  "eq_inv (a\<lparr>ag_tcp := v_tcp\<rparr>) = eq_inv a"
  "eq_inv (a\<lparr>ag_flow := v_flow\<rparr>) = eq_inv a"
  by (simp_all add: eq_inv_def)

lemma spool_view_frame [simp]:
  "spool_view (a\<lparr>ag_cfg := v_cfg\<rparr>) = spool_view a"
  "spool_view (a\<lparr>ag_last := v_last\<rparr>) = spool_view a"
  "spool_view (a\<lparr>ag_last_wifi := v_last_wifi\<rparr>) = spool_view a"
  "spool_view (a\<lparr>ag_last_trace := v_last_trace\<rparr>) = spool_view a"
  "spool_view (a\<lparr>ag_eq := v_eq\<rparr>) = spool_view a"
  "spool_view (a\<lparr>ag_eq_head := v_eq_head\<rparr>) = spool_view a"
  "spool_view (a\<lparr>ag_eq_tail := v_eq_tail\<rparr>) = spool_view a"
  "spool_view (a\<lparr>ag_eq_cnt := v_eq_cnt\<rparr>) = spool_view a"
  "spool_view (a\<lparr>ag_spool_drops := v_spool_drops\<rparr>) = spool_view a"
  "spool_view (a\<lparr>ag_ping := v_ping\<rparr>) = spool_view a"
  "spool_view (a\<lparr>ag_nfct := v_nfct\<rparr>) = spool_view a"
  "spool_view (a\<lparr>ag_nfct_obs := v_nfct_obs\<rparr>) = spool_view a"
  "spool_view (a\<lparr>ag_slots := v_slots\<rparr>) = spool_view a"
  "spool_view (a\<lparr>ag_tcp := v_tcp\<rparr>) = spool_view a"
  "spool_view (a\<lparr>ag_flow := v_flow\<rparr>) = spool_view a"
  by (simp_all add: spool_view_def cong: option.case_cong)

lemma spool_inv_frame [simp]:
  "spool_ready (a\<lparr>ag_cfg := v_cfg\<rparr>) = spool_ready a"
  "spool_ready (a\<lparr>ag_last := v_last\<rparr>) = spool_ready a"
  "spool_ready (a\<lparr>ag_last_wifi := v_last_wifi\<rparr>) = spool_ready a"
  "spool_ready (a\<lparr>ag_last_trace := v_last_trace\<rparr>) = spool_ready a"
  "spool_ready (a\<lparr>ag_eq := v_eq\<rparr>) = spool_ready a"
  "spool_ready (a\<lparr>ag_eq_head := v_eq_head\<rparr>) = spool_ready a"
  "spool_ready (a\<lparr>ag_eq_tail := v_eq_tail\<rparr>) = spool_ready a"
  "spool_ready (a\<lparr>ag_eq_cnt := v_eq_cnt\<rparr>) = spool_ready a"
  "spool_ready (a\<lparr>ag_spool_drops := v_spool_drops\<rparr>) = spool_ready a"
  "spool_ready (a\<lparr>ag_ping := v_ping\<rparr>) = spool_ready a"
  "spool_ready (a\<lparr>ag_nfct := v_nfct\<rparr>) = spool_ready a"
  "spool_ready (a\<lparr>ag_nfct_obs := v_nfct_obs\<rparr>) = spool_ready a"
  "spool_ready (a\<lparr>ag_slots := v_slots\<rparr>) = spool_ready a"
  "spool_ready (a\<lparr>ag_tcp := v_tcp\<rparr>) = spool_ready a"
  "spool_ready (a\<lparr>ag_flow := v_flow\<rparr>) = spool_ready a"
  "spool_inv (a\<lparr>ag_cfg := v_cfg\<rparr>) = spool_inv a"
  "spool_inv (a\<lparr>ag_last := v_last\<rparr>) = spool_inv a"
  "spool_inv (a\<lparr>ag_last_wifi := v_last_wifi\<rparr>) = spool_inv a"
  "spool_inv (a\<lparr>ag_last_trace := v_last_trace\<rparr>) = spool_inv a"
  "spool_inv (a\<lparr>ag_eq := v_eq\<rparr>) = spool_inv a"
  "spool_inv (a\<lparr>ag_eq_head := v_eq_head\<rparr>) = spool_inv a"
  "spool_inv (a\<lparr>ag_eq_tail := v_eq_tail\<rparr>) = spool_inv a"
  "spool_inv (a\<lparr>ag_eq_cnt := v_eq_cnt\<rparr>) = spool_inv a"
  "spool_inv (a\<lparr>ag_spool_drops := v_spool_drops\<rparr>) = spool_inv a"
  "spool_inv (a\<lparr>ag_ping := v_ping\<rparr>) = spool_inv a"
  "spool_inv (a\<lparr>ag_nfct := v_nfct\<rparr>) = spool_inv a"
  "spool_inv (a\<lparr>ag_nfct_obs := v_nfct_obs\<rparr>) = spool_inv a"
  "spool_inv (a\<lparr>ag_slots := v_slots\<rparr>) = spool_inv a"
  "spool_inv (a\<lparr>ag_tcp := v_tcp\<rparr>) = spool_inv a"
  "spool_inv (a\<lparr>ag_flow := v_flow\<rparr>) = spool_inv a"
  by (simp_all add: spool_ready_def spool_inv_def cong: option.case_cong)

lemma slots_inv_frame [simp]:
  "slots_inv (a\<lparr>ag_cfg := v_cfg\<rparr>) = slots_inv a"
  "slots_inv (a\<lparr>ag_last := v_last\<rparr>) = slots_inv a"
  "slots_inv (a\<lparr>ag_last_wifi := v_last_wifi\<rparr>) = slots_inv a"
  "slots_inv (a\<lparr>ag_last_trace := v_last_trace\<rparr>) = slots_inv a"
  "slots_inv (a\<lparr>ag_spool := v_spool\<rparr>) = slots_inv a"
  "slots_inv (a\<lparr>ag_spool_cap := v_spool_cap\<rparr>) = slots_inv a"
  "slots_inv (a\<lparr>ag_spool_head := v_spool_head\<rparr>) = slots_inv a"
  "slots_inv (a\<lparr>ag_spool_tail := v_spool_tail\<rparr>) = slots_inv a"
  "slots_inv (a\<lparr>ag_spool_cnt := v_spool_cnt\<rparr>) = slots_inv a"
  "slots_inv (a\<lparr>ag_spool_drops := v_spool_drops\<rparr>) = slots_inv a"
  "slots_inv (a\<lparr>ag_ping := v_ping\<rparr>) = slots_inv a"
  "slots_inv (a\<lparr>ag_nfct := v_nfct\<rparr>) = slots_inv a"
  "slots_inv (a\<lparr>ag_nfct_obs := v_nfct_obs\<rparr>) = slots_inv a"
  "slots_inv (a\<lparr>ag_tcp := v_tcp\<rparr>) = slots_inv a"
  "slots_inv (a\<lparr>ag_flow := v_flow\<rparr>) = slots_inv a"
  by (simp_all add: slots_inv_def)

lemma eq_push_frame [simp]:
  "ag_cfg (eq_push ty r n s a) = ag_cfg a" "ag_spool (eq_push ty r n s a) = ag_spool a"
  "ag_spool_cap (eq_push ty r n s a) = ag_spool_cap a" "ag_spool_head (eq_push ty r n s a) = ag_spool_head a"
  "ag_spool_tail (eq_push ty r n s a) = ag_spool_tail a" "ag_spool_cnt (eq_push ty r n s a) = ag_spool_cnt a"
  "ag_spool_drops (eq_push ty r n s a) = ag_spool_drops a" "ag_slots (eq_push ty r n s a) = ag_slots a"
  "ag_tcp (eq_push ty r n s a) = ag_tcp a" "ag_flow (eq_push ty r n s a) = ag_flow a"
  "ag_last (eq_push ty r n s a) = ag_last a" "ag_nfct (eq_push ty r n s a) = ag_nfct a"
  "ag_ping (eq_push ty r n s a) = ag_ping a" "ag_nfct_obs (eq_push ty r n s a) = ag_nfct_obs a"
  by (simp_all add: eq_push_def)

lemma eq_push_view [simp]:
  "spool_view (eq_push ty r n s a) = spool_view a" "spool_ready (eq_push ty r n s a) = spool_ready a"
  "spool_inv (eq_push ty r n s a) = spool_inv a" "slots_inv (eq_push ty r n s a) = slots_inv a"
  by (simp_all add: spool_view_def spool_ready_def spool_inv_def slots_inv_def cong: option.case_cong)

text \<open>An event to be queued, as the arguments of \<^verbatim>\<open>eq_push\<close>.\<close>

type_synonym event_args = "agent_event_type \<times> string option \<times> nat \<times> u32"

definition eq_store :: "event_args \<Rightarrow> agent_event" where
  "eq_store x = (case x of (ty, r, n, s) \<Rightarrow> mk_event ty r n s)"

definition eq_push_args :: "event_args \<Rightarrow> ('p,'n,'w,'t) cpe_agent \<Rightarrow> ('p,'n,'w,'t) cpe_agent" where
  "eq_push_args x = (case x of (ty, r, n, s) \<Rightarrow> eq_push ty r n s)"

interpretation evq: drop_newest_fifo eq_inv eq_view "\<lambda>_. 16" eq_store eq_push_args
proof
  fix a :: "('p,'n,'w,'t) cpe_agent" and x :: event_args
  obtain ty r n s where x: "x = (ty, r, n, s)" by (cases x)
  assume a: "eq_inv a"
  then show "length (eq_view a) \<le> 16" by (simp add: eq_view_def eq_inv_def ring_ok_def)
  show "eq_inv (eq_push_args x a)"
    using a ring_ok_push[of "ag_eq a" 16] by (simp add: x eq_push_args_def eq_push_def eq_inv_def)
  show "eq_view (eq_push_args x a) = (if length (eq_view a) < 16 then eq_view a @ [eq_store x] else eq_view a)"
    using a ring_view_push[of "ag_eq a" 16]
    by (simp add: x eq_push_args_def eq_push_def eq_inv_def eq_view_def eq_store_def)
qed simp

lemma eq_push_inv: "eq_inv a \<Longrightarrow> eq_inv (eq_push ty r n s a)"
  using evq.push_inv[of a "(ty, r, n, s)"] by (simp add: eq_push_args_def)

lemma spool_push_ready:
  assumes "spool_ready a"
  obtains sp a1 where "ag_spool a = Some sp" "0 < ag_spool_cap a"
    "cpe_agent_spool_push_line line a = (True, a1)" "ag_spool_cap a1 = ag_spool_cap a"
    "spool_view a1 = (if length (spool_view a) < ag_spool_cap a then spool_view a @ [take 767 line]
                      else tl (spool_view a) @ [take 767 line])"
    "ring_ok (the (ag_spool a1)) (ag_spool_cap a1) (ag_spool_head a1) (ag_spool_tail a1) (ag_spool_cnt a1)"
    "ag_spool a1 \<noteq> None"
proof -
  obtain sp where sp: "ag_spool a = Some sp"
    and ok: "ring_ok sp (ag_spool_cap a) (ag_spool_head a) (ag_spool_tail a) (ag_spool_cnt a)"
    using assms by (auto simp: spool_ready_def split: option.splits)
  let ?c = "ag_spool_cap a" and ?h = "ag_spool_head a" and ?t = "ag_spool_tail a" and ?n = "ag_spool_cnt a"
  have c0: "0 < ?c" using ok by (simp add: ring_ok_def)
  have tk: "take (if 768 \<le> length line then 767 else length line) line = take 767 line" by simp
  show ?thesis
  proof (cases "?n < ?c")
    case True
    let ?a = "a\<lparr>ag_spool := Some (sp[?t := take 767 line]), ag_spool_tail := (?t + 1) mod ?c, ag_spool_cnt := ?n + 1\<rparr>"
    have "cpe_agent_spool_push_line line a = (True, ?a)"
      using True sp c0 by (simp add: cpe_agent_spool_push_line_def Let_def tk)
    moreover have "spool_view ?a = spool_view a @ [take 767 line]" "length (spool_view a) = ?n"
      using ring_view_push[OF ok True] sp by (simp_all add: spool_view_def)
    ultimately show ?thesis using that[of sp ?a] sp c0 True ring_ok_push[OF ok True] by simp
  next
    case False
    then have full: "?n = ?c" "0 < ?n" using ok c0 by (auto simp: ring_ok_def)
    let ?b = "eq_push CPE_AGENT_EVENT_SPOOL_DROP (Some ''full'') 0 0
        (a\<lparr>ag_spool_head := (?h + 1) mod ?c, ag_spool_cnt := ?n - 1, ag_spool_drops := ag_spool_drops a + 1\<rparr>)"
    let ?a = "?b\<lparr>ag_spool := Some (sp[?t := take 767 line]), ag_spool_tail := (?t + 1) mod ?c, ag_spool_cnt := ?n - 1 + 1\<rparr>"
    have p: "cpe_agent_spool_push_line line a = (True, ?a)"
      using False sp c0 by (simp add: cpe_agent_spool_push_line_def Let_def tk)
    have ok1: "ring_ok sp ?c ((?h + 1) mod ?c) ?t (?n - 1)" using ring_ok_drop[OF ok, of 1] full by simp
    have lt: "?n - 1 < ?c" using full by simp
    have "ring_view sp ?c ((?h + 1) mod ?c) (?n - 1) = tl (ring_view sp ?c ?h ?n)"
      using ring_view_drop[of 1 ?n sp ?c ?h] full by (simp add: drop_Suc)
    then have "spool_view ?a = tl (spool_view a) @ [take 767 line]"
      using ring_view_push[OF ok1 lt] sp by (simp add: spool_view_def)
    with p sp c0 full ring_ok_push[OF ok1 lt] that[of sp ?a] show ?thesis
      by (simp add: spool_view_def)
  qed
qed

definition spool_push :: "string \<Rightarrow> ('p,'n,'w,'t) cpe_agent \<Rightarrow> ('p,'n,'w,'t) cpe_agent" where
  "spool_push line a = snd (cpe_agent_spool_push_line line a)"

lemma spool_ready_push:
  assumes "spool_ready a"
  shows "spool_ready (spool_push line a)" "fst (cpe_agent_spool_push_line line a)"
    "spool_view (spool_push line a) = (if length (spool_view a) < ag_spool_cap a then spool_view a @ [take 767 line]
                      else tl (spool_view a) @ [take 767 line])"
    "ag_spool_cap (spool_push line a) = ag_spool_cap a"
proof -
  obtain sp a1 where p: "cpe_agent_spool_push_line line a = (True, a1)" "ag_spool_cap a1 = ag_spool_cap a"
    "spool_view a1 = (if length (spool_view a) < ag_spool_cap a then spool_view a @ [take 767 line]
                      else tl (spool_view a) @ [take 767 line])"
    "ring_ok (the (ag_spool a1)) (ag_spool_cap a1) (ag_spool_head a1) (ag_spool_tail a1) (ag_spool_cnt a1)"
    "ag_spool a1 \<noteq> None" using spool_push_ready[OF assms, of line] by metis
  show "fst (cpe_agent_spool_push_line line a)" "ag_spool_cap (spool_push line a) = ag_spool_cap a"
    "spool_view (spool_push line a) = (if length (spool_view a) < ag_spool_cap a then spool_view a @ [take 767 line]
                      else tl (spool_view a) @ [take 767 line])"
    using p by (simp_all add: spool_push_def)
  have "\<forall>l \<in> set (spool_view a1). length l < 768"
  proof -
    have "set (tl (spool_view a)) \<subseteq> set (spool_view a)" by (cases "spool_view a") auto
    then show ?thesis using assms p(3) by (auto simp: spool_ready_def split: if_splits)
  qed
  with p show "spool_ready (spool_push line a)"
    by (auto simp: spool_push_def spool_ready_def split: option.split)
qed

interpretation spq: drop_oldest_fifo spool_ready spool_view ag_spool_cap "take 767" spool_push
proof
  fix a :: "('p,'n,'w,'t) cpe_agent" and x :: string
  assume a: "spool_ready a"
  show "length (spool_view a) \<le> ag_spool_cap a" "0 < ag_spool_cap a"
    using a by (auto simp: spool_ready_def spool_view_def ring_ok_def split: option.splits)
qed (simp_all add: spool_ready_push)

text \<open>A push touches nothing but the spool, its counters and the event queue.\<close>

lemma spool_push_frame [simp]:
  "ag_cfg (snd (cpe_agent_spool_push_line line a)) = ag_cfg a"
  "ag_tcp (snd (cpe_agent_spool_push_line line a)) = ag_tcp a"
  "ag_flow (snd (cpe_agent_spool_push_line line a)) = ag_flow a"
  "ag_slots (snd (cpe_agent_spool_push_line line a)) = ag_slots a"
  "ag_last (snd (cpe_agent_spool_push_line line a)) = ag_last a"
  "ag_nfct (snd (cpe_agent_spool_push_line line a)) = ag_nfct a"
  "ag_nfct_obs (snd (cpe_agent_spool_push_line line a)) = ag_nfct_obs a"
  by (simp_all add: cpe_agent_spool_push_line_def Let_def split: option.split)

lemma eq_inv_spool_push: "eq_inv a \<Longrightarrow> eq_inv (snd (cpe_agent_spool_push_line line a))"
  by (auto simp: cpe_agent_spool_push_line_def Let_def eq_push_inv split: option.split)

lemma spool_inv_push: "spool_inv a \<Longrightarrow> spool_inv (snd (cpe_agent_spool_push_line line a))"
  using spool_ready_push(1)[of a line]
  by (auto simp: spool_inv_def spool_push_def) (simp_all add: cpe_agent_spool_push_line_def)

section \<open>Draining the event queue\<close>

lemma next_event_view:
  assumes "eq_inv a"
  shows "cpe_agent_next_event a = (case eq_view a of [] \<Rightarrow> None
     | e # es \<Rightarrow> Some (e, a\<lparr>ag_eq_head := (ag_eq_head a + 1) mod 16, ag_eq_cnt := ag_eq_cnt a - 1\<rparr>))"
    "0 < ag_eq_cnt a \<Longrightarrow> eq_inv (a\<lparr>ag_eq_head := (ag_eq_head a + 1) mod 16, ag_eq_cnt := ag_eq_cnt a - 1\<rparr>)"
    "0 < ag_eq_cnt a \<Longrightarrow> eq_view (a\<lparr>ag_eq_head := (ag_eq_head a + 1) mod 16, ag_eq_cnt := ag_eq_cnt a - 1\<rparr>) = tl (eq_view a)"
proof -
  have ok: "ring_ok (ag_eq a) 16 (ag_eq_head a) (ag_eq_tail a) (ag_eq_cnt a)" using assms by (simp add: eq_inv_def)
  show "cpe_agent_next_event a = (case eq_view a of [] \<Rightarrow> None
     | e # es \<Rightarrow> Some (e, a\<lparr>ag_eq_head := (ag_eq_head a + 1) mod 16, ag_eq_cnt := ag_eq_cnt a - 1\<rparr>))"
    using ring_view_hd[OF ok] by (cases "ag_eq_cnt a"; cases "eq_view a") (auto simp: cpe_agent_next_event_def eq_view_def)
  show "0 < ag_eq_cnt a \<Longrightarrow> eq_inv (a\<lparr>ag_eq_head := (ag_eq_head a + 1) mod 16, ag_eq_cnt := ag_eq_cnt a - 1\<rparr>)"
    using ring_ok_drop[OF ok, of 1] by (simp add: eq_inv_def)
  show "0 < ag_eq_cnt a \<Longrightarrow> eq_view (a\<lparr>ag_eq_head := (ag_eq_head a + 1) mod 16, ag_eq_cnt := ag_eq_cnt a - 1\<rparr>) = tl (eq_view a)"
    using ring_view_drop[of 1 "ag_eq_cnt a" "ag_eq a" 16 "ag_eq_head a"] by (simp add: eq_view_def drop_Suc)
qed

interpretation agent_events: event_source cpe_agent_next_event ag_eq_cnt
  by unfold_locales (auto simp: cpe_agent_next_event_def split: if_splits)

lemma next_event_yields: "eq_inv a \<Longrightarrow> yields cpe_agent_next_event a (eq_view a)"
proof (induction "eq_view a" arbitrary: a)
  case Nil
  then show ?case by (simp add: Nil(1)[symmetric] next_event_view(1))
next
  case (Cons e es)
  let ?a = "a\<lparr>ag_eq_head := (ag_eq_head a + 1) mod 16, ag_eq_cnt := ag_eq_cnt a - 1\<rparr>"
  have "0 < ag_eq_cnt a" using Cons(2) by (cases "ag_eq_cnt a") (simp_all add: eq_view_def)
  note v = next_event_view(2,3)[OF Cons.prems this]
  have "yields cpe_agent_next_event ?a es"
    using Cons.hyps(1)[of ?a] v Cons(2)[symmetric] by simp
  then show ?case unfolding Cons(2)[symmetric] using next_event_view(1)[OF Cons.prems] Cons(2)[symmetric] by simp
qed

section \<open>Flushing\<close>

text \<open>Writing a list of lines to a stream until a write fails.\<close>

fun write_lines :: "(string \<Rightarrow> 'f \<Rightarrow> 'f option) \<Rightarrow> string list \<Rightarrow> 'f \<Rightarrow> nat \<times> 'f" where
  "write_lines wr [] f = (0, f)"
| "write_lines wr (l # ls) f = (case wr (l @ [CHR 0x0A]) f of None \<Rightarrow> (0, f)
     | Some f' \<Rightarrow> (let (n, f'') = write_lines wr ls f' in (Suc n, f'')))"

lemma write_lines_le: "fst (write_lines wr ls f) \<le> length ls"
  by (induction ls arbitrary: f) (auto simp: split_beta split: option.split)

lemma flush_loop_spec:
  assumes "spool_ready a"
  shows "\<exists>a'. spool_flush_loop wr f a k =
      (((if fst (write_lines wr (spool_view a) f) = length (spool_view a) then Some (k + length (spool_view a)) else None),
        snd (write_lines wr (spool_view a) f)), a') \<and>
      spool_ready a' \<and> spool_view a' = drop (fst (write_lines wr (spool_view a) f)) (spool_view a) \<and>
      ag_spool_drops a' = ag_spool_drops a \<and> ag_cfg a' = ag_cfg a"
  using assms
proof (induction "ag_spool_cnt a" arbitrary: a f k)
  case 0
  then have "spool_view a = []" by (auto simp: spool_view_def split: option.split)
  with 0 show ?case by (subst spool_flush_loop.simps) auto
next
  case (Suc n)
  obtain sp where sp: "ag_spool a = Some sp"
    and ok: "ring_ok sp (ag_spool_cap a) (ag_spool_head a) (ag_spool_tail a) (ag_spool_cnt a)"
    using Suc.prems by (auto simp: spool_ready_def split: option.splits)
  have pos: "0 < ag_spool_cnt a" using Suc(2) by simp
  let ?a = "a\<lparr>ag_spool_head := (ag_spool_head a + 1) mod ag_spool_cap a, ag_spool_cnt := ag_spool_cnt a - 1\<rparr>"
  have view: "spool_view ?a = tl (spool_view a)"
    using ring_view_drop[of 1 "ag_spool_cnt a" sp "ag_spool_cap a" "ag_spool_head a"] pos sp
    by (simp add: spool_view_def drop_Suc)
  have hd: "spool_view a = sp ! ag_spool_head a # tl (spool_view a)"
    using ring_view_hd[OF ok pos] pos sp by (cases "spool_view a") (auto simp: spool_view_def)
  have "set (tl (spool_view a)) \<subseteq> set (spool_view a)" by (cases "spool_view a") auto
  then have "spool_ready ?a"
    using Suc.prems sp ring_ok_drop[OF ok, of 1] pos view unfolding spool_ready_def by auto
  note IH = Suc(1)[of ?a _ "k + 1", OF _ this]
  show ?case
  proof (cases "wr (sp ! ag_spool_head a @ [CHR 0x0A]) f")
    case None
    then have "spool_flush_loop wr f a k = ((None, f), a)"
      using pos sp by (subst spool_flush_loop.simps) simp
    moreover have "write_lines wr (spool_view a) f = (0, f)" using None by (subst hd) simp
    ultimately show ?thesis using Suc.prems hd by (cases "spool_view a") auto
  next
    case (Some f')
    then have "spool_flush_loop wr f a k = spool_flush_loop wr f' ?a (k + 1)"
      using pos sp by (subst spool_flush_loop.simps) simp
    moreover obtain v where v: "spool_view a = sp ! ag_spool_head a # v" using hd by metis
    moreover have "spool_view ?a = v" using view v by simp
    ultimately show ?thesis using IH[of f'] Suc(2) Some by (auto simp: split_beta)
  qed
qed

lemma flush_spec:
  assumes "spool_ready a"
  defines "w \<equiv> \<lambda>wr f. write_lines wr (spool_view a) f"
  shows "\<exists>a'. cpe_agent_spool_flush wr flushed f a =
      ((if fst (w wr f) = length (spool_view a) \<and> flushed (snd (w wr f)) then int (length (spool_view a)) else -1, snd (w wr f)), a') \<and>
      spool_ready a' \<and> spool_view a' = drop (fst (w wr f)) (spool_view a) \<and> ag_spool_drops a' = ag_spool_drops a"
  using flush_loop_spec[OF assms(1), of wr f 0] assms(1)
  by (auto simp: cpe_agent_spool_flush_def w_def spool_ready_def split: option.splits)

section \<open>Concrete agent\<close>

definition agent00 :: "(unit, unit, unit, unit) cpe_agent" where
  "agent00 = agent0 () ()"

definition agent_with_spool :: "nat \<Rightarrow> (unit, unit, unit, unit) cpe_agent" where
  "agent_with_spool cap = snd (ensure_spool (\<lambda>_. True) cap agent00)"

lemma agent_with_spool_ready: "0 < cap \<Longrightarrow> spool_ready (agent_with_spool cap)"
  by (simp add: agent_with_spool_def ensure_spool_def Let_def agent00_def agent0_def free_spool_def spool_ready_def
      spool_view_def ring_ok_def)

lemma agent0_inv: "eq_inv (agent0 p n)" "slots_inv (agent0 p n)" "spool_inv (agent0 p n)"
  by (simp_all add: agent0_def eq_inv_def ring_ok_def slots_inv_def slot0_def spool_inv_def)

lemma agent0_views: "eq_view (agent0 p n) = []"
  by (simp add: agent0_def eq_view_def)

lemma agent00_inv: "eq_inv agent00" "slots_inv agent00" "eq_view agent00 = []"
  by (simp_all add: agent00_def agent0_inv agent0_views)

lemma agent_with_spool_view: "0 < cap \<Longrightarrow> spool_view (agent_with_spool cap) = []"
  "0 < cap \<Longrightarrow> ag_spool_cap (agent_with_spool cap) = cap" "ag_spool_drops (agent_with_spool cap) = 0"
  by (simp_all add: agent_with_spool_def ensure_spool_def Let_def agent00_def agent0_def free_spool_def spool_view_def)

section \<open>Properties\<close>

lemma push_drops:
  assumes "spool_ready a"
  shows "ag_spool_drops (spool_push x a) =
    ag_spool_drops a + (if length (spool_view a) < ag_spool_cap a then 0 else 1)"
  using assms
  by (auto simp: spool_push_def cpe_agent_spool_push_line_def spool_ready_def spool_view_def Let_def ring_ok_def
      split: option.splits)

lemma pushes_drops:
  "spool_ready a \<Longrightarrow> ag_spool_drops (fold spool_push xs a) =
     ag_spool_drops a + of_nat (length (spool_view a) + length xs - ag_spool_cap a)"
proof (induction xs arbitrary: a)
  case Nil
  then show ?case using spq.bound[of a] by simp
next
  case (Cons x xs)
  note r = spool_ready_push[OF Cons.prems, of x]
  have b: "length (spool_view a) \<le> ag_spool_cap a" "0 < ag_spool_cap a"
    using spq.bound[OF Cons.prems] spq.capacity_pos[OF Cons.prems] by simp_all
  have "ag_spool_drops (fold spool_push (x # xs) a) =
      ag_spool_drops (spool_push x a) + of_nat (length (spool_view (spool_push x a)) + length xs - ag_spool_cap a)"
    using Cons.IH[OF r(1)] r(4) by simp
  then show ?case
    using push_drops[OF Cons.prems, of x] r(3) b by (cases "length (spool_view a) < ag_spool_cap a") auto
qed

text \<open>C2: the spool never blocks and keeps the newest lines. After any sequence of pushes it holds, in
  order, the last \<^verbatim>\<open>spool_cap\<close> of all lines (each cut to the 767 characters a line buffer
  holds), and the drop counter has advanced by exactly the number of lines lost.\<close>

theorem spool_keeps_newest:
  assumes "spool_ready a"
  shows "spool_view (fold spool_push xs a) =
      drop (length (spool_view a) + length xs - ag_spool_cap a) (spool_view a @ map (take 767) xs) \<and>
    ag_spool_drops (fold spool_push xs a) =
      ag_spool_drops a + of_nat (length (spool_view a) + length xs - ag_spool_cap a) \<and>
    spool_ready (fold spool_push xs a)"
  using spq.pushes_view[OF assms] pushes_drops[OF assms] spq.pushes_inv[OF assms] by blast

theorem spool_keeps_newest_witness:
  "spool_view (fold spool_push [''a'', ''b'', ''c''] (agent_with_spool 2)) = [''b'', ''c''] \<and>
   ag_spool_drops (fold spool_push [''a'', ''b'', ''c''] (agent_with_spool 2)) = 1"
  using spool_keeps_newest[OF agent_with_spool_ready[of 2], of "[''a'', ''b'', ''c'']"]
  by (simp add: agent_with_spool_view)

text \<open>C18: the event queue refuses instead of overwriting: whatever is pushed, it holds the first 16
  of its events, in order, with their reasons cut to 127 characters.\<close>

theorem event_queue_keeps_oldest:
  assumes "eq_inv a"
  shows "eq_view (fold (\<lambda>(ty, r, n, s). eq_push ty r n s) xs a) =
      take 16 (eq_view a @ map (\<lambda>(ty, r, n, s). mk_event ty r n s) xs) \<and>
    eq_inv (fold (\<lambda>(ty, r, n, s). eq_push ty r n s) xs a)"
  using evq.pushes_view[OF assms, of xs] evq.pushes_inv[OF assms, of xs]
  unfolding eq_push_args_def eq_store_def by auto

theorem event_queue_keeps_oldest_witness:
  "eq_view (fold (\<lambda>(ty, r, n, s). eq_push ty r n s) [(CPE_AGENT_EVENT_SAMPLE_READY, None, 0, 0)]
     agent00) = [mk_event CPE_AGENT_EVENT_SAMPLE_READY None 0 0]"
  using event_queue_keeps_oldest[OF agent00_inv(1), of "[(CPE_AGENT_EVENT_SAMPLE_READY, None, 0, 0)]"]
  by (simp add: agent00_inv)

text \<open>the host's drain loop \<^verbatim>\<open>while (cpe_agent_next_event(a, &ev) == 1)\<close> ends after at most
  16 calls and sees exactly the queued events, oldest first.\<close>

theorem event_drain_complete:
  assumes "eq_inv a"
  shows "yields cpe_agent_next_event a (eq_view a) \<and> length (eq_view a) \<le> 16"
  using next_event_yields[OF assms] evq.bound[OF assms] by blast

theorem event_drain_complete_witness:
  "yields cpe_agent_next_event (eq_push CPE_AGENT_EVENT_NEED_ALLOC None 9 0 agent00)
     [mk_event CPE_AGENT_EVENT_NEED_ALLOC None 9 0]"
proof -
  let ?a = agent00
  have "eq_view (eq_push CPE_AGENT_EVENT_NEED_ALLOC None 9 0 ?a) = [mk_event CPE_AGENT_EVENT_NEED_ALLOC None 9 0]"
    by (simp add: eq_view_def eq_push_def agent00_def agent0_def ring_view_def)
  with event_drain_complete[OF eq_push_inv[OF agent00_inv(1)], of CPE_AGENT_EVENT_NEED_ALLOC None 9 0]
  show ?thesis by metis
qed

text \<open>C17: flushing loses no line. The lines that were written to the stream, in order and each with
  its line feed, leave the spool; when a write fails the rest stays queued and the result is -1,
  otherwise the result is the number of lines.\<close>

theorem spool_flush_lossless:
  assumes "spool_ready a" "write_lines wr (spool_view a) f = (n, f')"
  shows "\<exists>a'. cpe_agent_spool_flush wr flushed f a =
      ((if n = length (spool_view a) \<and> flushed f' then int n else -1, f'), a') \<and>
      spool_ready a' \<and> spool_view a = take n (spool_view a) @ spool_view a' \<and> ag_spool_drops a' = ag_spool_drops a"
  using flush_spec[OF assms(1), of wr flushed f] assms(2) by auto

theorem spool_flush_lossless_witness:
  "\<exists>a'. cpe_agent_spool_flush (\<lambda>l f. if length f < 1 then Some (f @ [l]) else None) (\<lambda>_. True) []
       (fold spool_push [''a'', ''b''] (agent_with_spool 2)) = ((-1, [''a\<newline>'']), a') \<and> spool_view a' = [''b'']"
proof -
  let ?a = "fold spool_push [''a'', ''b''] (agent_with_spool 2)"
  let ?wr = "\<lambda>l f. if length f < 1 then Some (f @ [l]) else None"
  have v: "spool_view ?a = [''a'', ''b'']" "spool_ready ?a"
    using spq.pushes_view[OF agent_with_spool_ready[of 2], of "[''a'', ''b'']"]
      spq.pushes_inv[OF agent_with_spool_ready[of 2], of "[''a'', ''b'']"] by (simp_all add: agent_with_spool_view)
  show ?thesis
    using spool_flush_lossless[OF v(2), of ?wr "[]" 1 "[''a\<newline>'']" "\<lambda>_. True"] unfolding v(1) by auto
qed

definition sample_wf :: "cpe_perf_sample \<Rightarrow> bool" where
  "sample_wf s \<longleftrightarrow> length (ps_probe s) < 32 \<and> length (ps_target s) < 64 \<and> length (ps_ts_iso s) < 40 \<and>
     length (ps_meta s) < 128 \<and> line_safe (ps_probe s) \<and> line_safe (ps_target s) \<and> line_safe (ps_ts_iso s) \<and>
     line_safe (ps_meta s)"

text \<open>the \<^verbatim>\<open>cpe_perf\<close> record of any sample with a round-trip time below \<open>10\<^sup>300\<close> milliseconds
  and a loss share between 0 and 1 fits the 768-byte line, so a probe result is never dropped by the
  formatter.\<close>

theorem perf_ndjson_fits:
  assumes "sample_wf s" "length rid < 64" "line_safe rid" "0 \<le> ps_rtt_ms s" "ps_rtt_ms s \<le> 10 ^ 300 - 1"
    "0 \<le> ps_loss s" "ps_loss s \<le> 1"
  shows "\<exists>line. cpe_perf_format_ndjson (Some rid) (Some s) 768 = Some line \<and> length line < 768 \<and> line_safe line"
proof -
  have "ps_rtt_ms s \<le> of_nat (10 ^ 300 - 1)" using assms(5) of_nat_diff[of 1 "10 ^ 300", where 'a = rat] by simp
  then have r: "length (fixed 3 (ps_rtt_ms s)) \<le> 300 + 3 + 1" using assms(4) by (intro length_fixed) simp_all
  have "ps_loss s \<le> of_nat (10 ^ 1 - 1)" using assms(7) by simp
  then have l: "length (fixed 4 (ps_loss s)) \<le> 1 + 4 + 1" using assms(6) by (intro length_fixed) simp_all
  have "length (str_or (ps_ts_iso s) epoch_iso) \<le> 39" "length (str_or rid ''unknown'') \<le> 63"
    "length (str_or (ps_probe s) ''ping'') \<le> 31" "length (str_or (ps_meta s) ''{}'') \<le> 127"
    using assms(1,2) by (auto simp: sample_wf_def str_or_def epoch_iso_def)
  with r l assms(1,3) show ?thesis
    unfolding cpe_perf_format_ndjson_def Let_def option.case
    by (auto simp: sample_wf_def line_safe_str_or)
qed

definition sample1 :: cpe_perf_sample where
  "sample1 = \<lparr> ps_probe = ''ping'', ps_target = ''1.1.1.1'', ps_rtt_ms = 5, ps_loss = 0, ps_ts_iso = [], ps_meta = [] \<rparr>"

theorem perf_ndjson_fits_witness:
  "\<exists>line. cpe_perf_format_ndjson (Some ''cpe-lab-1'') (Some sample1) 768 = Some line \<and> length line < 768 \<and> line_safe line"
  by (rule perf_ndjson_fits) (simp_all add: sample_wf_def sample1_def)

text \<open>a host can never provide a buffer: no operation marks a slot as waiting, so in every state
  with the slot invariant \<^verbatim>\<open>cpe_agent_provide_buffer\<close> returns -1 and changes nothing, whatever
  \<^verbatim>\<open>NEED_ALLOC\<close> event the agent sent before.\<close>

theorem provide_buffer_always_refused:
  assumes "slots_inv a"
  shows "cpe_agent_provide_buffer sl buf len a = (-1, a)"
  using assms by (auto simp: cpe_agent_provide_buffer_def slots_inv_def)

theorem provide_buffer_always_refused_witness:
  "cpe_agent_provide_buffer 0 (Some [[]]) 768 agent00 = (-1, agent00)"
  by (rule provide_buffer_always_refused) (rule agent00_inv)

end
