(* ===== verification/Agent_Tcp.thy ===== *)
theory Agent_Tcp
  imports Agent_Spool
begin

text \<open>
  \<^verbatim>\<open>agent/tcp_stats.c\<close>, the agent interface: opening and polling the NFLOG socket, feeding
  packets, queries, reset, and the periodic emission of summary, remote and prefix records into
  the spool. \<open>nflog_open group range\<close> is the result of \<^verbatim>\<open>nflog_netlink_open\<close>: an error
  text or a descriptor; \<open>rx\<close> is the sequence of results of \<^verbatim>\<open>recv\<close>; \<open>qsort_r\<close> and
  \<open>qsort_p\<close> are the C library's \<^verbatim>\<open>qsort\<close> with the two comparison functions. The outer
  option of a result is \<open>None\<close> if a read went outside a buffer.
\<close>

section \<open>Operations\<close>

definition cpe_agent_tcp_open ::
  "(u16 \<Rightarrow> u32 \<Rightarrow> string + int) \<Rightarrow> ('p,'n,'w,'t) cpe_agent \<Rightarrow> int \<times> ('p,'n,'w,'t) cpe_agent" where
  "cpe_agent_tcp_open nflog_open a =
     (let st = ag_tcp a; cfg = ag_cfg a in
      if tc_fd st \<ge> 0 then (0, a)
      else
        (let grp = (if c_tcp_nflog_group cfg \<noteq> 0 then c_tcp_nflog_group cfg else 5);
             crange = (if c_tcp_nflog_size cfg \<noteq> 0 then c_tcp_nflog_size cfg else 60);
             plen = (if c_tcp_prefix_len cfg \<noteq> 0 then c_tcp_prefix_len cfg else 24);
             st1 = st\<lparr>tc_group := grp, tc_copy_range := crange, tc_prefix_len := plen,
               tc_emit_interval_ms := (if c_tcp_emit_interval_ms cfg \<noteq> 0 then c_tcp_emit_interval_ms cfg else 10000),
               tc_emit_top_n := (if c_tcp_emit_top_n cfg \<noteq> 0 then c_tcp_emit_top_n cfg else 20),
               tc_enabled := c_tcp_stats_enabled cfg,
               tc_snap := (tc_snap st)\<lparr>sn_nflog_group := ucast grp, sn_prefix_len := plen\<rparr>\<rparr> in
         if \<not> tc_enabled st1 then (0, a\<lparr>ag_tcp := st1\<rparr>)
         else
           (case nflog_open grp crange of
              Inl err \<Rightarrow>
                (-1, a\<lparr>ag_tcp := st1\<lparr>tc_open_err := (if cstr 128 err \<noteq> [] then cstr 96 (cstr 128 err) else ''nflog open failed''),
                       tc_open_ok := False\<rparr>\<rparr>)
            | Inr fd \<Rightarrow> (0, a\<lparr>ag_tcp := st1\<lparr>tc_fd := fd, tc_open_ok := True, tc_open_err := []\<rparr>\<rparr>))))"

definition cpe_agent_tcp_close :: "('p,'n,'w,'t) cpe_agent \<Rightarrow> ('p,'n,'w,'t) cpe_agent" where
  "cpe_agent_tcp_close a =
     (let st = ag_tcp a; st1 = (if tc_fd st \<ge> 0 then st\<lparr>tc_fd := -1\<rparr> else st)
      in a\<lparr>ag_tcp := st1\<lparr>tc_open_ok := False\<rparr>\<rparr>)"

text \<open>
  The receive loop: at most \<open>limit\<close> buffers; it stops when \<^verbatim>\<open>recv\<close> has no data or fails.
  The clock readings are those of the \<open>n\<close>-th buffer.
\<close>

fun tcp_poll_loop ::
  "(nat \<Rightarrow> nat \<Rightarrow> clock) \<Rightarrow> nat \<Rightarrow> recv_result list \<Rightarrow> int \<Rightarrow> cpe_tcp_state \<Rightarrow> (int \<times> cpe_tcp_state) option" where
  "tcp_poll_loop clk 0 rx tot st = Some (tot, st)"
| "tcp_poll_loop clk (Suc left) [] tot st = Some (tot, st)"
| "tcp_poll_loop clk (Suc left) (r # rx) tot st =
     (let (rd, buf) = nflog_netlink_recv (tc_fd st) r in
      if rd \<le> 0 then Some (tot, st)
      else
        (case nflog_netlink_walk (on_nflog_payload (clk left)) buf (Some st) of
           Some (walked, Some st') \<Rightarrow> tcp_poll_loop clk left rx (if walked > 0 then tot + walked else tot) st'
         | _ \<Rightarrow> None))"

definition cpe_agent_tcp_poll ::
  "(nat \<Rightarrow> nat \<Rightarrow> clock) \<Rightarrow> (u16 \<Rightarrow> u32 \<Rightarrow> string + int) \<Rightarrow> recv_result list \<Rightarrow> nat \<Rightarrow>
   ('p,'n,'w,'t) cpe_agent \<Rightarrow> (int \<times> ('p,'n,'w,'t) cpe_agent) option" where
  "cpe_agent_tcp_poll clk nflog_open rx max_msgs a =
     (if \<not> tc_enabled (ag_tcp a) then Some (0, a)
      else
        (let (r, a1) = (if tc_fd (ag_tcp a) < 0 then cpe_agent_tcp_open nflog_open a else (0, a)) in
         if r \<noteq> 0 \<or> tc_fd (ag_tcp a1) < 0 then Some (0, a1)
         else map_option (\<lambda>(n, st). (n, a1\<lparr>ag_tcp := st\<rparr>))
                (tcp_poll_loop clk (if max_msgs = 0 then 64 else max_msgs) rx 0 (ag_tcp a1))))"

definition cpe_agent_tcp_feed_payload ::
  "clock \<Rightarrow> bytes \<Rightarrow> ('p,'n,'w,'t) cpe_agent \<Rightarrow> (int \<times> ('p,'n,'w,'t) cpe_agent) option" where
  "cpe_agent_tcp_feed_payload clk ip_pkt a =
     (if ip_pkt = [] then Some (-1, a)
      else
        (let st = ag_tcp a;
             st1 = st\<lparr>tc_snap := (tc_snap st)\<lparr>sn_pkts_parsed := sn_pkts_parsed (tc_snap st) + 1\<rparr>\<rparr> in
         case cpe_tcp_parse_ip_packet ip_pkt of
           None \<Rightarrow> None
         | Some None \<Rightarrow>
             Some (-1, a\<lparr>ag_tcp := st1\<lparr>tc_snap := (tc_snap st1)\<lparr>sn_pkts_parse_fail := sn_pkts_parse_fail (tc_snap st1) + 1\<rparr>\<rparr>\<rparr>)
         | Some (Some pkt) \<Rightarrow> Some (0, a\<lparr>ag_tcp := apply_packet clk pkt st1\<rparr>)))"

definition cpe_agent_tcp_feed_nflog ::
  "(nat \<Rightarrow> clock) \<Rightarrow> bytes \<Rightarrow> ('p,'n,'w,'t) cpe_agent \<Rightarrow> (int \<times> ('p,'n,'w,'t) cpe_agent) option" where
  "cpe_agent_tcp_feed_nflog clk nl_msg a =
     (if nl_msg = [] then Some (-1, a)
      else
        (case nflog_netlink_walk (on_nflog_payload clk) nl_msg (Some (ag_tcp a)) of
           Some (n, Some st) \<Rightarrow> Some (n, a\<lparr>ag_tcp := st\<rparr>) | _ \<Rightarrow> None))"

definition cpe_agent_tcp_snapshot :: "('p,'n,'w,'t) cpe_agent \<Rightarrow> cpe_tcp_snapshot" where
  "cpe_agent_tcp_snapshot a = tc_snap (ag_tcp a)"

definition cpe_agent_tcp_remote :: "string \<Rightarrow> ('p,'n,'w,'t) cpe_agent \<Rightarrow> cpe_tcp_remote option" where
  "cpe_agent_tcp_remote remote_ip a = find (\<lambda>r. rm_remote_ip r = remote_ip) (sn_remotes (tc_snap (ag_tcp a)))"

definition cpe_agent_tcp_prefix :: "string \<Rightarrow> ('p,'n,'w,'t) cpe_agent \<Rightarrow> cpe_tcp_prefix option" where
  "cpe_agent_tcp_prefix pfx a = find (\<lambda>p. px_prefix p = pfx) (sn_prefixes (tc_snap (ag_tcp a)))"

definition cpe_agent_tcp_reset :: "clock \<Rightarrow> ('p,'n,'w,'t) cpe_agent \<Rightarrow> ('p,'n,'w,'t) cpe_agent" where
  "cpe_agent_tcp_reset clk a =
     (let st = ag_tcp a in
      a\<lparr>ag_tcp := st\<lparr>tc_snap := snapshot0\<lparr>sn_nflog_group := sn_nflog_group (tc_snap st),
             sn_prefix_len := sn_prefix_len (tc_snap st), sn_ts_iso := tcp_iso_now clk\<rparr>,
           tc_flows := replicate 64 flow0, tc_flow_i := 0\<rparr>\<rparr>)"

definition cmp_remote_pkts :: "cpe_tcp_remote \<Rightarrow> cpe_tcp_remote \<Rightarrow> int" where
  "cmp_remote_pkts a b = (if rm_pkt_count a < rm_pkt_count b then 1 else if rm_pkt_count a > rm_pkt_count b then -1 else 0)"

definition cmp_prefix_pkts :: "cpe_tcp_prefix \<Rightarrow> cpe_tcp_prefix \<Rightarrow> int" where
  "cmp_prefix_pkts a b = (if px_pkt_count a < px_pkt_count b then 1 else if px_pkt_count a > px_pkt_count b then -1 else 0)"

text \<open>Format a row, and if that succeeds push it; count the accepted lines.\<close>

definition push_formatted :: "string option \<Rightarrow> int \<times> ('p,'n,'w,'t) cpe_agent \<Rightarrow> int \<times> ('p,'n,'w,'t) cpe_agent" where
  "push_formatted line x =
     (let (lines, a) = x in
      case line of None \<Rightarrow> (lines, a)
      | Some l \<Rightarrow> (let (ok, a') = cpe_agent_spool_push_line l a in (if ok then lines + 1 else lines, a')))"

definition cpe_agent_tcp_emit ::
  "(cpe_tcp_remote list \<Rightarrow> cpe_tcp_remote list) \<Rightarrow> (cpe_tcp_prefix list \<Rightarrow> cpe_tcp_prefix list) \<Rightarrow>
   clock \<Rightarrow> clock \<Rightarrow> nat \<Rightarrow> ('p,'n,'w,'t) cpe_agent \<Rightarrow> int \<times> ('p,'n,'w,'t) cpe_agent" where
  "cpe_agent_tcp_emit qsort_r qsort_p clk clk2 top_n0 a =
     (let st = ag_tcp a; rid = Some (c_router_id (ag_cfg a));
          snap = (tc_snap st)\<lparr>sn_ts_iso := tcp_iso_now clk\<rparr>;
          a1 = a\<lparr>ag_tcp := st\<lparr>tc_snap := snap\<rparr>\<rparr> in
      case cpe_tcp_format_ndjson rid (Some ''summary'') snap None None 640 of
        None \<Rightarrow> (-1, a1)
      | Some line \<Rightarrow>
          (let x1 = push_formatted (Some line) (0, a1);
               n_rem = min (length (sn_remotes snap)) 256;
               rem = take n_rem (sn_remotes snap);
               rem_sorted = (if n_rem > 1 then qsort_r rem else rem);
               want = (if top_n0 = 0 then (if tc_emit_top_n st \<noteq> 0 then unat (tc_emit_top_n st) else 20) else top_n0);
               top_n = min want n_rem;
               x2 = fold (\<lambda>r. push_formatted (cpe_tcp_format_ndjson rid (Some ''remote'') snap (Some r) None 640))
                      (take top_n rem_sorted) x1;
               n_pfx = min (length (sn_prefixes snap)) 128;
               pfx = take n_pfx (sn_prefixes snap);
               pfx_sorted = (if n_pfx > 1 then qsort_p pfx else pfx);
               (lines, a3) = fold (\<lambda>p. push_formatted (cpe_tcp_format_ndjson rid (Some ''prefix'') snap None (Some p) 640))
                      (take (min top_n n_pfx) pfx_sorted) x2
           in (lines, a3\<lparr>ag_tcp := (ag_tcp a3)\<lparr>tc_last_emit_ms := mono_ms clk2\<rparr>\<rparr>)))"

definition cpe_agent_tcp_tick ::
  "(cpe_tcp_remote list \<Rightarrow> cpe_tcp_remote list) \<Rightarrow> (cpe_tcp_prefix list \<Rightarrow> cpe_tcp_prefix list) \<Rightarrow>
   (nat \<Rightarrow> nat \<Rightarrow> clock) \<Rightarrow> clock \<Rightarrow> clock \<Rightarrow> clock \<Rightarrow> (u16 \<Rightarrow> u32 \<Rightarrow> string + int) \<Rightarrow> recv_result list \<Rightarrow>
   ('p,'n,'w,'t) cpe_agent \<Rightarrow> (int \<times> ('p,'n,'w,'t) cpe_agent) option" where
  "cpe_agent_tcp_tick qsort_r qsort_p pclk nclk clk clk2 nflog_open rx a =
     (let cfg = ag_cfg a; st = ag_tcp a in
      if \<not> c_tcp_stats_enabled cfg then Some (0, a)
      else
        (let plen = (if c_tcp_prefix_len cfg \<noteq> 0 then c_tcp_prefix_len cfg else tc_prefix_len st);
             st1 = st\<lparr>tc_enabled := True, tc_prefix_len := plen,
               tc_snap := (tc_snap st)\<lparr>sn_prefix_len := plen,
                 sn_nflog_group := (if c_tcp_nflog_group cfg \<noteq> 0 then ucast (c_tcp_nflog_group cfg) else sn_nflog_group (tc_snap st))\<rparr>,
               tc_emit_interval_ms := (if c_tcp_emit_interval_ms cfg \<noteq> 0 then c_tcp_emit_interval_ms cfg else tc_emit_interval_ms st),
               tc_emit_top_n := (if c_tcp_emit_top_n cfg \<noteq> 0 then c_tcp_emit_top_n cfg else tc_emit_top_n st)\<rparr> in
         case cpe_agent_tcp_poll pclk nflog_open rx 128 (a\<lparr>ag_tcp := st1\<rparr>) of
           None \<Rightarrow> None
         | Some (polled, a2) \<Rightarrow>
             (let now = mono_ms nclk; st2 = ag_tcp a2 in
              if tc_last_emit_ms st2 = 0 \<or> now - tc_last_emit_ms st2 \<ge> ucast (tc_emit_interval_ms st2)
              then Some (cpe_agent_tcp_emit qsort_r qsort_p clk clk2 (unat (tc_emit_top_n st2)) a2)
              else Some (0, a2))))"

definition cpe_agent_tcp_last_error :: "('p,'n,'w,'t) cpe_agent \<Rightarrow> string option" where
  "cpe_agent_tcp_last_error a = (if tc_open_err (ag_tcp a) = [] then None else Some (tc_open_err (ag_tcp a)))"

definition cpe_agent_tcp_fd :: "('p,'n,'w,'t) cpe_agent \<Rightarrow> int" where
  "cpe_agent_tcp_fd a = tc_fd (ag_tcp a)"

lemmas agent_tcp_defs [cdefs] =
  cpe_agent_tcp_open_def cpe_agent_tcp_close_def cpe_agent_tcp_poll_def cpe_agent_tcp_feed_payload_def
  cpe_agent_tcp_feed_nflog_def cpe_agent_tcp_snapshot_def cpe_agent_tcp_remote_def cpe_agent_tcp_prefix_def
  cpe_agent_tcp_reset_def cmp_remote_pkts_def cmp_prefix_pkts_def push_formatted_def cpe_agent_tcp_emit_def
  cpe_agent_tcp_tick_def cpe_agent_tcp_last_error_def cpe_agent_tcp_fd_def

section \<open>Invariants\<close>

definition core_inv :: "('p,'n,'w,'t) cpe_agent \<Rightarrow> bool" where
  "core_inv a \<longleftrightarrow> eq_inv a \<and> spool_inv a \<and> slots_inv a"

lemma core_inv_frame [simp]:
  "core_inv (a\<lparr>ag_cfg := c\<rparr>) = core_inv a" "core_inv (a\<lparr>ag_tcp := tc\<rparr>) = core_inv a"
  "core_inv (a\<lparr>ag_flow := fs\<rparr>) = core_inv a" "core_inv (a\<lparr>ag_nfct := nf\<rparr>) = core_inv a"
  "core_inv (a\<lparr>ag_nfct_obs := k\<rparr>) = core_inv a" "core_inv (a\<lparr>ag_ping := pg\<rparr>) = core_inv a"
  "core_inv (a\<lparr>ag_last := s\<rparr>) = core_inv a" "core_inv (a\<lparr>ag_last_wifi := w\<rparr>) = core_inv a"
  "core_inv (a\<lparr>ag_last_trace := t\<rparr>) = core_inv a"
  by (simp_all add: core_inv_def)

lemma core_inv_eq_push: "core_inv a \<Longrightarrow> core_inv (eq_push ty r n s a)"
  by (simp add: core_inv_def eq_push_inv)

lemma core_inv_spool_push: "core_inv a \<Longrightarrow> core_inv (snd (cpe_agent_spool_push_line line a))"
  by (simp add: core_inv_def eq_inv_spool_push spool_inv_push) (simp add: slots_inv_def)

definition snap_same :: "cpe_tcp_snapshot \<Rightarrow> cpe_tcp_snapshot \<Rightarrow> bool" where
  "snap_same s t \<longleftrightarrow> same_counts s t \<and> sn_remotes s = sn_remotes t \<and> sn_prefixes s = sn_prefixes t \<and>
     length (sn_ts_iso s) < 40 \<and> line_safe (sn_ts_iso s)"

lemma tcp_inv_same:
  "tcp_inv st \<Longrightarrow> snap_same (tc_snap st') (tc_snap st) \<Longrightarrow> length (tc_flows st') = 64 \<Longrightarrow> tc_flow_i st' < 64 \<Longrightarrow> tcp_inv st'"
  by (auto simp: tcp_inv_def snap_same_def snap_wf_def same_counts_ok)

lemma snap_frame [simp]:
  "snap_wf (s\<lparr>sn_nflog_group := g\<rparr>) = snap_wf s" "snap_wf (s\<lparr>sn_prefix_len := l\<rparr>) = snap_wf s"
  "counts_ok (s\<lparr>sn_nflog_group := g\<rparr>) = counts_ok s" "counts_ok (s\<lparr>sn_prefix_len := l\<rparr>) = counts_ok s"
  by (simp_all add: snap_wf_def counts_ok_def)

lemma tcp_open_inv:
  assumes "tcp_inv (ag_tcp a)"
  shows "tcp_inv (ag_tcp (snd (cpe_agent_tcp_open op a))) \<and> core_inv (snd (cpe_agent_tcp_open op a)) = core_inv a \<and>
    ag_flow (snd (cpe_agent_tcp_open op a)) = ag_flow a \<and> ag_cfg (snd (cpe_agent_tcp_open op a)) = ag_cfg a"
proof (cases "tc_fd (ag_tcp a) \<ge> 0")
  case True
  with assms show ?thesis by (simp add: cpe_agent_tcp_open_def)
next
  case False
  with assms show ?thesis
    unfolding cpe_agent_tcp_open_def Let_def
    by (cases "c_tcp_stats_enabled (ag_cfg a)") (simp_all add: tcp_inv_def split: sum.split split del: if_split)
qed

lemma tcp_close_inv [simp]:
  "tcp_inv (ag_tcp (cpe_agent_tcp_close a)) = tcp_inv (ag_tcp a)" "core_inv (cpe_agent_tcp_close a) = core_inv a"
  "ag_flow (cpe_agent_tcp_close a) = ag_flow a" "ag_cfg (cpe_agent_tcp_close a) = ag_cfg a"
  by (simp_all add: cpe_agent_tcp_close_def Let_def tcp_inv_def)

text \<open>Received datagrams are padded to multiples of four and fit the 8192-byte buffer.\<close>

definition rx_ok :: "recv_result \<Rightarrow> bool" where
  "rx_ok r = (case r of Received b \<Rightarrow> length b \<le> 8192 \<and> 4 dvd length b | _ \<Rightarrow> True)"

lemma walk_tcp:
  assumes "tcp_inv st" "length buf < 2 ^ 64" "4 dvd length buf"
  shows "\<exists>n st'. nflog_netlink_walk (on_nflog_payload clk) buf (Some st) = Some (n, Some st') \<and> tcp_inv st'"
proof -
  obtain n sto where w: "nflog_netlink_walk (on_nflog_payload clk) buf (Some st) = Some (n, sto)"
    using nflog_walk_total[OF assms(2,3), of "on_nflog_payload clk" "Some st"] by blast
  then have "tcp_inv_opt sto" using tcp_sink.walk_inv[OF w] assms(1) by (simp add: tcp_inv_opt_def)
  with w show ?thesis by (cases sto) (auto simp: tcp_inv_opt_def)
qed

lemma tcp_poll_loop_inv:
  assumes "tcp_inv st" "list_all rx_ok rx"
  shows "\<exists>n st'. tcp_poll_loop clk left rx tot st = Some (n, st') \<and> tcp_inv st' \<and> tot \<le> n"
  using assms
proof (induction clk left rx tot st rule: tcp_poll_loop.induct)
  case (3 clk left r rx tot st)
  obtain rd buf where rb: "nflog_netlink_recv (tc_fd st) r = (rd, buf)" by fastforce
  show ?case
  proof (cases "rd \<le> 0")
    case True
    with rb 3(2) show ?thesis by simp
  next
    case False
    with rb have "r = Received buf" by (auto simp: nflog_netlink_recv_def split: if_splits recv_result.splits)
    with 3(3) have b: "length buf < 2 ^ 64" "4 dvd length buf" by (auto simp: rx_ok_def)
    obtain n st' where w: "nflog_netlink_walk (on_nflog_payload (clk left)) buf (Some st) = Some (n, Some st')" "tcp_inv st'"
      using walk_tcp[OF 3(2) b] by blast
    let ?t = "if n > 0 then tot + n else tot"
    have "\<exists>m st''. tcp_poll_loop clk left rx ?t st' = Some (m, st'') \<and> tcp_inv st'' \<and> ?t \<le> m"
      using 3(1)[OF refl _ _ w(1) refl refl w(2)] rb False 3(3) by simp
    with rb False w show ?thesis by (auto split: if_splits)
  qed
qed auto

lemma tcp_poll_inv:
  assumes "tcp_inv (ag_tcp a)" "list_all rx_ok rx"
  shows "\<exists>n a'. cpe_agent_tcp_poll clk op rx m a = Some (n, a') \<and> tcp_inv (ag_tcp a') \<and> core_inv a' = core_inv a \<and>
    ag_flow a' = ag_flow a \<and> ag_cfg a' = ag_cfg a \<and> 0 \<le> n"
proof (cases "tc_enabled (ag_tcp a)")
  case True
  obtain r a1 where o: "(if tc_fd (ag_tcp a) < 0 then cpe_agent_tcp_open op a else (0, a)) = (r, a1)" by fastforce
  have a1: "tcp_inv (ag_tcp a1)" "core_inv a1 = core_inv a" "ag_flow a1 = ag_flow a" "ag_cfg a1 = ag_cfg a"
    using tcp_open_inv[OF assms(1), of op] o assms(1) by (auto split: if_splits)
  obtain n st' where "tcp_poll_loop clk (if m = 0 then 64 else m) rx 0 (ag_tcp a1) = Some (n, st')" "tcp_inv st'" "0 \<le> n"
    using tcp_poll_loop_inv[OF a1(1) assms(2)] by blast
  with True o a1 show ?thesis by (simp add: cpe_agent_tcp_poll_def)
qed (use assms in \<open>simp add: cpe_agent_tcp_poll_def\<close>)

lemma tcp_feed_payload_inv:
  assumes "tcp_inv (ag_tcp a)"
  shows "\<exists>n a'. cpe_agent_tcp_feed_payload clk pkt a = Some (n, a') \<and> tcp_inv (ag_tcp a') \<and> core_inv a' = core_inv a"
proof (cases "pkt = []")
  case False
  define st1 where "st1 = (ag_tcp a)\<lparr>tc_snap := (tc_snap (ag_tcp a))\<lparr>sn_pkts_parsed := sn_pkts_parsed (tc_snap (ag_tcp a)) + 1\<rparr>\<rparr>"
  have wf: "snap_wf (tc_snap st1)" "length (tc_flows st1) = 64" "tc_flow_i st1 < 64"
    "counts_ok ((tc_snap st1)\<lparr>sn_pkts_parsed := sn_pkts_parsed (tc_snap st1) - 1\<rparr>)"
    using assms by (simp_all add: st1_def tcp_inv_def snap_wf_def counts_ok_def)
  obtain r where r: "cpe_tcp_parse_ip_packet pkt = Some r" "parse_good (Some r)"
    using parse_ip_good[of pkt] by (cases "cpe_tcp_parse_ip_packet pkt") auto
  show ?thesis
  proof (cases r)
    case None
    with False r assms show ?thesis
      by (simp add: cpe_agent_tcp_feed_payload_def Let_def tcp_inv_def snap_wf_def counts_ok_def algebra_simps)
  next
    case (Some p)
    with r have "packet_wf p" by simp
    with Some False r apply_packet_inv[OF wf(1-3) _ wf(4)] show ?thesis
      by (simp add: cpe_agent_tcp_feed_payload_def Let_def st1_def)
  qed
qed (use assms in \<open>simp add: cpe_agent_tcp_feed_payload_def\<close>)

lemma tcp_feed_nflog_inv:
  assumes "tcp_inv (ag_tcp a)" "length msg < 2 ^ 64" "4 dvd length msg"
  shows "\<exists>n a'. cpe_agent_tcp_feed_nflog clk msg a = Some (n, a') \<and> tcp_inv (ag_tcp a') \<and> core_inv a' = core_inv a"
  using walk_tcp[OF assms, of clk] assms(1) by (cases "msg = []") (auto simp: cpe_agent_tcp_feed_nflog_def)

lemma tcp_reset_inv: "tcp_inv (ag_tcp (cpe_agent_tcp_reset clk a))" "core_inv (cpe_agent_tcp_reset clk a) = core_inv a"
  using length_iso_now(1)[of clk]
  by (simp_all add: cpe_agent_tcp_reset_def Let_def tcp_inv_def snap_wf_def counts_ok_def snapshot0_def)

section \<open>Emission\<close>

lemma push_formatted_ready:
  assumes "spool_ready a"
  shows "push_formatted (Some l) (n, a) = (n + 1, spool_push l a)"
  using spool_ready_push(2)[OF assms, of l] by (simp add: push_formatted_def spool_push_def split_beta)

lemma push_formatted_fold:
  assumes "spool_ready a" "\<forall>r \<in> set rs. g r = Some (f r)"
  shows "fold (\<lambda>r. push_formatted (g r)) rs (n, a) = (n + int (length rs), fold spool_push (map f rs) a)"
  using assms
proof (induction rs arbitrary: n a)
  case (Cons r rs)
  then have "fold (\<lambda>r. push_formatted (g r)) (r # rs) (n, a) = fold (\<lambda>r. push_formatted (g r)) rs (n + 1, spool_push (f r) a)"
    by (simp add: push_formatted_ready)
  also have "\<dots> = (n + 1 + int (length rs), fold spool_push (map f rs) (spool_push (f r) a))"
    using Cons.prems spool_ready_push(1) by (intro Cons.IH) auto
  finally show ?case by simp
qed simp

lemma push_formatted_core: "core_inv (snd x) \<Longrightarrow> core_inv (snd (push_formatted l x))"
  by (auto simp: push_formatted_def split_beta core_inv_spool_push split: option.split)

lemma push_formatted_frame:
  "ag_tcp (snd (push_formatted l x)) = ag_tcp (snd x)" "ag_flow (snd (push_formatted l x)) = ag_flow (snd x)"
  "ag_cfg (snd (push_formatted l x)) = ag_cfg (snd x)"
  by (auto simp: push_formatted_def split_beta split: option.split)

lemma push_formatted_fold_core: "core_inv (snd x) \<Longrightarrow> core_inv (snd (fold (\<lambda>r. push_formatted (g r)) rs x))"
  by (induction rs arbitrary: x) (auto simp: push_formatted_core)

lemma push_formatted_fold_frame:
  "ag_tcp (snd (fold (\<lambda>r. push_formatted (g r)) rs x)) = ag_tcp (snd x)"
  "ag_flow (snd (fold (\<lambda>r. push_formatted (g r)) rs x)) = ag_flow (snd x)"
  "ag_cfg (snd (fold (\<lambda>r. push_formatted (g r)) rs x)) = ag_cfg (snd x)"
  by (induction rs arbitrary: x) (auto simp: push_formatted_frame)

lemma tcp_emit_core:
  assumes "core_inv a" "tcp_inv (ag_tcp a)"
  shows "core_inv (snd (cpe_agent_tcp_emit qr qp clk clk2 n a)) \<and> tcp_inv (ag_tcp (snd (cpe_agent_tcp_emit qr qp clk clk2 n a))) \<and>
    ag_flow (snd (cpe_agent_tcp_emit qr qp clk clk2 n a)) = ag_flow a \<and>
    ag_cfg (snd (cpe_agent_tcp_emit qr qp clk clk2 n a)) = ag_cfg a"
proof -
  let ?a1 = "a\<lparr>ag_tcp := (ag_tcp a)\<lparr>tc_snap := (tc_snap (ag_tcp a))\<lparr>sn_ts_iso := tcp_iso_now clk\<rparr>\<rparr>\<rparr>"
  have t: "tcp_inv (ag_tcp ?a1)" "tcp_inv ((ag_tcp ?a1)\<lparr>tc_last_emit_ms := m\<rparr>)" for m
    using assms(2) length_iso_now(1)[of clk] by (simp_all add: tcp_inv_def snap_wf_def counts_ok_def)
  show ?thesis
    unfolding cpe_agent_tcp_emit_def Let_def
    using assms(1) t
    by (simp add: split_beta push_formatted_fold_core push_formatted_core push_formatted_fold_frame push_formatted_frame
        split: option.split del: fold.simps split del: if_split)
qed

text \<open>What \<^verbatim>\<open>qsort\<close> promises for the two comparison functions.\<close>

definition sorts :: "('a \<Rightarrow> 'a \<Rightarrow> int) \<Rightarrow> ('a list \<Rightarrow> 'a list) \<Rightarrow> bool" where
  "sorts cmp q \<longleftrightarrow> (\<forall>xs. mset (q xs) = mset xs \<and> sorted_wrt (\<lambda>x y. cmp x y \<le> 0) (q xs))"

definition top_remotes :: "(cpe_tcp_remote list \<Rightarrow> cpe_tcp_remote list) \<Rightarrow> cpe_tcp_snapshot \<Rightarrow> cpe_tcp_remote list" where
  "top_remotes q s = (if length (sn_remotes s) > 1 then q (sn_remotes s) else sn_remotes s)"

definition top_prefixes :: "(cpe_tcp_prefix list \<Rightarrow> cpe_tcp_prefix list) \<Rightarrow> cpe_tcp_snapshot \<Rightarrow> cpe_tcp_prefix list" where
  "top_prefixes q s = (if length (sn_prefixes s) > 1 then q (sn_prefixes s) else sn_prefixes s)"

text \<open>The lines one emission produces.\<close>

definition emit_lines ::
  "(cpe_tcp_remote list \<Rightarrow> cpe_tcp_remote list) \<Rightarrow> (cpe_tcp_prefix list \<Rightarrow> cpe_tcp_prefix list) \<Rightarrow> string \<Rightarrow> nat \<Rightarrow>
   cpe_tcp_snapshot \<Rightarrow> string list" where
  "emit_lines qr qp rid topn s =
     summary_json (sn_ts_iso s) rid s #
     map (remote_json (sn_ts_iso s) rid (sn_nflog_group s)) (take topn (top_remotes qr s)) @
     map (prefix_json (sn_ts_iso s) rid (sn_nflog_group s)) (take (min topn (length (sn_remotes s))) (top_prefixes qp s))"

lemma format_rows:
  assumes "snap_wf s" "rid \<noteq> []" "length rid < 64" "sn_ts_iso s \<noteq> []"
  shows "cpe_tcp_format_ndjson (Some rid) (Some ''summary'') s None None 640 = Some (summary_json (sn_ts_iso s) rid s)"
    "remote_wf r \<Longrightarrow> cpe_tcp_format_ndjson (Some rid) (Some ''remote'') s (Some r) None 640 =
       Some (remote_json (sn_ts_iso s) rid (sn_nflog_group s) r)"
    "prefix_wf p \<Longrightarrow> cpe_tcp_format_ndjson (Some rid) (Some ''prefix'') s None (Some p) 640 =
       Some (prefix_json (sn_ts_iso s) rid (sn_nflog_group s) p)"
proof -
  have ts: "length (sn_ts_iso s) \<le> 39" "length rid \<le> 63" using assms by (auto simp: snap_wf_def)
  note l = length_summary_json[OF ts] length_remote_json[OF ts] length_prefix_json[OF ts]
  show "cpe_tcp_format_ndjson (Some rid) (Some ''summary'') s None None 640 = Some (summary_json (sn_ts_iso s) rid s)"
    using l(1)[of s] assms by (simp add: cpe_tcp_format_ndjson_def str_or_def Let_def)
  show "remote_wf r \<Longrightarrow> cpe_tcp_format_ndjson (Some rid) (Some ''remote'') s (Some r) None 640 =
       Some (remote_json (sn_ts_iso s) rid (sn_nflog_group s) r)"
    using l(2)[of r "sn_nflog_group s"] assms by (simp add: cpe_tcp_format_ndjson_def str_or_def Let_def)
  show "prefix_wf p \<Longrightarrow> cpe_tcp_format_ndjson (Some rid) (Some ''prefix'') s None (Some p) 640 =
       Some (prefix_json (sn_ts_iso s) rid (sn_nflog_group s) p)"
    using l(3)[of p "sn_nflog_group s"] assms by (simp add: cpe_tcp_format_ndjson_def str_or_def Let_def)
qed

lemma top_rows_wf:
  assumes "snap_wf s" "sorts cmp_remote_pkts qr" "sorts cmp_prefix_pkts qp"
  shows "set (top_remotes qr s) = set (sn_remotes s)" "set (top_prefixes qp s) = set (sn_prefixes s)"
    "length (top_remotes qr s) = length (sn_remotes s)" "length (top_prefixes qp s) = length (sn_prefixes s)"
  using assms(2,3) unfolding sorts_def top_remotes_def top_prefixes_def
  by (auto dest: mset_eq_setD mset_eq_length)

lemma tcp_emit_spec:
  assumes "spool_ready a" "tcp_inv (ag_tcp a)" "c_router_id (ag_cfg a) \<noteq> []" "length (c_router_id (ag_cfg a)) < 64"
    and q: "sorts cmp_remote_pkts qr" "sorts cmp_prefix_pkts qp"
    and s: "s = (tc_snap (ag_tcp a))\<lparr>sn_ts_iso := tcp_iso_now clk\<rparr>"
    and topn: "topn = (if n = 0 then (if tc_emit_top_n (ag_tcp a) \<noteq> 0 then unat (tc_emit_top_n (ag_tcp a)) else 20) else n)"
  shows "\<exists>a'. cpe_agent_tcp_emit qr qp clk clk2 n a =
      (int (length (emit_lines qr qp (c_router_id (ag_cfg a)) topn s)), a') \<and>
      spool_view a' = spool_view (fold spool_push (emit_lines qr qp (c_router_id (ag_cfg a)) topn s) a)"
proof -
  let ?rid = "c_router_id (ag_cfg a)"
  have tsl: "length (tcp_iso_now clk) = 24" by (rule length_tcp_iso_now)
  have w: "snap_wf s" using assms(2) tsl unfolding s by (simp add: tcp_inv_def snap_wf_def)
  have ts: "sn_ts_iso s \<noteq> []" using tsl unfolding s by auto
  note f = format_rows[OF w assms(3,4) ts]
  define a1 where "a1 = a\<lparr>ag_tcp := (ag_tcp a)\<lparr>tc_snap := s\<rparr>\<rparr>"
  have r1: "spool_ready a1" using assms(1) by (simp add: a1_def)
  have lens: "min (length (sn_remotes s)) 256 = length (sn_remotes s)" "min (length (sn_prefixes s)) 128 = length (sn_prefixes s)"
    using w by (auto simp: snap_wf_def)
  note rows = top_rows_wf[OF w q]
  let ?rs = "take (min topn (length (sn_remotes s))) (top_remotes qr s)"
  let ?ps = "take (min (min topn (length (sn_remotes s))) (length (sn_prefixes s))) (top_prefixes qp s)"
  have rwf: "\<forall>r \<in> set ?rs. remote_wf r" and pwf: "\<forall>p \<in> set ?ps. prefix_wf p"
    using w rows(1,2) by (auto simp: snap_wf_def list_all_iff dest!: in_set_takeD)
  let ?x1 = "(1 :: int, spool_push (summary_json (sn_ts_iso s) ?rid s) a1)"
  let ?x2 = "(1 + int (length ?rs), fold spool_push (map (remote_json (sn_ts_iso s) ?rid (sn_nflog_group s)) ?rs) (snd ?x1))"
  let ?x3 = "(1 + int (length ?rs) + int (length ?ps), fold spool_push (map (prefix_json (sn_ts_iso s) ?rid (sn_nflog_group s)) ?ps) (snd ?x2))"
  have x1: "push_formatted (Some (summary_json (sn_ts_iso s) ?rid s)) (0, a1) = ?x1"
    using push_formatted_ready[OF r1] by simp
  have rx1: "spool_ready (snd ?x1)" using spool_ready_push(1)[OF r1] by simp
  have x2: "fold (\<lambda>r. push_formatted (cpe_tcp_format_ndjson (Some ?rid) (Some ''remote'') s (Some r) None 640)) ?rs ?x1 = ?x2"
    using push_formatted_fold[OF rx1, of ?rs _ _ 1] rwf f(2) by simp
  have rx2: "spool_ready (snd ?x2)" using spq.pushes_inv[OF rx1] by simp
  have x3: "fold (\<lambda>p. push_formatted (cpe_tcp_format_ndjson (Some ?rid) (Some ''prefix'') s None (Some p) 640)) ?ps ?x2 = ?x3"
    using push_formatted_fold[OF rx2, of ?ps _ _ "1 + int (length ?rs)"] pwf f(3) by simp
  have em: "cpe_agent_tcp_emit qr qp clk clk2 n a =
      (fst ?x3, (snd ?x3)\<lparr>ag_tcp := (ag_tcp (snd ?x3))\<lparr>tc_last_emit_ms := mono_ms clk2\<rparr>\<rparr>)"
    unfolding cpe_agent_tcp_emit_def Let_def s[symmetric] a1_def[symmetric] f(1) option.case x1 lens topn[symmetric]
      take_all[OF order_refl] top_remotes_def[symmetric] top_prefixes_def[symmetric] x2 x3
    by (simp add: split_beta)
  have lines: "emit_lines qr qp ?rid topn s = summary_json (sn_ts_iso s) ?rid s #
      map (remote_json (sn_ts_iso s) ?rid (sn_nflog_group s)) ?rs @ map (prefix_json (sn_ts_iso s) ?rid (sn_nflog_group s)) ?ps"
    using rows(3,4) by (auto simp: emit_lines_def min_def)
  have "spool_view a1 = spool_view a" "ag_spool_cap a1 = ag_spool_cap a" by (simp_all add: a1_def)
  then have "spool_view (fold spool_push ls a1) = spool_view (fold spool_push ls a)" for ls
    using spq.pushes_view[OF r1] spq.pushes_view[OF assms(1)] by simp
  from this[of "emit_lines qr qp ?rid topn s"] show ?thesis unfolding em lines by simp
qed

lemma tcp_tick_inv:
  assumes "core_inv a" "tcp_inv (ag_tcp a)" "list_all rx_ok rx"
  shows "\<exists>n a'. cpe_agent_tcp_tick qr qp pclk nclk clk clk2 op rx a = Some (n, a') \<and> core_inv a' \<and> tcp_inv (ag_tcp a') \<and>
    ag_flow a' = ag_flow a"
proof (cases "c_tcp_stats_enabled (ag_cfg a)")
  case True
  define st1 where "st1 = (let cfg = ag_cfg a; st = ag_tcp a;
      plen = (if c_tcp_prefix_len cfg \<noteq> 0 then c_tcp_prefix_len cfg else tc_prefix_len st) in
      st\<lparr>tc_enabled := True, tc_prefix_len := plen,
         tc_snap := (tc_snap st)\<lparr>sn_prefix_len := plen,
           sn_nflog_group := (if c_tcp_nflog_group cfg \<noteq> 0 then ucast (c_tcp_nflog_group cfg) else sn_nflog_group (tc_snap st))\<rparr>,
         tc_emit_interval_ms := (if c_tcp_emit_interval_ms cfg \<noteq> 0 then c_tcp_emit_interval_ms cfg else tc_emit_interval_ms st),
         tc_emit_top_n := (if c_tcp_emit_top_n cfg \<noteq> 0 then c_tcp_emit_top_n cfg else tc_emit_top_n st)\<rparr>)"
  have "tcp_inv (ag_tcp (a\<lparr>ag_tcp := st1\<rparr>))"
    using assms(2) by (simp add: st1_def Let_def tcp_inv_def split del: if_split)
  from tcp_poll_inv[OF this assms(3), of pclk op 128] obtain k a2 where
    p: "cpe_agent_tcp_poll pclk op rx 128 (a\<lparr>ag_tcp := st1\<rparr>) = Some (k, a2)"
      "tcp_inv (ag_tcp a2)" "core_inv a2" "ag_flow a2 = ag_flow a" using assms(1) by auto
  have t: "cpe_agent_tcp_tick qr qp pclk nclk clk clk2 op rx a =
      (if tc_last_emit_ms (ag_tcp a2) = 0 \<or> mono_ms nclk - tc_last_emit_ms (ag_tcp a2) \<ge> ucast (tc_emit_interval_ms (ag_tcp a2))
       then Some (cpe_agent_tcp_emit qr qp clk clk2 (unat (tc_emit_top_n (ag_tcp a2))) a2) else Some (0, a2))"
    using True p(1) unfolding st1_def cpe_agent_tcp_tick_def Let_def by simp
  obtain m a3 where e: "cpe_agent_tcp_emit qr qp clk clk2 (unat (tc_emit_top_n (ag_tcp a2))) a2 = (m, a3)" by fastforce
  from tcp_emit_core[OF p(3,2), of qr qp clk clk2 "unat (tc_emit_top_n (ag_tcp a2))"] e
  have "core_inv a3" "tcp_inv (ag_tcp a3)" "ag_flow a3 = ag_flow a2" by simp_all
  with t e p show ?thesis by simp
qed (use assms in \<open>simp add: cpe_agent_tcp_tick_def\<close>)

section \<open>Properties\<close>

text \<open>one periodic tick of the TCP statistics (adopt the configuration, poll the socket, emit if due)
  never reads outside a received buffer, always returns, and keeps the invariants of the agent and of
  the statistics, for every sequence of padded datagrams, every clock and every outcome of opening the
  socket.\<close>

theorem tcp_tick_safe:
  assumes "core_inv a" "tcp_inv (ag_tcp a)" "list_all rx_ok rx"
  shows "\<exists>n a'. cpe_agent_tcp_tick qsort_r qsort_p pclk nclk clk clk2 nflog_open rx a = Some (n, a') \<and>
    core_inv a' \<and> tcp_inv (ag_tcp a')"
  using tcp_tick_inv[OF assms, of qsort_r qsort_p pclk nclk clk clk2 nflog_open] by blast

lemma agent00_core: "core_inv agent00" "tcp_inv (ag_tcp agent00)"
  by (simp_all add: core_inv_def agent00_def agent0_inv) (simp add: agent0_def tcp_inv_init)

theorem tcp_tick_safe_witness:
  "\<exists>n a'. cpe_agent_tcp_tick id id (\<lambda>_ _. clk0) clk0 clk0 clk0 (\<lambda>_ _. Inr 7)
       [Received (enc_packet [0, 0]), WouldBlock]
       (agent00\<lparr>ag_cfg := cpe_agent_config_defaults\<lparr>c_tcp_stats_enabled := True\<rparr>\<rparr>) = Some (n, a') \<and>
     core_inv a' \<and> tcp_inv (ag_tcp a')"
  by (rule tcp_tick_safe)
    (use agent00_core in \<open>simp_all add: rx_ok_def length_enc_packet nla_align_def\<close>)

lemma sorted_take_drop:
  assumes "sorted_wrt P xs" "x \<in> set (take k xs)" "y \<in> set (drop k xs)"
  shows "P x y"
  using assms sorted_wrt_append[of P "take k xs" "drop k xs"] by simp

text \<open>one emission pushes, in this order, one summary record, the records of the \<open>n\<close> busiest
  remotes and at most as many prefix records, and reports their number; every line fits its buffer, so
  none is cut. No remote that is left out has more packets than one that is emitted. \<^verbatim>\<open>qsort\<close> is
  only assumed to sort by the comparison function it is given.\<close>

theorem tcp_emit_pushes_top:
  assumes "spool_ready a" "tcp_inv (ag_tcp a)" "c_router_id (ag_cfg a) \<noteq> []" "length (c_router_id (ag_cfg a)) < 64"
    and q: "sorts cmp_remote_pkts qr" "sorts cmp_prefix_pkts qp"
    and s: "s = (tc_snap (ag_tcp a))\<lparr>sn_ts_iso := tcp_iso_now clk\<rparr>" and "0 < n"
    and l: "lines = emit_lines qr qp (c_router_id (ag_cfg a)) n s"
  shows "(\<exists>a'. cpe_agent_tcp_emit qr qp clk clk2 n a = (int (length lines), a') \<and>
        spool_view a' = drop (length (spool_view a) + length lines - ag_spool_cap a) (spool_view a @ lines)) \<and>
      (\<forall>x \<in> set (take n (top_remotes qr s)). \<forall>y \<in> set (drop n (top_remotes qr s)). rm_pkt_count y \<le> rm_pkt_count x)"
proof
  have w: "snap_wf s" using assms(2) length_tcp_iso_now[of clk] unfolding s by (simp add: tcp_inv_def snap_wf_def)
  note rows = top_rows_wf[OF w q]
  have ts: "length (sn_ts_iso s) \<le> 39" "length (c_router_id (ag_cfg a)) \<le> 63"
    using w assms(4) by (auto simp: snap_wf_def)
  have short: "length x < 640" if "x \<in> set lines" for x
    using that length_summary_json[OF ts] length_remote_json[OF ts] length_prefix_json[OF ts] w rows(1,2)
    unfolding l emit_lines_def by (auto simp: snap_wf_def list_all_iff dest!: in_set_takeD)
  then have map: "map (take 767) lines = lines" by (intro map_idI take_all) fastforce
  show "\<exists>a'. cpe_agent_tcp_emit qr qp clk clk2 n a = (int (length lines), a') \<and>
        spool_view a' = drop (length (spool_view a) + length lines - ag_spool_cap a) (spool_view a @ lines)"
    using tcp_emit_spec[OF assms(1-6) s refl, where n = n and ?clk2.0 = clk2] spq.pushes_view[OF assms(1), of lines] \<open>0 < n\<close> map l by auto
  show "\<forall>x \<in> set (take n (top_remotes qr s)). \<forall>y \<in> set (drop n (top_remotes qr s)). rm_pkt_count y \<le> rm_pkt_count x"
  proof (cases "length (sn_remotes s) > 1")
    case True
    then have "sorted_wrt (\<lambda>x y. cmp_remote_pkts x y \<le> 0) (top_remotes qr s)"
      using q(1) by (simp add: sorts_def top_remotes_def)
    note le = sorted_take_drop[OF this]
    show ?thesis
    proof (intro ballI)
      fix x y assume "x \<in> set (take n (top_remotes qr s))" "y \<in> set (drop n (top_remotes qr s))"
      from le[OF this] show "rm_pkt_count y \<le> rm_pkt_count x" by (simp add: cmp_remote_pkts_def split: if_splits)
    qed
  next
    case False
    then have "drop n (top_remotes qr s) = []" using rows(3) \<open>0 < n\<close> by simp
    then show ?thesis by simp
  qed
qed

text \<open>A stable sort by descending packet count, for concrete runs.\<close>

definition sort_remotes :: "cpe_tcp_remote list \<Rightarrow> cpe_tcp_remote list" where
  "sort_remotes = sort_key (\<lambda>r. - uint (rm_pkt_count r))"

definition sort_prefixes :: "cpe_tcp_prefix list \<Rightarrow> cpe_tcp_prefix list" where
  "sort_prefixes = sort_key (\<lambda>p. - uint (px_pkt_count p))"

lemma sort_rows: "sorts cmp_remote_pkts sort_remotes" "sorts cmp_prefix_pkts sort_prefixes"
proof -
  have "sorted_wrt (\<lambda>x y. cmp_remote_pkts x y \<le> 0) (sort_remotes xs)" for xs
    using sorted_sort_key[of "\<lambda>r. - uint (rm_pkt_count r)" xs]
    by (auto simp: sort_remotes_def sorted_map cmp_remote_pkts_def word_less_def elim!: sorted_wrt_mono_rel[rotated])
  moreover have "sorted_wrt (\<lambda>x y. cmp_prefix_pkts x y \<le> 0) (sort_prefixes xs)" for xs
    using sorted_sort_key[of "\<lambda>p. - uint (px_pkt_count p)" xs]
    by (auto simp: sort_prefixes_def sorted_map cmp_prefix_pkts_def word_less_def elim!: sorted_wrt_mono_rel[rotated])
  ultimately show "sorts cmp_remote_pkts sort_remotes" "sorts cmp_prefix_pkts sort_prefixes"
    by (simp_all add: sorts_def sort_remotes_def sort_prefixes_def)
qed

theorem tcp_emit_pushes_top_witness:
  "\<exists>a' lines. cpe_agent_tcp_emit sort_remotes sort_prefixes clk0 clk0 5 (agent_with_spool 4) = (1, a') \<and>
     spool_view a' = lines \<and> length lines = 1"
proof -
  have i: "tcp_inv (ag_tcp (agent_with_spool 4))" "c_router_id (ag_cfg (agent_with_spool 4)) = ''cpe-lab-1''"
    "sn_remotes (tc_snap (ag_tcp (agent_with_spool 4))) = []" "sn_prefixes (tc_snap (ag_tcp (agent_with_spool 4))) = []"
    by (simp_all add: agent_with_spool_def ensure_spool_def Let_def agent00_def agent0_def free_spool_def
        tcp_inv_init cpe_agent_config_defaults_def) (simp_all add: cpe_tcp_state_init_def snapshot0_def)
  show ?thesis
    using tcp_emit_pushes_top[OF agent_with_spool_ready[of 4] i(1) _ _ sort_rows refl _ refl, where clk = clk0 and n = 5 and ?clk2.0 = clk0] i
    by (auto simp: emit_lines_def top_remotes_def top_prefixes_def agent_with_spool_view)
qed

end
