(* ===== verification/Nfct_Netlink.thy ===== *)
theory Nfct_Netlink
  imports Nflog
begin

text \<open>
  \<^verbatim>\<open>src/nfct_netlink.c\<close>: the conntrack event socket, the dump socket and the dump request.
  System calls act on a world \<open>'w\<close>: \<open>join g\<close> is \<^verbatim>\<open>setsockopt(NETLINK_ADD_MEMBERSHIP)\<close>,
  \<open>sendto\<close> returns the number of bytes sent, \<open>closef\<close> closes the socket; \<open>sock\<close> and
  \<open>bind_ok\<close> are the results of \<^verbatim>\<open>socket\<close> and \<^verbatim>\<open>bind\<close>. The best-effort buffer
  options have no effect on the result.
\<close>

fun join_groups :: "(nat \<Rightarrow> 'w \<Rightarrow> bool \<times> 'w) \<Rightarrow> nat list \<Rightarrow> 'w \<Rightarrow> nat option \<times> 'w" where
  \<comment> \<open>the group that was refused, if any\<close>
  "join_groups join [] w = (None, w)"
| "join_groups join (g # gs) w = (let (ok, w') = join g w in if ok then join_groups join gs w' else (Some g, w'))"

text \<open>The groups are NEW = 1, DESTROY = 3 and, if asked for, UPDATE = 2.\<close>

definition nfct_netlink_open ::
  "int \<Rightarrow> bool \<Rightarrow> (nat \<Rightarrow> 'w \<Rightarrow> bool \<times> 'w) \<Rightarrow> ('w \<Rightarrow> 'w) \<Rightarrow> string \<Rightarrow> bool \<Rightarrow> 'w \<Rightarrow> (string + int) \<times> 'w" where
  "nfct_netlink_open sock bind_ok join closef errno_text join_update w =
     (if sock < 0 then (Inl (''socket(NETLINK_NETFILTER): '' @ errno_text), w)
      else if \<not> bind_ok then (Inl (''bind netlink: '' @ errno_text), closef w)
      else
        (case join_groups join (take (if join_update then 3 else 2) [1, 3, 2]) w of
           (Some g, w') \<Rightarrow>
             (Inl (''NETLINK_ADD_MEMBERSHIP group '' @ dec g @ '': '' @ errno_text @ '' (need CAP_NET_ADMIN?)''), closef w')
         | (None, w') \<Rightarrow> (Inr sock, w')))"

definition nfct_netlink_recv :: "int \<Rightarrow> recv_result \<Rightarrow> int \<times> bytes" where
  "nfct_netlink_recv fd r =
     (if fd < 0 then (-1, [])
      else case r of Received b \<Rightarrow> if b = [] then (-1, []) else (int (length b), b)
           | WouldBlock \<Rightarrow> (0, []) | RecvFailed \<Rightarrow> (-1, []))"

definition nfct_netlink_open_dump :: "int \<Rightarrow> bool \<Rightarrow> ('w \<Rightarrow> 'w) \<Rightarrow> string \<Rightarrow> 'w \<Rightarrow> (string + int) \<times> 'w" where
  "nfct_netlink_open_dump sock bind_ok closef errno_text w =
     (if sock < 0 then (Inl (''socket dump: '' @ errno_text), w)
      else if \<not> bind_ok then (Inl (''bind dump: '' @ errno_text), closef w)
      else (Inr sock, w))"

text \<open>
  Header (length 20, type \<^verbatim>\<open>(1 << 8) | 1\<close>, flags \<^verbatim>\<open>NLM_F_REQUEST | NLM_F_DUMP\<close>) and
  \<^verbatim>\<open>nfgenmsg\<close>.
\<close>

definition nfct_dump_msg :: "u8 \<Rightarrow> u32 \<Rightarrow> bytes" where
  "nfct_dump_msg family seq =
     le32_bytes 20 @ le16_bytes 0x0101 @ le16_bytes 0x0301 @ le32_bytes seq @ le32_bytes 0 @ [family, 0] @ le16_bytes 0"

definition nfct_netlink_dump_request :: "(bytes \<Rightarrow> 'w \<Rightarrow> int \<times> 'w) \<Rightarrow> int \<Rightarrow> 'w \<Rightarrow> int \<times> 'w" where
  "nfct_netlink_dump_request sendto dump_fd w =
     (if dump_fd < 0 then (-1, w)
      else
        (let (n, w1) = sendto (nfct_dump_msg 2 1) w in
         if n \<noteq> 20 then (-1, w1)
         else (let (_, w2) = sendto (nfct_dump_msg 10 2) w1 in (0, w2))))"

lemmas nfct_netlink_defs [cdefs] =
  nfct_netlink_open_def nfct_netlink_recv_def nfct_netlink_open_dump_def nfct_dump_msg_def nfct_netlink_dump_request_def

lemma join_groups_open:
  assumes "\<And>g w. is_open (snd (join g w)) = is_open w"
  shows "is_open (snd (join_groups join gs w)) = is_open w"
proof (induction gs arbitrary: w)
  case (Cons g gs)
  with assms[of g w] show ?case by (cases "join g w") simp
qed simp

text \<open>opening the conntrack event socket leaks no descriptor: it is open afterwards exactly when it
  was returned, whichever of \<^verbatim>\<open>socket\<close>, \<^verbatim>\<open>bind\<close> and the group memberships fails.\<close>

theorem nfct_open_no_leak:
  assumes "\<And>g w. is_open (snd (join g w)) = is_open w" "\<And>w. \<not> is_open (closef w)" "is_open w0 = (0 \<le> sock)"
  shows "case nfct_netlink_open sock bind_ok join closef err upd w0 of
           (Inl _, w) \<Rightarrow> \<not> is_open w | (Inr fd, w) \<Rightarrow> fd = sock \<and> is_open w"
proof (cases "sock < 0 \<or> \<not> bind_ok")
  case True
  then show ?thesis using assms(2,3) by (auto simp: nfct_netlink_open_def)
next
  case False
  let ?gs = "take (if upd then 3 else 2) [1, 3, 2]"
  obtain r w where r: "join_groups join ?gs w0 = (r, w)" by fastforce
  have "is_open w = is_open w0" using join_groups_open[of is_open join ?gs w0, OF assms(1)] unfolding r by simp
  with False r assms(2,3) show ?thesis unfolding nfct_netlink_open_def by (cases r) simp_all
qed

theorem nfct_open_no_leak_witness:
  "case nfct_netlink_open 3 True (\<lambda>g (l, o'). (g \<noteq> 2, (l @ [g], o'))) (\<lambda>(l, o'). (l, False)) [] True ([] :: nat list, True) of
     (Inl _, w) \<Rightarrow> \<not> snd w | (Inr fd, w) \<Rightarrow> fd = 3 \<and> snd w"
  by (rule nfct_open_no_leak) (simp_all add: split_beta)

end
