(* ===== verification/Agent_Flow.thy ===== *)
theory Agent_Flow
  imports Agent_Tcp Nfct_Netlink "HOL-Library.Monad_Syntax"
begin

text \<open>
  \<^verbatim>\<open>agent/flow_acct.c\<close>, the agent interface: applying conntrack events to the flow table,
  the netlink receive loops, the periodic dump, the emission of the fastest flows and the
  snapshot. The conntrack library is a parameter (\<open>nfct_env\<close>); \<open>rx\<close> and \<open>polls\<close> are the
  results of successive \<^verbatim>\<open>recv\<close> and \<^verbatim>\<open>poll\<close> calls, exhausted ones report no data. A
  result \<open>None\<close> means that the event queue of the library never ran empty.
\<close>

record 'c nfct_env =
  nv_open :: "bool \<Rightarrow> string + int" \<comment> \<open>\<^verbatim>\<open>nfct_netlink_open(join_update)\<close>\<close>
  nv_open_dump :: "string + int" \<comment> \<open>\<^verbatim>\<open>nfct_netlink_open_dump()\<close>\<close>
  nv_dump_request :: bool \<comment> \<open>\<^verbatim>\<open>nfct_netlink_dump_request() == 0\<close>\<close>
  nv_create :: "'c option" \<comment> \<open>\<^verbatim>\<open>nfct_create_with_config\<close>, \<open>None\<close> for NULL\<close>
  nv_feed :: "'c \<Rightarrow> bytes \<Rightarrow> 'c"
  nv_next :: "'c \<Rightarrow> (nfct_event \<times> 'c) option"

section \<open>One event\<close>

text \<open>
  \<open>apply_at\<close> is the body of \<^verbatim>\<open>apply_event\<close> once the slot \<open>idx\<close> is chosen: write or merge
  the entry, count it, emit and free the slot on destroy, emit on new.
\<close>

definition event_slot :: "nfct_event \<Rightarrow> u64 \<Rightarrow> cpe_flow_entry \<Rightarrow> cpe_flow_entry" where
  "event_slot ev now old =
     (let tmp = entry_from_event ev now in if \<not> fe_used old then tmp else merge_slot ev tmp now old)"

definition apply_at ::
  "clock \<Rightarrow> nfct_event \<Rightarrow> u64 \<Rightarrow> nat \<Rightarrow> cpe_flow_state \<Rightarrow> ('p,'n,'w,'t) cpe_agent \<Rightarrow> int \<times> ('p,'n,'w,'t) cpe_agent" where
  "apply_at clk ev now idx st1 a =
     (let rid = c_router_id (ag_cfg a);
          old = fs_table st1 ! idx;
          slot = event_slot ev now old;
          st2 = st1\<lparr>fs_table := (fs_table st1)[idx := slot],
                    fs_table_used := (if \<not> fe_used old then fs_table_used st1 + 1 else fs_table_used st1),
                    fs_events_in := fs_events_in st1 + 1\<rparr> in
      if ne_type ev = NFCT_EVENT_DESTROY \<and> fs_emit_destroy st2 then
        (let dead = slot\<lparr>fe_alive := False, fe_state := ''DESTROY''\<rparr>;
             (pushed, a1) = (case cpe_flow_format_ndjson clk rid ''destroy'' dead 768 of
                None \<Rightarrow> (False, a) | Some line \<Rightarrow> cpe_agent_spool_push_line line a);
             st3 = st2\<lparr>fs_table := (fs_table st2)[idx := dead\<lparr>fe_used := False\<rparr>],
                       fs_destroys_emitted := (if pushed then fs_destroys_emitted st2 + 1 else fs_destroys_emitted st2),
                       fs_table_used := (if fs_table_used st2 > 0 then fs_table_used st2 - 1 else fs_table_used st2)\<rparr>
         in (1, a1\<lparr>ag_flow := st3\<rparr>))
      else if ne_type ev = NFCT_EVENT_NEW \<and> fs_emit_new st2 then
        (let a1 = (case cpe_flow_format_ndjson clk rid ''new'' slot 768 of
                None \<Rightarrow> a | Some line \<Rightarrow> snd (cpe_agent_spool_push_line line a))
         in (0, a1\<lparr>ag_flow := st2\<rparr>))
      else (0, a\<lparr>ag_flow := st2\<rparr>))"

definition apply_event ::
  "clock \<Rightarrow> nfct_event \<Rightarrow> u64 \<Rightarrow> ('p,'n,'w,'t) cpe_agent \<Rightarrow> int \<times> ('p,'n,'w,'t) cpe_agent" where
  "apply_event clk ev now a =
     (let st = ag_flow a in
      if \<not> ne_has_lan ev \<and> \<not> (ne_is_destroy ev \<and> ne_has_id ev) then (0, a)
      else
        (let st1 = (if ne_has_lan ev \<and> \<not> ne_has_counters ev \<and> \<not> fs_warned_no_acct st \<and>
                       (ne_type ev = NFCT_EVENT_DESTROY \<or> ne_type ev = NFCT_EVENT_UPDATE)
                    then st\<lparr>fs_warned_no_acct := True\<rparr> else st) in
         case find_slot st1 (entry_from_event ev now) of
           None \<Rightarrow> (-1, a\<lparr>ag_flow := st1\<rparr>)
         | Some idx \<Rightarrow> apply_at clk ev now idx st1 a))"

section \<open>Receiving\<close>

text \<open>\<^verbatim>\<open>while (nfct_next_event(ctx, &ev) == 1)\<close>\<close>

partial_function (option) nfct_drain ::
  "('c \<Rightarrow> (nfct_event \<times> 'c) option) \<Rightarrow> (nat \<Rightarrow> clock) \<Rightarrow> u64 \<Rightarrow> 'c \<Rightarrow> ('p,'n,'w,'t) cpe_agent \<Rightarrow> nat \<Rightarrow>
   ('c \<times> ('p,'n,'w,'t) cpe_agent \<times> nat) option" where
  "nfct_drain nx clk now ctx a applied =
     (case nx ctx of None \<Rightarrow> Some (ctx, a, applied)
      | Some (ev, ctx') \<Rightarrow>
          (let (r, a') = apply_event (clk applied) ev now a
           in nfct_drain nx clk now ctx' a' (if r \<ge> 0 then applied + 1 else applied)))"

text \<open>The loop of \<^verbatim>\<open>feed_and_apply\<close> over the messages of one datagram, from offset \<open>off\<close>.\<close>

function feed_loop ::
  "'c nfct_env \<Rightarrow> (nat \<Rightarrow> clock) \<Rightarrow> u64 \<Rightarrow> bytes \<Rightarrow> nat \<Rightarrow> 'c \<Rightarrow> ('p,'n,'w,'t) cpe_agent \<Rightarrow> nat \<Rightarrow>
   ('c \<times> ('p,'n,'w,'t) cpe_agent \<times> nat) option" where
  "feed_loop env clk now buf off ctx a applied =
     (if off + 16 \<le> length buf then
        (case rd32 le32 buf off of None \<Rightarrow> None
         | Some nl_len \<Rightarrow>
           if nl_len < 16 \<or> off + unat nl_len > length buf then Some (ctx, a, applied)
           else
             (case nfct_drain (nv_next env) clk now (nv_feed env ctx (take (unat nl_len) (drop off buf))) a applied of
                None \<Rightarrow> None
              | Some (ctx', a', applied') \<Rightarrow>
                  (let aligned = unat ((nl_len + 3) AND (NOT 3)) in
                   if aligned = 0 then Some (ctx', a', applied')
                   else feed_loop env clk now buf (off + aligned) ctx' a' applied')))
      else Some (ctx, a, applied))"
  by pat_completeness auto
termination
  by (relation "measure (\<lambda>(env, clk, now, buf, off, ctx, a, applied). length buf - off)") auto

declare feed_loop.simps [simp del]

definition feed_and_apply ::
  "'c nfct_env \<Rightarrow> (nat \<Rightarrow> clock) \<Rightarrow> u64 \<Rightarrow> bytes \<Rightarrow> 'c \<Rightarrow> ('p,'n,'w,'t) cpe_agent \<Rightarrow>
   ('c \<times> ('p,'n,'w,'t) cpe_agent \<times> nat) option" where
  "feed_and_apply env clk now buf ctx a =
     (if length buf < 16 then Some (ctx, a, 0) else feed_loop env clk now buf 0 ctx a 0)"

definition poll_next :: "bool list \<Rightarrow> bool \<times> bool list" where
  "poll_next ps = (case ps of [] \<Rightarrow> (False, []) | b # bs \<Rightarrow> (b, bs))"

definition recv_next :: "int \<Rightarrow> recv_result list \<Rightarrow> (int \<times> bytes) \<times> recv_result list" where
  "recv_next fd rx = (case rx of [] \<Rightarrow> (nfct_netlink_recv fd WouldBlock, []) | r # rs \<Rightarrow> (nfct_netlink_recv fd r, rs))"

text \<open>
  The receive loop of \<^verbatim>\<open>drain_fd\<close>; \<open>left\<close> is \<^verbatim>\<open>max_msgs - n\<close> and \<open>wait\<close> is
  \<^verbatim>\<open>wait_ms > 0\<close>. A spurious wake-up before the first data polls again and does not count.
\<close>

function drain_loop ::
  "'c nfct_env \<Rightarrow> (nat \<Rightarrow> nat \<Rightarrow> clock) \<Rightarrow> u64 \<Rightarrow> int \<Rightarrow> bool \<Rightarrow> nat \<Rightarrow> recv_result list \<Rightarrow> bool list \<Rightarrow> bool \<Rightarrow> 'c \<Rightarrow>
   ('p,'n,'w,'t) cpe_agent \<Rightarrow> nat \<Rightarrow> (('p,'n,'w,'t) cpe_agent \<times> nat) option" where
  "drain_loop env clk now fd wait left rx polls saw ctx a applied =
     (if left = 0 then Some (a, applied)
      else
        (let (go, polls1) = (if saw \<and> wait then poll_next polls else (True, polls)) in
         if \<not> go then Some (a, applied)
         else
           (let ((rd, buf), rx1) = recv_next fd rx in
            if rd = 0 then
              (if \<not> saw \<and> wait then
                 (let (again, polls2) = poll_next polls1 in
                  if \<not> again then Some (a, applied)
                  else drain_loop env clk now fd wait left rx1 polls2 saw ctx a applied)
               else Some (a, applied))
            else if rd < 0 then Some (a, applied)
            else
              (case feed_and_apply env (clk left) now buf ctx a of None \<Rightarrow> None
               | Some (ctx', a', k) \<Rightarrow> drain_loop env clk now fd wait (left - 1) rx1 polls1 True ctx' a' (applied + k)))))"
  by pat_completeness auto
termination
proof (relation "measures [\<lambda>(env, clk, now, fd, wait, left, rx, polls, saw, ctx, a, applied). left,
    \<lambda>(env, clk, now, fd, wait, left, rx, polls, saw, ctx, a, applied). length polls]", goal_cases)
qed (auto simp: poll_next_def split: list.splits if_splits)

declare drain_loop.simps [simp del]

definition drain_fd ::
  "'c nfct_env \<Rightarrow> (nat \<Rightarrow> nat \<Rightarrow> clock) \<Rightarrow> clock \<Rightarrow> recv_result list \<Rightarrow> bool list \<Rightarrow> int \<Rightarrow> nat \<Rightarrow> bool \<Rightarrow>
   ('p,'n,'w,'t) cpe_agent \<Rightarrow> (int \<times> ('p,'n,'w,'t) cpe_agent) option" where
  "drain_fd env clk nclk rx polls fd max_msgs wait a =
     (if fd < 0 then Some (0, a)
      else
        (case nv_create env of None \<Rightarrow> Some (-1, a)
         | Some ctx \<Rightarrow>
             (let (go, polls1) = (if wait then poll_next polls else (True, polls)) in
              if \<not> go then Some (0, a)
              else map_option (\<lambda>(a', n). (int n, a'))
                     (drain_loop env clk (mono_ms nclk) fd wait max_msgs rx polls1 False ctx a 0))))"

section \<open>Life cycle\<close>

definition cpe_agent_flow_open ::
  "'c nfct_env \<Rightarrow> ('p,'n,'w,'t) cpe_agent \<Rightarrow> int \<times> ('p,'n,'w,'t) cpe_agent" where
  "cpe_agent_flow_open env a =
     (let st = ag_flow a in
      if fs_fd st \<ge> 0 then (0, a)
      else
        (case nv_open env (fs_join_update st) of
           Inl err \<Rightarrow>
             (-1, a\<lparr>ag_flow := st\<lparr>fs_fd := -1, fs_open_ok := False,
                     fs_open_err := cstr 96 (str_or (cstr 96 err) ''nfct open failed'')\<rparr>\<rparr>)
         | Inr fd \<Rightarrow>
             (0, a\<lparr>ag_flow := st\<lparr>fs_fd := fd, fs_dump_fd := (case nv_open_dump env of Inl _ \<Rightarrow> -1 | Inr d \<Rightarrow> d),
                     fs_open_ok := True, fs_open_err := [], fs_enabled := True\<rparr>\<rparr>)))"

definition cpe_agent_flow_close :: "('p,'n,'w,'t) cpe_agent \<Rightarrow> ('p,'n,'w,'t) cpe_agent" where
  "cpe_agent_flow_close a = a\<lparr>ag_flow := (ag_flow a)\<lparr>fs_fd := -1, fs_dump_fd := -1, fs_enabled := False\<rparr>\<rparr>"

definition cpe_agent_flow_poll ::
  "'c nfct_env \<Rightarrow> (nat \<Rightarrow> nat \<Rightarrow> clock) \<Rightarrow> clock \<Rightarrow> recv_result list \<Rightarrow> nat \<Rightarrow> ('p,'n,'w,'t) cpe_agent \<Rightarrow>
   (int \<times> ('p,'n,'w,'t) cpe_agent) option" where
  "cpe_agent_flow_poll env clk nclk rx max_msgs a =
     (if \<not> fs_enabled (ag_flow a) then Some (0, a)
      else
        (let (r, a1) = (if fs_fd (ag_flow a) < 0 then cpe_agent_flow_open env a else (0, a)) in
         if r \<noteq> 0 then Some (0, a1)
         else drain_fd env clk nclk rx [] (fs_fd (ag_flow a1)) (if max_msgs = 0 then 64 else max_msgs) False a1))"

definition maybe_dump ::
  "'c nfct_env \<Rightarrow> (nat \<Rightarrow> nat \<Rightarrow> clock) \<Rightarrow> clock \<Rightarrow> recv_result list \<Rightarrow> bool list \<Rightarrow> u64 \<Rightarrow> ('p,'n,'w,'t) cpe_agent \<Rightarrow>
   (int \<times> ('p,'n,'w,'t) cpe_agent) option" where
  "maybe_dump env clk nclk rx polls now a =
     (let st = ag_flow a in
      if fs_dump_fd st < 0 then Some (0, a)
      else if fs_dump_interval_ms st = 0 then Some (0, a)
      else if fs_last_dump_ms st \<noteq> 0 \<and> now - fs_last_dump_ms st < ucast (fs_dump_interval_ms st) then Some (0, a)
      else if \<not> nv_dump_request env then Some (0, a)
      else drain_fd env clk nclk rx polls (fs_dump_fd st) 512 True
             (a\<lparr>ag_flow := st\<lparr>fs_last_dump_ms := now, fs_dumps := fs_dumps st + 1\<rparr>\<rparr>))"

section \<open>Samples and snapshot\<close>

definition idle_flow :: "cpe_flow_entry \<Rightarrow> bool" where
  "idle_flow e \<longleftrightarrow> combined_rate e < 1 \<and> fe_bytes_up_delta e + fe_bytes_down_delta e = 0"

definition live_indices :: "cpe_flow_state \<Rightarrow> nat list" where
  "live_indices st = filter (\<lambda>i. fe_used (fs_table st ! i) \<and> fe_alive (fs_table st ! i)) [0..<length (live_table st)]"

definition emit_sample ::
  "(nat \<Rightarrow> clock) \<Rightarrow> nat \<Rightarrow> int \<times> ('p,'n,'w,'t) cpe_agent \<Rightarrow> int \<times> ('p,'n,'w,'t) cpe_agent" where
  "emit_sample clk i x =
     (let (emitted, a) = x; st = ag_flow a; e = fs_table st ! i in
      if idle_flow e then (emitted, a)
      else
        (case cpe_flow_format_ndjson (clk i) (c_router_id (ag_cfg a)) ''sample'' e 768 of
           None \<Rightarrow> (emitted, a)
         | Some line \<Rightarrow>
             (let (ok, a1) = cpe_agent_spool_push_line line a in
              if ok then (emitted + 1, a1\<lparr>ag_flow := (ag_flow a1)\<lparr>fs_samples_emitted := fs_samples_emitted (ag_flow a1) + 1\<rparr>\<rparr>)
              else (emitted, a1))))"

definition emit_top_samples ::
  "(nat \<Rightarrow> clock) \<Rightarrow> u64 \<Rightarrow> ('p,'n,'w,'t) cpe_agent \<Rightarrow> int \<times> ('p,'n,'w,'t) cpe_agent" where
  "emit_top_samples clk now a =
     (let st = ag_flow a;
          top_n = (if fs_sample_top_n st \<noteq> 0 then unat (fs_sample_top_n st) else 32) in
      if fs_sample_emit_ms st = 0 then (0, a)
      else if fs_last_sample_ms st \<noteq> 0 \<and> now - fs_last_sample_ms st < ucast (fs_sample_emit_ms st) then (0, a)
      else
        (let a1 = a\<lparr>ag_flow := st\<lparr>fs_last_sample_ms := now\<rparr>\<rparr>;
             order = sel_sort (\<lambda>i. combined_rate (fs_table st ! i)) (live_indices st) top_n
         in fold (emit_sample clk) (take top_n order) (0, a1)))"

definition cpe_agent_flow_tick ::
  "'c nfct_env \<Rightarrow> (nat \<Rightarrow> nat \<Rightarrow> clock) \<Rightarrow> clock \<Rightarrow> recv_result list \<Rightarrow>
   (nat \<Rightarrow> nat \<Rightarrow> clock) \<Rightarrow> clock \<Rightarrow> recv_result list \<Rightarrow> bool list \<Rightarrow> (nat \<Rightarrow> clock) \<Rightarrow> clock \<Rightarrow>
   ('p,'n,'w,'t) cpe_agent \<Rightarrow> (int \<times> ('p,'n,'w,'t) cpe_agent) option" where
  "cpe_agent_flow_tick env pclk pnow prx dclk dnow drx dpolls sclk nclk a =
     (let (go, a0) = (if \<not> fs_enabled (ag_flow a) then
                        (if c_flow_acct_enabled (ag_cfg a)
                         then (let (r, b) = cpe_agent_flow_open env a in (r = 0, b)) else (False, a))
                      else (True, a)) in
      if \<not> go then Some (0, a0)
      else do {
        let now = mono_ms nclk;
        let a1 = a0\<lparr>ag_flow := (ag_flow a0)\<lparr>fs_last_tick_ms := now\<rparr>\<rparr>;
        (n1, a2) \<leftarrow> cpe_agent_flow_poll env pclk pnow prx 128 a1;
        (n2, a3) \<leftarrow> maybe_dump env dclk dnow drx dpolls now a2;
        let (n3, a4) = emit_top_samples sclk now a3;
        Some (n1 + n2 + n3, a4) })"

definition cpe_agent_flow_snapshot :: "clock \<Rightarrow> ('p,'n,'w,'t) cpe_agent \<Rightarrow> cpe_flow_snapshot" where
  "cpe_agent_flow_snapshot clk a =
     (let st = ag_flow a in
      \<lparr> fsn_events_in = fs_events_in st, fsn_destroys_emitted = fs_destroys_emitted st,
        fsn_samples_emitted = fs_samples_emitted st, fsn_dumps = fs_dumps st, fsn_open_ok = fs_open_ok st,
        fsn_open_err = cstr 96 (fs_open_err st), fsn_ts_iso = flow_iso_now clk,
        fsn_flows = filter fe_used (live_table st) \<rparr>)"

definition cpe_agent_flow_feed_event ::
  "clock \<Rightarrow> clock \<Rightarrow> nfct_event option \<Rightarrow> ('p,'n,'w,'t) cpe_agent \<Rightarrow> int \<times> ('p,'n,'w,'t) cpe_agent" where
  "cpe_agent_flow_feed_event clk nclk ev a =
     (case ev of None \<Rightarrow> (-1, a) | Some e \<Rightarrow> apply_event clk e (mono_ms nclk) a)"

definition cpe_agent_flow_last_error :: "('p,'n,'w,'t) cpe_agent \<Rightarrow> string option" where
  "cpe_agent_flow_last_error a = (if fs_open_err (ag_flow a) = [] then None else Some (fs_open_err (ag_flow a)))"

lemmas agent_flow_defs [cdefs] =
  event_slot_def apply_at_def apply_event_def nfct_drain.simps feed_loop.simps feed_and_apply_def poll_next_def recv_next_def drain_loop.simps
  drain_fd_def cpe_agent_flow_open_def cpe_agent_flow_close_def cpe_agent_flow_poll_def maybe_dump_def idle_flow_def
  live_indices_def emit_sample_def emit_top_samples_def cpe_agent_flow_tick_def cpe_agent_flow_snapshot_def
  cpe_agent_flow_feed_event_def cpe_agent_flow_last_error_def

section \<open>Invariant\<close>

definition used_n :: "cpe_flow_entry list \<Rightarrow> nat" where
  "used_n tbl = length (filter fe_used tbl)"

text \<open>The table has its fixed size, its strings fit, and \<^verbatim>\<open>table_used\<close> counts the used slots.\<close>

definition flow_inv :: "cpe_flow_state \<Rightarrow> bool" where
  "flow_inv st \<longleftrightarrow> length (fs_table st) = 1024 \<and> list_all entry_wf (fs_table st) \<and>
     fs_table_used st = of_nat (used_n (fs_table st))"

lemma flow_inv_frame [simp]:
  "flow_inv (st\<lparr>fs_warned_no_acct := b\<rparr>) = flow_inv st" "flow_inv (st\<lparr>fs_events_in := n\<rparr>) = flow_inv st"
  "flow_inv (st\<lparr>fs_fd := f\<rparr>) = flow_inv st" "flow_inv (st\<lparr>fs_dump_fd := f\<rparr>) = flow_inv st"
  "flow_inv (st\<lparr>fs_enabled := b\<rparr>) = flow_inv st" "flow_inv (st\<lparr>fs_open_ok := b\<rparr>) = flow_inv st"
  "flow_inv (st\<lparr>fs_open_err := e\<rparr>) = flow_inv st" "flow_inv (st\<lparr>fs_last_dump_ms := n\<rparr>) = flow_inv st"
  "flow_inv (st\<lparr>fs_dumps := n\<rparr>) = flow_inv st" "flow_inv (st\<lparr>fs_last_sample_ms := n\<rparr>) = flow_inv st"
  "flow_inv (st\<lparr>fs_samples_emitted := n\<rparr>) = flow_inv st" "flow_inv (st\<lparr>fs_last_tick_ms := n\<rparr>) = flow_inv st"
  "flow_inv (st\<lparr>fs_destroys_emitted := n\<rparr>) = flow_inv st" "flow_inv (st\<lparr>fs_join_update := b\<rparr>) = flow_inv st"
  "flow_inv (st\<lparr>fs_emit_destroy := b\<rparr>) = flow_inv st" "flow_inv (st\<lparr>fs_emit_new := b\<rparr>) = flow_inv st"
  "flow_inv (st\<lparr>fs_poll_interval_ms := m\<rparr>) = flow_inv st" "flow_inv (st\<lparr>fs_dump_interval_ms := m\<rparr>) = flow_inv st"
  "flow_inv (st\<lparr>fs_sample_emit_ms := m\<rparr>) = flow_inv st" "flow_inv (st\<lparr>fs_sample_top_n := m\<rparr>) = flow_inv st"
  "flow_inv (st\<lparr>fs_max_flows := m\<rparr>) = flow_inv st"
  by (simp_all add: flow_inv_def)

lemma flow_inv_init: "flow_inv cpe_flow_state_init"
  by (simp add: flow_inv_def cpe_flow_state_init_def used_n_def entry0_wf list_all_iff) (simp add: entry0_def)

lemma used_n_update:
  "i < length xs \<Longrightarrow> used_n (xs[i := y]) + (if fe_used (xs ! i) then 1 else 0) = used_n xs + (if fe_used y then 1 else 0)"
proof (induction xs arbitrary: i)
  case (Cons x xs)
  then show ?case by (cases i) (auto simp: used_n_def)
qed simp

lemma used_n_le: "used_n xs \<le> length xs"
  by (simp add: used_n_def)

lemma used_n_pos: "i < length xs \<Longrightarrow> fe_used (xs ! i) \<Longrightarrow> 0 < used_n xs"
  by (auto simp: used_n_def filter_empty_conv intro: nth_mem)

lemma slot_in_table: "flow_inv st \<Longrightarrow> find_slot st key = Some i \<Longrightarrow> i < 1024"
  using find_slot_bound[of st key i] length_live_table[of st] by (simp add: flow_inv_def)

text \<open>Writing a used entry into a slot; freeing a slot.\<close>

lemma flow_inv_write:
  assumes "flow_inv st" "i < 1024" "entry_wf e" "fe_used e"
  shows "flow_inv (st\<lparr>fs_table := (fs_table st)[i := e],
     fs_table_used := (if \<not> fe_used (fs_table st ! i) then fs_table_used st + 1 else fs_table_used st)\<rparr>)"
  using assms used_n_update[of i "fs_table st" e]
  by (auto simp: flow_inv_def list_all_update)

lemma flow_inv_free:
  assumes "flow_inv st" "i < 1024" "entry_wf e" "\<not> fe_used e" "fe_used (fs_table st ! i)"
  shows "flow_inv (st\<lparr>fs_table := (fs_table st)[i := e],
     fs_table_used := (if fs_table_used st > 0 then fs_table_used st - 1 else fs_table_used st)\<rparr>)"
proof -
  have len: "i < length (fs_table st)" using assms(1,2) by (simp add: flow_inv_def)
  have u: "used_n ((fs_table st)[i := e]) + 1 = used_n (fs_table st)"
    using used_n_update[OF len, of e] assms(4,5) by simp
  have "used_n (fs_table st) \<le> 1024" using used_n_le[of "fs_table st"] assms(1) by (simp add: flow_inv_def)
  then have un: "unat (of_nat (used_n (fs_table st)) :: u32) = used_n (fs_table st)"
    by (intro unat_of_nat_small) simp
  then have "fs_table_used st > 0" using assms(1) u by (simp add: flow_inv_def word_less_nat_alt del: of_nat_add)
  moreover have "fs_table_used st - 1 = of_nat (used_n ((fs_table st)[i := e]))"
    using assms(1) unfolding flow_inv_def u[symmetric] by simp
  ultimately show ?thesis using assms by (auto simp: flow_inv_def list_all_update)
qed

lemma event_slot_wf: "entry_wf old \<Longrightarrow> entry_wf (event_slot ev now old)" "fe_used (event_slot ev now old)"
  using entry_from_event_wf[of ev now] merge_slot_wf[of old] by (auto simp: event_slot_def Let_def)

lemma apply_at_inv:
  assumes i1: "flow_inv st1" and lt: "idx < 1024"
  shows "flow_inv (ag_flow (snd (apply_at clk ev now idx st1 a)))"
proof -
  define slot where "slot = event_slot ev now (fs_table st1 ! idx)"
  have ws: "entry_wf slot" "fe_used slot"
    using i1 lt by (simp_all add: slot_def event_slot_wf flow_inv_def list_all_nth)
  define st2 where "st2 = st1\<lparr>fs_table := (fs_table st1)[idx := slot],
    fs_table_used := (if \<not> fe_used (fs_table st1 ! idx) then fs_table_used st1 + 1 else fs_table_used st1),
    fs_events_in := fs_events_in st1 + 1\<rparr>"
  have i2: "flow_inv st2" using flow_inv_write[OF i1 lt ws] by (simp add: st2_def)
  define dead where "dead = slot\<lparr>fe_alive := False, fe_state := ''DESTROY''\<rparr>"
  have wd: "entry_wf (dead\<lparr>fe_used := False\<rparr>)" using ws by (simp add: dead_def entry_wf_def)
  have u2: "fe_used (fs_table st2 ! idx)" using ws lt i1 by (simp add: st2_def flow_inv_def)
  have i3: "flow_inv (st2\<lparr>fs_table := (fs_table st2)[idx := dead\<lparr>fe_used := False\<rparr>], fs_destroys_emitted := k,
      fs_table_used := (if fs_table_used st2 > 0 then fs_table_used st2 - 1 else fs_table_used st2)\<rparr>)" for k
    using flow_inv_free[OF i2 lt wd _ u2] by (simp add: flow_inv_def)
  show ?thesis
    using i2 i3 unfolding apply_at_def Let_def slot_def[symmetric] st2_def[symmetric] dead_def[symmetric]
    by (simp add: split_beta split del: if_split split: if_split)
qed

lemma apply_at_frame:
  "ag_tcp (snd (apply_at clk ev now idx st1 a)) = ag_tcp a" "ag_cfg (snd (apply_at clk ev now idx st1 a)) = ag_cfg a"
  "core_inv a \<Longrightarrow> core_inv (snd (apply_at clk ev now idx st1 a))"
  unfolding apply_at_def Let_def
  by (auto simp: split_beta core_inv_spool_push split: option.split)

lemma apply_event_inv:
  assumes "flow_inv (ag_flow a)"
  shows "flow_inv (ag_flow (snd (apply_event clk ev now a)))" "ag_tcp (snd (apply_event clk ev now a)) = ag_tcp a"
    "ag_cfg (snd (apply_event clk ev now a)) = ag_cfg a" "core_inv a \<Longrightarrow> core_inv (snd (apply_event clk ev now a))"
proof -
  define st1 where "st1 = (if ne_has_lan ev \<and> \<not> ne_has_counters ev \<and> \<not> fs_warned_no_acct (ag_flow a) \<and>
      (ne_type ev = NFCT_EVENT_DESTROY \<or> ne_type ev = NFCT_EVENT_UPDATE)
      then (ag_flow a)\<lparr>fs_warned_no_acct := True\<rparr> else ag_flow a)"
  have i1: "flow_inv st1" using assms by (simp add: st1_def)
  have eq: "apply_event clk ev now a = (if \<not> ne_has_lan ev \<and> \<not> (ne_is_destroy ev \<and> ne_has_id ev) then (0, a)
      else case find_slot st1 (entry_from_event ev now) of None \<Rightarrow> (-1, a\<lparr>ag_flow := st1\<rparr>)
        | Some idx \<Rightarrow> apply_at clk ev now idx st1 a)"
    unfolding apply_event_def Let_def st1_def ..
  show "flow_inv (ag_flow (snd (apply_event clk ev now a)))" "ag_tcp (snd (apply_event clk ev now a)) = ag_tcp a"
    "ag_cfg (snd (apply_event clk ev now a)) = ag_cfg a" "core_inv a \<Longrightarrow> core_inv (snd (apply_event clk ev now a))"
    unfolding eq using assms i1 apply_at_inv[OF i1, of _ clk ev now a] slot_in_table[OF i1]
    by (auto simp: apply_at_frame split: option.split)
qed

section \<open>The receive loops keep the invariant\<close>

text \<open>Everything the loops preserve, relative to the agent they started from.\<close>

definition flow_step_ok :: "('p,'n,'w,'t) cpe_agent \<Rightarrow> ('p,'n,'w,'t) cpe_agent \<Rightarrow> bool" where
  "flow_step_ok a b \<longleftrightarrow> (flow_inv (ag_flow a) \<longrightarrow> flow_inv (ag_flow b)) \<and> (flow_inv (ag_flow a) \<longrightarrow> core_inv a \<longrightarrow> core_inv b) \<and>
     ag_tcp b = ag_tcp a \<and> ag_cfg b = ag_cfg a"

lemma flow_step_ok_refl [simp]: "flow_step_ok a a"
  by (simp add: flow_step_ok_def)

lemma flow_step_ok_trans: "flow_step_ok a b \<Longrightarrow> flow_step_ok b c \<Longrightarrow> flow_step_ok a c"
  by (auto simp: flow_step_ok_def)

lemma flow_step_ok_flow: "flow_inv st = flow_inv (ag_flow a) \<Longrightarrow> flow_step_ok a (a\<lparr>ag_flow := st\<rparr>)"
  by (simp add: flow_step_ok_def)

lemma apply_event_ok:
  assumes "apply_event clk ev now a = (r, a')"
  shows "flow_inv (ag_flow a) \<Longrightarrow> flow_step_ok a a'"
  using apply_event_inv[of a clk ev now] assms by (auto simp: flow_step_ok_def)

text \<open>A finite event queue is drained completely, in order.\<close>

fun apply_all ::
  "(nat \<Rightarrow> clock) \<Rightarrow> u64 \<Rightarrow> nfct_event list \<Rightarrow> ('p,'n,'w,'t) cpe_agent \<Rightarrow> nat \<Rightarrow> ('p,'n,'w,'t) cpe_agent \<times> nat" where
  "apply_all clk now [] a applied = (a, applied)"
| "apply_all clk now (ev # evs) a applied =
     (let (r, a') = apply_event (clk applied) ev now a in apply_all clk now evs a' (if r \<ge> 0 then applied + 1 else applied))"

lemma nfct_drain_yields:
  assumes "yields nx ctx evs"
  shows "\<exists>ctx'. nfct_drain nx clk now ctx a applied =
    Some (ctx', fst (apply_all clk now evs a applied), snd (apply_all clk now evs a applied)) \<and> nx ctx' = None"
  using assms
proof (induction evs arbitrary: ctx a applied)
  case Nil
  then show ?case by (subst nfct_drain.simps) simp
next
  case (Cons ev evs)
  obtain ctx' where c: "nx ctx = Some (ev, ctx')" "yields nx ctx' evs" using yields_ConsE[OF Cons.prems] by blast
  obtain r a' where r: "apply_event (clk applied) ev now a = (r, a')" by fastforce
  from Cons.IH[OF c(2), of a' "if r \<ge> 0 then applied + 1 else applied"] c(1) r show ?case
    by (subst nfct_drain.simps) simp
qed

lemma apply_all_ok:
  "flow_inv (ag_flow a) \<Longrightarrow> flow_step_ok a (fst (apply_all clk now evs a applied)) \<and>
     flow_inv (ag_flow (fst (apply_all clk now evs a applied)))"
proof (induction evs arbitrary: a applied)
  case (Cons ev evs)
  obtain r a' where r: "apply_event (clk applied) ev now a = (r, a')" by fastforce
  have ok: "flow_step_ok a a'" using apply_event_ok[OF r Cons.prems] .
  then have "flow_inv (ag_flow a')" using Cons.prems by (simp add: flow_step_ok_def)
  from Cons.IH[OF this, of "if r \<ge> 0 then applied + 1 else applied"] r show ?case
    using flow_step_ok_trans[OF ok] by simp
qed simp

text \<open>The conntrack library has a bounded queue: after any input it yields finitely many events.\<close>

definition env_finite :: "'c nfct_env \<Rightarrow> bool" where
  "env_finite env \<longleftrightarrow> (\<forall>ctx. \<exists>evs. yields (nv_next env) ctx evs)"

lemma feed_loop_ok:
  assumes "env_finite env" "flow_inv (ag_flow a)"
  shows "\<exists>ctx' a' n. feed_loop env clk now buf off ctx a applied = Some (ctx', a', n) \<and> flow_step_ok a a' \<and> flow_inv (ag_flow a')"
  using assms(2)
proof (induction "length buf - off" arbitrary: off ctx a applied rule: less_induct)
  case less
  note eq = feed_loop.simps[of env clk now buf off ctx a applied]
  show ?case
  proof (cases "off + 16 \<le> length buf")
    case True
    obtain nl where nl: "rd32 le32 buf off = Some nl" using True rd32_in[of off buf le32] by simp
    show ?thesis
    proof (cases "nl < 16 \<or> off + unat nl > length buf")
      case True
      with \<open>off + 16 \<le> length buf\<close> nl less.prems show ?thesis by (simp add: eq)
    next
      case False
      obtain evs where "yields (nv_next env) (nv_feed env ctx (take (unat nl) (drop off buf))) evs"
        using assms(1) by (auto simp: env_finite_def)
      from nfct_drain_yields[OF this, of clk now a applied] apply_all_ok[OF less.prems, of clk now evs applied]
      obtain ctx1 a1 n1 where d: "nfct_drain (nv_next env) clk now (nv_feed env ctx (take (unat nl) (drop off buf))) a applied =
          Some (ctx1, a1, n1)" "flow_step_ok a a1" "flow_inv (ag_flow a1)" by blast
      let ?al = "unat ((nl + 3) AND (NOT 3))"
      show ?thesis
      proof (cases "?al = 0")
        case z: True
        with True False nl d show ?thesis by (simp add: eq Let_def)
      next
        case z: False
        have "length buf - (off + ?al) < length buf - off" using z True by simp
        from less.hyps[OF this d(3), of ctx1 n1] obtain ctx' a' n where
          "feed_loop env clk now buf (off + ?al) ctx1 a1 n1 = Some (ctx', a', n)" "flow_step_ok a1 a'" "flow_inv (ag_flow a')"
          by blast
        with True False nl d z flow_step_ok_trans[OF d(2)] show ?thesis by (simp add: eq Let_def)
      qed
    qed
  qed (use less.prems in \<open>simp add: eq\<close>)
qed

lemma feed_and_apply_ok:
  assumes "env_finite env" "flow_inv (ag_flow a)"
  shows "\<exists>ctx' a' n. feed_and_apply env clk now buf ctx a = Some (ctx', a', n) \<and> flow_step_ok a a' \<and> flow_inv (ag_flow a')"
  using feed_loop_ok[OF assms, of clk now buf 0 ctx 0] assms(2) by (auto simp: feed_and_apply_def)

lemma drain_loop_ok:
  assumes "env_finite env" "flow_inv (ag_flow a)"
  shows "\<exists>a' n. drain_loop env clk now fd wait left rx polls saw ctx a applied = Some (a', n) \<and> flow_step_ok a a' \<and>
    flow_inv (ag_flow a')"
  using assms
proof (induction env clk now fd wait left rx polls saw ctx a applied rule: drain_loop.induct)
  case (1 env clk now fd wait left rx polls saw ctx a applied)
  note eq = drain_loop.simps[of env clk now fd wait left rx polls saw ctx a applied]
  obtain go p1 where g: "(if saw \<and> wait then poll_next polls else (True, polls)) = (go, p1)" by fastforce
  obtain rd buf rx1 where rv: "recv_next fd rx = ((rd, buf), rx1)" by (metis prod.exhaust)
  obtain ag p2 where ag: "poll_next p1 = (ag, p2)" by fastforce
  show ?case
  proof (cases "left = 0 \<or> \<not> go \<or> rd < 0 \<or> rd = 0 \<and> \<not> (\<not> saw \<and> wait \<and> ag)")
    case True
    then have "drain_loop env clk now fd wait left rx polls saw ctx a applied = Some (a, applied)"
      unfolding eq g rv by (auto simp: ag split: prod.splits)
    with 1(4) show ?thesis by simp
  next
    case False
    then have c: "left \<noteq> 0" "\<not> \<not> go" by auto
    show ?thesis
    proof (cases "rd = 0")
      case True
      with False have s: "\<not> saw \<and> wait" "\<not> \<not> ag" by auto
      have "drain_loop env clk now fd wait left rx polls saw ctx a applied =
          drain_loop env clk now fd wait left rx1 p2 saw ctx a applied"
        unfolding eq g rv using c s True by (simp add: ag)
      then show ?thesis
        using 1(1)[OF c(1) g[symmetric] refl c(2) rv[symmetric] refl refl True s(1) ag[symmetric] refl s(2) 1(3,4)] by simp
    next
      case z: False
      with False have pos: "\<not> rd < 0" by auto
      obtain ctx1 a1 k where f: "feed_and_apply env (clk left) now buf ctx a = Some (ctx1, a1, k)"
        "flow_step_ok a a1" "flow_inv (ag_flow a1)" using feed_and_apply_ok[OF 1(3,4)] by blast
      have "drain_loop env clk now fd wait left rx polls saw ctx a applied =
          drain_loop env clk now fd wait (left - 1) rx1 p1 True ctx1 a1 (applied + k)"
        unfolding eq g rv using c z pos f by simp
      moreover have "\<exists>a' n. drain_loop env clk now fd wait (left - 1) rx1 p1 True ctx1 a1 (applied + k) = Some (a', n) \<and>
          flow_step_ok a1 a' \<and> flow_inv (ag_flow a')"
        using 1(2)[OF c(1) g[symmetric] refl c(2) rv[symmetric] refl refl z pos f(1) refl refl 1(3) f(3)] .
      ultimately show ?thesis using flow_step_ok_trans[OF f(2)] by auto
    qed
  qed
qed

lemma drain_fd_ok:
  assumes "env_finite env" "flow_inv (ag_flow a)"
  shows "\<exists>n a'. drain_fd env clk nclk rx polls fd m wait a = Some (n, a') \<and> flow_step_ok a a' \<and> flow_inv (ag_flow a')"
proof (cases "nv_create env")
  case (Some ctx)
  obtain go p1 where g: "(if wait then poll_next polls else (True, polls)) = (go, p1)" by fastforce
  from drain_loop_ok[OF assms, of clk "mono_ms nclk" fd wait m rx p1 False ctx 0] Some g assms(2) show ?thesis
    unfolding drain_fd_def by auto
qed (use assms(2) in \<open>simp add: drain_fd_def\<close>)

lemma flow_open_ok:
  assumes "cpe_agent_flow_open env a = (r, a')"
  shows "flow_step_ok a a'" "flow_inv (ag_flow a) \<Longrightarrow> flow_inv (ag_flow a')"
proof -
  show ok: "flow_step_ok a a'"
    using assms by (auto simp: cpe_agent_flow_open_def Let_def split: if_splits sum.splits intro!: flow_step_ok_flow)
  show "flow_inv (ag_flow a) \<Longrightarrow> flow_inv (ag_flow a')" using ok by (simp add: flow_step_ok_def)
qed

lemma flow_poll_ok:
  assumes "env_finite env" "flow_inv (ag_flow a)"
  shows "\<exists>n a'. cpe_agent_flow_poll env clk nclk rx m a = Some (n, a') \<and> flow_step_ok a a' \<and> flow_inv (ag_flow a')"
proof -
  obtain r a1 where o: "(if fs_fd (ag_flow a) < 0 then cpe_agent_flow_open env a else (0, a)) = (r, a1)" by fastforce
  then have a1: "flow_step_ok a a1" "flow_inv (ag_flow a1)"
    using flow_open_ok[of env a r a1] assms(2) by (auto split: if_splits)
  from drain_fd_ok[OF assms(1) a1(2), of clk nclk rx "[]" "fs_fd (ag_flow a1)" "if m = 0 then 64 else m" False]
  show ?thesis using o a1 assms(2) flow_step_ok_trans[OF a1(1)] unfolding cpe_agent_flow_poll_def by auto
qed

lemma maybe_dump_ok:
  assumes "env_finite env" "flow_inv (ag_flow a)"
  shows "\<exists>n a'. maybe_dump env clk nclk rx polls now a = Some (n, a') \<and> flow_step_ok a a' \<and> flow_inv (ag_flow a')"
proof -
  let ?a = "a\<lparr>ag_flow := (ag_flow a)\<lparr>fs_last_dump_ms := now, fs_dumps := fs_dumps (ag_flow a) + 1\<rparr>\<rparr>"
  have ok: "flow_step_ok a ?a" "flow_inv (ag_flow ?a)" using assms(2) by (simp_all add: flow_step_ok_flow)
  from drain_fd_ok[OF assms(1) ok(2), of clk nclk rx polls "fs_dump_fd (ag_flow a)" 512 True]
  show ?thesis using assms(2) flow_step_ok_trans[OF ok(1)] unfolding maybe_dump_def Let_def by auto
qed

lemma spool_push_ok: "flow_step_ok a (snd (cpe_agent_spool_push_line line a))"
  by (simp add: flow_step_ok_def core_inv_spool_push)

lemma emit_sample_ok: "flow_step_ok (snd x) (snd (emit_sample clk i x))"
proof -
  obtain n a where x: "x = (n, a)" by (cases x)
  show ?thesis
  proof (cases "idle_flow (fs_table (ag_flow a) ! i) \<or>
      cpe_flow_format_ndjson (clk i) (c_router_id (ag_cfg a)) ''sample'' (fs_table (ag_flow a) ! i) 768 = None")
    case True
    then show ?thesis by (auto simp: x emit_sample_def Let_def)
  next
    case False
    then obtain line where l: "cpe_flow_format_ndjson (clk i) (c_router_id (ag_cfg a)) ''sample'' (fs_table (ag_flow a) ! i) 768 = Some line"
      by auto
    let ?b = "snd (cpe_agent_spool_push_line line a)"
    have "flow_step_ok ?b (?b\<lparr>ag_flow := (ag_flow ?b)\<lparr>fs_samples_emitted := fs_samples_emitted (ag_flow ?b) + 1\<rparr>\<rparr>)"
      by (rule flow_step_ok_flow) simp
    then show ?thesis
      using False l spool_push_ok[of a line] flow_step_ok_trans[OF spool_push_ok[of a line]]
      by (simp add: x emit_sample_def split_beta del: spool_push_frame)
  qed
qed

lemma emit_samples_ok: "flow_step_ok (snd x) (snd (fold (emit_sample clk) is x))"
proof (induction "is" arbitrary: x)
  case (Cons i "is")
  show ?case using flow_step_ok_trans[OF emit_sample_ok[of x clk i] Cons[of "emit_sample clk i x"]] by simp
qed simp

lemma emit_top_ok: "flow_step_ok a (snd (emit_top_samples clk now a))"
proof -
  let ?a = "a\<lparr>ag_flow := (ag_flow a)\<lparr>fs_last_sample_ms := now\<rparr>\<rparr>"
  have "flow_step_ok a ?a" by (rule flow_step_ok_flow) simp
  from flow_step_ok_trans[OF this emit_samples_ok[of "(0, ?a)" clk, simplified]] show ?thesis
    by (simp add: emit_top_samples_def Let_def)
qed

lemma flow_tick_ok:
  assumes "env_finite env" "flow_inv (ag_flow a)"
  shows "\<exists>n a'. cpe_agent_flow_tick env pclk pnow prx dclk dnow drx dpolls sclk nclk a = Some (n, a') \<and>
    flow_step_ok a a' \<and> flow_inv (ag_flow a')"
proof -
  obtain go a0 where g: "(if \<not> fs_enabled (ag_flow a) then
      (if c_flow_acct_enabled (ag_cfg a) then (let (r, b) = cpe_agent_flow_open env a in (r = 0, b)) else (False, a))
      else (True, a)) = (go, a0)" by fastforce
  have a0: "flow_step_ok a a0" "flow_inv (ag_flow a0)"
    using g flow_open_ok[of env a "fst (cpe_agent_flow_open env a)" "snd (cpe_agent_flow_open env a)"] assms(2)
    by (auto simp: split_beta Let_def split: if_splits)
  show ?thesis
  proof (cases go)
    case True
    let ?a1 = "a0\<lparr>ag_flow := (ag_flow a0)\<lparr>fs_last_tick_ms := mono_ms nclk\<rparr>\<rparr>"
    have a1: "flow_step_ok a0 ?a1" "flow_inv (ag_flow ?a1)" using a0 by (simp_all add: flow_step_ok_flow)
    obtain n1 a2 where p: "cpe_agent_flow_poll env pclk pnow prx 128 ?a1 = Some (n1, a2)" "flow_step_ok ?a1 a2" "flow_inv (ag_flow a2)"
      using flow_poll_ok[OF assms(1) a1(2)] by blast
    obtain n2 a3 where d: "maybe_dump env dclk dnow drx dpolls (mono_ms nclk) a2 = Some (n2, a3)" "flow_step_ok a2 a3" "flow_inv (ag_flow a3)"
      using maybe_dump_ok[OF assms(1) p(3)] by blast
    obtain n3 a4 where e: "emit_top_samples sclk (mono_ms nclk) a3 = (n3, a4)" by fastforce
    then have "flow_step_ok a3 a4" using emit_top_ok[of a3 sclk "mono_ms nclk"] by simp
    with d(2,3) p(2) a1(1) a0(1) have "flow_step_ok a a4" "flow_inv (ag_flow a4)"
      by (meson flow_step_ok_trans) (simp add: \<open>flow_step_ok a3 a4\<close>[unfolded flow_step_ok_def] d(3))
    with True g p(1) d(1) e show ?thesis unfolding cpe_agent_flow_tick_def by (simp add: Let_def)
  next
    case False
    with g a0 show ?thesis unfolding cpe_agent_flow_tick_def by simp
  qed
qed

section \<open>Properties\<close>

text \<open>one tick of the flow accounting (open if needed, poll events, dump, emit samples) always
  returns and keeps the table invariant, the spool and the event queue, for arbitrary received bytes
  and poll results; the only thing relied on is that the conntrack library's queue is finite.\<close>

theorem flow_tick_safe:
  assumes "env_finite env" "flow_inv (ag_flow a)" "core_inv a"
  shows "\<exists>n a'. cpe_agent_flow_tick env pclk pnow prx dclk dnow drx dpolls sclk nclk a = Some (n, a') \<and>
    flow_inv (ag_flow a') \<and> core_inv a' \<and> ag_tcp a' = ag_tcp a \<and> ag_cfg a' = ag_cfg a"
  using flow_tick_ok[OF assms(1,2), of pclk pnow prx dclk dnow drx dpolls sclk nclk] assms(2,3)
  unfolding flow_step_ok_def by blast

text \<open>A conntrack library that queues one fixed event per message.\<close>

definition list_env :: "nfct_event list nfct_env" where
  "list_env = \<lparr> nv_open = (\<lambda>_. Inr 3), nv_open_dump = Inr 4, nv_dump_request = True, nv_create = Some [],
     nv_feed = (\<lambda>q b. q @ [counter_event 100]), nv_next = list_next \<rparr>"

lemma list_env_finite: "env_finite list_env"
  by (simp add: env_finite_def list_env_def)

lemma agent00_flow: "flow_inv (ag_flow agent00)"
  by (simp add: agent00_def agent0_def flow_inv_init)

theorem flow_tick_safe_witness:
  "\<exists>n a'. cpe_agent_flow_tick list_env (\<lambda>_ _. clk0) clk0 [Received (le32_bytes 16 @ replicate 12 0)]
       (\<lambda>_ _. clk0) clk0 [] [True] (\<lambda>_. clk0) clk0
       (agent00\<lparr>ag_cfg := cpe_agent_config_defaults\<lparr>c_flow_acct_enabled := True\<rparr>\<rparr>) = Some (n, a') \<and>
     flow_inv (ag_flow a') \<and> core_inv a' \<and> ag_tcp a' = ag_tcp agent00 \<and>
     ag_cfg a' = cpe_agent_config_defaults\<lparr>c_flow_acct_enabled := True\<rparr>"
  using flow_tick_safe[OF list_env_finite, of "agent00\<lparr>ag_cfg := cpe_agent_config_defaults\<lparr>c_flow_acct_enabled := True\<rparr>\<rparr>"
      "\<lambda>_ _. clk0" clk0 "[Received (le32_bytes 16 @ replicate 12 0)]" "\<lambda>_ _. clk0" clk0 "[]" "[True]" "\<lambda>_. clk0" clk0]
  by (simp add: agent00_flow agent00_core)

text \<open>a DESTROY event for a tracked flow pushes exactly one \<^verbatim>\<open>destroy\<close> record carrying the merged
  counters, counts it, frees that slot and leaves every other slot alone.\<close>

theorem destroy_emits_and_frees:
  assumes "flow_inv (ag_flow a)" "spool_ready a" "ne_type ev = NFCT_EVENT_DESTROY" "ne_has_lan ev" "ne_has_counters ev"
    and "fs_emit_destroy (ag_flow a)" "find_slot (ag_flow a) (entry_from_event ev now) = Some idx"
    and "dead = (event_slot ev now (fs_table (ag_flow a) ! idx))\<lparr>fe_alive := False, fe_state := ''DESTROY''\<rparr>"
    and "cpe_flow_format_ndjson clk (c_router_id (ag_cfg a)) ''destroy'' dead 768 = Some line"
    and "apply_event clk ev now a = (r, a')"
  shows "r = 1 \<and> spool_view a' = spool_view (spool_push line a) \<and>
    fs_destroys_emitted (ag_flow a') = fs_destroys_emitted (ag_flow a) + 1 \<and>
    fs_table (ag_flow a') = (fs_table (ag_flow a))[idx := dead\<lparr>fe_used := False\<rparr>] \<and>
    idx < 1024 \<and> \<not> fe_used (fs_table (ag_flow a') ! idx)"
proof -
  have lt: "idx < 1024" using slot_in_table[OF assms(1,7)] .
  have len: "length (fs_table (ag_flow a)) = 1024" using assms(1) by (simp add: flow_inv_def)
  have p: "fst (cpe_agent_spool_push_line line a)" using spool_ready_push(2)[OF assms(2)] .
  have "apply_event clk ev now a = apply_at clk ev now idx (ag_flow a) a"
    using assms(4,5,7) by (simp add: apply_event_def)
  then have "(r, a') = apply_at clk ev now idx (ag_flow a) a" using assms(10) by simp
  then show ?thesis
    using assms(3,6) p lt len unfolding apply_at_def Let_def assms(8)[symmetric] assms(9) option.case
    by (simp add: split_beta spool_push_def)
qed

definition destroy_event :: nfct_event where
  "destroy_event = (counter_event 900)\<lparr>ne_type := NFCT_EVENT_DESTROY, ne_is_destroy := True\<rparr>"

lemma replicate_1024: "replicate 1024 x = x # replicate 1023 x"
  by (simp add: replicate_Suc[symmetric] del: replicate.simps)

lemma find_slot_empty: "find_slot cpe_flow_state_init key = Some 0"
proof -
  have "live_table cpe_flow_state_init = entry0 # replicate 1023 entry0"
    by (simp add: live_table_def cpe_flow_state_init_def replicate_Suc[symmetric] del: replicate.simps)
  moreover have "\<not> fe_used entry0" by (simp add: entry0_def)
  moreover from this have "find_idx (\<lambda>e. fe_used e \<and> slot_match key e) (entry0 # replicate 1023 entry0) = None"
    unfolding find_idx_None_iff by auto
  ultimately show ?thesis unfolding find_slot_eq_ref find_slot_ref_def by simp
qed

theorem destroy_emits_and_frees_witness:
  "\<exists>a'. apply_event clk0 destroy_event 5 (agent_with_spool 2) = (1, a') \<and>
     length (spool_view a') = 1 \<and> fs_destroys_emitted (ag_flow a') = 1"
proof -
  let ?a = "agent_with_spool 2"
  have fl: "ag_flow ?a = cpe_flow_state_init" "c_router_id (ag_cfg ?a) = ''cpe-lab-1''"
    by (simp_all add: agent_with_spool_def ensure_spool_def Let_def agent00_def agent0_def free_spool_def
        cpe_agent_config_defaults_def)
  define dead where "dead = (event_slot destroy_event 5 (fs_table (ag_flow ?a) ! 0))\<lparr>fe_alive := False, fe_state := ''DESTROY''\<rparr>"
  have d0: "fs_table (ag_flow ?a) ! 0 = entry0" by (simp add: fl cpe_flow_state_init_def)
  have dw: "entry_wf dead" using event_slot_wf(1)[OF entry0_wf, of destroy_event 5] by (simp add: dead_def d0 entry_wf_def)
  have "length (ipv4_str x) \<le> 15" for x by (simp add: ipv4_str_def length_inet_ntop4)
  then have "entry_small dead"
    by (simp add: dead_def d0 event_slot_def entry0_def entry_from_event_def entry_base_def Let_def destroy_event_def
        counter_event_def sample_nat_event_def entry_small_def make_flow_id_def cstr_fits)
  from length_flow_json[OF dw this length_iso_now(2)[of clk0], of "''cpe-lab-1''" "''destroy''"]
  obtain line where l: "cpe_flow_format_ndjson clk0 (c_router_id (ag_cfg ?a)) ''destroy'' dead 768 = Some line"
    by (simp add: cpe_flow_format_ndjson_def fl Let_def)
  obtain r a' where r: "apply_event clk0 destroy_event 5 ?a = (r, a')" by fastforce
  have "r = 1 \<and> spool_view a' = spool_view (spool_push line ?a) \<and> fs_destroys_emitted (ag_flow a') = 1"
    using destroy_emits_and_frees[OF _ agent_with_spool_ready[of 2] _ _ _ _ _ dead_def l r]
    by (simp add: fl flow_inv_init find_slot_empty destroy_event_def counter_event_def sample_nat_event_def)
       (simp add: cpe_flow_state_init_def)
  with r spool_ready_push(3)[OF agent_with_spool_ready[of 2], of line] show ?thesis
    by (simp add: agent_with_spool_view)
qed

text \<open>when the table is full, the evicted slot keeps the identity of the flow it held: the new flow is
  stored under the old flow's \<^verbatim>\<open>flow_id\<close> and first-seen time, with only the addresses replaced, so
  consumers see two different flows as one.\<close>

theorem evicted_slot_keeps_old_identity:
  assumes "find_slot (ag_flow a) (entry_from_event ev now) = Some idx" "flow_inv (ag_flow a)"
    and "old = fs_table (ag_flow a) ! idx" "fe_used old" "\<not> slot_match (entry_from_event ev now) old"
    and "fe_flow_id old \<noteq> []" "fe_first_seen_ms old \<noteq> 0"
    and "ne_type ev = NFCT_EVENT_UPDATE" "ne_has_lan ev" "ne_has_counters ev" "\<not> ne_is_ipv6 ev"
    and "new = fs_table (ag_flow (snd (apply_event clk ev now a))) ! idx"
  shows "fe_flow_id new = fe_flow_id old \<and> fe_first_seen_ms new = fe_first_seen_ms old \<and>
    fe_lan_ip new = fe_lan_ip (entry_from_event ev now) \<and> fe_remote_ip new = fe_remote_ip (entry_from_event ev now)"
proof -
  have lt: "idx < length (fs_table (ag_flow a))" using slot_in_table[OF assms(2,1)] assms(2) by (simp add: flow_inv_def)
  have "new = merge_slot ev (entry_from_event ev now) now old"
    using assms(1,3,4,8-12) lt by (simp add: apply_event_def apply_at_def event_slot_def Let_def)
  moreover have "fe_lan_ip (entry_from_event ev now) \<noteq> []"
    using assms(11) by (simp add: entry_from_event_def entry_base_def Let_def ipv4_str_def)
  ultimately show ?thesis
    using assms(6,7,10) by (simp add: merge_slot_def update_rates_def Let_def)
qed

text \<open>A table limited to one slot, already occupied.\<close>

definition full_agent :: "(unit, unit, unit, unit) cpe_agent" where
  "full_agent = agent00\<lparr>ag_flow := cpe_flow_state_init\<lparr>fs_max_flows := 1, fs_table_used := 1,
     fs_table := (replicate 1024 entry0)[0 := entry0\<lparr>fe_used := True, fe_flow_id := ''0badcafe'', fe_first_seen_ms := 1,
       fe_lan_port := 9\<rparr>]\<rparr>\<rparr>"

theorem evicted_slot_keeps_old_identity_witness:
  "fe_flow_id (fs_table (ag_flow (snd (apply_event clk0 (counter_event 100) 5 full_agent))) ! 0) = ''0badcafe''"
proof -
  let ?o = "entry0\<lparr>fe_used := True, fe_flow_id := ''0badcafe'', fe_first_seen_ms := 1, fe_lan_port := 9\<rparr>"
  let ?tmp = "entry_from_event (counter_event 100) 5"
  have t: "fs_table (ag_flow full_agent) ! 0 = ?o" "live_table (ag_flow full_agent) = [?o]"
    unfolding full_agent_def live_table_def replicate_1024 by simp_all
  have m: "\<not> slot_match ?tmp ?o"
    by (simp add: slot_match_def entry0_def entry_from_event_def entry_base_def Let_def counter_event_def sample_nat_event_def)
  have f: "find_slot (ag_flow full_agent) ?tmp = Some 0"
    using m by (simp add: find_slot_eq_ref find_slot_ref_def t(2) min_slot_def) (simp add: entry0_def)
  have w: "entry_wf ?o" using entry0_wf by (simp add: entry_wf_def)
  have "used_n (replicate 1024 entry0) = 0" by (simp add: used_n_def) (simp add: entry0_def)
  then have "used_n ((replicate 1024 entry0)[0 := ?o]) = 1"
    using used_n_update[of 0 "replicate 1024 entry0" ?o] by (simp add: entry0_def)
  moreover have "list_all entry_wf ((replicate 1024 entry0)[0 := ?o])"
    using w entry0_wf by (intro list_all_update) (simp_all add: list_all_iff)
  ultimately have i: "flow_inv (ag_flow full_agent)"
    by (simp add: full_agent_def flow_inv_def list_all_update cpe_flow_state_init_def)
  show ?thesis
    using evicted_slot_keeps_old_identity[OF f i t(1)[symmetric] _ m _ _ _ _ _ _ refl, of clk0] t(1)
    by (simp add: counter_event_def sample_nat_event_def)
qed

text \<open>a DESTROY event that carries only the conntrack id (no tuples, so zero addresses) overwrites the
  addresses of the flow it identifies with 0.0.0.0: the guard that should keep them tests a string
  that is never empty.\<close>

theorem id_only_destroy_loses_addresses:
  assumes "fe_used old" "\<not> ne_has_lan ev" "\<not> ne_is_ipv6 ev" "ne_lan_src_ip ev = 0" "ne_lan_dst_ip ev = 0"
  shows "fe_lan_ip (event_slot ev now old) = ''0.0.0.0'' \<and> fe_remote_ip (event_slot ev now old) = ''0.0.0.0''"
proof -
  have "ipv4_str 0 = ''0.0.0.0''"
    by (simp add: ipv4_str_def inet_ntop4_def htonl_def octet_def dec.simps digit_def)
  then show ?thesis
    using assms by (simp add: event_slot_def merge_slot_def update_rates_def entry_from_event_def entry_base_def Let_def)
qed

theorem id_only_destroy_loses_addresses_witness:
  "fe_lan_ip (event_slot (destroy_event\<lparr>ne_has_lan := False, ne_lan_src_ip := 0, ne_lan_dst_ip := 0\<rparr>) 9
     (entry0\<lparr>fe_used := True, fe_lan_ip := ''192.168.1.5''\<rparr>)) = ''0.0.0.0''"
  using id_only_destroy_loses_addresses[of "entry0\<lparr>fe_used := True, fe_lan_ip := ''192.168.1.5''\<rparr>"
      "destroy_event\<lparr>ne_has_lan := False, ne_lan_src_ip := 0, ne_lan_dst_ip := 0\<rparr>" 9]
  by (simp add: destroy_event_def counter_event_def sample_nat_event_def)

end
