(* ===== verification/Config_Yaml.thy ===== *)
theory Config_Yaml
  imports Config Event_Source
begin

text \<open>
  \<^verbatim>\<open>agent/config_yaml.c\<close>: scalar parsers, the key dispatcher \<^verbatim>\<open>apply_scalar\<close>, the ordered
  key table and the loaders. The YAML parser is a sibling library: its event stream
  (\<open>next\<close>, for \<^verbatim>\<open>yaml_next_event\<close>) and \<^verbatim>\<open>yaml_lookup_scalar\<close> are parameters, as are
  file reads and allocation results.
\<close>

section \<open>Scalar parsers\<close>

definition parse_bool :: "string \<Rightarrow> bool option" where
  "parse_bool s =
     (if s = ''1'' \<or> s = ''true'' \<or> s = ''True'' \<or> s = ''yes'' \<or> s = ''on'' then Some True
      else if s = ''0'' \<or> s = ''false'' \<or> s = ''False'' \<or> s = ''no'' \<or> s = ''off'' then Some False
      else None)"

definition isspace :: "char \<Rightarrow> bool" where
  "isspace c \<longleftrightarrow> c = CHR '' '' \<or> (9 \<le> (of_char c :: nat) \<and> (of_char c :: nat) \<le> 13)"

definition digits_val :: "string \<Rightarrow> nat" where
  "digits_val ds = foldl (\<lambda>a c. a * 10 + digit_val c) 0 ds"

text \<open>
  \<^verbatim>\<open>strtoul(s, &end, 10)\<close> on a 64-bit \<^verbatim>\<open>unsigned long\<close>: leading white space, an optional
  sign (a minus negates modulo \<open>2 ^ 64\<close>), digits, saturation at \<^verbatim>\<open>ULONG_MAX\<close>.
  \<open>None\<close>: no digits, \<^verbatim>\<open>end == s\<close>. \<^verbatim>\<open>strtoull\<close> is the same function.
\<close>

definition strtoul :: "string \<Rightarrow> (nat \<times> string) option" where
  "strtoul s =
     (let s1 = dropWhile isspace s;
          neg = (s1 \<noteq> [] \<and> hd s1 = CHR ''-'');
          s2 = (if s1 \<noteq> [] \<and> (hd s1 = CHR ''-'' \<or> hd s1 = CHR ''+'') then tl s1 else s1);
          ds = takeWhile is_digit s2
      in if ds = [] then None
         else let v = digits_val ds
              in Some ((if 2 ^ 64 \<le> v then 2 ^ 64 - 1 else if neg then (2 ^ 64 - v) mod 2 ^ 64 else v),
                       dropWhile is_digit s2))"

text \<open>\<^verbatim>\<open>(int)strtol(s, NULL, 10)\<close>, which is what \<^verbatim>\<open>atoi\<close> computes.\<close>

definition atoi :: "string \<Rightarrow> int" where
  "atoi s =
     (let s1 = dropWhile isspace s;
          neg = (s1 \<noteq> [] \<and> hd s1 = CHR ''-'');
          s2 = (if s1 \<noteq> [] \<and> (hd s1 = CHR ''-'' \<or> hd s1 = CHR ''+'') then tl s1 else s1);
          v = int (digits_val (takeWhile is_digit s2));
          l = (if neg then max (- (2 ^ 63)) (- v) else min (2 ^ 63 - 1) v)
      in sint (word_of_int l :: 32 word))"

definition parse_u32 :: "string \<Rightarrow> u32 option" where
  "parse_u32 s =
     (case strtoul s of None \<Rightarrow> None
      | Some (v, rest) \<Rightarrow> if rest \<noteq> [] \<or> 0xffffffff < v then None else Some (of_nat v))"

definition parse_size :: "string \<Rightarrow> u64 option" where
  "parse_size s =
     (case strtoul s of None \<Rightarrow> None
      | Some (v, rest) \<Rightarrow> if rest \<noteq> [] then None else Some (of_nat v))"

definition copy_str :: "nat \<Rightarrow> string \<Rightarrow> string option" where
  "copy_str dst_sz src = (if length src + 1 > dst_sz then None else Some src)"

section \<open>The key dispatcher\<close>

text \<open>
  The four shapes of a branch of \<^verbatim>\<open>apply_scalar\<close>: \<^verbatim>\<open>FAIL(msg)\<close> is \<open>Inl\<close> with the text
  \<^verbatim>\<open>key: msg\<close>.
\<close>

definition set_str :: "string \<Rightarrow> nat \<Rightarrow> (string \<Rightarrow> 'c \<Rightarrow> 'c) \<Rightarrow> string \<Rightarrow> 'c \<Rightarrow> string + 'c" where
  "set_str key n upd val c =
     (case copy_str n val of None \<Rightarrow> Inl (key @ '': too long'') | Some v \<Rightarrow> Inr (upd v c))"

definition set_u32 :: "string \<Rightarrow> (u32 \<Rightarrow> bool) \<Rightarrow> (u32 \<Rightarrow> 'c \<Rightarrow> 'c) \<Rightarrow> string \<Rightarrow> 'c \<Rightarrow> string + 'c" where
  "set_u32 key ok upd val c =
     (case parse_u32 val of None \<Rightarrow> Inl (key @ '': invalid'')
      | Some v \<Rightarrow> if ok v then Inr (upd v c) else Inl (key @ '': invalid''))"

definition set_size :: "string \<Rightarrow> (u64 \<Rightarrow> 'c \<Rightarrow> 'c) \<Rightarrow> string \<Rightarrow> 'c \<Rightarrow> string + 'c" where
  "set_size key upd val c =
     (case parse_size val of None \<Rightarrow> Inl (key @ '': invalid'')
      | Some v \<Rightarrow> if v = 0 then Inl (key @ '': invalid'') else Inr (upd v c))"

definition set_bool :: "string \<Rightarrow> (bool \<Rightarrow> 'c \<Rightarrow> 'c) \<Rightarrow> string \<Rightarrow> 'c \<Rightarrow> string + 'c" where
  "set_bool key upd val c =
     (case parse_bool val of None \<Rightarrow> Inl (key @ '': invalid bool'') | Some b \<Rightarrow> Inr (upd b c))"

definition nonzero :: "u32 \<Rightarrow> bool" where
  "nonzero v \<longleftrightarrow> v \<noteq> 0"

text \<open>The second half of the function: TCP statistics, flow accounting, IPC and proxy keys.\<close>

definition apply_scalar_acct :: "cpe_agent_config \<Rightarrow> string \<Rightarrow> string \<Rightarrow> string + cpe_agent_config" where
  "apply_scalar_acct c key val =
     (if key = ''tcp_stats.enabled'' \<or> key = ''tcp_stats_enabled''
        then set_bool key (\<lambda>v c. c\<lparr>c_tcp_stats_enabled := v\<rparr>) val c
      else if key = ''tcp_stats.nflog_group'' \<or> key = ''tcp_nflog_group''
        then set_u32 key (\<lambda>v. v \<noteq> 0 \<and> v \<le> 65535) (\<lambda>v c. c\<lparr>c_tcp_nflog_group := ucast v\<rparr>) val c
      else if key = ''tcp_stats.nflog_size'' \<or> key = ''tcp_nflog_size''
        then set_u32 key nonzero (\<lambda>v c. c\<lparr>c_tcp_nflog_size := v\<rparr>) val c
      else if key = ''tcp_stats.emit_interval_ms'' \<or> key = ''tcp_emit_interval_ms''
        then set_u32 key nonzero (\<lambda>v c. c\<lparr>c_tcp_emit_interval_ms := v\<rparr>) val c
      else if key = ''tcp_stats.emit_top_n'' \<or> key = ''tcp_emit_top_n''
        then set_u32 key nonzero (\<lambda>v c. c\<lparr>c_tcp_emit_top_n := v\<rparr>) val c
      else if key = ''flow_acct.enabled'' \<or> key = ''flow_acct_enabled''
        then set_bool key (\<lambda>v c. c\<lparr>c_flow_acct_enabled := v\<rparr>) val c
      else if key = ''flow_acct.join_update''
        then set_bool key (\<lambda>v c. c\<lparr>c_flow_join_update := v\<rparr>) val c
      else if key = ''flow_acct.emit_destroy''
        then set_bool key (\<lambda>v c. c\<lparr>c_flow_emit_destroy := v\<rparr>) val c
      else if key = ''flow_acct.emit_new''
        then set_bool key (\<lambda>v c. c\<lparr>c_flow_emit_new := v\<rparr>) val c
      else if key = ''flow_acct.poll_interval_ms''
        then set_u32 key nonzero (\<lambda>v c. c\<lparr>c_flow_poll_interval_ms := v\<rparr>) val c
      else if key = ''flow_acct.dump_interval_ms''
        then set_u32 key (\<lambda>_. True) (\<lambda>v c. c\<lparr>c_flow_dump_interval_ms := v\<rparr>) val c
      else if key = ''flow_acct.sample_emit_ms''
        then set_u32 key nonzero (\<lambda>v c. c\<lparr>c_flow_sample_emit_ms := v\<rparr>) val c
      else if key = ''flow_acct.sample_top_n''
        then set_u32 key nonzero (\<lambda>v c. c\<lparr>c_flow_sample_top_n := v\<rparr>) val c
      else if key = ''flow_acct.max_flows''
        then set_u32 key nonzero (\<lambda>v c. c\<lparr>c_flow_max_flows := v\<rparr>) val c
      else if key = ''tcp_stats.prefix_len'' \<or> key = ''tcp_prefix_len''
        then set_u32 key (\<lambda>v. v \<noteq> 0 \<and> v \<le> 32) (\<lambda>v c. c\<lparr>c_tcp_prefix_len := ucast v\<rparr>) val c
      else if key = ''ipc.socket'' \<or> key = ''ipc_socket'' \<or> key = ''ipc.path''
        then set_str key 256 (\<lambda>v c. c\<lparr>c_ipc_socket := v\<rparr>) val c
      else if key = ''proxies.openai_url'' \<or> key = ''openai_proxy_url''
        then set_str key 256 (\<lambda>v c. c\<lparr>c_openai_proxy_url := v\<rparr>) val c
      else if key = ''proxies.postgres_url'' \<or> key = ''postgres_proxy_url''
        then set_str key 256 (\<lambda>v c. c\<lparr>c_postgres_proxy_url := v\<rparr>) val c
      else Inr c)"

text \<open>A CA file turns peer verification on.\<close>

definition set_ca_file :: "string \<Rightarrow> cpe_agent_config \<Rightarrow> cpe_agent_config" where
  "set_ca_file v c =
     (let c = c\<lparr>c_tls_ca_file := v\<rparr>
      in if c_tls_ca_file c \<noteq> [] then c\<lparr>c_egress_tls_insecure := False\<rparr> else c)"

definition apply_scalar :: "cpe_agent_config \<Rightarrow> string \<Rightarrow> string \<Rightarrow> string + cpe_agent_config" where
  "apply_scalar c key val =
     (if key = ''router_id'' then set_str key 64 (\<lambda>v c. c\<lparr>c_router_id := v\<rparr>) val c
      else if key = ''emit.mode'' \<or> key = ''emit_mode''
        then set_str key 16 (\<lambda>v c. c\<lparr>c_emit_mode := v\<rparr>) val c
      else if key = ''emit.path'' \<or> key = ''spool.path'' \<or> key = ''spool_path''
        then set_str key 256 (\<lambda>v c. c\<lparr>c_spool_path := v\<rparr>) val c
      else if key = ''spool.max_lines'' \<or> key = ''spool_max_lines''
        then set_size key (\<lambda>v c. c\<lparr>c_spool_max_lines := v\<rparr>) val c
      else if key = ''demo.target'' \<or> key = ''demo_target''
        then set_str key 64 (\<lambda>v c. c\<lparr>c_demo_target := v\<rparr>) val c
      else if key = ''arping.if'' \<or> key = ''arping_if'' \<or> key = ''arping.iface'' \<or> key = ''iface''
        then set_str key 32 (\<lambda>v c. c\<lparr>c_arping_if := v\<rparr>) val c
      else if key = ''wifi.if'' \<or> key = ''wifi_if'' \<or> key = ''wifi.iface''
        then set_str key 32 (\<lambda>v c. c\<lparr>c_wifi_if := v\<rparr>) val c
      else if key = ''demo.interval_ms'' \<or> key = ''demo_interval_ms'' \<or>
              key = ''sample.interval_ms'' \<or> key = ''sample_interval_ms''
        then set_u32 key nonzero
               (\<lambda>v c. c\<lparr>c_demo_interval_ms := v, c_sample_interval_ms := v\<rparr>) val c
      else if key = ''demo.enabled'' \<or> key = ''demo_mode''
        then set_bool key (\<lambda>v c. c\<lparr>c_demo_mode := v\<rparr>) val c
      else if key = ''demo.timeout_ms'' \<or> key = ''probe.timeout_ms'' \<or> key = ''probe_timeout_ms''
        then set_u32 key nonzero (\<lambda>v c. c\<lparr>c_probe_timeout_ms := v\<rparr>) val c
      else if key = ''egress.url'' \<or> key = ''https_url''
        then set_str key 256 (\<lambda>v c. c\<lparr>c_https_url := v\<rparr>) val c
      else if key = ''egress.username'' \<or> key = ''egress.user'' \<or> key = ''egress_user''
        then set_str key 64 (\<lambda>v c. c\<lparr>c_egress_user := v\<rparr>) val c
      else if key = ''egress.password'' \<or> key = ''egress_password''
        then set_str key 128 (\<lambda>v c. c\<lparr>c_egress_password := v\<rparr>) val c
      else if key = ''egress.ca_file'' \<or> key = ''tls_ca_file''
        then set_str key 256 set_ca_file val c
      else if key = ''egress.cert_file'' \<or> key = ''tls_cert_file''
        then set_str key 256 (\<lambda>v c. c\<lparr>c_tls_cert_file := v\<rparr>) val c
      else if key = ''egress.key_file'' \<or> key = ''tls_key_file''
        then set_str key 256 (\<lambda>v c. c\<lparr>c_tls_key_file := v\<rparr>) val c
      else if key = ''egress.tls_insecure'' \<or> key = ''egress.insecure''
        then set_bool key (\<lambda>v c. c\<lparr>c_egress_tls_insecure := v\<rparr>) val c
      else apply_scalar_acct c key val)"

definition g_paths :: "string list" where
  "g_paths = [''router_id'', ''emit.mode'', ''emit_mode'', ''emit.path'', ''spool.path'', ''spool_path'',
     ''spool.max_lines'', ''spool_max_lines'', ''demo.target'', ''demo_target'', ''arping.if'',
     ''arping_if'', ''arping.iface'', ''iface'', ''wifi.if'', ''wifi_if'', ''wifi.iface'',
     ''demo.interval_ms'', ''demo_interval_ms'', ''sample.interval_ms'', ''sample_interval_ms'',
     ''demo.enabled'', ''demo_mode'', ''demo.timeout_ms'', ''probe.timeout_ms'', ''probe_timeout_ms'',
     ''egress.url'', ''https_url'', ''egress.username'', ''egress.user'', ''egress_user'',
     ''egress.password'', ''egress_password'', ''egress.ca_file'', ''tls_ca_file'',
     ''egress.cert_file'', ''tls_cert_file'', ''egress.key_file'', ''tls_key_file'',
     ''egress.tls_insecure'', ''egress.insecure'', ''tcp_stats.enabled'', ''tcp_stats_enabled'',
     ''tcp_stats.nflog_group'', ''tcp_nflog_group'', ''tcp_stats.nflog_size'', ''tcp_nflog_size'',
     ''tcp_stats.emit_interval_ms'', ''tcp_emit_interval_ms'', ''tcp_stats.emit_top_n'',
     ''tcp_emit_top_n'', ''tcp_stats.prefix_len'', ''tcp_prefix_len'', ''flow_acct.enabled'',
     ''flow_acct_enabled'', ''flow_acct.join_update'', ''flow_acct.emit_destroy'',
     ''flow_acct.emit_new'', ''flow_acct.poll_interval_ms'', ''flow_acct.dump_interval_ms'',
     ''flow_acct.sample_emit_ms'', ''flow_acct.sample_top_n'', ''flow_acct.max_flows'',
     ''ipc.socket'', ''ipc_socket'', ''ipc.path'', ''proxies.openai_url'', ''openai_proxy_url'',
     ''proxies.postgres_url'', ''postgres_proxy_url'']"

section \<open>Loading\<close>

text \<open>\<^verbatim>\<open>lookup\<close>: a missing or empty scalar is NULL.\<close>

definition lookup :: "('ctx \<Rightarrow> string \<Rightarrow> string option) \<Rightarrow> 'ctx \<Rightarrow> string \<Rightarrow> string option" where
  "lookup yaml_lookup ctx path =
     (case yaml_lookup ctx path of None \<Rightarrow> None | Some v \<Rightarrow> if v = [] then None else Some v)"

fun apply_paths :: "(string \<Rightarrow> string option) \<Rightarrow> string list \<Rightarrow> cpe_agent_config \<Rightarrow> string + cpe_agent_config" where
  "apply_paths look [] c = Inr c"
| "apply_paths look (k # ks) c =
     (case look k of None \<Rightarrow> apply_paths look ks c
      | Some val \<Rightarrow> (case apply_scalar c k val of Inl e \<Rightarrow> Inl e | Inr c' \<Rightarrow> apply_paths look ks c'))"

datatype yaml_event = YAML_ERROR string | YAML_OTHER

partial_function (option) yaml_check ::
  "('ctx \<Rightarrow> (yaml_event \<times> 'ctx) option) \<Rightarrow> 'ctx \<Rightarrow> (string + 'ctx) option" where
  "yaml_check next ctx =
     (case next ctx of None \<Rightarrow> Some (Inr ctx)
      | Some (ev, ctx') \<Rightarrow>
        (case ev of YAML_ERROR m \<Rightarrow> Some (Inl (''yaml parse: '' @ str_or m ''error''))
         | YAML_OTHER \<Rightarrow> yaml_check next ctx'))"

definition load_from_ctx ::
  "('ctx \<Rightarrow> (yaml_event \<times> 'ctx) option) \<Rightarrow> ('ctx \<Rightarrow> string \<Rightarrow> string option) \<Rightarrow> 'ctx \<Rightarrow>
   cpe_agent_config \<Rightarrow> (string + cpe_agent_config) option" where
  "load_from_ctx next yaml_lookup ctx c =
     (case yaml_check next ctx of None \<Rightarrow> None
      | Some (Inl e) \<Rightarrow> Some (Inl e)
      | Some (Inr ctx') \<Rightarrow> Some (apply_paths (lookup yaml_lookup ctx') g_paths c))"

text \<open>\<open>create\<close> is the result of \<^verbatim>\<open>yaml_create\<close>, \<open>feed\<close> returns the bytes consumed.\<close>

definition cpe_agent_config_load_yaml_buf ::
  "'ctx option \<Rightarrow> ('ctx \<Rightarrow> string \<Rightarrow> nat \<times> 'ctx) \<Rightarrow> ('ctx \<Rightarrow> (yaml_event \<times> 'ctx) option) \<Rightarrow>
   ('ctx \<Rightarrow> string \<Rightarrow> string option) \<Rightarrow> string option \<Rightarrow> (string + cpe_agent_config) option" where
  "cpe_agent_config_load_yaml_buf create feed next yaml_lookup yamlp =
     (let out = cpe_agent_config_defaults in
      if yamlp = None \<or> yamlp = Some [] then Some (Inr out)
      else case create of
             None \<Rightarrow> Some (Inl ''yaml_create failed'')
           | Some ctx \<Rightarrow>
             (let (n, ctx') = feed ctx (the yamlp) in
              if n = 0 then Some (Inl ''yaml_feed_input consumed 0'')
              else load_from_ctx next yaml_lookup ctx' out))"

text \<open>The file buffer of \<^verbatim>\<open>cpe_agent_config_load_yaml_path\<close>: capacity and contents.\<close>

function grow_cap :: "nat \<Rightarrow> nat \<Rightarrow> nat" where
  "grow_cap ncap need = (if ncap < need \<and> 0 < ncap then grow_cap (ncap * 2) need else ncap)"
  by pat_completeness auto
termination by (relation "measure (\<lambda>(ncap, need). need - ncap)") auto

declare grow_cap.simps [simp del]

text \<open>\<open>rallocs\<close> are the results of the successive \<^verbatim>\<open>realloc\<close> calls; \<open>None\<close> is running out of memory.\<close>

fun read_chunks :: "string list \<Rightarrow> (nat \<Rightarrow> bool) \<Rightarrow> nat \<Rightarrow> string option \<Rightarrow> (nat \<times> string option) option" where
  "read_chunks [] ralloc cap buf = Some (cap, buf)"
| "read_chunks (chunk # rest) ralloc cap buf =
     (let len = (case buf of None \<Rightarrow> 0 | Some b \<Rightarrow> length b); nr = length chunk in
      if nr = 0 then Some (cap, buf)
      else if len + nr + 1 > cap
      then (let ncap = grow_cap (if cap \<noteq> 0 then cap * 2 else 8192) (len + nr + 1) in
            if ralloc ncap
            then read_chunks rest ralloc ncap (Some ((case buf of None \<Rightarrow> [] | Some b \<Rightarrow> b) @ chunk))
            else None)
      else read_chunks rest ralloc cap (Some ((case buf of None \<Rightarrow> [] | Some b \<Rightarrow> b) @ chunk)))"

text \<open>\<open>chunks\<close> is the file as \<^verbatim>\<open>fread\<close> delivers it; \<open>None\<close> when it cannot be opened.\<close>

definition cpe_agent_config_load_yaml_path ::
  "(string \<Rightarrow> string list option) \<Rightarrow> (nat \<Rightarrow> bool) \<Rightarrow> 'ctx option \<Rightarrow> ('ctx \<Rightarrow> string \<Rightarrow> nat \<times> 'ctx) \<Rightarrow>
   ('ctx \<Rightarrow> (yaml_event \<times> 'ctx) option) \<Rightarrow> ('ctx \<Rightarrow> string \<Rightarrow> string option) \<Rightarrow> string option \<Rightarrow>
   (string + cpe_agent_config) option" where
  "cpe_agent_config_load_yaml_path chunks ralloc create feed next yaml_lookup pathp =
     (case pathp of None \<Rightarrow> Some (Inl ''null args'')
      | Some path \<Rightarrow>
        (case chunks path of None \<Rightarrow> Some (Inl (''cannot open '' @ path))
         | Some cs \<Rightarrow>
           (case read_chunks cs ralloc 0 None of
              None \<Rightarrow> Some (Inl ''oom reading config'')
            | Some (_, None) \<Rightarrow> Some (Inr cpe_agent_config_defaults)
            | Some (_, Some buf) \<Rightarrow>
                cpe_agent_config_load_yaml_buf create feed next yaml_lookup (Some buf))))"

lemmas scalar_defs [cdefs] =
  parse_bool_def isspace_def digits_val_def strtoul_def parse_u32_def parse_size_def copy_str_def
  set_str_def set_u32_def set_size_def set_bool_def nonzero_def set_ca_file_def
  apply_scalar_def apply_scalar_acct_def lookup_def load_from_ctx_def
  cpe_agent_config_load_yaml_buf_def cpe_agent_config_load_yaml_path_def

section \<open>Number parsing\<close>

lemma digits_val_append [simp]: "digits_val (ds @ [c]) = digits_val ds * 10 + digit_val c"
  by (simp add: digits_val_def)

lemma digits_val_dec: "digits_val (dec n) = n"
proof (induction n rule: dec.induct)
  case (1 n)
  show ?case
  proof (cases "n < 10")
    case True
    then show ?thesis
      by (subst dec.simps) (simp add: digits_val_def digit_val_digit)
  next
    case False
    with 1 show ?thesis by (subst dec.simps) (simp add: digit_val_digit)
  qed
qed

lemma atoi_int_dec:
  assumes "- (2 ^ 31) \<le> i" "i < 2 ^ 31"
  shows "atoi (int_dec i) = i"
proof -
  have w: "sint (word_of_int i :: 32 word) = i"
    unfolding sint_sbintrunc' by (rule signed_take_bit_int_eq_self) (use assms in simp_all)
  have d: "takeWhile is_digit (dec n) = dec n" for n using dec_digits[of _ n] by (simp add: takeWhile_eq_all_conv)
  have h: "\<not> isspace (hd (dec n)) \<and> hd (dec n) \<noteq> CHR ''-'' \<and> hd (dec n) \<noteq> CHR ''+''" for n
    using dec_digits[of "hd (dec n)" n] by (auto simp: is_digit_def isspace_def)
  have s: "dropWhile isspace (dec n) = dec n" for n using h[of n] by (cases "dec n") auto
  show ?thesis
  proof (cases "i < 0")
    case True
    then show ?thesis using w assms by (simp add: atoi_def int_dec_def isspace_def Let_def d digits_val_dec)
  next
    case False
    then show ?thesis using w h[of "nat i"] assms by (simp add: atoi_def int_dec_def Let_def d s digits_val_dec)
  qed
qed

lemma dec_scan: "takeWhile is_digit (dec n) = dec n" "dropWhile is_digit (dec n) = []"
  by (auto simp: takeWhile_eq_all_conv dropWhile_eq_Nil_conv dest: dec_digits)

lemma digit_not_lead: "is_digit c \<Longrightarrow> \<not> isspace c \<and> c \<noteq> CHR ''-'' \<and> c \<noteq> CHR ''+''"
  by (auto simp: is_digit_def isspace_def)

lemma strtoul_dec: "n < 2 ^ 64 \<Longrightarrow> strtoul (dec n) = Some (n, [])"
proof -
  assume n: "n < 2 ^ 64"
  obtain c cs where d: "dec n = c # cs" by (cases "dec n") auto
  have "\<not> isspace c \<and> c \<noteq> CHR ''-'' \<and> c \<noteq> CHR ''+''"
    using dec_digits[of c n] d digit_not_lead by simp
  then have "dropWhile isspace (dec n) = dec n" "hd (dec n) \<noteq> CHR ''-''" "hd (dec n) \<noteq> CHR ''+''"
    using d by simp_all
  with n show ?thesis by (simp add: strtoul_def dec_scan digits_val_dec)
qed

section \<open>Preservation\<close>

text \<open>What holds after a branch, from what holds after the field update.\<close>

definition res_ok :: "('c \<Rightarrow> bool) \<Rightarrow> string + 'c \<Rightarrow> bool" where
  "res_ok P r \<longleftrightarrow> (case r of Inl _ \<Rightarrow> True | Inr c \<Rightarrow> P c)"

lemma res_ok_Inr [simp]: "res_ok P (Inr c) = P c"
  by (simp add: res_ok_def)

lemma res_okD: "res_ok P r \<Longrightarrow> r = Inr c \<Longrightarrow> P c"
  by simp

lemma res_ok_if: "res_ok P a \<Longrightarrow> res_ok P b \<Longrightarrow> res_ok P (if q then a else b)"
  by simp

lemma res_ok_if_cond: "(q \<Longrightarrow> res_ok P a) \<Longrightarrow> (\<not> q \<Longrightarrow> res_ok P b) \<Longrightarrow> res_ok P (if q then a else b)"
  by simp

lemma res_ok_set_str: "(\<And>v. length v < n \<Longrightarrow> v = val \<Longrightarrow> P (upd v c)) \<Longrightarrow> res_ok P (set_str key n upd val c)"
  by (auto simp: set_str_def copy_str_def res_ok_def)

lemma res_ok_set_u32: "(\<And>v. ok v \<Longrightarrow> P (upd v c)) \<Longrightarrow> res_ok P (set_u32 key ok upd val c)"
  by (auto simp: set_u32_def res_ok_def split: option.split)

lemma res_ok_set_size: "(\<And>v. v \<noteq> 0 \<Longrightarrow> P (upd v c)) \<Longrightarrow> res_ok P (set_size key upd val c)"
  by (auto simp: set_size_def res_ok_def split: option.split)

lemma res_ok_set_bool: "(\<And>v. parse_bool val = Some v \<Longrightarrow> P (upd v c)) \<Longrightarrow> res_ok P (set_bool key upd val c)"
  by (auto simp: set_bool_def res_ok_def split: option.split)

lemmas res_ok_sets = res_ok_set_str res_ok_set_u32 res_ok_set_size res_ok_set_bool

text \<open>The ranges the loader guarantees for the numeric fields.\<close>

definition cfg_ranges :: "cpe_agent_config \<Rightarrow> bool" where
  "cfg_ranges c \<longleftrightarrow>
     c_spool_max_lines c \<noteq> 0 \<and> c_demo_interval_ms c \<noteq> 0 \<and> c_sample_interval_ms c = c_demo_interval_ms c \<and>
     c_probe_timeout_ms c \<noteq> 0 \<and> c_tcp_nflog_group c \<noteq> 0 \<and> c_tcp_nflog_size c \<noteq> 0 \<and>
     c_tcp_emit_interval_ms c \<noteq> 0 \<and> c_tcp_emit_top_n c \<noteq> 0 \<and>
     0 < unat (c_tcp_prefix_len c) \<and> unat (c_tcp_prefix_len c) \<le> 32 \<and>
     c_flow_poll_interval_ms c \<noteq> 0 \<and> c_flow_sample_emit_ms c \<noteq> 0 \<and>
     c_flow_sample_top_n c \<noteq> 0 \<and> c_flow_max_flows c \<noteq> 0"

lemma ucast_small:
  fixes v :: u32
  assumes "v \<le> of_nat n" "n < 2 ^ LENGTH('b)" "n < 4294967296"
  shows "unat (ucast v :: 'b::len word) = unat v"
proof -
  have "unat v \<le> n" using assms(1,3) by (simp add: word_le_nat_alt unsigned_of_nat take_bit_nat_eq_self)
  with assms(2) have "unat v < 2 ^ LENGTH('b)" by linarith
  then show ?thesis by (simp add: unsigned_ucast_eq take_bit_nat_eq_self)
qed

lemma ucast_u16_nonzero: "v \<noteq> 0 \<Longrightarrow> v \<le> 65535 \<Longrightarrow> (ucast v :: u16) \<noteq> 0" for v :: u32
  using ucast_small[of v 65535, where ?'b = 16] by (auto simp: unat_eq_zero[symmetric])

lemma ucast_prefix: "v \<noteq> 0 \<Longrightarrow> v \<le> 32 \<Longrightarrow> 0 < unat (ucast v :: u8) \<and> unat (ucast v :: u8) \<le> 32" for v :: u32
  using ucast_small[of v 32, where ?'b = 8] by (simp add: word_le_nat_alt unat_gt_0)

lemma apply_scalar_acct_wf: "cfg_wf c \<Longrightarrow> res_ok cfg_wf (apply_scalar_acct c k v)"
  unfolding apply_scalar_acct_def
  by (intro res_ok_if res_ok_sets) (simp_all add: cfg_wf_def)

lemma apply_scalar_wf: "cfg_wf c \<Longrightarrow> res_ok cfg_wf (apply_scalar c k v)"
  unfolding apply_scalar_def
  by (intro res_ok_if res_ok_sets apply_scalar_acct_wf) (simp_all add: cfg_wf_def set_ca_file_def Let_def)

lemma apply_scalar_acct_ranges: "cfg_ranges c \<Longrightarrow> res_ok cfg_ranges (apply_scalar_acct c k v)"
  unfolding apply_scalar_acct_def
  by (intro res_ok_if res_ok_sets) (simp_all add: cfg_ranges_def nonzero_def ucast_u16_nonzero ucast_prefix)

lemma apply_scalar_ranges: "cfg_ranges c \<Longrightarrow> res_ok cfg_ranges (apply_scalar c k v)"
  unfolding apply_scalar_def
  by (intro res_ok_if res_ok_sets apply_scalar_acct_ranges)
    (simp_all add: cfg_ranges_def nonzero_def set_ca_file_def Let_def)

text \<open>The TLS verification switch is written by four keys only.\<close>

definition ca_keys :: "string set" where
  "ca_keys = {''egress.ca_file'', ''tls_ca_file''}"

definition insecure_keys :: "string set" where
  "insecure_keys = {''egress.tls_insecure'', ''egress.insecure''}"

lemma apply_scalar_acct_insecure:
  "res_ok (\<lambda>c'. c_egress_tls_insecure c' = c_egress_tls_insecure c) (apply_scalar_acct c k v)"
  unfolding apply_scalar_acct_def by (intro res_ok_if res_ok_sets) simp_all

lemma apply_scalar_insecure_other:
  assumes "k \<notin> ca_keys" "k \<notin> insecure_keys"
  shows "res_ok (\<lambda>c'. c_egress_tls_insecure c' = c_egress_tls_insecure c) (apply_scalar c k v)"
proof -
  have k: "k = ''egress.ca_file'' \<or> k = ''tls_ca_file'' \<longleftrightarrow> False"
    "k = ''egress.tls_insecure'' \<or> k = ''egress.insecure'' \<longleftrightarrow> False"
    using assms by (auto simp: ca_keys_def insecure_keys_def)
  show ?thesis
    unfolding apply_scalar_def k if_False
    by (intro res_ok_if res_ok_sets apply_scalar_acct_insecure) simp_all
qed

lemma apply_scalar_tls_keys:
  "apply_scalar c ''egress.ca_file'' v = set_str ''egress.ca_file'' 256 set_ca_file v c"
  "apply_scalar c ''tls_ca_file'' v = set_str ''tls_ca_file'' 256 set_ca_file v c"
  "apply_scalar c ''egress.tls_insecure'' v =
     set_bool ''egress.tls_insecure'' (\<lambda>v c. c\<lparr>c_egress_tls_insecure := v\<rparr>) v c"
  "apply_scalar c ''egress.insecure'' v =
     set_bool ''egress.insecure'' (\<lambda>v c. c\<lparr>c_egress_tls_insecure := v\<rparr>) v c"
  by (simp_all add: apply_scalar_def)

lemma apply_scalar_ca:
  assumes "k \<in> ca_keys" "v \<noteq> []"
  shows "res_ok (\<lambda>c'. \<not> c_egress_tls_insecure c') (apply_scalar c k v)"
proof -
  have "res_ok (\<lambda>c'. \<not> c_egress_tls_insecure c') (set_str k 256 set_ca_file v c)"
    by (rule res_ok_set_str) (simp add: set_ca_file_def Let_def assms(2))
  moreover have "apply_scalar c k v = set_str k 256 set_ca_file v c"
    using assms(1) unfolding ca_keys_def by (elim insertE emptyE) (simp_all only: apply_scalar_tls_keys)
  ultimately show ?thesis by simp
qed

lemma apply_scalar_insecure_key:
  assumes "k \<in> insecure_keys"
  shows "res_ok (\<lambda>c'. c_egress_tls_insecure c' = the (parse_bool v)) (apply_scalar c k v)"
proof -
  have "res_ok (\<lambda>c'. c_egress_tls_insecure c' = the (parse_bool v))
      (set_bool k (\<lambda>v c. c\<lparr>c_egress_tls_insecure := v\<rparr>) v c)"
    by (rule res_ok_set_bool) simp
  moreover have "apply_scalar c k v = set_bool k (\<lambda>v c. c\<lparr>c_egress_tls_insecure := v\<rparr>) v c"
    using assms unfolding insecure_keys_def by (elim insertE emptyE) (simp_all only: apply_scalar_tls_keys)
  ultimately show ?thesis by simp
qed

lemma apply_scalar_insecure:
  assumes "apply_scalar c k v = Inr c'" "v \<noteq> []"
  shows "c_egress_tls_insecure c' =
    (if k \<in> ca_keys then False else if k \<in> insecure_keys then the (parse_bool v)
     else c_egress_tls_insecure c)"
  using assms res_okD[OF apply_scalar_ca] res_okD[OF apply_scalar_insecure_key]
    res_okD[OF apply_scalar_insecure_other] by simp

lemma apply_paths_inv:
  assumes "\<And>c k v. P c \<Longrightarrow> res_ok P (apply_scalar c k v)"
  shows "P c \<Longrightarrow> res_ok P (apply_paths look ks c)"
proof (induction ks arbitrary: c)
  case (Cons k ks)
  show ?case
  proof (cases "look k")
    case (Some v)
    with Cons assms[of c k v] show ?thesis
      by (cases "apply_scalar c k v") (auto simp: res_ok_def)
  qed (simp add: Cons)
qed simp

definition tls_effect :: "(string \<Rightarrow> string option) \<Rightarrow> string \<Rightarrow> bool \<Rightarrow> bool" where
  "tls_effect look k b =
     (case look k of None \<Rightarrow> b
      | Some v \<Rightarrow> if k \<in> ca_keys then False else if k \<in> insecure_keys then the (parse_bool v) else b)"

lemma apply_paths_insecure:
  assumes "\<And>k. look k \<noteq> Some []"
  shows "apply_paths look ks c = Inr c' \<Longrightarrow>
    c_egress_tls_insecure c' = fold (tls_effect look) ks (c_egress_tls_insecure c)"
proof (induction ks arbitrary: c)
  case (Cons k ks)
  then show ?case
  proof (cases "look k")
    case (Some v)
    with assms[of k] have v: "v \<noteq> []" by auto
    from Cons.prems Some obtain c1 where c1: "apply_scalar c k v = Inr c1" "apply_paths look ks c1 = Inr c'"
      by (auto split: sum.splits)
    from Cons.IH[OF c1(2)] apply_scalar_insecure[OF c1(1) v] Some show ?thesis
      by (simp add: tls_effect_def)
  qed (simp add: tls_effect_def)
qed simp

lemma fold_tls_effect_filter:
  "fold (tls_effect look) ks b = fold (tls_effect look) (List.filter (\<lambda>k. k \<in> ca_keys \<union> insecure_keys) ks) b"
  by (induction ks arbitrary: b) (simp_all add: tls_effect_def split: option.split)

lemma g_paths_tls:
  "List.filter (\<lambda>k. k \<in> ca_keys \<union> insecure_keys) g_paths =
     [''egress.ca_file'', ''tls_ca_file'', ''egress.tls_insecure'', ''egress.insecure'']"
  by (simp add: g_paths_def ca_keys_def insecure_keys_def)

lemma fold_tls_effect_g_paths:
  "fold (tls_effect look) g_paths b =
     (case look ''egress.insecure'' of Some v \<Rightarrow> the (parse_bool v)
      | None \<Rightarrow> (case look ''egress.tls_insecure'' of Some v \<Rightarrow> the (parse_bool v)
        | None \<Rightarrow> if look ''egress.ca_file'' \<noteq> None \<or> look ''tls_ca_file'' \<noteq> None then False else b))"
  unfolding fold_tls_effect_filter[of look g_paths] g_paths_tls
  by (simp add: tls_effect_def ca_keys_def insecure_keys_def split: option.split)

lemma load_buf_result:
  assumes "cpe_agent_config_load_yaml_buf create feed nx look (Some y) = Some (Inr c)" "y \<noteq> []"
  shows "\<exists>ctx. apply_paths (lookup look ctx) g_paths cpe_agent_config_defaults = Inr c"
  using assms
  by (auto simp: cpe_agent_config_load_yaml_buf_def load_from_ctx_def Let_def
      split: option.splits sum.splits prod.splits if_splits)

lemma yaml_check_yields:
  "yields nx ctx evs \<Longrightarrow> (\<forall>e \<in> set evs. e = YAML_OTHER) \<Longrightarrow> \<exists>ctx'. yaml_check nx ctx = Some (Inr ctx')"
proof (induction evs arbitrary: ctx)
  case Nil
  then show ?case by (simp add: yaml_check.simps)
next
  case (Cons e evs)
  then show ?case by (auto simp: yaml_check.simps[of nx ctx] split: option.splits)
qed

section \<open>The file buffer\<close>

lemma grow_cap_ge: "0 < ncap \<Longrightarrow> need \<le> grow_cap ncap need"
proof (induction ncap need rule: grow_cap.induct)
  case (1 ncap need)
  then show ?case by (subst grow_cap.simps) auto
qed

abbreviation buf_len :: "string option \<Rightarrow> nat" where
  "buf_len b \<equiv> (case b of None \<Rightarrow> 0 | Some x \<Rightarrow> length x)"

abbreviation buf_text :: "string option \<Rightarrow> string" where
  "buf_text b \<equiv> (case b of None \<Rightarrow> [] | Some x \<Rightarrow> x)"

lemma read_chunks_spec:
  assumes "read_chunks cs ra cap buf = Some (cap', buf')"
    and "buf \<noteq> None \<Longrightarrow> buf_len buf < cap"
  shows "buf_text buf' = buf_text buf @ concat (takeWhile (\<lambda>c. c \<noteq> []) cs) \<and>
    (buf' \<noteq> None \<longrightarrow> buf_len buf' < cap')"
  using assms
proof (induction cs ra cap buf rule: read_chunks.induct)
  case (1 ra cap buf)
  then show ?case by auto
next
  case (2 chunk rest ra cap buf)
  let ?t = "buf_text buf @ chunk"
  let ?need = "buf_len buf + length chunk + 1"
  show ?case
  proof (cases "chunk = []")
    case True
    with 2(3,4) show ?thesis by (auto split: option.splits)
  next
    case ne: False
    have l: "length ?t = buf_len buf + length chunk" by (simp split: option.split)
    show ?thesis
    proof (cases "cap < ?need")
      case True
      let ?n = "grow_cap (if cap \<noteq> 0 then cap * 2 else 8192) ?need"
      have g: "?need \<le> ?n" by (rule grow_cap_ge) simp
      from 2(3) ne True have r: "read_chunks rest ra ?n (Some ?t) = Some (cap', buf')" and a: "ra ?n"
        by (auto simp: Let_def split: if_splits)
      have "buf_text buf' = ?t @ concat (takeWhile (\<lambda>c. c \<noteq> []) rest) \<and> (buf' \<noteq> None \<longrightarrow> buf_len buf' < cap')"
        using 2(1)[OF refl refl _ _ refl a] r ne True g l by auto
      with ne show ?thesis by simp
    next
      case False
      from 2(3) ne False have r: "read_chunks rest ra cap (Some ?t) = Some (cap', buf')"
        by (auto simp: Let_def split: if_splits)
      have "buf_text buf' = ?t @ concat (takeWhile (\<lambda>c. c \<noteq> []) rest) \<and> (buf' \<noteq> None \<longrightarrow> buf_len buf' < cap')"
        using 2(2)[OF refl refl] r ne False l by auto
      with ne show ?thesis by simp
    qed
  qed
qed

section \<open>Properties\<close>

lemma load_buf_inv:
  assumes "cpe_agent_config_load_yaml_buf create feed nx look y = Some (Inr c)"
    and "P cpe_agent_config_defaults" "\<And>c k v. P c \<Longrightarrow> res_ok P (apply_scalar c k v)"
  shows "P c"
proof (cases "y = None \<or> y = Some []")
  case True
  with assms(1,2) show ?thesis by (auto simp: cpe_agent_config_load_yaml_buf_def)
next
  case False
  then obtain t where t: "y = Some t" "t \<noteq> []" by (cases y) auto
  from load_buf_result[OF assms(1)[unfolded t(1)] t(2)] obtain ctx where
    "apply_paths (lookup look ctx) g_paths cpe_agent_config_defaults = Inr c" ..
  with apply_paths_inv[of P, OF assms(3,2)] show ?thesis by (rule res_okD)
qed

lemma defaults_ranges: "cfg_ranges cpe_agent_config_defaults"
  by (simp add: cfg_ranges_def cpe_agent_config_defaults_def)

text \<open>C14: whatever the YAML document says, a configuration that loads fits every string buffer
  of the struct and has every period, limit and mask in range: no zero interval or group, and an
  IPv4 aggregation mask between 1 and 32. The 16-bit and 8-bit narrowings lose no bits.\<close>

theorem load_yaml_buf_sound:
  assumes "cpe_agent_config_load_yaml_buf create feed nx look y = Some (Inr c)"
  shows "cfg_wf c \<and> cfg_ranges c"
  using load_buf_inv[OF assms, of cfg_wf] load_buf_inv[OF assms, of cfg_ranges]
    apply_scalar_wf apply_scalar_ranges defaults_wf defaults_ranges by blast

definition sample_yaml :: "unit \<Rightarrow> string \<Rightarrow> string option" where
  "sample_yaml u k = (if k = ''router_id'' then Some ''r1''
     else if k = ''egress.ca_file'' then Some ''/ca.pem''
     else if k = ''tcp_prefix_len'' then Some ''16'' else None)"

lemma sample_yaml_paths:
  "apply_paths (lookup sample_yaml ()) g_paths cpe_agent_config_defaults =
     Inr (cpe_agent_config_defaults\<lparr> c_router_id := ''r1'', c_tls_ca_file := ''/ca.pem'',
            c_egress_tls_insecure := False, c_tcp_prefix_len := 16 \<rparr>)"
  by (simp add: g_paths_def lookup_def sample_yaml_def apply_scalar_def apply_scalar_acct_def
      set_str_def set_u32_def copy_str_def set_ca_file_def parse_u32_def strtoul_def isspace_def
      digits_val_def is_digit_def digit_val_def)

theorem load_yaml_buf_sound_witness:
  "cpe_agent_config_load_yaml_buf (Some ()) (\<lambda>_ _. (1, ())) (\<lambda>_. None) sample_yaml (Some ''x'') =
     Some (Inr (cpe_agent_config_defaults\<lparr> c_router_id := ''r1'', c_tls_ca_file := ''/ca.pem'',
            c_egress_tls_insecure := False, c_tcp_prefix_len := 16 \<rparr>)) \<and>
   cfg_ranges (cpe_agent_config_defaults\<lparr> c_router_id := ''r1'', c_tls_ca_file := ''/ca.pem'',
            c_egress_tls_insecure := False, c_tcp_prefix_len := 16 \<rparr>)"
proof -
  have l: "cpe_agent_config_load_yaml_buf (Some ()) (\<lambda>_ _. (1, ())) (\<lambda>_. None) sample_yaml (Some ''x'') =
     Some (Inr (cpe_agent_config_defaults\<lparr> c_router_id := ''r1'', c_tls_ca_file := ''/ca.pem'',
            c_egress_tls_insecure := False, c_tcp_prefix_len := 16 \<rparr>))"
    by (simp add: cpe_agent_config_load_yaml_buf_def load_from_ctx_def yaml_check.simps sample_yaml_paths)
  from load_yaml_buf_sound[OF l] l show ?thesis by blast
qed

text \<open>C15: TLS peer verification after loading. An explicit \<^verbatim>\<open>egress.insecure\<close>, else
  \<^verbatim>\<open>egress.tls_insecure\<close>, decides; without either, a CA file under one of its two keys turns
  verification on and only a document with no CA file keeps the insecure default. The order of
  the keys in the document does not matter.\<close>

theorem load_yaml_tls_verification:
  assumes "apply_paths (lookup look ctx) g_paths cpe_agent_config_defaults = Inr c"
  shows "c_egress_tls_insecure c =
    (case lookup look ctx ''egress.insecure'' of Some v \<Rightarrow> the (parse_bool v)
     | None \<Rightarrow> (case lookup look ctx ''egress.tls_insecure'' of Some v \<Rightarrow> the (parse_bool v)
       | None \<Rightarrow> lookup look ctx ''egress.ca_file'' = None \<and> lookup look ctx ''tls_ca_file'' = None))"
proof -
  have "lookup look ctx k \<noteq> Some []" for k by (auto simp: lookup_def split: option.splits)
  from apply_paths_insecure[OF this assms] show ?thesis
    by (simp add: fold_tls_effect_g_paths cpe_agent_config_defaults_def split: option.split)
qed

theorem load_yaml_tls_verification_witness:
  "\<not> c_egress_tls_insecure (cpe_agent_config_defaults\<lparr> c_router_id := ''r1'', c_tls_ca_file := ''/ca.pem'',
            c_egress_tls_insecure := False, c_tcp_prefix_len := 16 \<rparr>)"
  using load_yaml_tls_verification[OF sample_yaml_paths] by (simp add: lookup_def sample_yaml_def)

text \<open>reading the configuration file keeps the buffer one byte larger than its contents at
  every step, so the terminating NUL is written in bounds, and the text handed to the YAML
  parser is the concatenation of the chunks read, up to the first empty read.\<close>

theorem read_chunks_bounds:
  assumes "read_chunks cs ra 0 None = Some (cap, Some buf)"
  shows "length buf < cap \<and> buf = concat (takeWhile (\<lambda>c. c \<noteq> []) cs)"
  using read_chunks_spec[OF assms] by auto

theorem read_chunks_bounds_witness:
  "length ''router_id: a'' < (8192 :: nat) \<and>
   ''router_id: a'' = concat (takeWhile (\<lambda>c. c \<noteq> []) [''router_id'', '': a'', [], ''zz''])"
proof -
  have "read_chunks [''router_id'', '': a'', [], ''zz''] (\<lambda>_. True) 0 None = Some (8192, Some ''router_id: a'')"
    by (simp add: Let_def grow_cap.simps)
  from read_chunks_bounds[OF this] show ?thesis .
qed

text \<open>a 32-bit value printed in decimal is read back unchanged by \<^verbatim>\<open>parse_u32\<close>.\<close>

theorem parse_u32_print: "parse_u32 (u32_dec w) = Some w"
proof -
  have "unat w < 4294967296" by (rule unat_u32_less)
  then have "unat w < 2 ^ 64" "unat w \<le> 0xffffffff" by (simp_all del: unat_u32_less)
  then show ?thesis using strtoul_dec[of "unat w"] by (simp add: parse_u32_def u32_dec_def)
qed

end
