(* ===== verification/Spool_Util.thy ===== *)
theory Spool_Util
  imports Prelude
begin

text \<open>
  \<^verbatim>\<open>agent/spool_util.c\<close>: \<^verbatim>\<open>mkdir -p\<close> for the spool directory. \<^verbatim>\<open>mkdir\<close> is the
  operating system's: a parameter \<open>mk\<close> that maps a file-system state and a path to success
  (\<^verbatim>\<open>0\<close>, or the error \<^verbatim>\<open>EEXIST\<close>, which the callers accept) and the new state.
\<close>

type_synonym 'fs mkdir = "'fs \<Rightarrow> string \<Rightarrow> bool \<times> 'fs"

text \<open>The loop over \<open>i = 1 .. len - 1\<close>: cut the path at every slash and create that prefix.\<close>

fun ensure_prefixes :: "'fs mkdir \<Rightarrow> string \<Rightarrow> nat list \<Rightarrow> 'fs \<Rightarrow> bool \<times> 'fs" where
  "ensure_prefixes mk p [] fs = (True, fs)"
| "ensure_prefixes mk p (i # is) fs =
     (if p ! i \<noteq> CHR ''/'' then ensure_prefixes mk p is fs
      else if take i p \<noteq> [] then
        (let (ok, fs') = mk fs (take i p) in
         if ok then ensure_prefixes mk p is fs' else (False, fs'))
      else ensure_prefixes mk p is fs)"

definition cpe_spool_ensure_dir :: "'fs mkdir \<Rightarrow> string option \<Rightarrow> 'fs \<Rightarrow> int \<times> 'fs" where
  "cpe_spool_ensure_dir mk dirp fs =
     (case dirp of None \<Rightarrow> (-1, fs)
      | Some dir \<Rightarrow>
        if dir = [] then (-1, fs)
        else if 512 \<le> length dir then (-1, fs)
        else let (ok, fs') = ensure_prefixes mk dir [1..<length dir] fs in
             if \<not> ok then (-1, fs')
             else let (ok, fs'') = mk fs' dir in ((if ok then 0 else -1), fs''))"

text \<open>\<^verbatim>\<open>strrchr(tmp, '/')\<close>\<close>

fun last_slash :: "nat \<Rightarrow> string \<Rightarrow> nat option \<Rightarrow> nat option" where
  "last_slash i [] acc = acc"
| "last_slash i (c # cs) acc = last_slash (Suc i) cs (if c = CHR ''/'' then Some i else acc)"

definition cpe_spool_ensure_parent_dir :: "'fs mkdir \<Rightarrow> string option \<Rightarrow> 'fs \<Rightarrow> int \<times> 'fs" where
  "cpe_spool_ensure_parent_dir mk pathp fs =
     (case pathp of None \<Rightarrow> (-1, fs)
      | Some path \<Rightarrow>
        if path = [] then (-1, fs)
        else if 512 \<le> length path then (-1, fs)
        else case last_slash 0 path None of
               None \<Rightarrow> (0, fs)
             | Some 0 \<Rightarrow> (0, fs)
             | Some i \<Rightarrow> cpe_spool_ensure_dir mk (Some (take i path)) fs)"

text \<open>The directories \<^verbatim>\<open>mkdir\<close> is asked for, in order.\<close>

definition dir_chain :: "string \<Rightarrow> string list" where
  "dir_chain p = map (\<lambda>i. take i p) (List.filter (\<lambda>i. p ! i = CHR ''/'') [1..<length p]) @ [p]"

fun mkdir_all :: "'fs mkdir \<Rightarrow> string list \<Rightarrow> 'fs \<Rightarrow> bool \<times> 'fs" where
  "mkdir_all mk [] fs = (True, fs)"
| "mkdir_all mk (d # ds) fs = (let (ok, fs') = mk fs d in if ok then mkdir_all mk ds fs' else (False, fs'))"

lemma ensure_prefixes_chain:
  assumes "\<forall>i \<in> set is. 0 < i" "p \<noteq> []"
  shows "(let (ok, fs') = ensure_prefixes mk p is fs in
            if ok then mkdir_all mk ds fs' else (False, fs')) =
    mkdir_all mk (map (\<lambda>i. take i p) (List.filter (\<lambda>i. p ! i = CHR ''/'') is) @ ds) fs"
  using assms(1)
proof (induction "is" arbitrary: fs)
  case (Cons i "is")
  with assms(2) have "take i p \<noteq> []" by (simp add: take_eq_Nil)
  with Cons show ?case by (auto simp: Let_def split: prod.splits)
qed simp

lemma ensure_dir_chain:
  assumes "dir \<noteq> []" "length dir < 512"
  shows "cpe_spool_ensure_dir mk (Some dir) fs =
    (let (ok, fs') = mkdir_all mk (dir_chain dir) fs in ((if ok then 0 else -1), fs'))"
  using ensure_prefixes_chain[of "[1..<length dir]" dir mk fs "[dir]"] assms
  by (auto simp: cpe_spool_ensure_dir_def dir_chain_def Let_def split: prod.splits if_splits)

text \<open>
  A concrete file system for evaluation: the set of existing directories, where \<^verbatim>\<open>mkdir\<close>
  of a path succeeds when the path exists or its parent does.
\<close>

definition parent :: "string \<Rightarrow> string" where
  "parent p = (case last_slash 0 p None of None \<Rightarrow> [] | Some i \<Rightarrow> take i p)"

definition posix_mkdir :: "string list mkdir" where
  "posix_mkdir fs p = (if List.member fs p then (True, fs)
     else if parent p = [] \<or> List.member fs (parent p) then (True, p # fs) else (False, fs))"

section \<open>Properties\<close>

text \<open>\<^verbatim>\<open>cpe_spool_ensure_dir\<close> calls \<^verbatim>\<open>mkdir\<close> on every slash-terminated prefix of the
  path, parents before children, then on the path itself, stopping at the first failure; it
  returns 0 exactly when all of them succeeded or already existed. This holds for every path
  that fits its 512-byte buffer.\<close>

theorem cpe_spool_ensure_dir_spec:
  assumes "dir \<noteq> []" "length dir < 512"
  shows "cpe_spool_ensure_dir mk (Some dir) fs =
    (let (ok, fs') = mkdir_all mk (dir_chain dir) fs in ((if ok then 0 else -1), fs'))"
  using assms by (rule ensure_dir_chain)

theorem cpe_spool_ensure_dir_spec_witness:
  "cpe_spool_ensure_dir posix_mkdir (Some ''/var/spool/nf'') [''/var''] =
     (0, [''/var/spool/nf'', ''/var/spool'', ''/var''])"
  using cpe_spool_ensure_dir_spec[of "''/var/spool/nf''" posix_mkdir "[''/var'']"]
  by (simp add: dir_chain_def posix_mkdir_def parent_def upt_rec)

end
