(* ===== verification/Agent_Core.thy ===== *)
theory Agent_Core
  imports Agent_Flow Config_Yaml Spool_Util
begin

text \<open>
  \<^verbatim>\<open>agent/agent_core.c\<close>, part two: creation, configuration with its effects on the spool, the
  TCP statistics and the flow accounting, conntrack observations, the demo probe, emission of the
  spool to HTTP, a file or stdout, and reload. \<open>alloc_ok\<close> decides allocations, \<open>nflog_open\<close>
  and the \<open>nfct_env\<close> the opening of sockets; the ping library, HTTP and files are parameters.
\<close>

section \<open>Configuration\<close>

definition config_shadow :: "cpe_agent_config \<Rightarrow> cpe_agent_config" where
  "config_shadow cfg =
     (let s1 = (if c_spool_max_lines cfg = 0 then cfg\<lparr>c_spool_max_lines := 256\<rparr> else cfg);
          s2 = (if c_sample_interval_ms s1 = 0
                then s1\<lparr>c_sample_interval_ms := (if c_demo_interval_ms s1 \<noteq> 0 then c_demo_interval_ms s1 else 5000)\<rparr> else s1);
          s3 = (if c_demo_interval_ms s2 = 0 then s2\<lparr>c_demo_interval_ms := c_sample_interval_ms s2\<rparr> else s2)
      in if c_probe_timeout_ms s3 = 0 then s3\<lparr>c_probe_timeout_ms := 1000\<rparr> else s3)"

definition apply_tcp_config ::
  "(u16 \<Rightarrow> u32 \<Rightarrow> string + int) \<Rightarrow> bool \<Rightarrow> u16 \<Rightarrow> ('p,'n,'w,'t) cpe_agent \<Rightarrow> ('p,'n,'w,'t) cpe_agent" where
  "apply_tcp_config nflog_open tcp_was old_group a =
     (let cfg = ag_cfg a in
      if c_tcp_stats_enabled cfg then
        (if \<not> tcp_was \<or> old_group \<noteq> c_tcp_nflog_group cfg \<or> tc_fd (ag_tcp a) < 0
         then snd (cpe_agent_tcp_open nflog_open (cpe_agent_tcp_close a))
         else
           (let st = ag_tcp a; plen = (if c_tcp_prefix_len cfg \<noteq> 0 then c_tcp_prefix_len cfg else 24) in
            a\<lparr>ag_tcp := st\<lparr>tc_enabled := True, tc_prefix_len := plen,
                tc_emit_interval_ms := (if c_tcp_emit_interval_ms cfg \<noteq> 0 then c_tcp_emit_interval_ms cfg else 10000),
                tc_emit_top_n := (if c_tcp_emit_top_n cfg \<noteq> 0 then c_tcp_emit_top_n cfg else 20),
                tc_snap := (tc_snap st)\<lparr>sn_prefix_len := plen,
                  sn_nflog_group := (if c_tcp_nflog_group cfg \<noteq> 0 then ucast (c_tcp_nflog_group cfg) else 5)\<rparr>\<rparr>\<rparr>))
      else if tcp_was then
        (let b = cpe_agent_tcp_close a in b\<lparr>ag_tcp := (ag_tcp b)\<lparr>tc_enabled := False\<rparr>\<rparr>)
      else a)"

definition apply_flow_config ::
  "'c nfct_env \<Rightarrow> bool \<Rightarrow> ('p,'n,'w,'t) cpe_agent \<Rightarrow> ('p,'n,'w,'t) cpe_agent" where
  "apply_flow_config env flow_was a =
     (let cfg = ag_cfg a; st = ag_flow a;
          maxf = (if c_flow_max_flows cfg \<noteq> 0 then c_flow_max_flows cfg else 1024);
          a1 = a\<lparr>ag_flow := st\<lparr>
            fs_poll_interval_ms := (if c_flow_poll_interval_ms cfg \<noteq> 0 then c_flow_poll_interval_ms cfg else 200),
            fs_dump_interval_ms := (if c_flow_dump_interval_ms cfg \<noteq> 0 then c_flow_dump_interval_ms cfg else 200),
            fs_sample_emit_ms := (if c_flow_sample_emit_ms cfg \<noteq> 0 then c_flow_sample_emit_ms cfg else 2000),
            fs_sample_top_n := (if c_flow_sample_top_n cfg \<noteq> 0 then c_flow_sample_top_n cfg else 32),
            fs_max_flows := (if maxf > 1024 then 1024 else maxf),
            fs_join_update := c_flow_join_update cfg, fs_emit_destroy := c_flow_emit_destroy cfg,
            fs_emit_new := c_flow_emit_new cfg\<rparr>\<rparr> in
      if c_flow_acct_enabled cfg then
        (if \<not> flow_was \<or> fs_fd (ag_flow a1) < 0 then snd (cpe_agent_flow_open env (cpe_agent_flow_close a1))
         else a1\<lparr>ag_flow := (ag_flow a1)\<lparr>fs_enabled := True\<rparr>\<rparr>)
      else if flow_was then
        (let b = cpe_agent_flow_close a1 in b\<lparr>ag_flow := (ag_flow b)\<lparr>fs_enabled := False\<rparr>\<rparr>)
      else a1)"

definition cpe_agent_apply_config ::
  "(nat \<Rightarrow> bool) \<Rightarrow> (u16 \<Rightarrow> u32 \<Rightarrow> string + int) \<Rightarrow> 'c nfct_env \<Rightarrow> cpe_agent_config option \<Rightarrow>
   ('p,'n,'w,'t) cpe_agent \<Rightarrow> int \<times> ('p,'n,'w,'t) cpe_agent" where
  "cpe_agent_apply_config alloc_ok nflog_open env cfgp a =
     (case cfgp of None \<Rightarrow> (-1, a)
      | Some cfg \<Rightarrow>
        (let shadow = config_shadow cfg in
         case cpe_agent_config_validate (Some shadow) of
           Some err \<Rightarrow> (-1, eq_push CPE_AGENT_EVENT_CONFIG_REJECTED (Some (cstr 128 err)) 0 0 a)
         | None \<Rightarrow>
             (let (ok, a1) = (if unat (c_spool_max_lines shadow) \<noteq> ag_spool_cap a
                              then ensure_spool alloc_ok (unat (c_spool_max_lines shadow)) a else (True, a)) in
              if \<not> ok then (-1, eq_push CPE_AGENT_EVENT_CONFIG_REJECTED (Some ''spool alloc'') 0 0 a1)
              else
                (let old = ag_cfg a1;
                     a2 = a1\<lparr>ag_cfg := shadow\<lparr>c_generation := c_generation old + 1\<rparr>\<rparr>;
                     a3 = apply_tcp_config nflog_open (c_tcp_stats_enabled old) (c_tcp_nflog_group old) a2;
                     a4 = apply_flow_config env (c_flow_acct_enabled old) a3
                 in (0, eq_push CPE_AGENT_EVENT_CONFIG_APPLIED (Some ''ok'') 0 0 a4)))))"

section \<open>Life cycle\<close>

text \<open>\<open>ping\<close> and \<open>nf\<close> are the results of \<^verbatim>\<open>ping_create\<close> and \<^verbatim>\<open>nfct_create\<close>.\<close>

definition cpe_agent_create ::
  "bool \<Rightarrow> 'ping option \<Rightarrow> 'nfct option \<Rightarrow> (nat \<Rightarrow> bool) \<Rightarrow> ('ping, 'nfct, 'w, 't) cpe_agent option" where
  "cpe_agent_create calloc_ok ping nf alloc_ok =
     (if \<not> calloc_ok then None
      else case ping of None \<Rightarrow> None
      | Some p \<Rightarrow>
        (case nf of None \<Rightarrow> None
         | Some n \<Rightarrow>
             (let (ok, a) = ensure_spool alloc_ok (unat (c_spool_max_lines cpe_agent_config_defaults)) (agent0 p n)
              in if ok then Some a else None)))"

text \<open>What is left before the memory of the agent is released.\<close>

definition cpe_agent_destroy :: "('p,'n,'w,'t) cpe_agent \<Rightarrow> ('p,'n,'w,'t) cpe_agent" where
  "cpe_agent_destroy a = free_spool (cpe_agent_flow_close (cpe_agent_tcp_close a))"

text \<open>\<open>load path\<close> is the result of \<^verbatim>\<open>cpe_agent_config_load_yaml_path\<close>; \<open>Inl\<close> is -1 with the text in \<open>err\<close>.\<close>

definition reload_source ::
  "(string \<Rightarrow> string + cpe_agent_config) \<Rightarrow> string option \<Rightarrow> string option \<Rightarrow> cpe_agent_config \<Rightarrow> string + cpe_agent_config" where
  "reload_source load config_path rid_override cur =
     (let loaded = (case config_path of
                      Some p \<Rightarrow> if p \<noteq> [] then load p else Inr (cur\<lparr>c_generation := 0\<rparr>)
                    | None \<Rightarrow> Inr (cur\<lparr>c_generation := 0\<rparr>)) in
      case loaded of Inl err \<Rightarrow> Inl err
      | Inr cfg \<Rightarrow>
        (case rid_override of None \<Rightarrow> Inr cfg
         | Some r \<Rightarrow> if r = [] then Inr cfg
                     else if length r \<ge> 64 then Inl ''router_id too long'' else Inr (cfg\<lparr>c_router_id := r\<rparr>)))"

definition cpe_agent_reload_config ::
  "(nat \<Rightarrow> bool) \<Rightarrow> (u16 \<Rightarrow> u32 \<Rightarrow> string + int) \<Rightarrow> 'c nfct_env \<Rightarrow> (string \<Rightarrow> string + cpe_agent_config) \<Rightarrow>
   string option \<Rightarrow> string option \<Rightarrow> ('p,'n,'w,'t) cpe_agent \<Rightarrow> (string + unit) \<times> ('p,'n,'w,'t) cpe_agent" where
  "cpe_agent_reload_config alloc_ok nflog_open env load config_path rid_override a =
     (case reload_source load config_path rid_override (ag_cfg a) of Inl err \<Rightarrow> (Inl err, a)
      | Inr cfg \<Rightarrow>
          (let (r, a') = cpe_agent_apply_config alloc_ok nflog_open env (Some cfg) a
           in if r \<noteq> 0 then (Inl ''apply_config rejected'', a') else (Inr (), a')))"

section \<open>Observations and probes\<close>

partial_function (option) feed_nfct_loop ::
  "('n \<Rightarrow> (nfct_event \<times> 'n) option) \<Rightarrow> (nfct_event \<Rightarrow> tuple4 option) \<Rightarrow> (nfct_event \<Rightarrow> tuple6 option) \<Rightarrow> u64 \<Rightarrow> nat \<Rightarrow>
   ('p,'n,'w,'t) cpe_agent \<Rightarrow> (nat \<times> ('p,'n,'w,'t) cpe_agent) option" where
  "feed_nfct_loop nx t4 t6 ts cnt a =
     (case nx (ag_nfct a) of None \<Rightarrow> Some (cnt, a)
      | Some (nev, ctx) \<Rightarrow>
          (let a1 = a\<lparr>ag_nfct := ctx\<rparr> in
           case nf_obs_from_nfct t4 t6 (Some nev) (Some (c_router_id (ag_cfg a1))) ts of
             None \<Rightarrow> feed_nfct_loop nx t4 t6 ts cnt a1
           | Some obs \<Rightarrow>
               (case nf_obs_format (Some obs) 768 of
                  None \<Rightarrow> feed_nfct_loop nx t4 t6 ts cnt a1
                | Some line \<Rightarrow>
                    (let (ok, a2) = cpe_agent_spool_push_line line a1 in
                     if ok then feed_nfct_loop nx t4 t6 ts (cnt + 1) (a2\<lparr>ag_nfct_obs := ag_nfct_obs a2 + 1\<rparr>)
                     else feed_nfct_loop nx t4 t6 ts cnt a2))))"

definition cpe_agent_feed_nfct ::
  "('n \<Rightarrow> bytes \<Rightarrow> 'n) \<Rightarrow> ('n \<Rightarrow> (nfct_event \<times> 'n) option) \<Rightarrow> (nfct_event \<Rightarrow> tuple4 option) \<Rightarrow>
   (nfct_event \<Rightarrow> tuple6 option) \<Rightarrow> bytes \<Rightarrow> u64 \<Rightarrow> ('p,'n,'w,'t) cpe_agent \<Rightarrow> (int \<times> ('p,'n,'w,'t) cpe_agent) option" where
  "cpe_agent_feed_nfct feed nx t4 t6 data ts a =
     (if data = [] then Some (-1, a)
      else map_option (\<lambda>(n, b). (int n, b)) (feed_nfct_loop nx t4 t6 ts 0 (a\<lparr>ag_nfct := feed (ag_nfct a) data\<rparr>)))"

record ping_stats =
  pg_avg_latency_ms :: u32
  pg_loss_pct :: single
  pg_replies :: u32
  pg_timeouts :: u32

text \<open>
  The ping library: \<open>feed\<close> is \<^verbatim>\<open>ping_feed_input_with_ts\<close> (true for 0), \<open>settle\<close> is
  \<^verbatim>\<open>ping_process\<close> followed by draining its events, \<open>stats\<close> is \<^verbatim>\<open>ping_get_stats\<close>. The
  static sequence number is passed in and out.
\<close>

definition synth_icmp_echo_reply :: "nat \<Rightarrow> u16 \<Rightarrow> bytes" where
  "synth_icmp_echo_reply n seq = replicate 6 0 @ [ucast (drop_bit 8 seq AND 0xff), ucast (seq AND 0xff)] @ replicate (n - 8) 0"

definition demo_sample :: "cpe_agent_config \<Rightarrow> clock \<Rightarrow> ping_stats \<Rightarrow> cpe_perf_sample" where
  \<open>demo_sample cfg clk st = \<lparr> ps_probe = ''ping'', ps_target = cstr 64 (c_demo_target cfg),
     ps_rtt_ms = dbl (of_nat (unat (if pg_avg_latency_ms st \<noteq> 0 then pg_avg_latency_ms st else 5))),
     ps_loss = sgl (pg_loss_pct st / 100), ps_ts_iso = core_iso_now clk,
     ps_meta = cstr 128 (''{"replies":'' @ u32_dec (pg_replies st) @ '',"timeouts":'' @
       u32_dec (pg_timeouts st) @ '',"demo":true}'') \<rparr>\<close>

text \<open>Format a sample and spool it; true when both succeed.\<close>

definition spool_sample :: "cpe_perf_sample \<Rightarrow> ('p,'n,'w,'t) cpe_agent \<Rightarrow> bool \<times> ('p,'n,'w,'t) cpe_agent" where
  "spool_sample sample a =
     (case cpe_perf_format_ndjson (Some (c_router_id (ag_cfg a))) (Some sample) 768 of
        None \<Rightarrow> (False, a) | Some line \<Rightarrow> cpe_agent_spool_push_line line a)"

definition cpe_agent_demo_ping_tick ::
  "('p \<Rightarrow> bytes \<Rightarrow> u64 \<Rightarrow> bool \<times> 'p) \<Rightarrow> ('p \<Rightarrow> u64 \<Rightarrow> 'p) \<Rightarrow> ('p \<Rightarrow> ping_stats option) \<Rightarrow> clock \<Rightarrow> u16 \<Rightarrow>
   ('p,'n,'w,'t) cpe_agent \<Rightarrow> int \<times> u16 \<times> ('p,'n,'w,'t) cpe_agent" where
  "cpe_agent_demo_ping_tick feed settle stats clk seq0 a =
     (let now = mono_ms clk; seq = seq0 + 1;
          (ok, pg) = feed (ag_ping a) (synth_icmp_echo_reply 16 seq) (if now \<noteq> 0 then now else 1) in
      if \<not> ok then (-1, seq, a\<lparr>ag_ping := pg\<rparr>)
      else
        (let a1 = a\<lparr>ag_ping := settle pg (if now \<noteq> 0 then now + 1 else 1)\<rparr> in
         case stats (ag_ping a1) of None \<Rightarrow> (-1, seq, a1)
         | Some st \<Rightarrow>
             (let sample = demo_sample (ag_cfg a1) clk st;
                  (pushed, a3) = spool_sample sample (a1\<lparr>ag_last := Some sample\<rparr>) in
              if \<not> pushed then (-1, seq, a3)
              else (0, seq, eq_push CPE_AGENT_EVENT_SAMPLE_READY (Some ''demo ping'') 0 0 a3))))"

definition cpe_agent_feed_icmp_echo_reply ::
  "('p \<Rightarrow> bytes \<Rightarrow> u64 \<Rightarrow> bool \<times> 'p) \<Rightarrow> ('p \<Rightarrow> u64 \<Rightarrow> 'p) \<Rightarrow> bytes \<Rightarrow> u64 \<Rightarrow>
   ('p,'n,'w,'t) cpe_agent \<Rightarrow> int \<times> ('p,'n,'w,'t) cpe_agent" where
  "cpe_agent_feed_icmp_echo_reply feed settle icmp ts a =
     (if length icmp < 8 then (-1, a)
      else
        (let (ok, pg) = feed (ag_ping a) icmp (if ts \<noteq> 0 then ts else 1) in
         if \<not> ok then (-1, a\<lparr>ag_ping := pg\<rparr>)
         else (0, a\<lparr>ag_ping := settle pg (if ts \<noteq> 0 then ts + 1 else 1)\<rparr>)))"

section \<open>Emission\<close>

record http_opts =
  ho_username :: "string option"
  ho_password :: string
  ho_ca_file :: "string option"
  ho_cert_file :: "string option"
  ho_key_file :: "string option"
  ho_tls_insecure :: bool

definition non_empty :: "string \<Rightarrow> string option" where
  "non_empty s = (if s = [] then None else Some s)"

definition http_opts_of :: "cpe_agent_config \<Rightarrow> http_opts" where
  "http_opts_of c = \<lparr> ho_username = non_empty (c_egress_user c), ho_password = c_egress_password c,
     ho_ca_file = non_empty (c_tls_ca_file c), ho_cert_file = non_empty (c_tls_cert_file c),
     ho_key_file = non_empty (c_tls_key_file c), ho_tls_insecure = c_egress_tls_insecure c \<rparr>"

text \<open>
  The batch: lines from the head while \<^verbatim>\<open>body_len + 768 < 6144\<close> and the line fits; the body and
  the number of lines.
\<close>

fun http_batch :: "string list \<Rightarrow> string \<Rightarrow> nat \<Rightarrow> string \<times> nat" where
  "http_batch [] body n = (body, n)"
| "http_batch (l # ls) body n =
     (if length body + 768 < 6144 then
        (if length body + length l + 2 \<ge> 6144 then (body, n)
         else http_batch ls (body @ l @ [CHR 0x0A]) (n + 1))
      else (body, n))"

text \<open>
  \<open>post url body opts\<close> tells whether \<^verbatim>\<open>cpe_agent_http_post\<close> succeeds; \<open>open_file\<close> is the
  result of \<^verbatim>\<open>fopen(path, "a")\<close> after the parent directory was created, \<open>fclosed\<close> that of
  \<^verbatim>\<open>fclose\<close>; \<open>out\<close> is stdout. The stream that was written is returned.
\<close>

definition cpe_agent_emit_flush ::
  "(string \<Rightarrow> string \<Rightarrow> http_opts \<Rightarrow> bool) \<Rightarrow> (string \<Rightarrow> 'f option) \<Rightarrow> (string \<Rightarrow> 'f \<Rightarrow> 'f option) \<Rightarrow> ('f \<Rightarrow> bool) \<Rightarrow>
   ('f \<Rightarrow> bool) \<Rightarrow> 'f \<Rightarrow> ('p,'n,'w,'t) cpe_agent \<Rightarrow> (int \<times> 'f) \<times> ('p,'n,'w,'t) cpe_agent" where
  "cpe_agent_emit_flush post open_file wr flushed fclosed out a =
     (let cfg = ag_cfg a in
      if c_emit_mode cfg = ''https'' \<or> c_emit_mode cfg = ''http'' then
        (if ag_spool_cnt a = 0 then ((0, out), a)
         else
           (let (body, n) = http_batch (spool_view a) [] 0 in
            if n = 0 then ((-1, out), a)
            else if \<not> post (c_https_url cfg) body (http_opts_of cfg) then ((-1, out), a)
            else ((int n, out), a\<lparr>ag_spool_head := (ag_spool_head a + n) mod ag_spool_cap a,
                                  ag_spool_cnt := ag_spool_cnt a - n\<rparr>)))
      else if c_emit_mode cfg = ''spool'' then
        (if c_spool_path cfg = [] then ((-1, out), a)
         else
           (case open_file (c_spool_path cfg) of None \<Rightarrow> ((-1, out), a)
            | Some f \<Rightarrow>
                (let ((n, f'), a') = cpe_agent_spool_flush wr flushed f a in
                 if \<not> fclosed f' \<and> n \<ge> 0 then ((-1, f'), a') else ((n, f'), a'))))
      else cpe_agent_spool_flush wr flushed out a)"

lemmas agent_core_defs [cdefs] =
  config_shadow_def apply_tcp_config_def apply_flow_config_def cpe_agent_apply_config_def cpe_agent_create_def
  cpe_agent_destroy_def reload_source_def cpe_agent_reload_config_def feed_nfct_loop.simps cpe_agent_feed_nfct_def
  synth_icmp_echo_reply_def demo_sample_def spool_sample_def cpe_agent_demo_ping_tick_def cpe_agent_feed_icmp_echo_reply_def non_empty_def
  http_opts_of_def cpe_agent_emit_flush_def

section \<open>Invariant of the whole agent\<close>

definition agent_inv :: "('p,'n,'w,'t) cpe_agent \<Rightarrow> bool" where
  "agent_inv a \<longleftrightarrow> core_inv a \<and> tcp_inv (ag_tcp a) \<and> flow_inv (ag_flow a)"

lemma agent_inv_frame [simp]:
  "agent_inv (a\<lparr>ag_cfg := c\<rparr>) = agent_inv a" "agent_inv (a\<lparr>ag_nfct := nf\<rparr>) = agent_inv a"
  "agent_inv (a\<lparr>ag_nfct_obs := k\<rparr>) = agent_inv a" "agent_inv (a\<lparr>ag_ping := pg\<rparr>) = agent_inv a"
  "agent_inv (a\<lparr>ag_last := s\<rparr>) = agent_inv a" "agent_inv (a\<lparr>ag_last_wifi := w\<rparr>) = agent_inv a"
  "agent_inv (a\<lparr>ag_last_trace := t\<rparr>) = agent_inv a"
  by (simp_all add: agent_inv_def)

lemma agent_inv_eq_push: "agent_inv a \<Longrightarrow> agent_inv (eq_push ty r n s a)"
  by (simp add: agent_inv_def core_inv_eq_push)

lemma agent_inv_spool_push: "agent_inv a \<Longrightarrow> agent_inv (snd (cpe_agent_spool_push_line line a))"
  by (simp add: agent_inv_def core_inv_spool_push)

lemma free_spool_core: "core_inv a \<Longrightarrow> core_inv (free_spool a)"
  by (simp add: core_inv_def free_spool_def spool_inv_def slots_inv_def)

lemma free_spool_frame [simp]:
  "ag_cfg (free_spool a) = ag_cfg a" "ag_tcp (free_spool a) = ag_tcp a" "ag_flow (free_spool a) = ag_flow a"
  "ag_spool (free_spool a) = None" "ag_spool_cap (free_spool a) = 0" "spool_view (free_spool a) = []"
  "ag_spool_cnt (free_spool a) = 0" "ag_slots (free_spool a) = ag_slots a" "ag_spool_drops (free_spool a) = ag_spool_drops a"
  by (simp_all add: free_spool_def spool_view_def)

lemma ensure_spool_frame [simp]:
  "ag_cfg (snd (ensure_spool ok cap a)) = ag_cfg a" "ag_tcp (snd (ensure_spool ok cap a)) = ag_tcp a"
  "ag_flow (snd (ensure_spool ok cap a)) = ag_flow a" "ag_spool_drops (snd (ensure_spool ok cap a)) = ag_spool_drops a"
  by (simp_all add: ensure_spool_def Let_def)

lemma fresh_spool_ready: "0 < cap \<Longrightarrow> spool_ready ((free_spool a)\<lparr>ag_spool := Some (replicate cap []), ag_spool_cap := cap, ag_slots := sl\<rparr>)"
  by (simp add: spool_ready_def spool_view_def free_spool_def ring_ok_def)

lemma ensure_spool_core:
  assumes "core_inv a"
  shows "core_inv (snd (ensure_spool ok cap a))"
proof -
  have "slots_inv (a'\<lparr>ag_slots := (ag_slots a)[0 := (ag_slots a ! 0)\<lparr>bs_used := u, bs_ptr := q, bs_len := l, bs_waiting := False\<rparr>]\<rparr>)"
    for a' :: "('p,'n,'w,'t) cpe_agent" and u q l
    using assms by (auto simp: core_inv_def slots_inv_def dest!: set_update_subset_insert[THEN subsetD])
  then show ?thesis
    using assms fresh_spool_ready[of "if cap = 0 then 256 else cap" _ a] free_spool_core[OF assms]
    by (auto simp: ensure_spool_def Let_def core_inv_def spool_inv_def eq_push_inv)
qed

lemma ensure_spool_result:
  assumes "spool_inv a" "0 < cap"
  shows "fst (ensure_spool ok cap a) \<Longrightarrow> spool_ready (snd (ensure_spool ok cap a)) \<and> ag_spool_cap (snd (ensure_spool ok cap a)) = cap \<and>
      spool_view (snd (ensure_spool ok cap a)) = (if ag_spool_cap a = cap then spool_view a else [])"
    "\<not> fst (ensure_spool ok cap a) \<Longrightarrow> ag_spool_cap a \<noteq> cap \<and> spool_view (snd (ensure_spool ok cap a)) = [] \<and>
      ag_spool (snd (ensure_spool ok cap a)) = None"
  using assms fresh_spool_ready[of cap _ a]
  by (auto simp: ensure_spool_def Let_def spool_inv_def spool_view_def spool_ready_def split: if_splits)

section \<open>Configuration\<close>

text \<open>Opening and closing touch nothing but the state of their own component.\<close>

definition only_tcp :: "('p,'n,'w,'t) cpe_agent \<Rightarrow> ('p,'n,'w,'t) cpe_agent \<Rightarrow> bool" where
  "only_tcp a b \<longleftrightarrow> b = a\<lparr>ag_tcp := ag_tcp b\<rparr>"

definition only_flow :: "('p,'n,'w,'t) cpe_agent \<Rightarrow> ('p,'n,'w,'t) cpe_agent \<Rightarrow> bool" where
  "only_flow a b \<longleftrightarrow> b = a\<lparr>ag_flow := ag_flow b\<rparr>"

lemma only_refl [simp]: "only_tcp a a" "only_flow a a"
  by (simp_all add: only_tcp_def only_flow_def)

lemma only_upd [simp]: "only_tcp a (b\<lparr>ag_tcp := tc\<rparr>) = only_tcp a b" "only_flow a (b\<lparr>ag_flow := fs\<rparr>) = only_flow a b"
  by (cases a; cases b; simp add: only_tcp_def only_flow_def)+

lemma only_trans: "only_tcp a b \<Longrightarrow> only_tcp b c \<Longrightarrow> only_tcp a c" "only_flow a b \<Longrightarrow> only_flow b c \<Longrightarrow> only_flow a c"
  by (cases a; cases b; cases c; simp add: only_tcp_def only_flow_def)+

lemma open_close_only [simp]:
  "only_tcp a (snd (cpe_agent_tcp_open op a))" "only_tcp a (cpe_agent_tcp_close a)"
  "only_flow a (snd (cpe_agent_flow_open env a))" "only_flow a (cpe_agent_flow_close a)"
  by (simp_all add: cpe_agent_tcp_open_def cpe_agent_tcp_close_def cpe_agent_flow_open_def cpe_agent_flow_close_def
      Let_def split: sum.split)

lemma apply_tcp_config_only: "only_tcp a (apply_tcp_config op was grp a)"
  by (simp add: apply_tcp_config_def Let_def) (meson only_trans(1) open_close_only)

lemma apply_flow_config_only: "only_flow a (apply_flow_config env was a)"
proof -
  have "only_flow a (snd (cpe_agent_flow_open env (cpe_agent_flow_close (a\<lparr>ag_flow := fs\<rparr>))))" for fs
    by (rule only_trans(2)[OF _ open_close_only(3)], rule only_trans(2)[OF _ open_close_only(4)]) simp
  then show ?thesis by (simp add: apply_flow_config_def Let_def cpe_agent_flow_close_def)
qed

lemma only_tcpD:
  assumes "only_tcp a b"
  shows "ag_cfg b = ag_cfg a" "ag_flow b = ag_flow a" "core_inv b = core_inv a" "spool_view b = spool_view a"
    "spool_ready b = spool_ready a" "ag_spool_cap b = ag_spool_cap a" "eq_view b = eq_view a" "ag_spool_drops b = ag_spool_drops a"
  by (subst assms[unfolded only_tcp_def], simp add: eq_view_def)+

lemma only_flowD:
  assumes "only_flow a b"
  shows "ag_cfg b = ag_cfg a" "ag_tcp b = ag_tcp a" "core_inv b = core_inv a" "spool_view b = spool_view a"
    "spool_ready b = spool_ready a" "ag_spool_cap b = ag_spool_cap a" "eq_view b = eq_view a" "ag_spool_drops b = ag_spool_drops a"
  by (subst assms[unfolded only_flow_def], simp add: eq_view_def)+

lemma apply_tcp_config_inv:
  assumes "tcp_inv (ag_tcp a)"
  shows "tcp_inv (ag_tcp (apply_tcp_config op was grp a))"
proof -
  have "tcp_inv (ag_tcp (cpe_agent_tcp_close a))" using assms by simp
  note o = tcp_open_inv[OF this, of op]
  have e: "tcp_inv ((ag_tcp (cpe_agent_tcp_close a))\<lparr>tc_enabled := False\<rparr>)"
    using assms by (simp add: tcp_inv_def cpe_agent_tcp_close_def Let_def)
  have t: "tcp_inv ((ag_tcp a)\<lparr>tc_enabled := True, tc_prefix_len := l, tc_emit_interval_ms := i, tc_emit_top_n := n,
      tc_snap := (tc_snap (ag_tcp a))\<lparr>sn_prefix_len := l, sn_nflog_group := g\<rparr>\<rparr>)" for l i n g
    using assms by (simp add: tcp_inv_def)
  show ?thesis unfolding apply_tcp_config_def Let_def
    using o e t assms by (simp split del: if_split) simp
qed

lemma flow_close_inv [simp]: "flow_inv (ag_flow (cpe_agent_flow_close a)) = flow_inv (ag_flow a)"
  by (simp add: cpe_agent_flow_close_def flow_inv_def)

lemma apply_flow_config_inv:
  assumes "flow_inv (ag_flow a)"
  shows "flow_inv (ag_flow (apply_flow_config env was a))"
proof -
  have o: "flow_inv (ag_flow b) \<Longrightarrow> flow_inv (ag_flow (snd (cpe_agent_flow_open env b)))" for b :: "('a,'b,'c,'d) cpe_agent"
    using flow_open_ok(2)[of env b "fst (cpe_agent_flow_open env b)" "snd (cpe_agent_flow_open env b)"] by simp
  have c: "flow_inv ((ag_flow (cpe_agent_flow_close b))\<lparr>fs_enabled := e\<rparr>) = flow_inv (ag_flow b)" for b :: "('a,'b,'c,'d) cpe_agent" and e
    by (simp add: cpe_agent_flow_close_def flow_inv_def)
  define st where "st = (ag_flow a)\<lparr>
            fs_poll_interval_ms := (if c_flow_poll_interval_ms (ag_cfg a) \<noteq> 0 then c_flow_poll_interval_ms (ag_cfg a) else 200),
            fs_dump_interval_ms := (if c_flow_dump_interval_ms (ag_cfg a) \<noteq> 0 then c_flow_dump_interval_ms (ag_cfg a) else 200),
            fs_sample_emit_ms := (if c_flow_sample_emit_ms (ag_cfg a) \<noteq> 0 then c_flow_sample_emit_ms (ag_cfg a) else 2000),
            fs_sample_top_n := (if c_flow_sample_top_n (ag_cfg a) \<noteq> 0 then c_flow_sample_top_n (ag_cfg a) else 32),
            fs_max_flows := (if (if c_flow_max_flows (ag_cfg a) \<noteq> 0 then c_flow_max_flows (ag_cfg a) else 1024) > 1024 then 1024
              else (if c_flow_max_flows (ag_cfg a) \<noteq> 0 then c_flow_max_flows (ag_cfg a) else 1024)),
            fs_join_update := c_flow_join_update (ag_cfg a), fs_emit_destroy := c_flow_emit_destroy (ag_cfg a),
            fs_emit_new := c_flow_emit_new (ag_cfg a)\<rparr>"
  have "flow_inv st" using assms by (simp add: st_def flow_inv_def)
  then show ?thesis unfolding apply_flow_config_def Let_def st_def[symmetric]
    using o[of "cpe_agent_flow_close (a\<lparr>ag_flow := st\<rparr>)"] c[where b = "a\<lparr>ag_flow := st\<rparr>"]
    by (simp add: flow_inv_def)
qed

text \<open>The three ways \<^verbatim>\<open>cpe_agent_apply_config\<close> ends: applied, refused by validation, or refused
  for want of memory, when the old spool is already gone.\<close>

definition config_outcome ::
  "(nat \<Rightarrow> bool) \<Rightarrow> cpe_agent_config \<Rightarrow> ('p,'n,'w,'t) cpe_agent \<Rightarrow> int \<Rightarrow> ('p,'n,'w,'t) cpe_agent \<Rightarrow> bool" where
  "config_outcome alloc_ok cfg a r b \<longleftrightarrow>
     r = 0 \<and> cpe_agent_config_validate (Some (config_shadow cfg)) = None \<and>
       ag_cfg b = (config_shadow cfg)\<lparr>c_generation := c_generation (ag_cfg a) + 1\<rparr> \<and>
       spool_ready b \<and> ag_spool_cap b = unat (c_spool_max_lines (config_shadow cfg)) \<and>
       spool_view b = (if ag_spool_cap b = ag_spool_cap a then spool_view a else []) \<or>
     r = -1 \<and> cpe_agent_config_validate (Some (config_shadow cfg)) \<noteq> None \<and>
       (\<exists>why. b = eq_push CPE_AGENT_EVENT_CONFIG_REJECTED why 0 0 a) \<or>
     r = -1 \<and> \<not> alloc_ok (unat (c_spool_max_lines (config_shadow cfg)) * 768) \<and>
       ag_cfg b = ag_cfg a \<and> ag_tcp b = ag_tcp a \<and> ag_flow b = ag_flow a \<and> spool_view b = [] \<and> ag_spool b = None"

lemma config_applied:
  assumes "agent_inv a" "cpe_agent_apply_config alloc_ok op env (Some cfg) a = (r, b)"
  shows "agent_inv b \<and> config_outcome alloc_ok cfg a r b"
proof (cases "cpe_agent_config_validate (Some (config_shadow cfg))")
  case (Some err)
  then show ?thesis using assms agent_inv_eq_push by (auto simp: cpe_agent_apply_config_def config_outcome_def Let_def)
next
  case None
  let ?sh = "config_shadow cfg" and ?cap = "unat (c_spool_max_lines (config_shadow cfg))"
  have cap: "0 < ?cap" using None by (auto simp: cpe_agent_config_validate_def unat_gt_0 split: if_splits)
  have inv: "core_inv a" "tcp_inv (ag_tcp a)" "flow_inv (ag_flow a)" "spool_inv a"
    using assms(1) by (simp_all add: agent_inv_def core_inv_def)
  define e where "e = (if ?cap \<noteq> ag_spool_cap a then ensure_spool alloc_ok ?cap a else (True, a))"
  have fr: "ag_cfg (snd e) = ag_cfg a" "ag_tcp (snd e) = ag_tcp a" "ag_flow (snd e) = ag_flow a" "core_inv (snd e)"
    using inv(1) by (simp_all add: e_def ensure_spool_core)
  have ready: "fst e \<Longrightarrow> spool_ready (snd e) \<and> ag_spool_cap (snd e) = ?cap \<and>
      spool_view (snd e) = (if ag_spool_cap (snd e) = ag_spool_cap a then spool_view a else [])"
    using ensure_spool_result(1)[OF inv(4) cap, of alloc_ok] inv(4) cap by (auto simp: e_def spool_inv_def)
  show ?thesis
  proof (cases "fst e")
    case False
    then have "\<not> alloc_ok (?cap * 768)" "spool_view (snd e) = []" "ag_spool (snd e) = None"
      using ensure_spool_result(2)[OF inv(4) cap, of alloc_ok] cap by (auto simp: e_def ensure_spool_def Let_def split: if_splits)
    moreover have "r = -1" "b = eq_push CPE_AGENT_EVENT_CONFIG_REJECTED (Some ''spool alloc'') 0 0 (snd e)"
      using assms(2) None False by (simp_all add: cpe_agent_apply_config_def Let_def e_def[symmetric] split_beta)
    ultimately show ?thesis using fr inv by (simp add: agent_inv_def config_outcome_def core_inv_eq_push)
  next
    case True
    let ?a2 = "(snd e)\<lparr>ag_cfg := ?sh\<lparr>c_generation := c_generation (ag_cfg a) + 1\<rparr>\<rparr>"
    let ?a3 = "apply_tcp_config op (c_tcp_stats_enabled (ag_cfg a)) (c_tcp_nflog_group (ag_cfg a)) ?a2"
    let ?a4 = "apply_flow_config env (c_flow_acct_enabled (ag_cfg a)) ?a3"
    have b: "r = 0" "b = eq_push CPE_AGENT_EVENT_CONFIG_APPLIED (Some ''ok'') 0 0 ?a4"
      using assms(2) None True fr by (simp_all add: cpe_agent_apply_config_def Let_def e_def[symmetric] split_beta)
    note d3 = only_tcpD[OF apply_tcp_config_only[of ?a2 op "c_tcp_stats_enabled (ag_cfg a)" "c_tcp_nflog_group (ag_cfg a)"]]
    note d4 = only_flowD[OF apply_flow_config_only[of ?a3 env "c_flow_acct_enabled (ag_cfg a)"]]
    have "agent_inv ?a4"
      using d3 d4 fr inv apply_tcp_config_inv[of ?a2] apply_flow_config_inv[of ?a3] by (simp add: agent_inv_def)
    then show ?thesis
      using b d3 d4 ready[OF True] None agent_inv_eq_push[of ?a4] by (simp add: config_outcome_def)
  qed
qed

section \<open>Emission\<close>

lemma flush_loop_frame: "\<exists>h c. snd (spool_flush_loop wr f a k) = a\<lparr>ag_spool_head := h, ag_spool_cnt := c\<rparr>"
proof (induction wr f a k rule: spool_flush_loop.induct)
  case (1 wr f a k)
  show ?case
  proof (cases "ag_spool_cnt a > 0 \<and> wr (the (ag_spool a) ! ag_spool_head a @ [CHR 0x0A]) f \<noteq> None")
    case True
    then obtain f' where f': "wr (the (ag_spool a) ! ag_spool_head a @ [CHR 0x0A]) f = Some f'" by blast
    show ?thesis using "1.IH"[OF _ f'] True f' by (subst spool_flush_loop.simps) auto
  next
    case False
    then have "snd (spool_flush_loop wr f a k) = a" by (subst spool_flush_loop.simps) (auto split: option.splits)
    then show ?thesis by (metis cpe_agent.surjective cpe_agent.update_convs(11,13))
  qed
qed

lemma flush_frame: "\<exists>h c. snd (cpe_agent_spool_flush wr fls f a) = a\<lparr>ag_spool_head := h, ag_spool_cnt := c\<rparr>"
proof (cases "ag_spool a")
  case None
  then have "snd (cpe_agent_spool_flush wr fls f a) = a" by (simp add: cpe_agent_spool_flush_def)
  then show ?thesis by (metis cpe_agent.surjective cpe_agent.update_convs(11,13))
next
  case (Some sp)
  then show ?thesis using flush_loop_frame[of wr f a 0]
    by (auto simp: cpe_agent_spool_flush_def Let_def split_beta split: option.split)
qed

lemma flush_inv:
  assumes "agent_inv a"
  shows "agent_inv (snd (cpe_agent_spool_flush wr fls f a))"
proof -
  have "spool_inv (snd (cpe_agent_spool_flush wr fls f a))"
  proof (cases "spool_ready a")
    case True
    then show ?thesis using flush_spec[OF True, of wr fls f] by (auto simp: spool_inv_def)
  next
    case False
    then show ?thesis using assms by (auto simp: agent_inv_def core_inv_def spool_inv_def cpe_agent_spool_flush_def)
  qed
  moreover obtain h c where "snd (cpe_agent_spool_flush wr fls f a) = a\<lparr>ag_spool_head := h, ag_spool_cnt := c\<rparr>"
    using flush_frame[of wr fls f a] by blast
  ultimately show ?thesis using assms by (simp add: agent_inv_def core_inv_def slots_inv_def)
qed

lemma http_batch_spec:
  "\<exists>k \<le> length ls. http_batch ls body n = (body @ concat (map (\<lambda>l. l @ [CHR 0x0A]) (take k ls)), n + k)"
proof (induction ls arbitrary: body n)
  case (Cons l ls)
  show ?case
  proof (cases "length body + 768 < 6144 \<and> length body + length l + 2 < 6144")
    case True
    then obtain k where "k \<le> length ls"
      "http_batch ls (body @ l @ [CHR 0x0A]) (n + 1) = (body @ l @ [CHR 0x0A] @ concat (map (\<lambda>l. l @ [CHR 0x0A]) (take k ls)), n + 1 + k)"
      using Cons.IH[of "body @ l @ [CHR 0x0A]" "n + 1"] by auto
    then show ?thesis using True by (intro exI[of _ "Suc k"]) auto
  next
    case False
    then have "http_batch (l # ls) body n = (body, n)" by auto
    then show ?thesis by (intro exI[of _ 0]) simp
  qed
qed simp

lemma http_batch_length: "length body < 6144 \<Longrightarrow> length (fst (http_batch ls body n)) < 6144"
  by (induction ls body n rule: http_batch.induct) auto

lemma http_batch_min:
  "\<forall>l \<in> set ls. length l < 768 \<Longrightarrow> length body \<le> 768 * j \<Longrightarrow> min (7 - j) (length ls) + n \<le> snd (http_batch ls body n)"
proof (induction ls body n arbitrary: j rule: http_batch.induct)
  case (2 l ls body n)
  show ?case
  proof (cases "j < 7")
    case True
    then have "768 * j \<le> 4608" by simp
    with 2 have c: "length body + 768 < 6144" "\<not> length body + length l + 2 \<ge> 6144" by auto
    have "min (7 - Suc j) (length ls) + (n + 1) \<le> snd (http_batch ls (body @ l @ [CHR 0x0A]) (n + 1))"
      using 2 c by (intro "2.IH") auto
    then show ?thesis using c True by simp
  next
    case False
    then show ?thesis using http_batch_spec[of "l # ls" body n] by auto
  qed
qed simp

lemma spool_drop:
  assumes "spool_ready a" "n \<le> length (spool_view a)"
    and b: "b = a\<lparr>ag_spool_head := (ag_spool_head a + n) mod ag_spool_cap a, ag_spool_cnt := ag_spool_cnt a - n\<rparr>"
  shows "spool_view b = drop n (spool_view a)" "spool_ready b"
proof -
  obtain sp where sp: "ag_spool a = Some sp"
    and ok: "ring_ok sp (ag_spool_cap a) (ag_spool_head a) (ag_spool_tail a) (ag_spool_cnt a)"
    using assms(1) by (auto simp: spool_ready_def split: option.splits)
  have n: "n \<le> ag_spool_cnt a" using assms(2) sp by (simp add: spool_view_def)
  show v: "spool_view b = drop n (spool_view a)" using ring_view_drop[OF n] sp b by (simp add: spool_view_def)
  show "spool_ready b" using assms(1) ring_ok_drop[OF ok n] sp v b in_set_dropD[of _ n "spool_view a"]
    by (auto simp: spool_ready_def)
qed

text \<open>What a flush to HTTP sends and removes.\<close>

lemma emit_http_spec:
  assumes "spool_ready a" "spool_view a \<noteq> []" "c_emit_mode (ag_cfg a) = ''http'' \<or> c_emit_mode (ag_cfg a) = ''https''"
  shows "\<exists>n body. min 7 (length (spool_view a)) \<le> n \<and> n \<le> length (spool_view a) \<and>
      body = concat (map (\<lambda>l. l @ [CHR 0x0A]) (take n (spool_view a))) \<and> length body < 6144 \<and>
      (if post (c_https_url (ag_cfg a)) body (http_opts_of (ag_cfg a))
       then \<exists>b. cpe_agent_emit_flush post open_file wr fls cl out a = ((int n, out), b) \<and>
              spool_view b = drop n (spool_view a) \<and> spool_ready b \<and> ag_spool_drops b = ag_spool_drops a
       else cpe_agent_emit_flush post open_file wr fls cl out a = ((-1, out), a))"
proof -
  obtain body n where bn: "http_batch (spool_view a) [] 0 = (body, n)" by fastforce
  have s: "n \<le> length (spool_view a)" "body = concat (map (\<lambda>l. l @ [CHR 0x0A]) (take n (spool_view a)))"
    using http_batch_spec[of "spool_view a" "[]" 0] bn by auto
  have m: "min 7 (length (spool_view a)) \<le> n"
    using http_batch_min[of "spool_view a" "[]" 0 0] assms(1) bn by (simp add: spool_ready_def)
  then have "n \<noteq> 0" using assms(2) by (cases "spool_view a") auto
  moreover have "ag_spool_cnt a \<noteq> 0" using assms(1,2) by (auto simp: spool_ready_def spool_view_def split: option.splits)
  moreover have "length body < 6144" using http_batch_length[of "[]" "spool_view a" 0] bn by simp
  ultimately show ?thesis using s m bn assms(3) spool_drop[OF assms(1) s(1) refl]
    by (intro exI[of _ n] exI[of _ body]) (auto simp: cpe_agent_emit_flush_def Let_def)
qed

lemma emit_flush_cases:
  obtains "snd (cpe_agent_emit_flush post open_file wr fls cl out a) = a"
  | f where "snd (cpe_agent_emit_flush post open_file wr fls cl out a) = snd (cpe_agent_spool_flush wr fls f a)"
  | n where "n \<le> length (spool_view a)" "ag_spool_cnt a \<noteq> 0"
      "snd (cpe_agent_emit_flush post open_file wr fls cl out a) =
       a\<lparr>ag_spool_head := (ag_spool_head a + n) mod ag_spool_cap a, ag_spool_cnt := ag_spool_cnt a - n\<rparr>"
proof -
  let ?m = "c_emit_mode (ag_cfg a)"
  obtain body n where bn: "http_batch (spool_view a) [] 0 = (body, n)" by fastforce
  then have n: "n \<le> length (spool_view a)" using http_batch_spec[of "spool_view a" "[]" 0] by auto
  consider "?m = ''http'' \<or> ?m = ''https''" | "?m \<noteq> ''http''" "?m \<noteq> ''https''" "?m = ''spool''"
    | "?m \<noteq> ''http''" "?m \<noteq> ''https''" "?m \<noteq> ''spool''" by blast
  then show thesis
  proof cases
    case 1
    then have "cpe_agent_emit_flush post open_file wr fls cl out a =
      (if ag_spool_cnt a = 0 then ((0, out), a) else if n = 0 then ((-1, out), a)
       else if \<not> post (c_https_url (ag_cfg a)) body (http_opts_of (ag_cfg a)) then ((-1, out), a)
       else ((int n, out), a\<lparr>ag_spool_head := (ag_spool_head a + n) mod ag_spool_cap a, ag_spool_cnt := ag_spool_cnt a - n\<rparr>))"
      using bn unfolding cpe_agent_emit_flush_def Let_def by auto
    then show ?thesis using that(1) that(3)[OF n] by (metis snd_conv)
  next
    case 2
    show ?thesis
    proof (cases "c_spool_path (ag_cfg a) = [] \<or> open_file (c_spool_path (ag_cfg a)) = None")
      case True
      then show ?thesis using 2 that(1) by (auto simp: cpe_agent_emit_flush_def Let_def)
    next
      case False
      then obtain f where "open_file (c_spool_path (ag_cfg a)) = Some f" by blast
      then show ?thesis using False 2 by (intro that(2)[of f]) (simp add: cpe_agent_emit_flush_def Let_def split_beta)
    qed
  next
    case 3
    then show ?thesis using that(2)[of out] by (simp add: cpe_agent_emit_flush_def Let_def)
  qed
qed

lemma emit_flush_inv:
  assumes "agent_inv a"
  shows "agent_inv (snd (cpe_agent_emit_flush post open_file wr fls cl out a))"
proof (rule emit_flush_cases[of post open_file wr fls cl out a])
  fix n
  assume n: "n \<le> length (spool_view a)" "ag_spool_cnt a \<noteq> 0" and
    e: "snd (cpe_agent_emit_flush post open_file wr fls cl out a) =
       a\<lparr>ag_spool_head := (ag_spool_head a + n) mod ag_spool_cap a, ag_spool_cnt := ag_spool_cnt a - n\<rparr>"
  then have r: "spool_ready a" using assms by (auto simp: agent_inv_def core_inv_def spool_inv_def)
  show ?thesis unfolding e
    using assms spool_drop(2)[OF r n(1) refl] by (simp add: agent_inv_def core_inv_def slots_inv_def spool_inv_def)
qed (use assms flush_inv[OF assms] in simp_all)

lemma emit_flush_frame:
  "ag_cfg (snd (cpe_agent_emit_flush post open_file wr fls cl out a)) = ag_cfg a"
  "ag_tcp (snd (cpe_agent_emit_flush post open_file wr fls cl out a)) = ag_tcp a"
  "ag_flow (snd (cpe_agent_emit_flush post open_file wr fls cl out a)) = ag_flow a"
proof -
  have "ag_cfg (snd (cpe_agent_spool_flush wr fls f a)) = ag_cfg a \<and> ag_tcp (snd (cpe_agent_spool_flush wr fls f a)) = ag_tcp a \<and>
      ag_flow (snd (cpe_agent_spool_flush wr fls f a)) = ag_flow a" for f
    using flush_frame[of wr fls f a] by auto
  note fr = this
  show "ag_cfg (snd (cpe_agent_emit_flush post open_file wr fls cl out a)) = ag_cfg a"
    "ag_tcp (snd (cpe_agent_emit_flush post open_file wr fls cl out a)) = ag_tcp a"
    "ag_flow (snd (cpe_agent_emit_flush post open_file wr fls cl out a)) = ag_flow a"
    by (rule emit_flush_cases[of post open_file wr fls cl out a]; simp add: fr)+
qed

section \<open>Conntrack observations\<close>

text \<open>The record of one conntrack event, if it has one.\<close>

definition nat_line ::
  "(nfct_event \<Rightarrow> tuple4 option) \<Rightarrow> (nfct_event \<Rightarrow> tuple6 option) \<Rightarrow> string \<Rightarrow> u64 \<Rightarrow> nfct_event \<Rightarrow> string option" where
  "nat_line t4 t6 rid ts ev =
     (case nf_obs_from_nfct t4 t6 (Some ev) (Some rid) ts of None \<Rightarrow> None | Some obs \<Rightarrow> nf_obs_format (Some obs) 768)"

lemma feed_nfct_step:
  "feed_nfct_loop nx t4 t6 ts k a =
     (case nx (ag_nfct a) of None \<Rightarrow> Some (k, a)
      | Some (ev, ctx) \<Rightarrow>
          (case nat_line t4 t6 (c_router_id (ag_cfg a)) ts ev of None \<Rightarrow> feed_nfct_loop nx t4 t6 ts k (a\<lparr>ag_nfct := ctx\<rparr>)
           | Some line \<Rightarrow>
               (let (ok, b) = cpe_agent_spool_push_line line (a\<lparr>ag_nfct := ctx\<rparr>) in
                if ok then feed_nfct_loop nx t4 t6 ts (k + 1) (b\<lparr>ag_nfct_obs := ag_nfct_obs b + 1\<rparr>)
                else feed_nfct_loop nx t4 t6 ts k b)))"
  by (subst feed_nfct_loop.simps) (auto simp: nat_line_def Let_def split: option.split)

lemma feed_nfct_total:
  assumes "yields nx (ag_nfct a) evs" "agent_inv a"
  shows "\<exists>n b. feed_nfct_loop nx t4 t6 ts k a = Some (n, b) \<and> agent_inv b"
  using assms
proof (induction evs arbitrary: a k)
  case Nil
  then show ?case by (subst feed_nfct_step) simp
next
  case (Cons ev evs)
  obtain ctx where c: "nx (ag_nfct a) = Some (ev, ctx)" "yields nx ctx evs" using yields_ConsE[OF Cons.prems(1)] .
  show ?case
  proof (cases "nat_line t4 t6 (c_router_id (ag_cfg a)) ts ev")
    case None
    then show ?thesis using Cons.IH[of "a\<lparr>ag_nfct := ctx\<rparr>" k] Cons.prems c by (subst feed_nfct_step) simp
  next
    case (Some line)
    obtain ok b where p: "cpe_agent_spool_push_line line (a\<lparr>ag_nfct := ctx\<rparr>) = (ok, b)" by fastforce
    have "agent_inv b" "ag_nfct b = ctx"
      using agent_inv_spool_push[of "a\<lparr>ag_nfct := ctx\<rparr>" line] spool_push_frame(6)[of line "a\<lparr>ag_nfct := ctx\<rparr>"] Cons.prems p by simp_all
    then show ?thesis using Cons.IH[of b k] Cons.IH[of "b\<lparr>ag_nfct_obs := ag_nfct_obs b + 1\<rparr>" "k + 1"] c Some p
      by (subst feed_nfct_step) auto
  qed
qed

lemma pushes_view_cong:
  assumes "spool_ready b" "spool_ready b'" "spool_view b = spool_view b'" "ag_spool_cap b = ag_spool_cap b'"
  shows "spool_view (fold spool_push ls b) = spool_view (fold spool_push ls b')"
  using spq.pushes_view[OF assms(1)] spq.pushes_view[OF assms(2)] assms(3,4) by simp

lemma feed_nfct_spools:
  assumes "yields nx (ag_nfct a) evs" "spool_ready a"
  shows "\<exists>b. feed_nfct_loop nx t4 t6 ts k a =
        Some (k + length (List.map_filter (nat_line t4 t6 (c_router_id (ag_cfg a)) ts) evs), b) \<and>
      spool_view b = spool_view (fold spool_push (List.map_filter (nat_line t4 t6 (c_router_id (ag_cfg a)) ts) evs) a) \<and>
      ag_nfct_obs b = ag_nfct_obs a + of_nat (length (List.map_filter (nat_line t4 t6 (c_router_id (ag_cfg a)) ts) evs))"
  using assms
proof (induction evs arbitrary: a k)
  case Nil
  then show ?case by (subst feed_nfct_step) (simp add: map_filter_simps)
next
  case (Cons ev evs)
  obtain ctx where c: "nx (ag_nfct a) = Some (ev, ctx)" "yields nx ctx evs" using yields_ConsE[OF Cons.prems(1)] .
  show ?case
  proof (cases "nat_line t4 t6 (c_router_id (ag_cfg a)) ts ev")
    case None
    have v: "spool_view (fold spool_push ls (a\<lparr>ag_nfct := ctx\<rparr>)) = spool_view (fold spool_push ls a)" for ls
      using Cons.prems(2) by (intro pushes_view_cong) simp_all
    show ?thesis using Cons.IH[of "a\<lparr>ag_nfct := ctx\<rparr>" k] Cons.prems(2) c None v
      by (subst feed_nfct_step) (simp add: map_filter_simps)
  next
    case (Some line)
    let ?a = "a\<lparr>ag_nfct := ctx\<rparr>" and ?b = "spool_push line (a\<lparr>ag_nfct := ctx\<rparr>)"
    have r: "spool_ready ?a" using Cons.prems(2) by simp
    obtain sp b where p: "cpe_agent_spool_push_line line ?a = (True, b)" using spool_push_ready[OF r] by metis
    then have b: "b = ?b" by (simp add: spool_push_def)
    have f: "ag_nfct b = ctx" "ag_cfg b = ag_cfg a" "ag_nfct_obs b = ag_nfct_obs a"
      using spool_push_frame[of line ?a] p by simp_all
    have v: "spool_view (fold spool_push ls (b\<lparr>ag_nfct_obs := x\<rparr>)) = spool_view (fold spool_push ls (spool_push line a))" for ls x
      unfolding b using spool_ready_push[OF r, of line] spool_ready_push[OF Cons.prems(2), of line] by (intro pushes_view_cong) simp_all
    show ?thesis
      using Cons.IH[of "b\<lparr>ag_nfct_obs := ag_nfct_obs b + 1\<rparr>" "k + 1"] spool_ready_push(1)[OF r, of line] f c Some p b v
      by (subst feed_nfct_step) (auto simp: map_filter_simps)
  qed
qed

section \<open>Life cycle and probes\<close>

lemma agent0_agent_inv: "agent_inv (agent0 p n)"
  using agent0_inv[of p n] flow_inv_init tcp_inv_init by (simp add: agent_inv_def core_inv_def) (simp add: agent0_def)

lemma create_inv:
  fixes a :: "('p,'n,'w,'t) cpe_agent"
  assumes "cpe_agent_create calloc_ok ping nf alloc_ok = Some a"
  shows "agent_inv a" "spool_ready a" "spool_view a = []" "eq_view a = []" "ag_cfg a = cpe_agent_config_defaults"
proof -
  obtain p n where pn: "ping = Some p" "nf = Some n" and ok: "fst (ensure_spool alloc_ok 256 (agent0 p n :: ('p,'n,'w,'t) cpe_agent))"
    and a: "a = snd (ensure_spool alloc_ok 256 (agent0 p n))"
    using assms by (auto simp: cpe_agent_create_def cpe_agent_config_defaults_def Let_def split_beta split: if_splits option.splits)
  have i: "agent_inv (agent0 p n :: ('p,'n,'w,'t) cpe_agent)" "spool_inv (agent0 p n :: ('p,'n,'w,'t) cpe_agent)"
    by (rule agent0_agent_inv agent0_inv)+
  show "agent_inv a" using i a by (simp add: agent_inv_def ensure_spool_core)
  show "spool_ready a" "spool_view a = []"
    using ensure_spool_result(1)[OF i(2), of 256 alloc_ok] ok a by (simp_all add: agent0_def)
  show "eq_view a = []" "ag_cfg a = cpe_agent_config_defaults" using ok unfolding a
    by (simp_all add: ensure_spool_def Let_def agent0_def free_spool_def eq_view_def split: if_splits)
qed

lemma destroy_closes:
  "ag_spool (cpe_agent_destroy a) = None" "tc_fd (ag_tcp (cpe_agent_destroy a)) < 0" "fs_fd (ag_flow (cpe_agent_destroy a)) < 0"
  by (auto simp: cpe_agent_destroy_def cpe_agent_flow_close_def cpe_agent_tcp_close_def Let_def)

lemma apply_config_inv:
  assumes "agent_inv a"
  shows "agent_inv (snd (cpe_agent_apply_config alloc_ok op env cfgp a))"
proof (cases cfgp)
  case None
  then show ?thesis using assms by (simp add: cpe_agent_apply_config_def)
next
  case (Some cfg)
  then show ?thesis using config_applied[OF assms, of alloc_ok op env cfg] by (metis prod.collapse)
qed

lemma reload_inv:
  assumes "agent_inv a"
  shows "agent_inv (snd (cpe_agent_reload_config alloc_ok op env load path rid a))"
proof (cases "reload_source load path rid (ag_cfg a)")
  case (Inl err)
  then show ?thesis using assms by (simp add: cpe_agent_reload_config_def)
next
  case (Inr cfg)
  obtain r b where rb: "cpe_agent_apply_config alloc_ok op env (Some cfg) a = (r, b)" by fastforce
  then have "snd (cpe_agent_reload_config alloc_ok op env load path rid a) = b"
    using Inr by (simp add: cpe_agent_reload_config_def)
  then show ?thesis using config_applied[OF assms rb] by simp
qed

lemma spool_sample_inv: "agent_inv a \<Longrightarrow> agent_inv (snd (spool_sample sample a))"
  by (auto simp: spool_sample_def agent_inv_spool_push split: option.split)

lemma demo_ping_inv:
  assumes "agent_inv a"
  shows "agent_inv (snd (snd (cpe_agent_demo_ping_tick feed settle stats clk seq a)))"
  using assms
  by (simp add: cpe_agent_demo_ping_tick_def Let_def split_beta spool_sample_inv agent_inv_eq_push split: option.split)

lemma feed_icmp_inv: "agent_inv a \<Longrightarrow> agent_inv (snd (cpe_agent_feed_icmp_echo_reply feed settle icmp ts a))"
  by (simp add: cpe_agent_feed_icmp_echo_reply_def Let_def split_beta)

section \<open>Properties\<close>

text \<open>C11: applying a configuration is a transaction. It either becomes the running configuration, with
  the defaults filled in and the generation counter advanced by one, over a spool of the configured
  capacity that keeps its lines unless the capacity changed; or it is refused by validation, and then
  nothing changes but one queued event; or the spool cannot be allocated, and then the old
  configuration and the statistics stay but the spool and all its lines are gone. The
  invariant of the agent holds in every case.\<close>

theorem config_transaction:
  assumes "agent_inv a" "cpe_agent_apply_config alloc_ok op env (Some cfg) a = (r, b)"
  shows "agent_inv b \<and>
    (r = 0 \<and> cpe_agent_config_validate (Some (config_shadow cfg)) = None \<and>
       ag_cfg b = (config_shadow cfg)\<lparr>c_generation := c_generation (ag_cfg a) + 1\<rparr> \<and>
       spool_ready b \<and> ag_spool_cap b = unat (c_spool_max_lines (config_shadow cfg)) \<and>
       spool_view b = (if ag_spool_cap b = ag_spool_cap a then spool_view a else []) \<or>
     r = -1 \<and> cpe_agent_config_validate (Some (config_shadow cfg)) \<noteq> None \<and>
       (\<exists>why. b = eq_push CPE_AGENT_EVENT_CONFIG_REJECTED why 0 0 a) \<or>
     r = -1 \<and> \<not> alloc_ok (unat (c_spool_max_lines (config_shadow cfg)) * 768) \<and>
       ag_cfg b = ag_cfg a \<and> ag_tcp b = ag_tcp a \<and> ag_flow b = ag_flow a \<and> spool_view b = [] \<and> ag_spool b = None)"
  using config_applied[OF assms] unfolding config_outcome_def .

lemma agent00_agent_inv: "agent_inv agent00"
  unfolding agent00_def by (rule agent0_agent_inv)

lemma defaults_valid: "cpe_agent_config_validate (Some cpe_agent_config_defaults) = None"
  "config_shadow cpe_agent_config_defaults = cpe_agent_config_defaults"
  by (simp_all add: config_shadow_def cpe_agent_config_defaults_def cpe_agent_config_validate_def)

theorem config_transaction_witness:
  "agent_inv (snd (cpe_agent_apply_config (\<lambda>_. True) (\<lambda>_ _. Inl ''denied'') list_env (Some cpe_agent_config_defaults) agent00)) \<and>
   c_generation (ag_cfg (snd (cpe_agent_apply_config (\<lambda>_. True) (\<lambda>_ _. Inl ''denied'') list_env (Some cpe_agent_config_defaults) agent00))) = 1"
  using config_transaction[OF agent00_agent_inv prod.collapse[symmetric],
      of "\<lambda>_. True" "\<lambda>_ _. Inl ''denied''" list_env cpe_agent_config_defaults]
  by (simp add: defaults_valid) (simp add: cpe_agent_config_defaults_def agent00_def agent0_def)

text \<open>a flush to HTTP posts the oldest lines of a non-empty spool, at least seven of them or all,
  each ended by a line feed, in a body that fits the 6144-byte buffer, and removes from the
  spool exactly the lines it sent, and only when the server accepted them.\<close>

theorem http_emit_exactly_once:
  assumes "spool_ready a" "spool_view a \<noteq> []" "c_emit_mode (ag_cfg a) = ''http'' \<or> c_emit_mode (ag_cfg a) = ''https''"
  shows "\<exists>n body. min 7 (length (spool_view a)) \<le> n \<and> n \<le> length (spool_view a) \<and>
      body = concat (map (\<lambda>l. l @ [CHR 0x0A]) (take n (spool_view a))) \<and> length body < 6144 \<and>
      (if post (c_https_url (ag_cfg a)) body (http_opts_of (ag_cfg a))
       then \<exists>b. cpe_agent_emit_flush post open_file wr fls cl out a = ((int n, out), b) \<and>
              spool_view b = drop n (spool_view a) \<and> spool_ready b \<and> ag_spool_drops b = ag_spool_drops a
       else cpe_agent_emit_flush post open_file wr fls cl out a = ((-1, out), a))"
  by (rule emit_http_spec[OF assms])

definition http_agent :: "string list \<Rightarrow> (unit, unit, unit, unit) cpe_agent" where
  "http_agent ls = (let a = fold spool_push ls (agent_with_spool 4)
     in a\<lparr>ag_cfg := (ag_cfg a)\<lparr>c_emit_mode := ''http'', c_https_url := ''http://c/ingest''\<rparr>\<rparr>)"

lemma http_agent_facts:
  "spool_ready (http_agent [''a'', ''b''])" "spool_view (http_agent [''a'', ''b'']) = [''a'', ''b'']"
  "c_emit_mode (ag_cfg (http_agent ls)) = ''http''" "c_https_url (ag_cfg (http_agent ls)) = ''http://c/ingest''"
  using spq.pushes_inv[OF agent_with_spool_ready[of 4], of "[''a'', ''b'']"]
    spq.pushes_view[OF agent_with_spool_ready[of 4], of "[''a'', ''b'']"]
  by (simp_all add: http_agent_def Let_def agent_with_spool_view)

theorem http_emit_exactly_once_witness:
  "\<exists>b. cpe_agent_emit_flush (\<lambda>url body opts. body = ''a\<newline>b\<newline>'') (\<lambda>_. None) (\<lambda>_ _. None) (\<lambda>_. True) (\<lambda>_. True) ()
        (http_agent [''a'', ''b'']) = ((2, ()), b) \<and> spool_view b = []"
proof -
  obtain n where "min 7 2 \<le> n" "n \<le> 2" and
    "if concat (map (\<lambda>l. l @ [CHR 0x0A]) (take n [''a'', ''b''])) = ''a\<newline>b\<newline>''
     then \<exists>b. cpe_agent_emit_flush (\<lambda>url body opts. body = ''a\<newline>b\<newline>'') (\<lambda>_. None) (\<lambda>_ _. None) (\<lambda>_. True) (\<lambda>_. True) ()
        (http_agent [''a'', ''b'']) = ((int n, ()), b) \<and> spool_view b = drop n [''a'', ''b''] \<and> spool_ready b \<and>
        ag_spool_drops b = ag_spool_drops (http_agent [''a'', ''b''])
     else cpe_agent_emit_flush (\<lambda>url body opts. body = ''a\<newline>b\<newline>'') (\<lambda>_. None) (\<lambda>_ _. None) (\<lambda>_. True) (\<lambda>_. True) ()
        (http_agent [''a'', ''b'']) = ((-1, ()), http_agent [''a'', ''b''])"
    using http_emit_exactly_once[of "http_agent [''a'', ''b'']" "\<lambda>url body opts. body = ''a\<newline>b\<newline>''" "\<lambda>_. None"
        "\<lambda>_ _. None" "\<lambda>_. True" "\<lambda>_. True" "()"]
    by (auto simp: http_agent_facts)
  moreover from this have "n = 2" by simp
  ultimately show ?thesis by auto
qed

text \<open>C21: feeding conntrack messages spools the record of every event that has one, in order, and
  returns their number, which is also what the observation counter grows by.\<close>

theorem feed_nfct_spools_observations:
  assumes "data \<noteq> []" "yields nx (feed (ag_nfct a) data) evs" "spool_ready a"
    and lines: "lines = List.map_filter (nat_line t4 t6 (c_router_id (ag_cfg a)) ts) evs"
  shows "\<exists>b. cpe_agent_feed_nfct feed nx t4 t6 data ts a = Some (int (length lines), b) \<and>
      spool_view b = spool_view (fold spool_push lines a) \<and> ag_nfct_obs b = ag_nfct_obs a + of_nat (length lines)"
proof -
  let ?a = "a\<lparr>ag_nfct := feed (ag_nfct a) data\<rparr>"
  have r: "spool_ready ?a" "yields nx (ag_nfct ?a) evs" using assms by simp_all
  have "spool_view (fold spool_push lines ?a) = spool_view (fold spool_push lines a)"
    using r(1) assms(3) by (intro pushes_view_cong) simp_all
  then show ?thesis using feed_nfct_spools[OF r(2,1), of t4 t6 ts 0] assms(1) lines
    by (auto simp: cpe_agent_feed_nfct_def)
qed

definition sample_tuple :: "nfct_event \<Rightarrow> tuple4 option" where
  "sample_tuple ev = (if ne_has_wan ev then Some (ne_lan_src_ip ev, ne_lan_src_port ev, ne_wan_src_ip ev, ne_wan_src_port ev, ne_protocol ev) else None)"

definition nfct_agent :: "(unit, nfct_event list, unit, unit) cpe_agent" where
  "nfct_agent = snd (ensure_spool (\<lambda>_. True) 2 (agent0 () []))"

lemma nfct_agent_facts: "spool_ready nfct_agent" "c_router_id (ag_cfg nfct_agent) = ''cpe-lab-1''" "ag_nfct nfct_agent = []"
  by (simp_all add: nfct_agent_def ensure_spool_def Let_def agent0_def free_spool_def spool_ready_def spool_view_def
      ring_ok_def cpe_agent_config_defaults_def)

lemma sample_lines:
  "length (List.map_filter (nat_line sample_tuple (\<lambda>_. None) ''cpe-lab-1'' 1000) [sample_nat_event, sample_nat_event\<lparr>ne_has_wan := False\<rparr>]) = 1"
  by (simp add: map_filter_simps nat_line_def nf_obs_from_nfct_def nf_obs_format_def sample_tuple_def sample_nat_event_def Let_def)

theorem feed_nfct_spools_observations_witness:
  "\<exists>b. cpe_agent_feed_nfct (\<lambda>q d. q @ [sample_nat_event, sample_nat_event\<lparr>ne_has_wan := False\<rparr>]) list_next sample_tuple
        (\<lambda>_. None) [1] 1000 nfct_agent = Some (1, b) \<and> ag_nfct_obs b = ag_nfct_obs nfct_agent + 1"
  using feed_nfct_spools_observations[of "[1]" list_next "\<lambda>q d. q @ [sample_nat_event, sample_nat_event\<lparr>ne_has_wan := False\<rparr>]"
      nfct_agent "[sample_nat_event, sample_nat_event\<lparr>ne_has_wan := False\<rparr>]" _ sample_tuple "\<lambda>_. None" 1000, OF _ _ nfct_agent_facts(1) refl]
    sample_lines by (auto simp: nfct_agent_facts)

text \<open>A new agent with the default configuration and a spool, of any sample types.\<close>

definition fresh_agent :: "nat \<Rightarrow> (unit, unit, 'w, 't) cpe_agent" where
  "fresh_agent cap = snd (ensure_spool (\<lambda>_. True) cap (agent0 () ()))"

lemma fresh_agent_facts:
  "0 < cap \<Longrightarrow> spool_ready (fresh_agent cap)" "agent_inv (fresh_agent cap)" "ag_cfg (fresh_agent cap) = cpe_agent_config_defaults"
proof -
  show "ag_cfg (fresh_agent cap) = cpe_agent_config_defaults"
    by (simp add: fresh_agent_def ensure_spool_def Let_def agent0_def free_spool_def)
  show "agent_inv (fresh_agent cap)"
    by (simp add: fresh_agent_def agent_inv_def ensure_spool_core agent0_agent_inv[unfolded agent_inv_def])
  show "spool_ready (fresh_agent cap)" if "0 < cap" unfolding fresh_agent_def
    by (rule ensure_spool_result(1)[THEN conjunct1, OF agent0_inv(3) that]) (simp add: ensure_spool_def Let_def agent0_def)
qed

lemma default_texts [simp]:
  "c_router_id cpe_agent_config_defaults = ''cpe-lab-1''" "c_demo_target cpe_agent_config_defaults = ''1.1.1.1''"
  "c_wifi_if cpe_agent_config_defaults = []"
  by (simp_all add: cpe_agent_config_defaults_def)

end
