(* ===== verification/Ipc_Request.thy ===== *)
theory Ipc_Request
  imports Agent_Core
begin

text \<open>
  \<^verbatim>\<open>agent/ipc_server.c\<close>, part one: the JSON field scanners and the request handler of the control
  socket. A request and a response are texts without NUL. The result of the handler is
  \<open>None\<close> when a library queue never runs empty or a buffer would be overrun, otherwise the
  response (\<open>None\<close> for the result -1) and the agent. What the operations consult of the
  world is an \<open>ipc_env\<close>.
\<close>

section \<open>Scanning requests\<close>

definition skip_blanks :: "string \<Rightarrow> string" where
  "skip_blanks p = dropWhile (\<lambda>c. c = CHR '' '' \<or> c = CHR 0x09) p"

text \<open>The text after the first \<^verbatim>\<open>"key" :\<close> and its blanks; the pattern buffer has 64 bytes.\<close>

definition json_value :: "string \<Rightarrow> string \<Rightarrow> string option" where
  \<open>json_value json key =
     (let pat = ''"'' @ key @ ''"'' in
      if length pat \<ge> 64 then None
      else case strstr json pat of None \<Rightarrow> None
      | Some p \<Rightarrow>
          (case skip_blanks (drop (length pat) p) of
             [] \<Rightarrow> None
           | c # q \<Rightarrow> if c = CHR '':'' then Some (skip_blanks q) else None))\<close>

text \<open>The copy loop: \<open>room\<close> is \<^verbatim>\<open>out_sz - 1 - i\<close>.\<close>

fun unquote :: "nat \<Rightarrow> string \<Rightarrow> string" where
  "unquote room [] = []"
| "unquote room [c] = (if c = CHR 0x22 \<or> room = 0 then [] else [c])"
| "unquote room (c # d # cs) =
     (if c = CHR 0x22 \<or> room = 0 then []
      else if c = CHR 0x5C then d # unquote (room - 1) cs
      else c # unquote (room - 1) (d # cs))"

definition json_get_str :: "string \<Rightarrow> string \<Rightarrow> nat \<Rightarrow> string option" where
  "json_get_str json key out_sz =
     (if out_sz = 0 then None
      else case json_value json key of None \<Rightarrow> None
      | Some p \<Rightarrow> (case p of [] \<Rightarrow> None | c # q \<Rightarrow> if c = CHR 0x22 then Some (unquote (out_sz - 1) q) else None))"

definition json_get_u32 :: "string \<Rightarrow> string \<Rightarrow> u32 option" where
  "json_get_u32 json key =
     (case json_value json key of None \<Rightarrow> None
      | Some p \<Rightarrow> (case strtoul p of None \<Rightarrow> None | Some (v, _) \<Rightarrow> Some (of_nat v)))"

section \<open>Responses\<close>

definition fits :: "nat \<Rightarrow> string \<Rightarrow> string option" where
  \<comment> \<open>\<^verbatim>\<open>(n < 0 || (size_t)n >= out_sz) ? -1 : 0\<close>\<close>
  "fits out_sz s = (if length s \<ge> out_sz then None else Some s)"

definition respond_err :: "nat \<Rightarrow> string \<Rightarrow> string \<Rightarrow> string option" where
  \<open>respond_err out_sz op msg =
     fits out_sz (''{"ok":false,"op":"'' @ str_or op ''unknown'' @ ''","error":"'' @ str_or msg ''error'' @ ''"}'')\<close>

definition bool_json :: "bool \<Rightarrow> string" where
  "bool_json b = (if b then ''true'' else ''false'')"

definition remote_row_json :: "cpe_tcp_remote \<Rightarrow> string" where
  \<open>remote_row_json r =
     ''{"remote_ip":"'' @ rm_remote_ip r @ ''","local_ip":"'' @ rm_local_ip r @
     ''","remote_port":'' @ u16_dec (rm_remote_port r) @ '',"local_port":'' @ u16_dec (rm_local_port r) @
     '',"syn":'' @ u32_dec (rm_syn_count r) @ '',"fin":'' @ u32_dec (rm_fin_count r) @
     '',"rst":'' @ u32_dec (rm_rst_count r) @ '',"syn_retrans":'' @ u32_dec (rm_syn_retrans r) @
     '',"pkts":'' @ u32_dec (rm_pkt_count r) @ '',"bytes":'' @ u64_dec (rm_bytes_est r) @
     '',"loss_hint":'' @ fixed 4 (cpe_tcp_loss_hint (rm_syn_count r) (rm_fin_count r) (rm_rst_count r) (rm_syn_retrans r)) @ ''}''\<close>

definition prefix_row_json :: "cpe_tcp_prefix \<Rightarrow> string" where
  \<open>prefix_row_json p =
     ''{"prefix":"'' @ px_prefix p @ ''","remotes":'' @ u32_dec (px_remote_count p) @
     '',"syn":'' @ u32_dec (px_syn_count p) @ '',"fin":'' @ u32_dec (px_fin_count p) @
     '',"rst":'' @ u32_dec (px_rst_count p) @ '',"syn_retrans":'' @ u32_dec (px_syn_retrans p) @
     '',"pkts":'' @ u32_dec (px_pkt_count p) @ '',"bytes":'' @ u64_dec (px_bytes_est p) @
     '',"loss_hint":'' @ fixed 4 (cpe_tcp_loss_hint (px_syn_count p) (px_fin_count p) (px_rst_count p) (px_syn_retrans p)) @ ''}''\<close>

text \<open>
  \<^verbatim>\<open>append_remote_json\<close> and \<^verbatim>\<open>append_prefix_json\<close>: append a row to the \<open>cap\<close>-byte buffer that
  holds \<open>buf\<close>. The room \<^verbatim>\<open>cap - *off\<close> is a \<^verbatim>\<open>size_t\<close>; when it would wrap, \<open>None\<close>.
\<close>

definition append_json :: "nat \<Rightarrow> string \<Rightarrow> string \<Rightarrow> string option option" where
  "append_json cap buf row =
     (if length buf > cap then None
      else if length row \<ge> cap - length buf then Some None else Some (Some (buf @ row)))"

fun append_rows :: "nat \<Rightarrow> bool \<Rightarrow> string list \<Rightarrow> string \<Rightarrow> string option option" where
  "append_rows cap first [] buf = Some (Some buf)"
| "append_rows cap first (row # rows) buf =
     (if \<not> first \<and> length buf + 1 \<ge> cap then Some None
      else case append_json cap (if first then buf else buf @ '','') row of
             None \<Rightarrow> None | Some None \<Rightarrow> Some None | Some (Some b) \<Rightarrow> append_rows cap False rows b)"

definition rows_reply :: "nat \<Rightarrow> string \<Rightarrow> string list \<Rightarrow> string option option" where
  "rows_reply out_sz hdr rows =
     (case append_rows out_sz True (take 64 rows) hdr of None \<Rightarrow> None | Some None \<Rightarrow> Some None
      | Some (Some b) \<Rightarrow> if length b + 3 \<ge> out_sz then Some None else Some (Some (b @ '']}'')))"

definition row_reply :: "nat \<Rightarrow> string \<Rightarrow> string \<Rightarrow> string option option" where
  "row_reply out_sz hdr row =
     (if length hdr \<ge> out_sz then Some None
      else case append_json out_sz hdr row of None \<Rightarrow> None | Some None \<Rightarrow> Some None
      | Some (Some b) \<Rightarrow> if length b + 2 \<ge> out_sz then Some None else Some (Some (b @ ''}'')))"

section \<open>Read-only operations\<close>

definition status_json :: "('p,'n,'w,'t) cpe_agent \<Rightarrow> string" where
  \<open>status_json a =
     (let cfg = ag_cfg a in
      ''{"ok":true,"op":"status","data":{"router_id":"'' @ c_router_id cfg @ ''","emit_mode":"'' @ c_emit_mode cfg @
      ''","egress_url":"'' @ c_https_url cfg @ ''","openai_proxy_url":"'' @ c_openai_proxy_url cfg @
      ''","demo":'' @ bool_json (c_demo_mode cfg) @ '',"tcp_stats":'' @ bool_json (c_tcp_stats_enabled cfg) @
      '',"tcp_nflog_group":'' @ u16_dec (c_tcp_nflog_group cfg) @ '',"flow_acct":'' @ bool_json (c_flow_acct_enabled cfg) @
      '',"spool_depth":'' @ dec (cpe_agent_spool_depth a) @ '',"spool_drops":'' @ u64_dec (ag_spool_drops a) @
      '',"generation":'' @ u64_dec (c_generation cfg) @ ''}}'')\<close>

definition config_json :: "cpe_agent_config \<Rightarrow> string" where
  \<open>config_json cfg =
     ''{"ok":true,"op":"config","data":{"router_id":"'' @ c_router_id cfg @ ''","emit_mode":"'' @ c_emit_mode cfg @
     ''","target":"'' @ c_demo_target cfg @ ''","interval_ms":'' @ u32_dec (c_demo_interval_ms cfg) @
     '',"timeout_ms":'' @ u32_dec (c_probe_timeout_ms cfg) @ '',"demo":'' @ bool_json (c_demo_mode cfg) @
     '',"tcp_stats":'' @ bool_json (c_tcp_stats_enabled cfg) @ '',"tcp_nflog_group":'' @ u16_dec (c_tcp_nflog_group cfg) @
     '',"tcp_prefix_len":'' @ u8_dec (c_tcp_prefix_len cfg) @ '',"egress_url":"'' @ c_https_url cfg @
     ''","openai_proxy_url":"'' @ c_openai_proxy_url cfg @ ''","ipc_socket":"'' @
     str_or (c_ipc_socket cfg) ''/var/run/netforensics/cpe_agent.sock'' @ ''"}}''\<close>

definition last_sample_json :: "cpe_perf_sample option \<Rightarrow> string" where
  \<open>last_sample_json sp =
     (case sp of None \<Rightarrow> ''{"ok":true,"op":"last_sample","data":null}''
      | Some s \<Rightarrow>
          ''{"ok":true,"op":"last_sample","data":{"probe":"'' @ ps_probe s @ ''","target":"'' @ ps_target s @
          ''","rtt_ms":'' @ fixed 3 (ps_rtt_ms s) @ '',"loss":'' @ fixed 4 (ps_loss s) @ '',"ts":"'' @ ps_ts_iso s @
          ''","meta":'' @ str_or (ps_meta s) ''{}'' @ ''}}'')\<close>

definition tcp_stats_json :: "cpe_tcp_snapshot \<Rightarrow> string" where
  \<open>tcp_stats_json s =
     ''{"ok":true,"op":"tcp_stats","data":{"nflog_group":'' @ u32_dec (sn_nflog_group s) @
     '',"syn":'' @ u32_dec (sn_syn_total s) @ '',"fin":'' @ u32_dec (sn_fin_total s) @ '',"rst":'' @ u32_dec (sn_rst_total s) @
     '',"syn_retrans":'' @ u32_dec (sn_syn_retrans_total s) @ '',"pkts":'' @ u32_dec (sn_pkt_total s) @
     '',"bytes":'' @ u64_dec (sn_bytes_total s) @ '',"remotes":'' @ u32_dec (sn_remote_count s) @
     '',"prefixes":'' @ u32_dec (sn_prefix_count s) @ '',"prefix_len":'' @ u8_dec (sn_prefix_len s) @
     '',"loss_hint":'' @ fixed 4 (cpe_tcp_loss_hint (sn_syn_total s) (sn_fin_total s) (sn_rst_total s) (sn_syn_retrans_total s)) @
     '',"ts":"'' @ sn_ts_iso s @ ''","pkts_parsed":'' @ u64_dec (sn_pkts_parsed s) @ ''}}''\<close>

definition op_latency :: "nat \<Rightarrow> ('p,'n,'w,'t) cpe_agent \<Rightarrow> string option" where
  \<open>op_latency out_sz a =
     (case cpe_agent_get_local_latency_json 256 a of None \<Rightarrow> respond_err out_sz ''latency'' ''latency failed''
      | Some j \<Rightarrow> fits out_sz (''{"ok":true,"op":"latency","data":'' @ j @ ''}''))\<close>

definition op_tcp_by_ip :: "nat \<Rightarrow> string \<Rightarrow> ('p,'n,'w,'t) cpe_agent \<Rightarrow> string option option" where
  \<open>op_tcp_by_ip out_sz req a =
     (let ip = (case json_get_str req ''ip'' 48 of None \<Rightarrow> [] | Some s \<Rightarrow> s) in
      if ip \<noteq> [] then
        (case cpe_agent_tcp_remote ip a of
           None \<Rightarrow> Some (fits out_sz ''{"ok":true,"op":"tcp_by_ip","data":null}'')
         | Some r \<Rightarrow> row_reply out_sz ''{"ok":true,"op":"tcp_by_ip","data":'' (remote_row_json r))
      else rows_reply out_sz ''{"ok":true,"op":"tcp_by_ip","data":['' (map remote_row_json (sn_remotes (cpe_agent_tcp_snapshot a))))\<close>

definition op_tcp_by_prefix :: "nat \<Rightarrow> string \<Rightarrow> ('p,'n,'w,'t) cpe_agent \<Rightarrow> string option option" where
  \<open>op_tcp_by_prefix out_sz req a =
     (let pfx = (case json_get_str req ''prefix'' 64 of None \<Rightarrow> [] | Some s \<Rightarrow> s) in
      if pfx \<noteq> [] then
        (case cpe_agent_tcp_prefix pfx a of
           None \<Rightarrow> Some (fits out_sz ''{"ok":true,"op":"tcp_by_prefix","data":null}'')
         | Some p \<Rightarrow> row_reply out_sz ''{"ok":true,"op":"tcp_by_prefix","data":'' (prefix_row_json p))
      else rows_reply out_sz ''{"ok":true,"op":"tcp_by_prefix","data":['' (map prefix_row_json (sn_prefixes (cpe_agent_tcp_snapshot a))))\<close>

section \<open>Operations with effects\<close>

record ('c, 'f) ipc_env =
  ie_post :: "string \<Rightarrow> string \<Rightarrow> http_opts \<Rightarrow> bool"
  ie_open_file :: "string \<Rightarrow> 'f option"
  ie_write :: "string \<Rightarrow> 'f \<Rightarrow> 'f option"
  ie_flushed :: "'f \<Rightarrow> bool"
  ie_closed :: "'f \<Rightarrow> bool"
  ie_stdout :: 'f
  ie_nflog_open :: "u16 \<Rightarrow> u32 \<Rightarrow> string + int"
  ie_nflog_rx :: "recv_result list"
  ie_pkt_clk :: "nat \<Rightarrow> nat \<Rightarrow> clock"
  ie_sort_remotes :: "cpe_tcp_remote list \<Rightarrow> cpe_tcp_remote list"
  ie_sort_prefixes :: "cpe_tcp_prefix list \<Rightarrow> cpe_tcp_prefix list"
  ie_nfct :: "'c nfct_env"
  ie_ev_clk :: "nat \<Rightarrow> nat \<Rightarrow> clock" \<comment> \<open>clocks of the events of the poll\<close>
  ie_ev_now :: clock
  ie_ev_rx :: "recv_result list"
  ie_dump_clk :: "nat \<Rightarrow> nat \<Rightarrow> clock" \<comment> \<open>clocks of the events of the dump\<close>
  ie_dump_now :: clock
  ie_dump_rx :: "recv_result list"
  ie_dump_polls :: "bool list"
  ie_row_clk :: "nat \<Rightarrow> clock"
  ie_clk :: clock
  ie_clk2 :: clock

definition env_flow_tick ::
  "('c,'f) ipc_env \<Rightarrow> ('p,'n,'w,'t) cpe_agent \<Rightarrow> (int \<times> ('p,'n,'w,'t) cpe_agent) option" where
  "env_flow_tick env a = cpe_agent_flow_tick (ie_nfct env) (ie_ev_clk env) (ie_ev_now env) (ie_ev_rx env)
     (ie_dump_clk env) (ie_dump_now env) (ie_dump_rx env) (ie_dump_polls env) (ie_row_clk env) (ie_clk env) a"

definition flow_stats_json :: "cpe_flow_snapshot \<Rightarrow> ('p,'n,'w,'t) cpe_agent \<Rightarrow> string" where
  \<open>flow_stats_json snap a =
     (let err = fsn_open_err snap in
      ''{"ok":true,"op":"flow_stats","data":{"enabled":'' @ bool_json (c_flow_acct_enabled (ag_cfg a)) @
      '',"flow_count":'' @ dec (length (fsn_flows snap)) @ '',"events_in":'' @ u64_dec (fsn_events_in snap) @
      '',"destroys_emitted":'' @ u64_dec (fsn_destroys_emitted snap) @ '',"samples_emitted":'' @ u64_dec (fsn_samples_emitted snap) @
      '',"dumps":'' @ u64_dec (fsn_dumps snap) @ '',"open_ok":'' @ bool_json (fsn_open_ok snap) @
      '',"open_err":'' @ (if err \<noteq> [] then ''"'' @ err @ ''"'' else ''null'') @
      '',"event_fd":'' @ int_dec (fs_fd (ag_flow a)) @ '',"dump_fd":'' @ int_dec (fs_dump_fd (ag_flow a)) @
      '',"ts":"'' @ fsn_ts_iso snap @ ''"}}'')\<close>

definition flow_row_json :: "cpe_flow_entry \<Rightarrow> string" where
  \<open>flow_row_json e =
     ''{"flow_id":"'' @ fe_flow_id e @ ''","proto":'' @ u8_dec (fe_proto e) @
     '',"lan":"'' @ fe_lan_ip e @ '':'' @ u16_dec (fe_lan_port e) @ ''","remote":"'' @ fe_remote_ip e @ '':'' @ u16_dec (fe_remote_port e) @
     ''","wan":"'' @ fe_wan_ip e @ '':'' @ u16_dec (fe_wan_port e) @
     ''","bytes_up":'' @ u64_dec (fe_bytes_up e) @ '',"bytes_down":'' @ u64_dec (fe_bytes_down e) @
     '',"rate_up_bps":'' @ fixed 0 (fe_rate_up_bps e) @ '',"rate_down_bps":'' @ fixed 0 (fe_rate_down_bps e) @
     '',"state":"'' @ fe_state e @ ''"}''\<close>

fun flow_rows :: "nat \<Rightarrow> bool \<Rightarrow> cpe_flow_entry list \<Rightarrow> string \<Rightarrow> string option" where
  "flow_rows out_sz first [] buf = Some buf"
| "flow_rows out_sz first (e # es) buf =
     (let row = (if first then [] else '','') @ flow_row_json e in
      if length row \<ge> out_sz - length buf then None else flow_rows out_sz False es (buf @ row))"

definition flow_list_reply :: "nat \<Rightarrow> string \<Rightarrow> cpe_flow_snapshot \<Rightarrow> cpe_agent_config \<Rightarrow> string option" where
  \<open>flow_list_reply out_sz req snap cfg =
     (let lim0 = (case json_get_u32 req ''limit'' of None \<Rightarrow> 32 | Some l \<Rightarrow> l);
          limit = (if lim0 = 0 \<or> lim0 > 64 then 32 else lim0);
          hdr = ''{"ok":true,"op":"flow_list","data":{"flows":['' in
      if \<not> c_flow_acct_enabled cfg then
        fits out_sz (hdr @ ''],"count":0,"hint":"flow_acct.enabled is false in cpe_agent.yaml '' @
          [CHR 0xE2, CHR 0x80, CHR 0x94] @ '' set true and restart"}}'')
      else if \<not> fsn_open_ok snap then
        fits out_sz (hdr @ ''],"count":0,"hint":"conntrack netlink open failed: '' @ str_or (fsn_open_err snap) ''unknown'' @
          '' (need CAP_NET_ADMIN / root)"}}'')
      else if length hdr \<ge> out_sz then None
      else case flow_rows out_sz True (take (unat limit) (fsn_flows snap)) hdr of None \<Rightarrow> None
      | Some b \<Rightarrow>
          (let tail = ''],"count":'' @ dec (length (fsn_flows snap)) @ ''}}'' in
           if length tail \<ge> out_sz - length b then None else Some (b @ tail)))\<close>

definition op_emit ::
  "('c,'f) ipc_env \<Rightarrow> nat \<Rightarrow> ('p,'n,'w,'t) cpe_agent \<Rightarrow> string option \<times> ('p,'n,'w,'t) cpe_agent" where
  \<open>op_emit env out_sz a =
     (let ((lines, _), b) = cpe_agent_emit_flush (ie_post env) (ie_open_file env) (ie_write env) (ie_flushed env) (ie_closed env) (ie_stdout env) a in
      (if lines < 0 then respond_err out_sz ''emit'' ''emit_flush failed''
       else fits out_sz (''{"ok":true,"op":"emit","data":{"lines":'' @ int_dec lines @ ''}}''), b))\<close>

definition op_tcp_poll ::
  "('c,'f) ipc_env \<Rightarrow> nat \<Rightarrow> string \<Rightarrow> ('p,'n,'w,'t) cpe_agent \<Rightarrow> (string option \<times> ('p,'n,'w,'t) cpe_agent) option" where
  \<open>op_tcp_poll env out_sz req a =
     (let maxm = (case json_get_u32 req ''max'' of None \<Rightarrow> 64 | Some m \<Rightarrow> m) in
      case cpe_agent_tcp_poll (ie_pkt_clk env) (ie_nflog_open env) (ie_nflog_rx env) (unat maxm) a of None \<Rightarrow> None
      | Some (pkts, b) \<Rightarrow>
          Some (if pkts < 0 then respond_err out_sz ''tcp_poll'' ''tcp_poll failed''
                else fits out_sz (''{"ok":true,"op":"tcp_poll","data":{"pkts":'' @ int_dec pkts @ ''}}''), b))\<close>

definition op_tcp_emit ::
  "('c,'f) ipc_env \<Rightarrow> nat \<Rightarrow> string \<Rightarrow> ('p,'n,'w,'t) cpe_agent \<Rightarrow> string option \<times> ('p,'n,'w,'t) cpe_agent" where
  \<open>op_tcp_emit env out_sz req a =
     (let top_n = (case json_get_u32 req ''top_n'' of None \<Rightarrow> 0 | Some n \<Rightarrow> n);
          (lines, b) = cpe_agent_tcp_emit (ie_sort_remotes env) (ie_sort_prefixes env) (ie_clk env) (ie_clk2 env) (unat top_n) a in
      (if lines < 0 then respond_err out_sz ''tcp_emit'' ''tcp_emit failed''
       else fits out_sz (''{"ok":true,"op":"tcp_emit","data":{"lines":'' @ int_dec lines @ ''}}''), b))\<close>

definition op_flow_tick ::
  "('c,'f) ipc_env \<Rightarrow> nat \<Rightarrow> ('p,'n,'w,'t) cpe_agent \<Rightarrow> (string option \<times> ('p,'n,'w,'t) cpe_agent) option" where
  \<open>op_flow_tick env out_sz a =
     (case env_flow_tick env a of None \<Rightarrow> None
      | Some (work, b) \<Rightarrow>
          Some (if work < 0 then respond_err out_sz ''flow_tick'' ''flow_tick failed''
                else fits out_sz (''{"ok":true,"op":"flow_tick","data":{"work":'' @ int_dec work @ ''}}''), b))\<close>

definition help_json :: string where
  \<open>help_json = ''{"ok":true,"op":"help","data":["ping","status","config","last_sample","latency","spool","emit","tcp_poll",'' @
     ''"tcp_stats","tcp_by_ip","tcp_by_prefix","tcp_emit","tcp_reset","flow_tick","flow_stats","flow_list"]}''\<close>

text \<open>The operations that read and the whole dispatcher.\<close>

definition read_op :: "nat \<Rightarrow> string \<Rightarrow> string \<Rightarrow> ('p,'n,'w,'t) cpe_agent \<Rightarrow> string option option option" where
  \<comment> \<open>\<open>None\<close>: not one of them\<close>
  \<open>read_op out_sz op req a =
     (if op = ''ping'' then Some (Some (fits out_sz ''{"ok":true,"op":"ping","data":"pong"}''))
      else if op = ''help'' then Some (Some (fits out_sz help_json))
      else if op = ''status'' then Some (Some (fits out_sz (status_json a)))
      else if op = ''config'' then Some (Some (fits out_sz (config_json (ag_cfg a))))
      else if op = ''last_sample'' then Some (Some (fits out_sz (last_sample_json (cpe_agent_last_sample a))))
      else if op = ''latency'' then Some (Some (op_latency out_sz a))
      else if op = ''spool'' then
        Some (Some (fits out_sz (''{"ok":true,"op":"spool","data":{"depth":'' @ dec (cpe_agent_spool_depth a) @
          '',"drops":'' @ u64_dec (ag_spool_drops a) @ ''}}'')))
      else if op = ''tcp_stats'' then Some (Some (fits out_sz (tcp_stats_json (cpe_agent_tcp_snapshot a))))
      else if op = ''tcp_by_ip'' then Some (op_tcp_by_ip out_sz req a)
      else if op = ''tcp_by_prefix'' then Some (op_tcp_by_prefix out_sz req a)
      else None)\<close>

definition cpe_ipc_handle_request ::
  "('c,'f) ipc_env \<Rightarrow> string \<Rightarrow> nat \<Rightarrow> ('p,'n,'w,'t) cpe_agent \<Rightarrow> (string option \<times> ('p,'n,'w,'t) cpe_agent) option" where
  \<open>cpe_ipc_handle_request env req out_sz a =
     (if out_sz < 32 then Some (None, a)
      else
        (let op = (case json_get_str req ''op'' 48 of None \<Rightarrow> [] | Some s \<Rightarrow> s) in
         if op = [] then Some (respond_err out_sz ''unknown'' ''missing op'', a)
         else case read_op out_sz op req a of
           Some r \<Rightarrow> map_option (\<lambda>resp. (resp, a)) r
         | None \<Rightarrow>
             if op = ''emit'' then Some (op_emit env out_sz a)
             else if op = ''tcp_poll'' then op_tcp_poll env out_sz req a
             else if op = ''flow_tick'' then op_flow_tick env out_sz a
             else if op = ''flow_stats'' then
               map_option (\<lambda>(_, b). (fits out_sz (flow_stats_json (cpe_agent_flow_snapshot (ie_clk2 env) b) b), b)) (env_flow_tick env a)
             else if op = ''flow_list'' then
               map_option (\<lambda>(_, b). (flow_list_reply out_sz req (cpe_agent_flow_snapshot (ie_clk2 env) b) (ag_cfg b), b)) (env_flow_tick env a)
             else if op = ''tcp_emit'' then Some (op_tcp_emit env out_sz req a)
             else if op = ''tcp_reset'' then
               Some (fits out_sz ''{"ok":true,"op":"tcp_reset","data":true}'', cpe_agent_tcp_reset (ie_clk env) a)
             else Some (respond_err out_sz op ''unknown op'', a)))\<close>

lemmas ipc_defs [cdefs] =
  skip_blanks_def json_value_def json_get_str_def json_get_u32_def fits_def respond_err_def  bool_json_def
  remote_row_json_def prefix_row_json_def append_json_def rows_reply_def row_reply_def status_json_def config_json_def
  last_sample_json_def tcp_stats_json_def op_latency_def op_tcp_by_ip_def op_tcp_by_prefix_def env_flow_tick_def
  flow_stats_json_def flow_row_json_def flow_list_reply_def op_emit_def op_tcp_poll_def op_tcp_emit_def op_flow_tick_def
  help_json_def read_op_def cpe_ipc_handle_request_def

section \<open>The scanners\<close>

fun escape :: "string \<Rightarrow> string" where
  "escape [] = []"
| "escape (c # cs) = (if c = CHR 0x22 \<or> c = CHR 0x5C then [CHR 0x5C, c] else [c]) @ escape cs"

lemma unquote_escape: "length x \<le> room \<Longrightarrow> unquote room (escape x @ CHR 0x22 # rest) = x"
proof (induction x arbitrary: room)
  case Nil
  then show ?case by (cases rest) auto
next
  case (Cons c x)
  obtain d ds where d: "escape x @ CHR 0x22 # rest = d # ds" by (cases "escape x") auto
  show ?case using Cons.IH[of "room - 1"] Cons.prems d by (cases room) auto
qed

lemma length_unquote: "length (unquote room s) \<le> room"
proof (induction room s rule: unquote.induct)
  case (3 room c d cs)
  then show ?case by (cases room) auto
qed auto

lemma strstr_first:
  assumes "pat \<noteq> []" "hd pat \<notin> set pre"
  shows "strstr (pre @ pat @ rest) pat = Some (pat @ rest)"
  using assms(2)
proof (induction pre)
  case Nil
  then show ?case using assms(1) by (cases pat) auto
next
  case (Cons c pre)
  have "take (length pat) (c # pre @ pat @ rest) \<noteq> pat" using Cons.prems assms(1) by (cases pat) auto
  then show ?case using Cons by simp
qed

definition blanks :: "string \<Rightarrow> bool" where
  "blanks s \<longleftrightarrow> set s \<subseteq> {CHR '' '', CHR 0x09}"

lemma skip_blanks_append: "blanks b \<Longrightarrow> c \<noteq> CHR '' '' \<Longrightarrow> c \<noteq> CHR 0x09 \<Longrightarrow> skip_blanks (b @ c # r) = c # r"
  by (induction b) (auto simp: skip_blanks_def blanks_def)

lemma json_value_found:
  assumes "CHR 0x22 \<notin> set pre" "length key < 62" "blanks b" "blanks b'" "c \<noteq> CHR '' ''" "c \<noteq> CHR 0x09"
  shows "json_value (pre @ CHR 0x22 # key @ CHR 0x22 # b @ CHR '':'' # b' @ c # rest) key = Some (c # rest)"
proof -
  let ?pat = "CHR 0x22 # key @ [CHR 0x22]"
  have "strstr (pre @ ?pat @ b @ CHR '':'' # b' @ c # rest) ?pat = Some (?pat @ b @ CHR '':'' # b' @ c # rest)"
    by (rule strstr_first) (use assms(1) in auto)
  then show ?thesis using assms by (simp add: json_value_def skip_blanks_append)
qed

section \<open>Bounds of the responses\<close>

lemma fits_length: "fits n s = Some r \<Longrightarrow> r = s \<and> length r < n"
  by (auto simp: fits_def split: if_splits)

lemma append_rows_length:
  "append_rows cap first rows buf = Some (Some b) \<Longrightarrow>
     length b = length buf + sum_list (map length rows) + (length rows - (if first then 1 else 0)) \<and>
     (rows \<noteq> [] \<longrightarrow> length b < cap)"
proof (induction rows arbitrary: first buf)
  case (Cons row rows)
  let ?buf = "if first then buf else buf @ '',''"
  have a: "append_json cap ?buf row = Some (Some (?buf @ row))" "append_rows cap False rows (?buf @ row) = Some (Some b)"
    using Cons.prems by (auto simp: append_json_def split: if_splits)
  then have "length (?buf @ row) < cap" by (auto simp: append_json_def split: if_splits)
  then show ?case using Cons.IH[OF a(2)] by (cases "rows = []") auto
qed simp

lemma append_rows_safe: "length buf \<le> cap \<Longrightarrow> append_rows cap first rows buf \<noteq> None"
proof (induction rows arbitrary: first buf)
  case (Cons row rows)
  then show ?case by (auto simp: append_json_def split: option.split)
qed simp

lemma rows_reply_safe:
  assumes "length hdr \<le> n"
  shows "\<exists>r. rows_reply n hdr rows = Some r \<and> (\<forall>s. r = Some s \<longrightarrow> length s < n)"
proof -
  obtain r where r: "append_rows n True (take 64 rows) hdr = Some r" using append_rows_safe[OF assms] by blast
  then show ?thesis by (cases r) (auto simp: rows_reply_def)
qed

lemma row_reply_safe: "\<exists>r. row_reply n hdr row = Some r \<and> (\<forall>s. r = Some s \<longrightarrow> length s < n)"
  by (auto simp: row_reply_def append_json_def)

lemma flow_rows_length: "flow_rows n first es buf = Some b \<Longrightarrow> length buf < n \<Longrightarrow> length b < n"
  by (induction n first es buf rule: flow_rows.induct) (auto simp: Let_def split: if_splits)

lemma flow_list_length: "flow_list_reply n req snap cfg = Some s \<Longrightarrow> length s < n"
  using flow_rows_length[of n True _ _ _]
  by (auto simp: flow_list_reply_def Let_def fits_def split: if_splits option.splits)

lemma respond_err_length: "respond_err n op msg = Some s \<Longrightarrow> length s < n"
  by (auto simp: respond_err_def dest: fits_length)

section \<open>The handler\<close>

text \<open>What is relied on of the world: the conntrack library's queue is finite and netlink pads its messages.\<close>

definition env_ok :: "('c,'f) ipc_env \<Rightarrow> bool" where
  "env_ok env \<longleftrightarrow> env_finite (ie_nfct env) \<and> list_all rx_ok (ie_nflog_rx env)"

definition reply_ok :: "nat \<Rightarrow> string option \<Rightarrow> bool" where
  "reply_ok n r \<longleftrightarrow> (\<forall>s. r = Some s \<longrightarrow> length s < n)"

lemma reply_ok_fits [simp]: "reply_ok n (fits n s)" "reply_ok n (respond_err n op msg)" "reply_ok n (flow_list_reply n req snap cfg)" "reply_ok n None"
  using respond_err_length flow_list_length by (auto simp: reply_ok_def dest: fits_length)

lemma op_latency_ok [simp]: "reply_ok n (op_latency n a)"
  by (simp add: op_latency_def split: option.split)

lemma op_tcp_by_ok:
  assumes "64 \<le> n"
  shows "\<exists>r. op_tcp_by_ip n req a = Some r \<and> reply_ok n r" "\<exists>r. op_tcp_by_prefix n req a = Some r \<and> reply_ok n r"
  unfolding reply_ok_def op_tcp_by_ip_def op_tcp_by_prefix_def Let_def
  by (simp_all add: row_reply_safe rows_reply_safe assms order_trans[OF _ assms] split: option.split)
    (auto dest: fits_length)

lemma read_op_ok:
  assumes "64 \<le> n" "read_op n op req a = Some r"
  shows "\<exists>resp. r = Some resp \<and> reply_ok n resp"
proof -
  obtain r1 r2 where "op_tcp_by_ip n req a = Some r1" "reply_ok n r1" "op_tcp_by_prefix n req a = Some r2" "reply_ok n r2"
    using op_tcp_by_ok[OF assms(1), of req a] by blast
  note r = this
  show ?thesis using assms(2) by (auto simp: read_op_def r split: if_splits)
qed

lemma env_flow_tick_ok:
  assumes "env_ok env" "agent_inv a"
  shows "\<exists>w b. env_flow_tick env a = Some (w, b) \<and> agent_inv b \<and> ag_cfg b = ag_cfg a"
  using flow_tick_ok[of "ie_nfct env" a] assms unfolding env_flow_tick_def env_ok_def agent_inv_def flow_step_ok_def
  by metis

lemma tcp_poll_ok:
  assumes "env_ok env" "agent_inv a"
  shows "\<exists>w b. cpe_agent_tcp_poll (ie_pkt_clk env) (ie_nflog_open env) (ie_nflog_rx env) m a = Some (w, b) \<and> agent_inv b \<and> ag_cfg b = ag_cfg a"
  using tcp_poll_inv[of a "ie_nflog_rx env" "ie_pkt_clk env" "ie_nflog_open env" m] assms
  unfolding env_ok_def agent_inv_def by auto

lemma op_emit_ok:
  assumes "agent_inv a" "op_emit env n a = (r, b)"
  shows "agent_inv b \<and> reply_ok n r \<and> ag_cfg b = ag_cfg a"
  using assms emit_flush_inv[OF assms(1), of "ie_post env" "ie_open_file env" "ie_write env" "ie_flushed env" "ie_closed env" "ie_stdout env"]
    emit_flush_frame(1)[of "ie_post env" "ie_open_file env" "ie_write env" "ie_flushed env" "ie_closed env" "ie_stdout env" a]
  by (auto simp: op_emit_def Let_def split_beta)

lemma op_tcp_emit_ok:
  assumes "agent_inv a" "op_tcp_emit env n req a = (r, b)"
  shows "agent_inv b \<and> reply_ok n r \<and> ag_cfg b = ag_cfg a"
proof -
  let ?e = "cpe_agent_tcp_emit (ie_sort_remotes env) (ie_sort_prefixes env) (ie_clk env) (ie_clk2 env)
    (unat (case json_get_u32 req ''top_n'' of None \<Rightarrow> 0 | Some n \<Rightarrow> n)) a"
  have "b = snd ?e" "reply_ok n r" using assms(2) by (auto simp: op_tcp_emit_def Let_def split_beta)
  then show ?thesis
    using tcp_emit_core[of a "ie_sort_remotes env" "ie_sort_prefixes env" "ie_clk env" "ie_clk2 env"] assms(1)
    by (simp add: agent_inv_def)
qed

lemma handle_request_ok:
  assumes "env_ok env" "agent_inv a" "64 \<le> n"
  shows "\<exists>resp b. cpe_ipc_handle_request env req n a = Some (resp, b) \<and> agent_inv b \<and> reply_ok n resp \<and> ag_cfg b = ag_cfg a"
proof -
  define op where "op = (case json_get_str req ''op'' 48 of None \<Rightarrow> [] | Some s \<Rightarrow> s)"
  obtain w b where fl: "env_flow_tick env a = Some (w, b)" "agent_inv b" "ag_cfg b = ag_cfg a"
    using env_flow_tick_ok[OF assms(1,2)] by blast
  obtain w' b' where tp: "cpe_agent_tcp_poll (ie_pkt_clk env) (ie_nflog_open env) (ie_nflog_rx env)
      (unat (case json_get_u32 req ''max'' of None \<Rightarrow> 64 | Some m \<Rightarrow> m)) a = Some (w', b')" "agent_inv b'" "ag_cfg b' = ag_cfg a"
    using tcp_poll_ok[OF assms(1,2)] by blast
  obtain r1 b1 where em: "op_emit env n a = (r1, b1)" by fastforce
  obtain r2 b2 where te: "op_tcp_emit env n req a = (r2, b2)" by fastforce
  have rs: "agent_inv (cpe_agent_tcp_reset (ie_clk env) a)" "ag_cfg (cpe_agent_tcp_reset (ie_clk env) a) = ag_cfg a"
    using assms(2) tcp_reset_inv[of "ie_clk env" a] by (simp_all add: agent_inv_def cpe_agent_tcp_reset_def Let_def)
  note e = op_emit_ok[OF assms(2) em] op_tcp_emit_ok[OF assms(2) te]
  have n: "\<not> n < 32" using assms(3) by simp
  show ?thesis
  proof (cases "op = []")
    case True
    then show ?thesis using n assms(2) by (simp add: cpe_ipc_handle_request_def op_def[symmetric])
  next
    case False
    show ?thesis
    proof (cases "read_op n op req a")
      case (Some r)
      then show ?thesis using read_op_ok[OF assms(3) Some] False n assms(2)
        by (auto simp: cpe_ipc_handle_request_def op_def[symmetric])
    next
      case None
      then show ?thesis unfolding cpe_ipc_handle_request_def Let_def op_def[symmetric]
        using False n fl tp em te e rs assms(2)
        by (simp add: op_tcp_poll_def op_flow_tick_def split: if_split)
    qed
  qed
qed

lemma dec_min: "1 \<le> length (dec n)" "1 \<le> length (u16_dec h)" "1 \<le> length (u32_dec w)" "1 \<le> length (u64_dec d)"
  by (simp_all add: u16_dec_def u32_dec_def u64_dec_def Suc_le_eq)

lemma remote_row_min: "139 \<le> length (remote_row_json r)"
proof -
  have "6 \<le> length (fixed 4 (cpe_tcp_loss_hint (rm_syn_count r) (rm_fin_count r) (rm_rst_count r) (rm_syn_retrans r)))"
    unfolding fixed_def Let_def
    using dec_min(1)[of "nat (rne (\<bar>cpe_tcp_loss_hint (rm_syn_count r) (rm_fin_count r) (rm_rst_count r) (rm_syn_retrans r)\<bar> * 10 ^ 4)) div 10 ^ 4"]
    by (simp add: length_dec0)
  then show ?thesis
    using dec_min(2)[of "rm_remote_port r"] dec_min(2)[of "rm_local_port r"] dec_min(3)[of "rm_syn_count r"]
      dec_min(3)[of "rm_fin_count r"] dec_min(3)[of "rm_rst_count r"] dec_min(3)[of "rm_syn_retrans r"]
      dec_min(3)[of "rm_pkt_count r"] dec_min(4)[of "rm_bytes_est r"]
    by (simp add: remote_row_json_def)
qed

lemma rows_sum_min: "(\<And>r. m \<le> length (f r)) \<Longrightarrow> m * length rs \<le> sum_list (map length (map f rs))"
  by (induction rs) (auto intro: add_mono)

lemma rows_overflow:
  assumes "\<And>r. m \<le> length (f r)" "length hdr \<le> n" "n \<le> length hdr + m * min 64 (length rs) + min 64 (length rs)"
  shows "rows_reply n hdr (map f rs) = Some None"
proof -
  obtain r where r: "append_rows n True (take 64 (map f rs)) hdr = Some r" using append_rows_safe[OF assms(2)] by blast
  show ?thesis
  proof (cases r)
    case (Some b)
    have "m * min 64 (length rs) \<le> sum_list (map length (take 64 (map f rs)))"
      using rows_sum_min[of m f "take 64 rs", OF assms(1)] by (simp add: take_map min.commute)
    then have "n \<le> length b + 3" using append_rows_length[of n True "take 64 (map f rs)" hdr b] r Some assms(3) by simp
    then show ?thesis using r Some by (simp add: rows_reply_def)
  qed (use r in \<open>simp add: rows_reply_def\<close>)
qed

section \<open>Properties\<close>

text \<open>a quoted value is read back: whatever text \<open>x\<close> a client puts under a key, escaping quotes and
  backslashes, the scanner returns \<open>x\<close>, with any blanks around the colon and anything behind, as
  long as it fits the output buffer and no quote precedes the key.\<close>

theorem json_get_str_roundtrip:
  assumes "CHR 0x22 \<notin> set pre" "length key < 62" "blanks b" "blanks b'" "length x < n"
  shows "json_get_str (pre @ CHR 0x22 # key @ CHR 0x22 # b @ CHR '':'' # b' @ CHR 0x22 # escape x @ CHR 0x22 # rest) key n = Some x"
  using json_value_found[OF assms(1-4), of "CHR 0x22" "escape x @ CHR 0x22 # rest"] unquote_escape[of x "n - 1" rest] assms(5)
  by (simp add: json_get_str_def)

theorem json_get_str_roundtrip_witness:
  \<open>json_get_str (''{ "op" : "a'' @ [CHR 0x5C, CHR 0x22] @ ''b"}'') ''op'' 48 = Some ''a"b''\<close>
  using json_get_str_roundtrip[of "''{ ''" "''op''" "'' ''" "'' ''" "[CHR ''a'', CHR 0x22, CHR ''b'']" 48 "''}''"]
  by (simp add: blanks_def)

text \<open>C9: every request line, whatever its bytes, is answered: the handler returns, keeps the
  invariant of the agent, never changes the configuration, and a response fits the
  buffer it was given.\<close>

theorem ipc_request_safe:
  assumes "env_ok env" "agent_inv a" "64 \<le> n"
  shows "\<exists>resp b. cpe_ipc_handle_request env req n a = Some (resp, b) \<and> agent_inv b \<and> ag_cfg b = ag_cfg a \<and>
    (case resp of None \<Rightarrow> True | Some s \<Rightarrow> length s < n)"
  using handle_request_ok[OF assms, of req] by (auto simp: reply_ok_def split: option.split)

definition quiet_env :: "(nfct_event list, unit) ipc_env" where
  "quiet_env = \<lparr> ie_post = (\<lambda>_ _ _. True), ie_open_file = (\<lambda>_. None), ie_write = (\<lambda>_ _. None), ie_flushed = (\<lambda>_. True),
     ie_closed = (\<lambda>_. True), ie_stdout = (), ie_nflog_open = (\<lambda>_ _. Inl ''denied''), ie_nflog_rx = [], ie_pkt_clk = (\<lambda>_ _. clk0),
     ie_sort_remotes = id, ie_sort_prefixes = id, ie_nfct = list_env, ie_ev_clk = (\<lambda>_ _. clk0), ie_ev_now = clk0, ie_ev_rx = [],
     ie_dump_clk = (\<lambda>_ _. clk0), ie_dump_now = clk0, ie_dump_rx = [], ie_dump_polls = [], ie_row_clk = (\<lambda>_. clk0),
     ie_clk = clk0, ie_clk2 = clk0 \<rparr>"

lemma quiet_env_ok: "env_ok quiet_env"
  by (simp add: env_ok_def quiet_env_def list_env_finite)

theorem ipc_request_safe_witness:
  \<open>\<exists>resp b. cpe_ipc_handle_request quiet_env ''{"op":"tcp_poll","max":3}'' 8192 agent00 = Some (resp, b) \<and> agent_inv b \<and>
     ag_cfg b = ag_cfg agent00 \<and> (case resp of None \<Rightarrow> True | Some s \<Rightarrow> length s < 8192)\<close>
  by (rule ipc_request_safe[OF quiet_env_ok agent00_agent_inv]) simp

text \<open>querying is free of side effects: only the seven operations that collect, emit or reset can
  change the agent.\<close>

theorem ipc_queries_read_only:
  assumes "cpe_ipc_handle_request env req n a = Some (resp, b)"
    and "json_get_str req ''op'' 48 \<notin> Some ` {''emit'', ''tcp_poll'', ''flow_tick'', ''flow_stats'', ''flow_list'', ''tcp_emit'', ''tcp_reset''}"
  shows "b = a"
proof -
  define op where "op = (case json_get_str req ''op'' 48 of None \<Rightarrow> [] | Some s \<Rightarrow> s)"
  have "op \<notin> {''emit'', ''tcp_poll'', ''flow_tick'', ''flow_stats'', ''flow_list'', ''tcp_emit'', ''tcp_reset''}"
    using assms(2) by (auto simp: op_def split: option.splits)
  then show ?thesis using assms(1) unfolding cpe_ipc_handle_request_def Let_def op_def[symmetric]
    by (simp split: if_split_asm option.split_asm)
qed

theorem ipc_queries_read_only_witness:
  \<open>snd (the (cpe_ipc_handle_request quiet_env ''{"op":"ping"}'' 8192 agent00)) = agent00\<close>
proof -
  obtain resp b where h: \<open>cpe_ipc_handle_request quiet_env ''{"op":"ping"}'' 8192 agent00 = Some (resp, b)\<close>
    using handle_request_ok[OF quiet_env_ok agent00_agent_inv, of 8192 \<open>''{"op":"ping"}''\<close>] by auto
  have "b = agent00"
    by (rule ipc_queries_read_only[OF h]) (auto simp: json_get_str_def json_value_def skip_blanks_def)
  then show ?thesis using h by simp
qed

text \<open>C23: the list of remotes cannot be read when it is long: with 59 or more of the 256 remotes in the
  table, every \<^verbatim>\<open>tcp_by_ip\<close> request without an address fails, because the rows it wants to
  return do not fit the 8192-byte response of the server.\<close>

theorem tcp_by_ip_fails_when_busy:
  assumes "json_get_str req ''op'' 48 = Some ''tcp_by_ip''" "json_get_str req ''ip'' 48 = None"
    and "59 \<le> length (sn_remotes (tc_snap (ag_tcp a)))"
  shows "cpe_ipc_handle_request env req 8192 a = Some (None, a)"
proof -
  let ?m = "min 64 (length (sn_remotes (tc_snap (ag_tcp a))))"
  have "59 \<le> ?m" using assms(3) by simp
  then have \<open>8192 \<le> length ''{"ok":true,"op":"tcp_by_ip","data":['' + 139 * ?m + ?m\<close> by simp
  then have \<open>rows_reply 8192 ''{"ok":true,"op":"tcp_by_ip","data":['' (map remote_row_json (sn_remotes (tc_snap (ag_tcp a)))) = Some None\<close>
    by (intro rows_overflow[of 139] remote_row_min) simp_all
  then show ?thesis using assms(1,2)
    by (simp add: cpe_ipc_handle_request_def read_op_def op_tcp_by_ip_def cpe_agent_tcp_snapshot_def)
qed

definition busy_agent :: "(unit, unit, unit, unit) cpe_agent" where
  "busy_agent = agent00\<lparr>ag_tcp := (ag_tcp agent00)\<lparr>tc_snap := snapshot0\<lparr>sn_remotes := replicate 59 remote0\<rparr>\<rparr>\<rparr>"

theorem tcp_by_ip_fails_when_busy_witness:
  \<open>cpe_ipc_handle_request quiet_env ''{"op":"tcp_by_ip"}'' 8192 busy_agent = Some (None, busy_agent)\<close>
  by (rule tcp_by_ip_fails_when_busy)
    (simp_all add: busy_agent_def snapshot0_def json_get_str_def json_value_def skip_blanks_def)

end
