(* ===== verification/Ipc_Server.thy ===== *)
theory Ipc_Server
  imports Ipc_Request
begin

text \<open>
  \<^verbatim>\<open>agent/ipc_server.c\<close>, part two: the Unix-socket server. Results of system calls are
  arguments: what \<^verbatim>\<open>accept\<close> and \<^verbatim>\<open>recv\<close> return, whether \<^verbatim>\<open>send\<close> succeeds. The calls with an effect
  outside (send, close, unlink) are recorded in order in the log of the server. \<open>world j\<close> is
  what the \<open>j\<close>-th request of a call consults.
\<close>

section \<open>State\<close>

datatype ipc_action = Send int string | Close int | Unlink string

text \<open>\<open>sv_rbuf ! i\<close> is the first \<^verbatim>\<open>rlen[i]\<close> bytes of \<^verbatim>\<open>rbuf[i]\<close>.\<close>

record ('p,'n,'w,'t) ipc_server =
  sv_agent :: "('p,'n,'w,'t) cpe_agent"
  sv_listen_fd :: int
  sv_clients :: "int list"
  sv_path :: string
  sv_rbuf :: "string list"
  sv_log :: "ipc_action list"

definition mkdir_p_parent :: "'fs mkdir \<Rightarrow> string \<Rightarrow> 'fs \<Rightarrow> bool \<times> 'fs" where
  "mkdir_p_parent mk path fs =
     (if path = [] \<or> length path \<ge> 256 then (False, fs)
      else case last_slash 0 path None of None \<Rightarrow> (True, fs) | Some 0 \<Rightarrow> (True, fs)
      | Some i \<Rightarrow>
          (let dir = take i path; (ok, fs1) = mk fs dir in
           if ok then (True, fs1)
           else case last_slash 0 dir None of None \<Rightarrow> (False, fs1) | Some 0 \<Rightarrow> (False, fs1)
           | Some j \<Rightarrow>
               (let (ok2, fs2) = mk fs1 (take j dir) in
                if \<not> ok2 then (False, fs2) else mk fs2 dir)))"

text \<open>
  \<^verbatim>\<open>cpe_ipc_server_create\<close>: \<open>sock\<close>, \<open>bind_err\<close> and \<open>listen_err\<close> are the results of the system
  calls, as error texts; the errors carry the log of what was undone. The directories and
  the stale socket are handled best-effort and do not decide the result.
\<close>

definition cpe_ipc_server_create ::
  "bool \<Rightarrow> string + int \<Rightarrow> string option \<Rightarrow> string option \<Rightarrow> ('p,'n,'w,'t) cpe_agent \<Rightarrow> string option \<Rightarrow>
   (string \<times> ipc_action list) + ('p,'n,'w,'t) ipc_server" where
  "cpe_ipc_server_create calloc_ok sock bind_err listen_err a pathp =
     (if \<not> calloc_ok then Inl (''oom'', [])
      else
        (let p = (case pathp of None \<Rightarrow> [] | Some q \<Rightarrow> q);
             path = cstr 256 (if p = [] then ''/var/run/netforensics/cpe_agent.sock'' else p);
             lg = [Unlink path] in
         case sock of Inl err \<Rightarrow> Inl (''socket: '' @ err, lg)
         | Inr fd \<Rightarrow>
             if length path \<ge> 108 then Inl (''socket path too long'', lg @ [Close fd])
             else case bind_err of Some err \<Rightarrow> Inl (''bind '' @ path @ '': '' @ err, lg @ [Close fd])
             | None \<Rightarrow>
                 (case listen_err of Some err \<Rightarrow> Inl (''listen: '' @ err, lg @ [Close fd, Unlink path])
                  | None \<Rightarrow> Inr \<lparr> sv_agent = a, sv_listen_fd = fd, sv_clients = replicate 8 (-1), sv_path = path,
                                  sv_rbuf = replicate 8 [], sv_log = lg \<rparr>)))"

definition cpe_ipc_server_destroy :: "('p,'n,'w,'t) ipc_server \<Rightarrow> ipc_action list" where
  "cpe_ipc_server_destroy s =
     sv_log s @ map Close (filter (\<lambda>c. c \<ge> 0) (sv_clients s)) @
     (if sv_listen_fd s \<ge> 0 then [Close (sv_listen_fd s)] else []) @
     (if sv_path s \<noteq> [] then [Unlink (sv_path s)] else [])"

definition close_client :: "nat \<Rightarrow> ('p,'n,'w,'t) ipc_server \<Rightarrow> ('p,'n,'w,'t) ipc_server" where
  "close_client idx s =
     (if idx \<ge> 8 then s
      else
        (let s1 = (if sv_clients s ! idx \<ge> 0
                   then s\<lparr>sv_clients := (sv_clients s)[idx := -1], sv_log := sv_log s @ [Close (sv_clients s ! idx)]\<rparr> else s)
         in s1\<lparr>sv_rbuf := (sv_rbuf s1)[idx := []]\<rparr>))"

section \<open>Connections\<close>

text \<open>The accept loop, over the descriptors \<^verbatim>\<open>accept\<close> returns until it fails.\<close>

fun accept_clients :: "int list \<Rightarrow> ('p,'n,'w,'t) ipc_server \<Rightarrow> nat \<times> ('p,'n,'w,'t) ipc_server" where
  "accept_clients [] s = (0, s)"
| "accept_clients (cfd # cfds) s =
     (if cfd < 0 then (0, s)
      else case find_idx (\<lambda>c. c < 0) (sv_clients s) of
        None \<Rightarrow> accept_clients cfds (s\<lparr>sv_log := sv_log s @ [Close cfd]\<rparr>)
      | Some slot \<Rightarrow>
          (let (n, s') = accept_clients cfds (s\<lparr>sv_clients := (sv_clients s)[slot := cfd], sv_rbuf := (sv_rbuf s)[slot := []]\<rparr>)
           in (n + 1, s')))"

section \<open>Lines\<close>

definition take_line :: "string \<Rightarrow> (string \<times> string) option" where
  "take_line buf =
     (if CHR 0x0A \<in> set buf
      then Some (takeWhile (\<lambda>c. c \<noteq> CHR 0x0A) buf, tl (dropWhile (\<lambda>c. c \<noteq> CHR 0x0A) buf)) else None)"

lemma take_line_shorter: "take_line buf = Some (line, rest) \<Longrightarrow> length rest < length buf"
  using length_dropWhile_le[of "\<lambda>c. c \<noteq> CHR 0x0A" buf]
  by (cases "dropWhile (\<lambda>c. c \<noteq> CHR 0x0A) buf") (auto simp: take_line_def split: if_splits)

text \<open>The request in a line: one carriage return at its end is dropped, a NUL ends it.\<close>

definition request_of :: "string \<Rightarrow> string" where
  "request_of line = takeWhile (\<lambda>c. c \<noteq> CHR 0x00) (if line \<noteq> [] \<and> last line = CHR 0x0D then butlast line else line)"

definition wire :: "string option \<Rightarrow> string" where
  \<open>wire r =
     (let resp = (case r of None \<Rightarrow> ''{"ok":false,"op":"unknown","error":"handler"}'' | Some s \<Rightarrow> s)
      in if length resp + 1 < 8192 then resp @ [CHR 0x0A] else resp)\<close>

text \<open>
  The line loop of \<^verbatim>\<open>service_client\<close> on the buffered bytes. The result: still connected, requests
  handled, bytes left, agent, log.
\<close>

function client_lines ::
  "(nat \<Rightarrow> ('c,'f) ipc_env) \<Rightarrow> (nat \<Rightarrow> bool) \<Rightarrow> int \<Rightarrow> nat \<Rightarrow> string \<Rightarrow> ('p,'n,'w,'t) cpe_agent \<Rightarrow> ipc_action list \<Rightarrow>
   (bool \<times> nat \<times> string \<times> ('p,'n,'w,'t) cpe_agent \<times> ipc_action list) option" where
  "client_lines world send_ok fd handled buf a lg =
     (case take_line buf of
        None \<Rightarrow> if length buf \<ge> 8191 then Some (False, handled, [], a, lg @ [Close fd]) else Some (True, handled, buf, a, lg)
      | Some (line, rest) \<Rightarrow>
          (case cpe_ipc_handle_request (world handled) (request_of line) 8192 a of None \<Rightarrow> None
           | Some (r, b) \<Rightarrow>
               if \<not> send_ok handled then Some (False, handled, [], b, lg @ [Close fd])
               else client_lines world send_ok fd (handled + 1) rest b (lg @ [Send fd (wire r)])))"
  by pat_completeness auto
termination
  by (relation "measure (\<lambda>(world, send_ok, fd, handled, buf, a, lg). length buf)") (auto dest: take_line_shorter)

declare client_lines.simps [simp del]

datatype client_read = Data string | Again | Failed | Eof

definition service_client ::
  "(nat \<Rightarrow> ('c,'f) ipc_env) \<Rightarrow> (nat \<Rightarrow> bool) \<Rightarrow> nat \<Rightarrow> client_read \<Rightarrow> ('p,'n,'w,'t) ipc_server \<Rightarrow>
   (nat \<times> ('p,'n,'w,'t) ipc_server) option" where
  "service_client world send_ok idx rd s =
     (if sv_clients s ! idx < 0 then Some (0, s)
      else case rd of Again \<Rightarrow> Some (0, s)
      | Failed \<Rightarrow> Some (0, close_client idx s)
      | Eof \<Rightarrow> Some (0, close_client idx s)
      | Data d \<Rightarrow>
          (case client_lines world send_ok (sv_clients s ! idx) 0 (sv_rbuf s ! idx @ d) (sv_agent s) (sv_log s) of None \<Rightarrow> None
           | Some (conn, handled, buf, a, lg) \<Rightarrow>
               Some (handled, s\<lparr>sv_agent := a, sv_log := lg, sv_rbuf := (sv_rbuf s)[idx := buf],
                                sv_clients := (if conn then sv_clients s else (sv_clients s)[idx := -1])\<rparr>)))"

fun poll_clients ::
  "(nat \<Rightarrow> nat \<Rightarrow> ('c,'f) ipc_env) \<Rightarrow> (nat \<Rightarrow> nat \<Rightarrow> bool) \<Rightarrow> (nat \<Rightarrow> client_read) \<Rightarrow> nat list \<Rightarrow> nat \<Rightarrow>
   ('p,'n,'w,'t) ipc_server \<Rightarrow> (nat \<times> ('p,'n,'w,'t) ipc_server) option" where
  "poll_clients world send_ok rd [] handled s = Some (handled, s)"
| "poll_clients world send_ok rd (i # idxs) handled s =
     (if sv_clients s ! i \<ge> 0 then
        (case service_client (world i) (send_ok i) i (rd i) s of None \<Rightarrow> None
         | Some (n, s') \<Rightarrow> poll_clients world send_ok rd idxs (handled + n) s')
      else poll_clients world send_ok rd idxs handled s)"

definition cpe_ipc_server_poll ::
  "(nat \<Rightarrow> nat \<Rightarrow> ('c,'f) ipc_env) \<Rightarrow> (nat \<Rightarrow> nat \<Rightarrow> bool) \<Rightarrow> (nat \<Rightarrow> client_read) \<Rightarrow> int list \<Rightarrow>
   ('p,'n,'w,'t) ipc_server \<Rightarrow> (nat \<times> ('p,'n,'w,'t) ipc_server) option" where
  "cpe_ipc_server_poll world send_ok rd accepts s =
     (if sv_listen_fd s < 0 then Some (0, s)
      else poll_clients world send_ok rd [0..<8] 0 (snd (accept_clients accepts s)))"

lemmas ipc_server_defs [cdefs] =
  mkdir_p_parent_def cpe_ipc_server_create_def cpe_ipc_server_destroy_def close_client_def take_line_def request_of_def
  wire_def client_lines.simps service_client_def cpe_ipc_server_poll_def

section \<open>Framing\<close>

text \<open>The complete lines of a text and what follows the last of them.\<close>

fun split_lines :: "string \<Rightarrow> string list \<times> string" where
  "split_lines [] = ([], [])"
| "split_lines (c # cs) =
     (let (ls, r) = split_lines cs in
      if c = CHR 0x0A then ([] # ls, r)
      else case ls of [] \<Rightarrow> ([], c # r) | l # ls' \<Rightarrow> ((c # l) # ls', r))"

lemma split_lines_none: "take_line buf = None \<Longrightarrow> split_lines buf = ([], buf)"
  by (induction buf) (auto simp: take_line_def split: if_splits)

lemma split_lines_some: "take_line buf = Some (l, rest) \<Longrightarrow> split_lines buf = (l # fst (split_lines rest), snd (split_lines rest))"
  by (induction buf arbitrary: l) (auto simp: take_line_def Let_def split_beta split: if_splits)

lemma split_lines_append:
  "split_lines (x @ y) = (fst (split_lines x) @ fst (split_lines (snd (split_lines x) @ y)), snd (split_lines (snd (split_lines x) @ y)))"
proof (induction x)
  case (Cons c x)
  then show ?case by (cases "fst (split_lines x)") (auto simp: Let_def split_beta)
qed simp

lemma split_lines_idem: "split_lines (snd (split_lines x)) = ([], snd (split_lines x))"
  by (induction x) (auto simp: Let_def split_beta split: list.splits)

text \<open>Answering a list of request lines, one after the other.\<close>

fun answer ::
  "(nat \<Rightarrow> ('c,'f) ipc_env) \<Rightarrow> int \<Rightarrow> nat \<Rightarrow> string list \<Rightarrow> ('p,'n,'w,'t) cpe_agent \<Rightarrow> ipc_action list \<Rightarrow>
   (('p,'n,'w,'t) cpe_agent \<times> ipc_action list) option" where
  "answer world fd k [] a lg = Some (a, lg)"
| "answer world fd k (l # ls) a lg =
     (case cpe_ipc_handle_request (world k) (request_of l) 8192 a of None \<Rightarrow> None
      | Some (r, b) \<Rightarrow> answer world fd (k + 1) ls b (lg @ [Send fd (wire r)]))"

lemma answer_append:
  "answer world fd k (xs @ ys) a lg =
     (case answer world fd k xs a lg of None \<Rightarrow> None | Some (b, lg') \<Rightarrow> answer world fd (k + length xs) ys b lg')"
  by (induction xs arbitrary: k a lg) (auto split: option.split)

lemma answer_shift: "answer (\<lambda>j. world (n + j)) fd k ls a lg = answer world fd (n + k) ls a lg"
  by (induction ls arbitrary: k a lg) (auto split: option.split)

lemma client_lines_answer:
  fixes a :: "('p,'n,'w,'t) cpe_agent"
  assumes "\<And>k. send_ok k" "length (snd (split_lines buf)) < 8191"
  shows "client_lines world send_ok fd k buf a lg =
    (case answer world fd k (fst (split_lines buf)) a lg of None \<Rightarrow> None
     | Some (b, lg') \<Rightarrow> Some (True, k + length (fst (split_lines buf)), snd (split_lines buf), b, lg'))"
  using assms(2)
proof (induction "length buf" arbitrary: buf k a lg rule: less_induct)
  case less
  show ?case
  proof (cases "take_line buf")
    case None
    then show ?thesis using split_lines_none[OF None] less.prems by (subst client_lines.simps) simp
  next
    case (Some x)
    obtain l rest where x: "x = (l, rest)" by (cases x)
    note sp = split_lines_some[OF Some[unfolded x]]
    have "client_lines world send_ok fd (k + 1) rest b lg' =
      (case answer world fd (k + 1) (fst (split_lines rest)) b lg' of None \<Rightarrow> None
       | Some (b, lg') \<Rightarrow> Some (True, k + 1 + length (fst (split_lines rest)), snd (split_lines rest), b, lg'))" for b :: "('p,'n,'w,'t) cpe_agent" and lg'
      using less(1)[OF take_line_shorter[OF Some[unfolded x]], of "k + 1" b lg'] less.prems sp by simp
    then show ?thesis using Some x sp assms(1) by (subst client_lines.simps) (simp split: option.split prod.split)
  qed
qed

section \<open>Invariant\<close>

text \<open>Eight slots, room for the terminating NUL in every receive buffer, and the agent's own invariant.\<close>

definition server_inv :: "('p,'n,'w,'t) ipc_server \<Rightarrow> bool" where
  "server_inv s \<longleftrightarrow> length (sv_clients s) = 8 \<and> length (sv_rbuf s) = 8 \<and>
     list_all (\<lambda>b. length b < 8191) (sv_rbuf s) \<and> agent_inv (sv_agent s)"

lemma list_all_upd: "list_all P xs \<Longrightarrow> P x \<Longrightarrow> list_all P (xs[i := x])"
  by (auto simp: list_all_iff dest!: set_update_subset_insert[THEN subsetD])

lemma close_client_inv: "server_inv s \<Longrightarrow> server_inv (close_client i s)"
  by (auto simp: server_inv_def close_client_def Let_def list_all_upd)

lemma accept_inv: "server_inv s \<Longrightarrow> server_inv (snd (accept_clients cfds s))"
proof (induction cfds arbitrary: s)
  case (Cons c cfds)
  then show ?case by (auto simp: Let_def split_beta server_inv_def list_all_upd split: option.split)
qed simp

lemma client_lines_ok:
  fixes a :: "('p,'n,'w,'t) cpe_agent"
  assumes "\<And>j. env_ok (world j)" "agent_inv a"
  shows "\<exists>conn h rest b lg'. client_lines world send_ok fd k buf a lg = Some (conn, h, rest, b, lg') \<and>
    agent_inv b \<and> length rest < 8191"
  using assms(2)
proof (induction "length buf" arbitrary: buf k a lg rule: less_induct)
  case less
  show ?case
  proof (cases "take_line buf")
    case None
    then show ?thesis using less.prems by (subst client_lines.simps) auto
  next
    case (Some x)
    obtain l rest where x: "x = (l, rest)" by (cases x)
    obtain r b where h: "cpe_ipc_handle_request (world k) (request_of l) 8192 a = Some (r, b)" "agent_inv b"
      using handle_request_ok[OF assms(1) less.prems, of 8192 k "request_of l"] by auto
    from less(1)[OF take_line_shorter[OF Some[unfolded x]] h(2), of "k + 1" "lg @ [Send fd (wire r)]"]
    show ?thesis using Some x h by (subst client_lines.simps) auto
  qed
qed

lemma service_inv:
  assumes "\<And>j. env_ok (world j)" "server_inv s" "i < 8"
  shows "\<exists>n s'. service_client world send_ok i rd s = Some (n, s') \<and> server_inv s'"
proof (cases rd)
  case (Data d)
  obtain conn h rest b lg' where "client_lines world send_ok (sv_clients s ! i) 0 (sv_rbuf s ! i @ d) (sv_agent s) (sv_log s) =
      Some (conn, h, rest, b, lg')" "agent_inv b" "length rest < 8191"
    using client_lines_ok[of world "sv_agent s" send_ok "sv_clients s ! i" 0 "sv_rbuf s ! i @ d" "sv_log s"] assms(1,2)
    unfolding server_inv_def by blast
  then show ?thesis using Data assms(2) by (auto simp: service_client_def server_inv_def list_all_upd)
qed (use assms(2) close_client_inv[OF assms(2)] in \<open>auto simp: service_client_def\<close>)

lemma poll_clients_inv:
  assumes "\<And>i j. env_ok (world i j)" "server_inv s" "list_all (\<lambda>i. i < 8) idxs"
  shows "\<exists>n s'. poll_clients world send_ok rd idxs k s = Some (n, s') \<and> server_inv s'"
  using assms(2,3)
proof (induction idxs arbitrary: s k)
  case (Cons i idxs)
  have "\<exists>n s'. service_client (world i) (send_ok i) i (rd i) s = Some (n, s') \<and> server_inv s'"
    using assms(1) Cons.prems by (intro service_inv) simp_all
  then show ?case using Cons by auto
qed simp

section \<open>Descriptors\<close>

text \<open>The descriptors of connected clients, and those closed in a log.\<close>

definition open_fds :: "('p,'n,'w,'t) ipc_server \<Rightarrow> int multiset" where
  "open_fds s = mset (filter (\<lambda>c. 0 \<le> c) (sv_clients s))"

fun closed_fds :: "ipc_action list \<Rightarrow> int multiset" where
  "closed_fds [] = {#}"
| "closed_fds (Close fd # lg) = add_mset fd (closed_fds lg)"
| "closed_fds (Send _ _ # lg) = closed_fds lg"
| "closed_fds (Unlink _ # lg) = closed_fds lg"

lemma closed_fds_append [simp]: "closed_fds (x @ y) = closed_fds x + closed_fds y"
  by (induction x rule: closed_fds.induct) auto

lemma closed_fds_closes [simp]: "closed_fds (map Close fds) = mset fds"
  by (induction fds) auto

lemma mset_filter_update:
  "i < length xs \<Longrightarrow> mset (filter P (xs[i := y])) + (if P (xs ! i) then {#xs ! i#} else {#}) =
     mset (filter P xs) + (if P y then {#y#} else {#})"
proof (induction xs arbitrary: i)
  case (Cons x xs)
  show ?case
  proof (cases i)
    case (Suc j)
    then show ?thesis using Cons.IH[of j] Cons.prems by (auto split: if_splits)
  qed (use Cons.prems in auto)
qed simp

lemma accept_fds:
  assumes "list_all (\<lambda>c. 0 \<le> c) cfds" "accept_clients cfds s = (n, s')"
  shows "open_fds s' + closed_fds (sv_log s') = open_fds s + closed_fds (sv_log s) + mset cfds"
  using assms
proof (induction cfds arbitrary: s n)
  case (Cons c cfds)
  show ?case
  proof (cases "find_idx (\<lambda>c. c < 0) (sv_clients s)")
    case None
    then show ?thesis using Cons.IH[of "s\<lparr>sv_log := sv_log s @ [Close c]\<rparr>" n] Cons.prems by (simp add: open_fds_def)
  next
    case (Some i)
    let ?s = "s\<lparr>sv_clients := (sv_clients s)[i := c], sv_rbuf := (sv_rbuf s)[i := []]\<rparr>"
    have i: "i < length (sv_clients s)" "sv_clients s ! i < 0" using find_idx_SomeD[OF Some] by auto
    have "open_fds ?s = open_fds s + {#c#}"
      using mset_filter_update[OF i(1), of "\<lambda>c. 0 \<le> c" c] i(2) Cons.prems(1) by (simp add: open_fds_def)
    then show ?thesis using Cons.IH[of ?s "n - 1"] Cons.prems Some
      by (cases "accept_clients cfds ?s") (auto simp: Let_def)
  qed
qed simp

lemma client_lines_closed:
  "client_lines world send_ok fd k buf a lg = Some (conn, h, rest, b, lg') \<Longrightarrow>
     closed_fds lg' = closed_fds lg + (if conn then {#} else {#fd#})"
proof (induction world send_ok fd k buf a lg rule: client_lines.induct)
  case (1 world send_ok fd k buf a lg)
  show ?case
  proof (cases "take_line buf")
    case None
    then show ?thesis using "1.prems" by (subst (asm) client_lines.simps) (auto split: if_splits)
  next
    case (Some x)
    obtain l r where x: "x = (l, r)" by (cases x)
    obtain rp b' where hr: "cpe_ipc_handle_request (world k) (request_of l) 8192 a = Some (rp, b')"
      using "1.prems" Some x by (subst (asm) client_lines.simps) (auto split: option.splits)
    show ?thesis
    proof (cases "send_ok k")
      case True
      then show ?thesis using "1.IH"[OF Some x[symmetric] hr refl] "1.prems" Some x hr
        by (subst (asm) (2) client_lines.simps) simp
    next
      case False
      then show ?thesis using "1.prems" Some x hr by (subst (asm) client_lines.simps) auto
    qed
  qed
qed

lemma close_client_fds:
  "server_inv s \<Longrightarrow> open_fds (close_client i s) + closed_fds (sv_log (close_client i s)) = open_fds s + closed_fds (sv_log s)"
  using mset_filter_update[of i "sv_clients s" "\<lambda>c. 0 \<le> c" "-1"]
  by (auto simp: close_client_def Let_def open_fds_def server_inv_def)

lemma service_fds:
  assumes "server_inv s" "i < 8" "service_client world send_ok i rd s = Some (n, s')"
  shows "open_fds s' + closed_fds (sv_log s') = open_fds s + closed_fds (sv_log s) \<and> sv_listen_fd s' = sv_listen_fd s"
proof (cases rd)
  case (Data d)
  show ?thesis
  proof (cases "sv_clients s ! i < 0")
    case False
    then obtain conn h rest b lg' where
      c: "client_lines world send_ok (sv_clients s ! i) 0 (sv_rbuf s ! i @ d) (sv_agent s) (sv_log s) = Some (conn, h, rest, b, lg')"
      and s': "s' = s\<lparr>sv_agent := b, sv_log := lg', sv_rbuf := (sv_rbuf s)[i := rest],
                     sv_clients := (if conn then sv_clients s else (sv_clients s)[i := -1])\<rparr>"
      using assms(3) Data by (auto simp: service_client_def split: option.splits)
    show ?thesis using client_lines_closed[OF c] s' False assms(1,2) mset_filter_update[of i "sv_clients s" "\<lambda>c. 0 \<le> c" "-1"]
      by (auto simp: open_fds_def server_inv_def)
  qed (use assms(3) in \<open>simp add: service_client_def\<close>)
qed (use assms(3) close_client_fds[OF assms(1), of i] in \<open>auto simp: service_client_def close_client_def Let_def split: if_splits\<close>)

lemma poll_clients_fds:
  assumes "\<And>i j. env_ok (world i j)" "server_inv s" "list_all (\<lambda>i. i < 8) idxs" "poll_clients world send_ok rd idxs k s = Some (n, s')"
  shows "open_fds s' + closed_fds (sv_log s') = open_fds s + closed_fds (sv_log s) \<and> sv_listen_fd s' = sv_listen_fd s"
  using assms(2-4)
proof (induction idxs arbitrary: s k)
  case (Cons i idxs)
  show ?case
  proof (cases "sv_clients s ! i \<ge> 0")
    case True
    then obtain m s1 where s1: "service_client (world i) (send_ok i) i (rd i) s = Some (m, s1)"
      "poll_clients world send_ok rd idxs (k + m) s1 = Some (n, s')" using Cons.prems(3) by (auto split: option.splits)
    have "\<exists>m s1. service_client (world i) (send_ok i) i (rd i) s = Some (m, s1) \<and> server_inv s1"
      using assms(1) Cons.prems by (intro service_inv) simp_all
    then have "server_inv s1" using s1(1) by simp
    then show ?thesis using Cons.IH[OF _ _ s1(2)] service_fds[OF Cons.prems(1) _ s1(1)] Cons.prems(2) by simp
  qed (use Cons in simp)
qed simp

section \<open>Properties\<close>

fun receive ::
  "(nat \<Rightarrow> ('c,'f) ipc_env) \<Rightarrow> nat \<Rightarrow> nat \<Rightarrow> string list \<Rightarrow> ('p,'n,'w,'t) ipc_server \<Rightarrow> (nat \<times> ('p,'n,'w,'t) ipc_server) option" where
  "receive world i n [] s = Some (n, s)"
| "receive world i n (d # ds) s =
     (case service_client (\<lambda>j. world (n + j)) (\<lambda>_. True) i (Data d) s of None \<Rightarrow> None
      | Some (h, s') \<Rightarrow> receive world i (n + h) ds s')"

fun reads_fit :: "string \<Rightarrow> string list \<Rightarrow> bool" where
  "reads_fit buf [] \<longleftrightarrow> True"
| "reads_fit buf (d # ds) \<longleftrightarrow> length (snd (split_lines (buf @ d))) < 8191 \<and> reads_fit (snd (split_lines (buf @ d))) ds"

text \<open>C10: framing does not depend on how the bytes arrive. However the kernel cuts a client's stream into
  reads that fit the buffer, the server answers exactly the complete lines of the stream, in
  order, each once, and keeps the unfinished rest, provided no line is longer than the buffer.\<close>

theorem ipc_stream_framing:
  assumes "i < length (sv_rbuf s)" "0 \<le> sv_clients s ! i" "split_lines (sv_rbuf s ! i) = ([], sv_rbuf s ! i)" "reads_fit (sv_rbuf s ! i) ds"
    and st: "split_lines (sv_rbuf s ! i @ concat ds) = (ls, rest)"
  shows "receive world i n ds s =
    (case answer world (sv_clients s ! i) n ls (sv_agent s) (sv_log s) of None \<Rightarrow> None
     | Some (b, lg) \<Rightarrow> Some (n + length ls, s\<lparr>sv_agent := b, sv_log := lg, sv_rbuf := (sv_rbuf s)[i := rest]\<rparr>))"
  using assms
proof (induction ds arbitrary: s n ls rest)
  case Nil
  then show ?case by auto
next
  case (Cons d ds)
  let ?buf = "sv_rbuf s ! i" and ?fd = "sv_clients s ! i"
  obtain l1 r1 where sp: "split_lines (?buf @ d) = (l1, r1)" by fastforce
  have r1: "split_lines r1 = ([], r1)" "length r1 < 8191" "reads_fit r1 ds"
    using split_lines_idem[of "?buf @ d"] sp Cons.prems(4) by simp_all
  obtain l2 where l2: "split_lines (r1 @ concat ds) = (l2, rest)" "ls = l1 @ l2"
    using split_lines_append[of "?buf @ d" "concat ds"] sp Cons.prems(5) by (cases "split_lines (r1 @ concat ds)") simp
  have cl: "client_lines (\<lambda>j. world (n + j)) (\<lambda>_. True) ?fd 0 (?buf @ d) (sv_agent s) (sv_log s) =
      (case answer world ?fd n l1 (sv_agent s) (sv_log s) of None \<Rightarrow> None | Some (b, lg) \<Rightarrow> Some (True, length l1, r1, b, lg))"
    using client_lines_answer[of "\<lambda>_. True" "?buf @ d" "\<lambda>j. world (n + j)" ?fd 0 "sv_agent s" "sv_log s"] sp r1(2)
      answer_shift[of world n ?fd 0 l1 "sv_agent s" "sv_log s"] by (simp split: option.split)
  show ?case
  proof (cases "answer world ?fd n l1 (sv_agent s) (sv_log s)")
    case None
    then show ?thesis using cl l2(2) Cons.prems(2) by (simp add: service_client_def answer_append)
  next
    case (Some x)
    obtain b lg where x: "x = (b, lg)" by (cases x)
    let ?s = "s\<lparr>sv_agent := b, sv_log := lg, sv_rbuf := (sv_rbuf s)[i := r1], sv_clients := sv_clients s\<rparr>"
    have sv: "service_client (\<lambda>j. world (n + j)) (\<lambda>_. True) i (Data d) s = Some (length l1, ?s)"
      using Some x cl Cons.prems(2) by (simp add: service_client_def)
    have "receive world i (n + length l1) ds ?s =
      (case answer world ?fd (n + length l1) l2 b lg of None \<Rightarrow> None
       | Some (b', lg') \<Rightarrow> Some (n + length l1 + length l2, ?s\<lparr>sv_agent := b', sv_log := lg', sv_rbuf := (sv_rbuf ?s)[i := rest]\<rparr>))"
      using Cons.IH[of ?s l2 rest "n + length l1"] Cons.prems(1,2) r1 l2(1) by simp
    then show ?thesis using sv Some x l2(2) by (simp add: answer_append split: option.split)
  qed
qed

definition ipc_server0 :: "(unit, unit, unit, unit) ipc_server" where
  "ipc_server0 = \<lparr> sv_agent = agent00, sv_listen_fd = 3, sv_clients = 9 # replicate 7 (-1), sv_path = ''/s'',
     sv_rbuf = replicate 8 [], sv_log = [] \<rparr>"

lemma ipc_server0_inv: "server_inv ipc_server0"
  by (simp add: server_inv_def ipc_server0_def agent00_agent_inv list_all_iff)

lemma ping_reply:
  \<open>cpe_ipc_handle_request quiet_env ''{"op":"ping"}'' 8192 agent00 = Some (Some ''{"ok":true,"op":"ping","data":"pong"}'', agent00)\<close>
  by (simp add: cpe_ipc_handle_request_def read_op_def json_get_str_def json_value_def skip_blanks_def fits_def)

theorem ipc_stream_framing_witness:
  \<open>receive (\<lambda>_. quiet_env) 0 0 [''{"op"'', '':"ping"}'' @ [CHR 0x0A] @ ''{''] ipc_server0 =
     Some (1, ipc_server0\<lparr>sv_agent := agent00, sv_log := [Send 9 (''{"ok":true,"op":"ping","data":"pong"}'' @ [CHR 0x0A])],
       sv_rbuf := (sv_rbuf ipc_server0)[0 := ''{'']\<rparr>)\<close>
  by (subst ipc_stream_framing[of 0 ipc_server0 _ \<open>[''{"op":"ping"}'']\<close> \<open>''{''\<close>])
    (simp_all add: ipc_server0_def request_of_def ping_reply[simplified] wire_def)

text \<open>C22: a poll of the server always returns, whatever clients connect and whatever bytes they
  send: the client table, the receive buffers with their terminating NUL, and the agent
  keep their invariants.\<close>

theorem ipc_poll_safe:
  assumes "\<And>i j. env_ok (world i j)" "server_inv s"
  shows "\<exists>n s'. cpe_ipc_server_poll world send_ok rd accepts s = Some (n, s') \<and> server_inv s'"
proof (cases "sv_listen_fd s < 0")
  case True
  then show ?thesis using assms(2) by (simp add: cpe_ipc_server_poll_def)
next
  case False
  then show ?thesis using poll_clients_inv[OF assms(1) accept_inv[OF assms(2)], where idxs = "[0..<8]"]
    by (simp add: cpe_ipc_server_poll_def list_all_iff)
qed

theorem ipc_poll_safe_witness:
  "\<exists>n s'. cpe_ipc_server_poll (\<lambda>_ _. quiet_env) (\<lambda>_ _. False) (\<lambda>_. Data (replicate 9000 (CHR ''x''))) [5, 6] ipc_server0 = Some (n, s') \<and> server_inv s'"
  by (rule ipc_poll_safe[OF quiet_env_ok ipc_server0_inv])

text \<open>no descriptor leaks: once the server is destroyed after a poll, every descriptor it ever
  accepted and the listening socket have been closed, each exactly once.\<close>

theorem ipc_no_descriptor_leak:
  assumes "\<And>i j. env_ok (world i j)" "server_inv s" "0 \<le> sv_listen_fd s" "list_all (\<lambda>c. 0 \<le> c) accepts"
    and "cpe_ipc_server_poll world send_ok rd accepts s = Some (n, s')"
  shows "closed_fds (cpe_ipc_server_destroy s') =
    closed_fds (sv_log s) + open_fds s + mset accepts + {#sv_listen_fd s#}"
proof -
  obtain k s1 where a: "accept_clients accepts s = (k, s1)" by fastforce
  have p: "poll_clients world send_ok rd [0..<8] 0 s1 = Some (n, s')" using assms(3,5) a by (simp add: cpe_ipc_server_poll_def)
  have l: "sv_listen_fd s1 = sv_listen_fd s" using a
    by (induction accepts arbitrary: s k) (auto simp: Let_def split: if_splits option.splits prod.splits)
  have "server_inv s1" using accept_inv[OF assms(2), of accepts] a by simp
  from poll_clients_fds[OF assms(1) this _ p] accept_fds[OF assms(4) a] l
  have "open_fds s' + closed_fds (sv_log s') = open_fds s + closed_fds (sv_log s) + mset accepts" "sv_listen_fd s' = sv_listen_fd s"
    by (simp_all add: list_all_iff)
  then show ?thesis using assms(3) by (simp add: cpe_ipc_server_destroy_def open_fds_def ac_simps)
qed

theorem ipc_no_descriptor_leak_witness:
  "\<exists>n s'. cpe_ipc_server_poll (\<lambda>_ _. quiet_env) (\<lambda>_ _. True) (\<lambda>_. Eof) [5] ipc_server0 = Some (n, s') \<and>
     closed_fds (cpe_ipc_server_destroy s') = {#9, 5, 3#}"
proof -
  obtain n s' where p: "cpe_ipc_server_poll (\<lambda>_ _. quiet_env) (\<lambda>_ _. True) (\<lambda>_. Eof) [5] ipc_server0 = Some (n, s')"
    using ipc_poll_safe[OF quiet_env_ok ipc_server0_inv] by blast
  have "closed_fds (cpe_ipc_server_destroy s') = closed_fds (sv_log ipc_server0) + open_fds ipc_server0 + mset [5] + {#sv_listen_fd ipc_server0#}"
    by (rule ipc_no_descriptor_leak[OF quiet_env_ok ipc_server0_inv _ _ p]) (simp_all add: ipc_server0_def)
  then show ?thesis using p by (simp add: ipc_server0_def open_fds_def)
qed

end
