(* ===== verification/Live_Probe.thy ===== *)
theory Live_Probe
  imports Agent_Core
begin

text \<open>
  \<^verbatim>\<open>agent/live_ping.c\<close> and \<^verbatim>\<open>agent/live_arping.c\<close>: the ICMP echo and ARP probes. The
  results of the system calls are inputs; opening, sending and closing are recorded in order. The
  static sequence counter of the C function is passed through. Structures that the C code lays
  over byte buffers are written out byte by byte.
\<close>

section \<open>Sockets and clocks\<close>

text \<open>\<open>Send_udp fd port ttl payload\<close> is a datagram of the path probes.\<close>

datatype probe_action = Open_sock int | Send_frame int bytes | Send_udp int u16 int bytes | Close_sock int

definition mono_ns :: "clock \<Rightarrow> u64" where
  "mono_ns clk = (case clk_mono clk of None \<Rightarrow> 0 | Some (sec, nsec) \<Rightarrow> of_int sec * 1000000000 + of_int nsec)"

definition elapsed_rtt :: "u64 \<Rightarrow> u64 \<Rightarrow> double" where
  \<comment> \<open>\<^verbatim>\<open>(double)(t1_ns - t0_ns) / 1000000.0\<close>\<close>
  "elapsed_rtt t0 t1 = (if t0 \<le> t1 then dbl (u64_dbl (t1 - t0) / 1000000) else 0)"

text \<open>\<open>dgram\<close> and \<open>raw\<close> are what \<^verbatim>\<open>socket\<close> returns for the two types.\<close>

definition open_icmp_socket :: "int \<Rightarrow> int \<Rightarrow> int \<times> bool" where
  "open_icmp_socket dgram raw = (if dgram \<ge> 0 then (dgram, False) else (raw, raw \<ge> 0))"

section \<open>ICMP echo\<close>

text \<open>The Internet checksum over native 16-bit loads.\<close>

fun cksum_sum :: "bytes \<Rightarrow> u32 \<Rightarrow> u32" where
  "cksum_sum [] s = s"
| "cksum_sum [b] s = s + ucast b"
| "cksum_sum (a # b # rest) s = cksum_sum rest (s + ucast (le16 a b))"

lemma unat_split16: "unat (w :: u32) = unat (w AND 0xffff) + 65536 * unat (drop_bit 16 w)"
proof -
  have m: "(0xffff :: u32) = mask 16" by (simp add: mask_eq_exp_minus_1)
  have "unat (w AND 0xffff) = unat w mod 65536"
    unfolding m take_bit_eq_mask[symmetric] unsigned_take_bit_eq by (simp add: take_bit_eq_mod)
  moreover have "unat (drop_bit 16 w) = unat w div 65536" by (simp add: drop_bit_eq_div unat_div)
  ultimately show ?thesis by simp
qed

lemma unat_fold16: "unat ((w AND 0xffff) + drop_bit 16 (w :: u32)) = unat (w AND 0xffff) + unat (drop_bit 16 w)"
proof -
  have "unat (w AND 0xffff) \<le> 65535" using word_and_le1[of w "0xffff"] by (simp add: word_le_nat_alt)
  moreover have "65536 * unat (drop_bit 16 w) < 4294967296" using unat_split16[of w] unat_u32_less[of w] by linarith
  ultimately show ?thesis by (subst unat_word_ariths) (simp add: unat_u32_less)
qed

function cksum_fold :: "u32 \<Rightarrow> u32" where
  "cksum_fold s = (if drop_bit 16 s = 0 then s else cksum_fold ((s AND 0xffff) + drop_bit 16 s))"
  by pat_completeness auto
termination
proof (relation "measure unat")
  fix s :: u32 assume "drop_bit 16 s \<noteq> 0"
  then have "0 < unat (drop_bit 16 s)" by (simp add: unat_gt_0)
  then show "((s AND 0xffff) + drop_bit 16 s, s) \<in> measure unat"
    using unat_fold16[of s] unat_split16[of s] by simp
qed simp

declare cksum_fold.simps [simp del]

definition icmp_cksum :: "bytes \<Rightarrow> u16" where
  "icmp_cksum data = ucast (NOT (cksum_fold (cksum_sum data 0)))"

text \<open>\<^verbatim>\<open>htons\<close> followed by a native store; a native store of the checksum.\<close>

definition be_bytes :: "u16 \<Rightarrow> bytes" where
  "be_bytes w = [ucast (drop_bit 8 w), ucast w]"

definition le_bytes :: "u16 \<Rightarrow> bytes" where
  "le_bytes w = [ucast w, ucast (drop_bit 8 w)]"

definition echo_frame :: "u16 \<Rightarrow> u16 \<Rightarrow> u16 \<Rightarrow> bytes" where
  "echo_frame cks ident seq = [8, 0] @ le_bytes cks @ be_bytes ident @ be_bytes seq @ map of_char ''cpeagent''"

definition echo_request :: "u16 \<Rightarrow> u16 \<Rightarrow> bytes" where
  "echo_request ident seq = echo_frame (icmp_cksum (echo_frame 0 ident seq)) ident seq"

text \<open>The ICMP message in a received packet, behind the IP header of a raw socket.\<close>

definition icmp_payload :: "bytes \<Rightarrow> bool \<Rightarrow> bytes option" where
  "icmp_payload buf is_raw =
     (if length buf < 8 then None
      else if \<not> is_raw then Some buf
      else if length buf < 20 then None
      else
        (let ihl = unat (hd buf AND 0x0f) * 4
         in if ihl < 20 \<or> length buf < ihl + 8 then None else Some (drop ihl buf)))"

text \<open>
  What one probe sees: the two socket results, whether \<^verbatim>\<open>sendto\<close> succeeds, whether \<^verbatim>\<open>poll\<close> reports
  input, the received bytes (empty for an error), the clock before sending, after receiving and at
  the end.
\<close>

record ping_io =
  pi_dgram :: int
  pi_raw :: int
  pi_sent :: bool
  pi_readable :: bool
  pi_recv :: bytes
  pi_t0 :: clock
  pi_t1 :: clock
  pi_clk :: clock

text \<open>The reply that counts: an echo reply with the sequence number of the request.\<close>

definition ping_reply :: "ping_io \<Rightarrow> bool \<Rightarrow> u16 \<Rightarrow> bytes option" where
  "ping_reply io is_raw seq =
     (let rx = take 256 (pi_recv io) in
      if \<not> pi_readable io \<or> rx = [] then None
      else case icmp_payload rx is_raw of None \<Rightarrow> None
      | Some icmp \<Rightarrow>
          if length icmp \<ge> 8 \<and> hd icmp = 0 \<and> be16 (icmp ! 6) (icmp ! 7) = seq then Some icmp else None)"

definition ping_sample :: "string \<Rightarrow> clock \<Rightarrow> double option \<Rightarrow> bool \<Rightarrow> cpe_perf_sample" where
  \<open>ping_sample target clk rtt is_raw =
     \<lparr> ps_probe = ''ping'', ps_target = cstr 64 target, ps_rtt_ms = (case rtt of None \<Rightarrow> 0 | Some r \<Rightarrow> r),
       ps_loss = (if rtt = None then 1 else 0), ps_ts_iso = core_iso_now clk,
       ps_meta = cstr 128 (''{"replies":'' @ (if rtt = None then ''0'' else ''1'') @ '',"timeouts":'' @ (if rtt = None then ''1'' else ''0'') @
         '',"demo":false,"raw":'' @ (if is_raw then ''true'' else ''false'') @ ''}'') \<rparr>\<close>

text \<open>The end of every probe: remember the sample, format it and spool it.\<close>

definition emit_sample_line :: "cpe_perf_sample \<Rightarrow> ('p,'n,'w,'t) cpe_agent \<Rightarrow> int \<times> ('p,'n,'w,'t) cpe_agent" where
  "emit_sample_line sample a =
     (let (_, a1) = cpe_agent_set_last_sample (Some sample) a;
          (ok, a2) = spool_sample sample a1
      in (if ok then 0 else -1, a2))"

definition cpe_agent_live_ping_tick ::
  "('p \<Rightarrow> bytes \<Rightarrow> u64 \<Rightarrow> bool \<times> 'p) \<Rightarrow> ('p \<Rightarrow> u64 \<Rightarrow> 'p) \<Rightarrow> u16 \<Rightarrow> ping_io \<Rightarrow> u16 \<Rightarrow>
   ('p,'n,'w,'t) cpe_agent \<Rightarrow> int \<times> u16 \<times> probe_action list \<times> ('p,'n,'w,'t) cpe_agent" where
  "cpe_agent_live_ping_tick feed settle ident io seq0 a =
     (let cfg = ag_cfg a in
      if c_demo_target cfg = [] then (-1, seq0, [], a)
      else if inet_pton4 (c_demo_target cfg) = None then (-1, seq0, [], a)
      else
        (let (fd, is_raw) = open_icmp_socket (pi_dgram io) (pi_raw io) in
         if fd < 0 then (-1, seq0, [], a)
         else
           (let seq = seq0 + 1; t0 = mono_ns (pi_t0 io); t1 = mono_ns (pi_t1 io);
                lg = [Open_sock fd, Send_frame fd (echo_request ident seq), Close_sock fd]
            in if \<not> pi_sent io then (-1, seq, [Open_sock fd, Close_sock fd], a)
               else
                 (case ping_reply io is_raw seq of
                    None \<Rightarrow> (let (r, b) = emit_sample_line (ping_sample (c_demo_target cfg) (pi_clk io) None is_raw) a in (r, seq, lg, b))
                  | Some icmp \<Rightarrow>
                      (let (_, a1) = cpe_agent_feed_icmp_echo_reply feed settle icmp (t1 div 1000000) a;
                           (r, b) = emit_sample_line (ping_sample (c_demo_target cfg) (pi_clk io) (Some (elapsed_rtt t0 t1)) is_raw) a1
                       in (r, seq, lg, b))))))"

section \<open>ARP\<close>

definition mac_fmt :: "bytes \<Rightarrow> string" where
  "mac_fmt mac = hex2 (mac ! 0) @ '':'' @ hex2 (mac ! 1) @ '':'' @ hex2 (mac ! 2) @ '':'' @ hex2 (mac ! 3) @ '':'' @
     hex2 (mac ! 4) @ '':'' @ hex2 (mac ! 5)"

text \<open>
  One line of \<^verbatim>\<open>/proc/net/route\<close> read with \<^verbatim>\<open>sscanf("%15s %x %x %x")\<close>: a name of at most 15
  characters and three hexadecimal numbers of 32 bits, separated by white space.
\<close>

definition hex_val :: "char \<Rightarrow> nat option" where
  "hex_val c =
     (let n = of_char c :: nat in
      if 48 \<le> n \<and> n \<le> 57 then Some (n - 48)
      else if 97 \<le> n \<and> n \<le> 102 then Some (n - 87)
      else if 65 \<le> n \<and> n \<le> 70 then Some (n - 55) else None)"

fun hex_digits :: "string \<Rightarrow> nat \<Rightarrow> nat \<times> string" where
  "hex_digits [] acc = (acc, [])"
| "hex_digits (c # cs) acc = (case hex_val c of None \<Rightarrow> (acc, c # cs) | Some d \<Rightarrow> hex_digits cs (16 * acc + d))"

definition scan_hex :: "string \<Rightarrow> (u32 \<times> string) option" where
  "scan_hex s =
     (let s1 = dropWhile isspace s;
          neg = (s1 \<noteq> [] \<and> hd s1 = CHR ''-'');
          s2 = (if s1 \<noteq> [] \<and> (hd s1 = CHR ''-'' \<or> hd s1 = CHR ''+'') then tl s1 else s1);
          s3 = (if take 2 s2 = ''0x'' \<or> take 2 s2 = ''0X'' then drop 2 s2 else s2)
      in if s3 = [] \<or> hex_val (hd s3) = None then None
         else (let (v, rest) = hex_digits s3 0 in Some (if neg then - of_nat v else of_nat v, rest)))"

definition scan_route :: "string \<Rightarrow> (string \<times> u32 \<times> u32 \<times> u32) option" where
  "scan_route line =
     (let s1 = dropWhile isspace line;
          name = take 15 (takeWhile (\<lambda>c. \<not> isspace c) s1) in
      if name = [] then None
      else case scan_hex (drop (length name) s1) of None \<Rightarrow> None
      | Some (dest, s2) \<Rightarrow> (case scan_hex s2 of None \<Rightarrow> None
        | Some (gw, s3) \<Rightarrow> (case scan_hex s3 of None \<Rightarrow> None | Some (flags, _) \<Rightarrow> Some (name, dest, gw, flags))))"

fun default_route :: "string list \<Rightarrow> string option" where
  "default_route [] = None"
| "default_route (l # ls) =
     (case scan_route l of
        Some (name, dest, gw, flags) \<Rightarrow> if dest = 0 \<and> flags AND 1 \<noteq> 0 \<and> name \<noteq> ''lo'' then Some name else default_route ls
      | None \<Rightarrow> default_route ls)"

definition candidates :: "string list" where
  "candidates = [''br-lan'', ''br0'', ''lan'', ''eth0'', ''eth1'']"

text \<open>\<open>routes\<close> holds the lines \<^verbatim>\<open>fgets\<close> returns, the header first, \<open>None\<close> if the file cannot be opened.\<close>

definition pick_iface :: "string list option \<Rightarrow> (string \<Rightarrow> bool) \<Rightarrow> nat \<Rightarrow> string option" where
  "pick_iface routes exists_if out_sz =
     (if out_sz < 2 then None
      else
        (case (case routes of None \<Rightarrow> None | Some ls \<Rightarrow> default_route (tl ls)) of
           Some name \<Rightarrow> Some (cstr out_sz name)
         | None \<Rightarrow> (case List.find exists_if candidates of Some c \<Rightarrow> Some (cstr out_sz c) | None \<Rightarrow> Some (cstr out_sz ''eth0''))))"

text \<open>
  \<open>if_sock\<close> is the control socket; the three functions are the interface ioctls on a name, with a
  hardware address of six bytes and an address of four.
\<close>

record if_env =
  if_routes :: "string list option"
  if_exists :: "string \<Rightarrow> bool"
  if_sock :: int
  if_index :: "string \<Rightarrow> int option"
  if_hwaddr :: "string \<Rightarrow> bytes option"
  if_addr :: "string \<Rightarrow> bytes option"

definition iface_addrs :: "if_env \<Rightarrow> string \<Rightarrow> (int \<times> bytes \<times> bytes) option \<times> probe_action list" where
  "iface_addrs ie ifname =
     (if if_sock ie < 0 then (None, [])
      else
        (let name = cstr 16 ifname; lg = [Open_sock (if_sock ie), Close_sock (if_sock ie)] in
         case if_index ie name of None \<Rightarrow> (None, lg)
         | Some i \<Rightarrow>
             (let mac = (case if_hwaddr ie name of None \<Rightarrow> replicate 6 0 | Some m \<Rightarrow> take 6 m);
                  ip = (case if_addr ie name of None \<Rightarrow> replicate 4 0 | Some p \<Rightarrow> take 4 p)
              in (if i > 0 then Some (i, mac, ip) else None, lg))))"

text \<open>The 42 bytes of an Ethernet frame with an ARP message.\<close>

definition arp_frame :: "bytes \<Rightarrow> bytes \<Rightarrow> u16 \<Rightarrow> bytes \<Rightarrow> bytes \<Rightarrow> bytes \<Rightarrow> bytes \<Rightarrow> bytes" where
  "arp_frame eth_dst eth_src op sha spa tha tpa =
     eth_dst @ eth_src @ be_bytes 0x0806 @ be_bytes 1 @ be_bytes 0x0800 @ [6, 4] @ be_bytes op @ sha @ spa @ tha @ tpa"

definition arp_request :: "bytes \<Rightarrow> bytes \<Rightarrow> bytes \<Rightarrow> bytes" where
  "arp_request smac sip dip =
     arp_frame (replicate 6 0xff) smac 1 smac sip (replicate 6 0) dip"

definition be16_at :: "bytes \<Rightarrow> nat \<Rightarrow> u16" where
  "be16_at f k = be16 (f ! k) (f ! (k + 1))"

text \<open>The hardware address of the responder, if the frame is a reply for the address.\<close>

definition is_arp_reply_for :: "bytes \<Rightarrow> bytes \<Rightarrow> bytes option" where
  "is_arp_reply_for frame tpa =
     (if length frame < 42 then None
      else if be16_at frame 12 \<noteq> 0x0806 then None
      else if be16_at frame 14 \<noteq> 1 \<or> be16_at frame 16 \<noteq> 0x0800 then None
      else if frame ! 18 \<noteq> 6 \<or> frame ! 19 \<noteq> 4 then None
      else if be16_at frame 20 \<noteq> 2 then None
      else if take 4 (drop 28 frame) \<noteq> tpa then None
      else Some (take 6 (drop 22 frame)))"

definition arping_sample :: "string \<Rightarrow> clock \<Rightarrow> double option \<Rightarrow> bool \<Rightarrow> string \<Rightarrow> string \<Rightarrow> cpe_perf_sample" where
  \<comment> \<open>a sample without a round-trip time has no reply\<close>
  \<open>arping_sample target clk rtt demo mac_str ifname =
     \<lparr> ps_probe = ''arping'', ps_target = cstr 64 target, ps_rtt_ms = (case rtt of None \<Rightarrow> 0 | Some r \<Rightarrow> r),
       ps_loss = (if rtt = None then 1 else 0), ps_ts_iso = core_iso_now clk,
       ps_meta = cstr 128 (''{"replies":'' @ (if rtt = None then ''0'' else ''1'') @ '',"timeouts":'' @ (if rtt = None then ''1'' else ''0'') @
         (if demo then '',"demo":true,"mac":"'' @ str_or mac_str ''00:00:00:00:00:00'' @ ''"}''
          else '',"demo":false,"mac":"'' @ mac_str @ ''","if":"'' @ ifname @ ''"}'')) \<rparr>\<close>

text \<open>
  One iteration of the receive loop: whether \<^verbatim>\<open>poll\<close> reported input in time, the frame
  received (empty on error), and the clock before polling, after receiving and after the check.
\<close>

record arp_poll =
  ap_ready :: bool
  ap_frame :: bytes
  ap_before :: clock
  ap_t1 :: clock
  ap_after :: clock

definition elapsed_ms :: "u64 \<Rightarrow> u64 \<Rightarrow> int" where
  "elapsed_ms before after =
     (let e = sint (ucast ((if after > before then after - before else 0) div 1000000) :: 32 word) in if e < 1 then 1 else e)"

text \<open>The loop: the time stamp and the address of the reply, or nothing; \<open>polls k\<close> is iteration \<open>k\<close>.\<close>

function arp_wait :: "(nat \<Rightarrow> arp_poll) \<Rightarrow> bytes \<Rightarrow> nat \<Rightarrow> int \<Rightarrow> (u64 \<times> bytes) option" where
  "arp_wait polls tpa k left =
     (if left \<le> 0 then None
      else
        (let p = polls k; rx = take 256 (ap_frame p) in
         if \<not> ap_ready p then None
         else case is_arp_reply_for rx tpa of
           Some mac \<Rightarrow> Some (mono_ns (ap_t1 p), mac)
         | None \<Rightarrow> arp_wait polls tpa (k + 1) (left - elapsed_ms (mono_ns (ap_before p)) (mono_ns (ap_after p)))))"
  by pat_completeness auto
termination
  by (relation "measure (\<lambda>(polls, tpa, k, left). nat left)") (auto simp: elapsed_ms_def Let_def)

declare arp_wait.simps [simp del]

record arp_io =
  ai_sock :: int
  ai_bound :: bool
  ai_sent :: bool
  ai_t0 :: clock
  ai_polls :: "nat \<Rightarrow> arp_poll"
  ai_clk :: clock

definition in_addr_bytes :: "u32 \<Rightarrow> bytes" where
  "in_addr_bytes a = [ucast (octet 0 a), ucast (octet 1 a), ucast (octet 2 a), ucast (octet 3 a)]"

text \<open>The probe on a given interface, from the address lookup on.\<close>

definition arping_on ::
  "if_env \<Rightarrow> arp_io \<Rightarrow> string \<Rightarrow> bytes \<Rightarrow> string \<Rightarrow> ('p,'n,'w,'t) cpe_agent \<Rightarrow> int \<times> probe_action list \<times> ('p,'n,'w,'t) cpe_agent" where
  "arping_on ie io target dip ifname a =
     (case iface_addrs ie ifname of
        (None, lg) \<Rightarrow> (-1, lg, a)
      | (Some (ifindex, smac, sip), lg) \<Rightarrow>
          (let fd = ai_sock io in
           if fd < 0 then (-1, lg, a)
           else if \<not> ai_bound io \<or> \<not> ai_sent io then (-1, lg @ [Open_sock fd, Close_sock fd], a)
           else
             (let timeout_ms = (if c_probe_timeout_ms (ag_cfg a) \<noteq> 0 then c_probe_timeout_ms (ag_cfg a) else 1000);
                  res = arp_wait (ai_polls io) dip 0 (sint timeout_ms);
                  rtt = map_option (\<lambda>(t1, _). elapsed_rtt (mono_ns (ai_t0 io)) t1) res;
                  mac = (case res of None \<Rightarrow> [] | Some (_, m) \<Rightarrow> mac_fmt m);
                  (r, b) = emit_sample_line (arping_sample target (ai_clk io) rtt False mac ifname) a
              in (r, lg @ [Open_sock fd, Send_frame fd (arp_request smac sip dip), Close_sock fd], b))))"

definition arping_iface :: "if_env \<Rightarrow> cpe_agent_config \<Rightarrow> string option \<Rightarrow> string option" where
  "arping_iface ie cfg ifname_opt =
     (case ifname_opt of
        Some (c # cs) \<Rightarrow> Some (cstr 32 (c # cs))
      | _ \<Rightarrow> if c_arping_if cfg \<noteq> [] then Some (cstr 32 (c_arping_if cfg)) else pick_iface (if_routes ie) (if_exists ie) 32)"

definition cpe_agent_arping ::
  "if_env \<Rightarrow> arp_io \<Rightarrow> string option \<Rightarrow> string option \<Rightarrow> ('p,'n,'w,'t) cpe_agent \<Rightarrow>
   int \<times> probe_action list \<times> ('p,'n,'w,'t) cpe_agent" where
  "cpe_agent_arping ie io ipv4_opt ifname_opt a =
     (let cfg = ag_cfg a;
          target = (case ipv4_opt of None \<Rightarrow> c_demo_target cfg | Some t \<Rightarrow> str_or t (c_demo_target cfg)) in
      if target = [] then (-1, [], a)
      else case inet_pton4 target of None \<Rightarrow> (-1, [], a)
      | Some ina \<Rightarrow>
          (case arping_iface ie cfg ifname_opt of None \<Rightarrow> (-1, [], a)
           | Some ifname \<Rightarrow> arping_on ie io target (in_addr_bytes ina) ifname a))"

definition cpe_agent_live_arping_tick ::
  "if_env \<Rightarrow> arp_io \<Rightarrow> ('p,'n,'w,'t) cpe_agent \<Rightarrow> int \<times> probe_action list \<times> ('p,'n,'w,'t) cpe_agent" where
  "cpe_agent_live_arping_tick ie io a = cpe_agent_arping ie io None None a"

text \<open>
  The demo probe: \<open>latency frame now\<close> is the average latency the ARP library reports after it was
  fed the frame, \<open>None\<close> if its context cannot be created.
\<close>

definition demo_arp_reply :: bytes where
  "demo_arp_reply = replicate 12 0 @ [8, 6] @ replicate 7 0 @ [2, 2, 0, 0, 0, 0, 1] @ replicate 14 0"

definition cpe_agent_demo_arping ::
  "(bytes \<Rightarrow> u64 \<Rightarrow> u32 option) \<Rightarrow> clock \<Rightarrow> string option \<Rightarrow> ('p,'n,'w,'t) cpe_agent \<Rightarrow> int \<times> ('p,'n,'w,'t) cpe_agent" where
  "cpe_agent_demo_arping latency clk ipv4_opt a =
     (let target = (case ipv4_opt of None \<Rightarrow> c_demo_target (ag_cfg a) | Some t \<Rightarrow> str_or t (c_demo_target (ag_cfg a))) in
      if target = [] then (-1, a)
      else case latency demo_arp_reply (mono_ns clk div 1000000) of None \<Rightarrow> (-1, a)
      | Some avg \<Rightarrow>
          emit_sample_line (arping_sample target clk (Some (if avg \<noteq> 0 then dbl (of_nat (unat avg)) else 1)) True
            (mac_fmt [2, 0, 0, 0, 0, 1]) []) a)"

definition cpe_agent_demo_arping_tick ::
  "(bytes \<Rightarrow> u64 \<Rightarrow> u32 option) \<Rightarrow> clock \<Rightarrow> ('p,'n,'w,'t) cpe_agent \<Rightarrow> int \<times> ('p,'n,'w,'t) cpe_agent" where
  "cpe_agent_demo_arping_tick latency clk a = cpe_agent_demo_arping latency clk None a"

lemmas live_probe_defs [cdefs] =
  mono_ns_def elapsed_rtt_def open_icmp_socket_def cksum_fold.simps icmp_cksum_def be_bytes_def le_bytes_def echo_frame_def
  echo_request_def icmp_payload_def ping_reply_def ping_sample_def emit_sample_line_def cpe_agent_live_ping_tick_def
  mac_fmt_def hex_val_def scan_hex_def scan_route_def candidates_def pick_iface_def iface_addrs_def arp_frame_def
  arp_request_def be16_at_def is_arp_reply_for_def arping_sample_def elapsed_ms_def arp_wait.simps in_addr_bytes_def
  arping_on_def arping_iface_def cpe_agent_arping_def demo_arp_reply_def cpe_agent_demo_arping_def

section \<open>The checksum\<close>

fun wsum :: "bytes \<Rightarrow> nat" where
  "wsum [] = 0"
| "wsum [b] = unat b"
| "wsum (a # b # rest) = unat (le16 a b) + wsum rest"

lemma wsum_le: "wsum data \<le> 65535 * ((length data + 1) div 2)"
proof (induction data rule: wsum.induct)
  case (2 b)
  have "unat b \<le> 65535" using unat_u8_less[of b] by linarith
  then show ?case by simp
next
  case (3 a b rest)
  have "unat (le16 a b) \<le> 65535" using unat_u16_less[of "le16 a b"] by linarith
  with 3 show ?case by simp
qed simp

lemma unat_cksum_sum:
  assumes "unat s + wsum data < 2 ^ 32"
  shows "unat (cksum_sum data s) = unat s + wsum data"
  using assms
proof (induction data s rule: cksum_sum.induct)
  case (2 b s)
  have "unat (ucast b :: u32) = unat b" by (rule unat_ucast_up) simp
  with 2 show ?case by (simp add: unat_word_ariths)
next
  case (3 a b rest s)
  have "unat (ucast (le16 a b) :: u32) = unat (le16 a b)" by (rule unat_ucast_up) simp
  with 3 have "unat (s + ucast (le16 a b)) = unat s + unat (le16 a b)" by (simp add: unat_word_ariths)
  with 3 show ?case by simp
qed simp

lemma cksum_fold_spec:
  "unat (cksum_fold s) \<le> 65535 \<and> unat (cksum_fold s) mod 65535 = unat s mod 65535 \<and> (unat (cksum_fold s) = 0 \<longleftrightarrow> unat s = 0)"
proof (induction s rule: cksum_fold.induct)
  case (1 s)
  show ?case
  proof (cases "drop_bit 16 s = 0")
    case True
    have "unat (s AND 0xffff) \<le> 65535" using word_and_le1[of s "0xffff"] by (simp add: word_le_nat_alt)
    moreover have "unat s = unat (s AND 0xffff)" using unat_split16[of s] True by simp
    ultimately show ?thesis using True by (subst (1 2 3) cksum_fold.simps) simp
  next
    case False
    let ?l = "unat (s AND 0xffff)" and ?h = "unat (drop_bit 16 s)"
    have "0 < ?h" using False by (simp add: unat_gt_0)
    have "(?l + 65536 * ?h) mod 65535 = (?l + ?h + 65535 * ?h) mod 65535" by (simp add: algebra_simps)
    also have "\<dots> = (?l + ?h) mod 65535" by (simp only: mod_mult_self2)
    finally show ?thesis using 1[OF False] \<open>0 < ?h\<close> unat_split16[of s] unat_fold16[of s] False
      by (subst (1 2 3) cksum_fold.simps) simp
  qed
qed

lemma unat_icmp_cksum: "unat (icmp_cksum data) = 65535 - unat (cksum_fold (cksum_sum data 0))"
proof -
  let ?f = "cksum_fold (cksum_sum data 0)"
  have f: "unat ?f \<le> 65535" using cksum_fold_spec by blast
  have "icmp_cksum data = NOT (ucast ?f :: u16)" unfolding icmp_cksum_def by (rule bit_word_eqI) (auto simp: bit_simps)
  moreover have "unat (ucast ?f :: u16) = unat ?f"
    using f by (simp add: unsigned_ucast_eq take_bit_nat_eq_self)
  moreover have "unat (NOT (w :: u16)) = 65535 - unat w" for w
  proof -
    have "NOT w = - 1 - w" by (simp add: not_eq_complement)
    moreover have "unat (- 1 :: u16) = 65535" by (simp add: unsigned_minus_1_eq_mask mask_eq_exp_minus_1)
    ultimately show ?thesis using unat_sub[OF word_n1_ge[of w]] by simp
  qed
  ultimately show ?thesis by simp
qed

text \<open>A checksum stored in a zeroed field makes the checksum of the whole message zero, which is what a
  receiver tests.\<close>

lemma cksum_verifies:
  assumes "wsum q = wsum p + unat (icmp_cksum p)" "length p \<le> 65536" "length q \<le> 65536"
  shows "icmp_cksum q = 0"
proof -
  have lim: "wsum x < 2 ^ 32" if "length x \<le> 65536" for x
    using wsum_le[of x] that by simp
  define f where "f = unat (cksum_fold (cksum_sum p 0))"
  have sp: "unat (cksum_sum p 0) = wsum p" using unat_cksum_sum[of 0 p] lim[OF assms(2)] by simp
  have sq: "unat (cksum_sum q 0) = wsum q" using unat_cksum_sum[of 0 q] lim[OF assms(3)] by simp
  have f: "f \<le> 65535" "f mod 65535 = wsum p mod 65535" "f = 0 \<longleftrightarrow> wsum p = 0"
    using cksum_fold_spec[of "cksum_sum p 0"] unfolding f_def sp by auto
  have q: "wsum q = wsum p + (65535 - f)" using assms(1) unfolding unat_icmp_cksum f_def .
  have "(wsum p + (65535 - f)) mod 65535 = (f + (65535 - f)) mod 65535" using f(2) by (metis mod_add_left_eq)
  then have "wsum q mod 65535 = 0" using f(1) q by simp
  moreover have "wsum q \<noteq> 0" using q f(3) by (cases "f = 0") auto
  ultimately have g: "unat (cksum_fold (cksum_sum q 0)) \<le> 65535" "unat (cksum_fold (cksum_sum q 0)) mod 65535 = 0"
    "unat (cksum_fold (cksum_sum q 0)) \<noteq> 0" using cksum_fold_spec[of "cksum_sum q 0"] unfolding sq by auto
  have "unat (cksum_fold (cksum_sum q 0)) = 65535"
  proof (rule ccontr)
    assume "unat (cksum_fold (cksum_sum q 0)) \<noteq> 65535"
    with g(1) have "unat (cksum_fold (cksum_sum q 0)) mod 65535 = unat (cksum_fold (cksum_sum q 0))" by (intro mod_less) simp
    with g(2,3) show False by simp
  qed
  then show ?thesis using unat_icmp_cksum[of q] by (simp add: unat_eq_zero)
qed

lemma le16_bytes [simp]: "le16 (ucast w) (ucast (drop_bit 8 w)) = (w :: u16)"
  unfolding le16_def be16_def by (rule bit_word_eqI) (auto simp: bit_simps)

lemma be16_bytes [simp]: "be16 (ucast (drop_bit 8 w)) (ucast w) = (w :: u16)"
  unfolding be16_def by (rule bit_word_eqI) (auto simp: bit_simps)

text \<open>Every echo request carries a valid checksum.\<close>

theorem echo_request_checksum: "length (echo_request ident seq) = 16 \<and> icmp_cksum (echo_request ident seq) = 0"
proof
  show "length (echo_request ident seq) = 16" by (simp add: echo_request_def echo_frame_def le_bytes_def be_bytes_def)
  show "icmp_cksum (echo_request ident seq) = 0"
    unfolding echo_request_def
    by (rule cksum_verifies[of _ "echo_frame 0 ident seq"]) (simp_all add: echo_frame_def le_bytes_def be_bytes_def, simp add: le16_def be16_def)
qed

section \<open>Received packets\<close>

lemma icmp_payload_suffix:
  "icmp_payload buf is_raw = Some p \<Longrightarrow> 8 \<le> length p \<and> (\<exists>k \<le> 60. p = drop k buf \<and> k + length p = length buf)"
proof -
  assume p: "icmp_payload buf is_raw = Some p"
  have "unat (hd buf AND 0x0f) \<le> 15" using word_and_le1[of "hd buf" "0x0f"] by (simp add: word_le_nat_alt)
  then show ?thesis using p
    by (auto simp: icmp_payload_def Let_def split: if_splits intro: exI[of _ 0] exI[of _ "unat (hd buf AND 0x0f) * 4"])
qed

text \<open>An echo reply on a raw socket: an IPv4 header of \<open>ihl\<close> words, then the message.\<close>

definition echo_reply :: "u16 \<Rightarrow> u16 \<Rightarrow> u16 \<Rightarrow> bytes \<Rightarrow> bytes" where
  "echo_reply cks ident seq payload = [0, 0] @ le_bytes cks @ be_bytes ident @ be_bytes seq @ payload"

lemma ping_reply_dgram:
  assumes "pi_readable io" "pi_recv io = echo_reply cks ident seq payload" "length payload \<le> 248"
  shows "ping_reply io False seq' = (if seq = seq' then Some (pi_recv io) else None)"
  using assms by (simp add: ping_reply_def echo_reply_def icmp_payload_def le_bytes_def be_bytes_def Let_def)

lemma ping_reply_raw:
  assumes "pi_readable io" "pi_recv io = (0x45 # ip) @ echo_reply cks ident seq payload" "length ip = 19" "length payload \<le> 228"
  shows "ping_reply io True seq' = (if seq = seq' then Some (echo_reply cks ident seq payload) else None)"
proof -
  have "icmp_payload (pi_recv io) True = Some (echo_reply cks ident seq payload)"
    using assms(2,3) by (simp add: icmp_payload_def Let_def echo_reply_def le_bytes_def be_bytes_def)
  moreover have "take 256 (pi_recv io) = pi_recv io" "pi_recv io \<noteq> []"
    using assms(2-4) by (simp_all add: echo_reply_def le_bytes_def be_bytes_def)
  ultimately show ?thesis using assms(1)
    by (simp add: ping_reply_def Let_def) (simp add: echo_reply_def le_bytes_def be_bytes_def)
qed

section \<open>Every probe keeps the agent and its sockets\<close>

definition opened :: "probe_action list \<Rightarrow> int list" where
  "opened lg = concat (map (\<lambda>x. case x of Open_sock fd \<Rightarrow> [fd] | _ \<Rightarrow> []) lg)"

definition closed_socks :: "probe_action list \<Rightarrow> int list" where
  "closed_socks lg = concat (map (\<lambda>x. case x of Close_sock fd \<Rightarrow> [fd] | _ \<Rightarrow> []) lg)"

lemma sock_simps [simp]:
  "opened [] = []" "opened (x # xs) = (case x of Open_sock fd \<Rightarrow> [fd] | _ \<Rightarrow> []) @ opened xs" "opened (xs @ ys) = opened xs @ opened ys"
  "closed_socks [] = []" "closed_socks (x # xs) = (case x of Close_sock fd \<Rightarrow> [fd] | _ \<Rightarrow> []) @ closed_socks xs"
  "closed_socks (xs @ ys) = closed_socks xs @ closed_socks ys"
  by (simp_all add: opened_def closed_socks_def)

lemma emit_sample_line_inv: "agent_inv a \<Longrightarrow> agent_inv (snd (emit_sample_line s a))"
  by (simp add: emit_sample_line_def cpe_agent_set_last_sample_def split_beta spool_sample_inv agent_inv_eq_push)

lemma u64_dbl_range: "0 \<le> u64_dbl w" "u64_dbl w \<le> 2 ^ 64"
proof -
  show "0 \<le> u64_dbl w" unfolding u64_dbl_def by (rule dbl_nonneg[OF of_nat_0_le_iff])
  have "(of_nat (unat w) :: rat) \<le> of_nat (2 ^ 64)" unfolding of_nat_le_iff using less_imp_le[OF unat_u64_less[of w]] by simp
  then show "u64_dbl w \<le> 2 ^ 64" unfolding u64_dbl_def dbl_def by (intro fl_le[OF of_nat_0_le_iff]) simp_all
qed

lemma elapsed_rtt_range: "0 \<le> elapsed_rtt t0 t1" "elapsed_rtt t0 t1 \<le> 10 ^ 300 - 1"
proof -
  have n: "0 \<le> u64_dbl w / 1000000" and u: "u64_dbl w / 1000000 \<le> 2 ^ 64" for w
    using u64_dbl_range[of w] by simp_all
  show "0 \<le> elapsed_rtt t0 t1" using dbl_nonneg[OF n] by (simp add: elapsed_rtt_def)
  have "dbl (u64_dbl w / 1000000) \<le> 2 ^ 64" for w unfolding dbl_def[of "_ / _"] by (rule fl_le[OF n u]) simp_all
  from order_trans[OF this, of "10 ^ 300 - 1"] show "elapsed_rtt t0 t1 \<le> 10 ^ 300 - 1" by (simp add: elapsed_rtt_def)
qed

text \<open>What a probe leaves behind: the sample, and its line at the end of the spool.\<close>

lemma emit_sample_line_spool:
  assumes "spool_ready a" "cpe_perf_format_ndjson (Some (c_router_id (ag_cfg a))) (Some s) 768 = Some line"
  shows "\<exists>b. emit_sample_line s a = (0, b) \<and> ag_last b = Some s \<and> spool_view b = spool_view (spool_push line a)"
proof -
  let ?a = "eq_push CPE_AGENT_EVENT_SAMPLE_READY (Some ''sample'') 0 0 (a\<lparr>ag_last := Some s\<rparr>)"
  have r: "spool_ready ?a" using assms(1) by simp
  have "spool_view (spool_push line ?a) = spool_view (spool_push line a)"
    using pushes_view_cong[OF r assms(1), of "[line]"] by simp
  moreover have "emit_sample_line s a = (0, spool_push line ?a)"
    using assms(2) spool_ready_push(2)[OF r, of line]
    by (simp add: emit_sample_line_def cpe_agent_set_last_sample_def spool_sample_def spool_push_def split_beta)
  ultimately show ?thesis by (simp add: spool_push_def)
qed

lemma agent_inv_ping [simp]: "agent_inv (a\<lparr>ag_ping := p\<rparr>) = agent_inv a"
  by (simp add: agent_inv_def)

lemma live_ping_safe:
  assumes "cpe_agent_live_ping_tick feed settle ident io seq0 a = (r, seq, lg, b)"
  shows "opened lg = closed_socks lg \<and> (agent_inv a \<longrightarrow> agent_inv b) \<and> (r = 0 \<or> r = -1)"
proof -
  have e: "fst (emit_sample_line s x) \<in> {0, -1}" for s and x :: "('a, 'b, 'c, 'd) cpe_agent"
    by (simp add: emit_sample_line_def split_beta)
  show ?thesis
    using assms e
    by (auto simp: cpe_agent_live_ping_tick_def Let_def split_beta emit_sample_line_inv feed_icmp_inv split: if_splits option.splits)
qed

lemma line_safe_pton4: "pton4_scan fin cur saw oc s = Some r \<Longrightarrow> line_safe s"
  by (induction fin cur saw oc s rule: pton4_scan.induct) (auto simp: Let_def is_digit_def split: if_splits)

lemma line_safe_target: "inet_pton4 t = Some w \<Longrightarrow> line_safe t"
  by (auto simp: inet_pton4_def split: option.splits intro: line_safe_pton4)

lemma ping_sample_wf:
  assumes "line_safe target"
  shows "sample_wf (ping_sample target clk rtt is_raw)"
  using assms le_less_trans[OF length_iso_now(3)[of clk], of 40]
  by (auto simp: sample_wf_def ping_sample_def length_cstr_less intro!: line_safe_cstr)


text \<open>The reply is matched by its sequence number alone: on a raw socket, which sees the replies to every
  process of the host, a reply with another identifier counts as the answer.\<close>

theorem ping_ignores_identifier:
  "ping_reply \<lparr> pi_dgram = -1, pi_raw = 3, pi_sent = True, pi_readable = True,
      pi_recv = (0x45 # replicate 19 0) @ echo_reply cks other seq (map of_char ''cpeagent''), pi_t0 = t0, pi_t1 = t1, pi_clk = clk \<rparr> True seq =
     Some (echo_reply cks other seq (map of_char ''cpeagent''))"
  using ping_reply_raw[of "\<lparr> pi_dgram = -1, pi_raw = 3, pi_sent = True, pi_readable = True,
      pi_recv = (0x45 # replicate 19 0) @ echo_reply cks other seq (map of_char ''cpeagent''), pi_t0 = t0, pi_t1 = t1, pi_clk = clk \<rparr>"
      "replicate 19 0" cks other seq "map of_char ''cpeagent''" seq] by simp

section \<open>ARP replies\<close>

lemma be_bytes_be16: "be_bytes w = [a, b] \<Longrightarrow> be16 a b = w"
  by (auto simp: be_bytes_def)

text \<open>A frame is taken for a reply exactly when it is an ARP reply sent by the probed address, and the
  hardware address it yields is the one the sender put in it; a request, such as the probe's own,
  never is.\<close>

theorem arp_reply_recognised:
  assumes "length d = 6" "length s = 6" "length sha = 6" "length spa = 4" "length tha = 6" "length tpa = 4"
  shows "is_arp_reply_for (arp_frame d s op sha spa tha tpa @ pad) ip = (if op = 2 \<and> spa = ip then Some sha else None)"
proof -
  let ?f = "arp_frame d s op sha spa tha tpa @ pad"
  have at: "?f ! (12 + k) = (be_bytes 0x0806 @ be_bytes 1 @ be_bytes 0x0800 @ [6, 4] @ be_bytes op @ sha @ spa @ tha @ tpa @ pad) ! k" for k
    using assms by (simp add: arp_frame_def nth_append)
  have b: "length (be_bytes w) = 2" for w by (simp add: be_bytes_def)
  have f12: "be16_at ?f 12 = 0x0806" "be16_at ?f 14 = 1" "be16_at ?f 16 = 0x0800" "?f ! 18 = 6" "?f ! 19 = 4" "be16_at ?f 20 = op"
    using at[of 0] at[of 1] at[of 2] at[of 3] at[of 4] at[of 5] at[of 6] at[of 7] at[of 8] at[of 9]
    by (simp_all add: be16_at_def be_bytes_def) (simp_all add: be16_def)
  have "take 6 (drop 22 ?f) = sha" "take 4 (drop 28 ?f) = spa" "42 \<le> length ?f"
    using assms by (simp_all add: arp_frame_def b)
  moreover define f where "f = ?f"
  ultimately show ?thesis using f12 unfolding f_def[symmetric] by (simp add: is_arp_reply_for_def)
qed

lemma arp_wait_cong:
  "(\<And>j. k \<le> j \<Longrightarrow> j < k + nat left \<Longrightarrow> polls j = polls' j) \<Longrightarrow> arp_wait polls tpa k left = arp_wait polls' tpa k left"
proof (induction polls tpa k left rule: arp_wait.induct)
  case (1 polls tpa k left)
  show ?case
  proof (cases "left \<le> 0")
    case True
    then show ?thesis by (simp add: arp_wait.simps)
  next
    case False
    define p where "p = polls k"
    have p: "polls' k = p" using "1.prems"[of k] False by (simp add: p_def)
    define e where "e = elapsed_ms (mono_ns (ap_before p)) (mono_ns (ap_after p))"
    have e: "1 \<le> e" by (simp add: e_def elapsed_ms_def Let_def)
    have IH: "arp_wait polls tpa (k + 1) (left - e) = arp_wait polls' tpa (k + 1) (left - e)"
      if "ap_ready p" "is_arp_reply_for (take 256 (ap_frame p)) tpa = None"
      using "1.IH"[of p "take 256 (ap_frame p)"] that False e "1.prems" by (auto simp: p_def e_def)
    show ?thesis using IH p False by (subst (1 2) arp_wait.simps) (simp add: Let_def p_def[symmetric] e_def[symmetric] split: option.split)
  qed
qed

text \<open>The wait for a reply ends: it polls at most once per millisecond of the time-out, whatever the clock
  does, since its outcome does not depend on later polls; and it stops at the first reply.\<close>

theorem arp_wait_ends:
  assumes "\<forall>j < nat left. polls j = polls' j"
  shows "arp_wait polls tpa 0 left = arp_wait polls' tpa 0 left"
  by (rule arp_wait_cong) (use assms in simp)

definition silent_poll :: arp_poll where
  "silent_poll = \<lparr> ap_ready = False, ap_frame = [], ap_before = clk0, ap_t1 = clk0, ap_after = clk0 \<rparr>"

theorem arp_wait_ends_witness:
  "arp_wait (\<lambda>j. silent_poll) [10, 0, 0, 1] 0 2 = arp_wait (\<lambda>j. if j < 2 then silent_poll else silent_poll\<lparr>ap_ready := True\<rparr>) [10, 0, 0, 1] 0 2"
  by (rule arp_wait_ends) simp

theorem arp_reply_recognised_witness:
  "is_arp_reply_for (arp_frame [1,1,1,1,1,1] [2,2,2,2,2,2] 2 [2,2,2,2,2,2] [10,0,0,1] [1,1,1,1,1,1] [10,0,0,9] @ [0,0]) [10,0,0,1] =
     Some [2,2,2,2,2,2]"
  using arp_reply_recognised[of "[1,1,1,1,1,1]" "[2,2,2,2,2,2]" "[2,2,2,2,2,2]" "[10,0,0,1]" "[1,1,1,1,1,1]" "[10,0,0,9]" 2 "[0,0]" "[10,0,0,1]"]
  by simp

lemma iface_addrs_socks: "iface_addrs ie n = (r, lg) \<Longrightarrow> opened lg = closed_socks lg"
  by (auto simp: iface_addrs_def Let_def split: if_splits option.splits)

lemma arping_on_safe:
  assumes "arping_on ie io target dip ifname a = (r, lg, b)"
  shows "opened lg = closed_socks lg \<and> (agent_inv a \<longrightarrow> agent_inv b)"
proof -
  obtain q lg0 where q: "iface_addrs ie ifname = (q, lg0)" by fastforce
  show ?thesis using assms iface_addrs_socks[OF q]
    by (cases q) (auto simp: arping_on_def q Let_def split_beta emit_sample_line_inv split: if_splits)
qed

lemma arping_safe:
  assumes "cpe_agent_arping ie io t i a = (r, lg, b)"
  shows "opened lg = closed_socks lg \<and> (agent_inv a \<longrightarrow> agent_inv b)"
  using assms
  by (auto simp: cpe_agent_arping_def Let_def split: if_split_asm option.split_asm dest: arping_on_safe)

lemma demo_arping_inv: "agent_inv a \<Longrightarrow> agent_inv (snd (cpe_agent_demo_arping latency clk t a))"
  by (simp add: cpe_agent_demo_arping_def Let_def emit_sample_line_inv split: option.split)

section \<open>Witness\<close>

definition echo_io :: "u16 \<Rightarrow> ping_io" where
  "echo_io seq = \<lparr> pi_dgram = 5, pi_raw = -1, pi_sent = True, pi_readable = True,
     pi_recv = echo_reply 0 7 seq (map of_char ''cpeagent''), pi_t0 = clk0, pi_t1 = clk0, pi_clk = clk0 \<rparr>"

lemma lab_target: "inet_pton4 ''1.1.1.1'' = Some 0x01010101"
  by (simp add: cdefs)


end
