(* ===== verification/Live_Trace.thy ===== *)
theory Live_Trace
  imports Live_Probe
begin

text \<open>
  \<^verbatim>\<open>agent/live_trace.c\<close>: traceroute and mtr. A probe is a UDP datagram whose answer arrives on the
  error queue of its socket, or an ICMP echo request with a limited time to live; its
  results are inputs, one record per time to live and attempt. \<^verbatim>\<open>icmp_cksum\<close>, \<^verbatim>\<open>mono_ns\<close>,
  \<^verbatim>\<open>iso_now\<close>, \<^verbatim>\<open>open_icmp_socket\<close> and \<^verbatim>\<open>icmp_payload\<close> repeat those of \<^verbatim>\<open>live_ping.c\<close>. The hop
  array with its count is the list of the finished hops.
\<close>

section \<open>Data\<close>

record cpe_trace_hop =
  hp_hop :: int
  hp_addr :: string
  hp_sent :: u32
  hp_replies :: u32
  hp_timeouts :: u32
  hp_last_rtt_ms :: double
  hp_avg_rtt_ms :: double
  hp_min_rtt_ms :: double
  hp_max_rtt_ms :: double
  hp_loss :: single
  hp_reached_dest :: bool

record cpe_trace_result =
  tr_target :: string
  tr_ts_iso :: string
  tr_method :: string
  tr_max_ttl :: int
  tr_probes_per_hop :: int
  tr_reached :: bool
  tr_dest_rtt_ms :: double
  tr_hops :: "cpe_trace_hop list"

datatype probe_outcome = PROBE_TIMEOUT | PROBE_HOP | PROBE_DEST

section \<open>One hop\<close>

definition hop_init :: "int \<Rightarrow> cpe_trace_hop" where
  "hop_init n = \<lparr> hp_hop = n, hp_addr = [], hp_sent = 0, hp_replies = 0, hp_timeouts = 0, hp_last_rtt_ms = 0, hp_avg_rtt_ms = 0,
     hp_min_rtt_ms = 0, hp_max_rtt_ms = 0, hp_loss = 0, hp_reached_dest = False \<rparr>"

definition hop_loss :: "cpe_trace_hop \<Rightarrow> single" where
  \<comment> \<open>\<^verbatim>\<open>(float)h->timeouts / (float)h->sent\<close>\<close>
  "hop_loss h = (if hp_sent h > 0 then sgl (sgl (of_nat (unat (hp_timeouts h))) / sgl (of_nat (unat (hp_sent h)))) else hp_loss h)"

definition hop_record :: "cpe_trace_hop \<Rightarrow> bool \<Rightarrow> string \<Rightarrow> double \<Rightarrow> bool \<Rightarrow> cpe_trace_hop" where
  "hop_record h0 success addr rtt reached_dest =
     (let h = h0\<lparr>hp_sent := hp_sent h0 + 1\<rparr> in
      if \<not> success then (let h1 = h\<lparr>hp_timeouts := hp_timeouts h + 1\<rparr> in h1\<lparr>hp_loss := hop_loss h1\<rparr>)
      else
        (let h1 = h\<lparr>hp_replies := hp_replies h + 1, hp_addr := (if addr \<noteq> [] then cstr 64 addr else hp_addr h), hp_last_rtt_ms := rtt\<rparr>;
             h2 = (if hp_replies h1 = 1 then h1\<lparr>hp_min_rtt_ms := rtt, hp_max_rtt_ms := rtt, hp_avg_rtt_ms := rtt\<rparr>
                   else h1\<lparr>hp_min_rtt_ms := (if rtt < hp_min_rtt_ms h1 then rtt else hp_min_rtt_ms h1),
                           hp_max_rtt_ms := (if rtt > hp_max_rtt_ms h1 then rtt else hp_max_rtt_ms h1),
                           hp_avg_rtt_ms := dbl (dbl (dbl (hp_avg_rtt_ms h1 * of_nat (unat (hp_replies h1 - 1))) + rtt) /
                             of_nat (unat (hp_replies h1)))\<rparr>);
             h3 = (if reached_dest then h2\<lparr>hp_reached_dest := True\<rparr> else h2)
         in h3\<lparr>hp_loss := hop_loss h3\<rparr>))"

section \<open>One probe\<close>

text \<open>
  A control message of the error queue: whether it is an \<^verbatim>\<open>IP_RECVERR\<close> message, the offender if its
  family is \<^verbatim>\<open>AF_INET\<close>, and the origin, type and code of the extended error.
\<close>

record ext_err =
  ee_recverr :: bool
  ee_offender :: "u32 option"
  ee_origin :: nat
  ee_type :: nat
  ee_code :: nat

datatype errq = Eq_again | Eq_error | Eq_msg "ext_err list"

record udp_io =
  ui_sock :: int
  ui_recverr :: bool
  ui_ttl :: bool
  ui_sent :: bool
  ui_polled :: bool
  ui_pollin :: bool
  ui_errq :: errq
  ui_data :: "u32 option" \<comment> \<open>the sender of ordinary data, if \<^verbatim>\<open>recvfrom\<close> succeeds\<close>
  ui_t0 :: clock
  ui_t1 :: clock

fun classify :: "ext_err list \<Rightarrow> string \<Rightarrow> probe_outcome \<times> string" where
  "classify [] addr = (PROBE_HOP, addr)"
| "classify (e # es) addr =
     (if ee_recverr e then
        (let addr' = (case ee_offender e of None \<Rightarrow> addr | Some w \<Rightarrow> inet_ntop4 w) in
         if (ee_origin e = 2 \<or> ee_origin e = 1) \<and> ee_type e = 11 then (PROBE_HOP, addr')
         else if (ee_origin e = 2 \<or> ee_origin e = 1) \<and> ee_type e = 3 then (if ee_code e = 3 then PROBE_DEST else PROBE_HOP, addr')
         else classify es addr')
      else classify es addr)"

text \<open>The outcome, the address text and the round-trip time.\<close>

definition udp_wait_probe :: "udp_io \<Rightarrow> probe_outcome \<times> string \<times> double" where
  "udp_wait_probe io =
     (let rtt = elapsed_rtt (mono_ns (ui_t0 io)) (mono_ns (ui_t1 io)) in
      if \<not> ui_polled io then (PROBE_TIMEOUT, [], 0)
      else case ui_errq io of
        Eq_again \<Rightarrow>
          (case (if ui_pollin io then ui_data io else None) of
             Some src \<Rightarrow> (PROBE_DEST, inet_ntop4 src, rtt) | None \<Rightarrow> (PROBE_TIMEOUT, [], 0))
      | Eq_error \<Rightarrow> (PROBE_TIMEOUT, [], 0)
      | Eq_msg es \<Rightarrow> (let (oc, addr) = classify es [] in (oc, addr, rtt)))"

definition udp_payload :: "int \<Rightarrow> bytes" where
  "udp_payload ttl = (let t = map of_char (cstr 32 (''cpe'' @ int0 2 ttl)) in t @ replicate (32 - length t) 0)"

definition probe_udp_once :: "udp_io \<Rightarrow> int \<Rightarrow> u16 \<Rightarrow> (int \<times> string \<times> double) \<times> probe_action list" where
  "probe_udp_once io ttl prt =
     (let fd = ui_sock io in
      if fd < 0 then ((-1, [], 0), [])
      else if \<not> ui_recverr io \<or> \<not> ui_ttl io \<or> \<not> ui_sent io then ((-1, [], 0), [Open_sock fd, Close_sock fd])
      else
        (let (oc, addr, rtt) = udp_wait_probe io
         in ((case oc of PROBE_TIMEOUT \<Rightarrow> 0 | PROBE_DEST \<Rightarrow> 2 | PROBE_HOP \<Rightarrow> 1, addr, rtt),
             [Open_sock fd, Send_udp fd prt ttl (udp_payload ttl), Close_sock fd])))"

record icmp_io =
  ci_dgram :: int
  ci_raw :: int
  ci_sent :: bool
  ci_readable :: bool
  ci_recv :: bytes
  ci_from :: "u32 option" \<comment> \<open>the sender, if its family is \<^verbatim>\<open>AF_INET\<close>\<close>
  ci_t0 :: clock
  ci_t1 :: clock

definition probe_icmp_once :: "icmp_io \<Rightarrow> u16 \<Rightarrow> u16 \<Rightarrow> (int \<times> string \<times> double) \<times> probe_action list" where
  "probe_icmp_once io ident seq =
     (let (fd, is_raw) = open_icmp_socket (ci_dgram io) (ci_raw io) in
      if fd < 0 then ((-1, [], 0), [])
      else if \<not> ci_sent io then ((-1, [], 0), [Open_sock fd, Close_sock fd])
      else
        (let lg = [Open_sock fd, Send_frame fd (echo_request ident seq), Close_sock fd]; rx = take 512 (ci_recv io) in
         if \<not> ci_readable io \<or> rx = [] then ((0, [], 0), lg)
         else
           (let addr = (case ci_from io of None \<Rightarrow> [] | Some w \<Rightarrow> inet_ntop4 w);
                rtt = elapsed_rtt (mono_ns (ci_t0 io)) (mono_ns (ci_t1 io));
                pr = (case icmp_payload rx is_raw of None \<Rightarrow> 1
                      | Some icm \<Rightarrow> if hd icm = 0 then 2 else if hd icm = 11 then 1 else if hd icm = 3 then 2 else 1)
            in ((pr, addr, rtt), lg))))"

section \<open>The path\<close>

definition resolve_target :: "string option \<Rightarrow> ('p,'n,'w,'t) cpe_agent \<Rightarrow> nat \<Rightarrow> (string \<times> u32) option" where
  "resolve_target target_opt a out_len =
     (let target = (case target_opt of None \<Rightarrow> c_demo_target (ag_cfg a) | Some t \<Rightarrow> str_or t (c_demo_target (ag_cfg a))) in
      if target = [] \<or> length target \<ge> out_len then None
      else case inet_pton4 target of None \<Rightarrow> None | Some w \<Rightarrow> Some (target, w))"

text \<open>What the loops carry besides the hop: the method in use, the two counters, the result so far.\<close>

record trace_st =
  ts_udp :: bool
  ts_method :: string
  ts_echo :: u16
  ts_port :: u16
  ts_reached :: bool
  ts_dest_rtt :: double
  ts_log :: "probe_action list"

text \<open>The outcomes of the probes by time to live and attempt, and the identifier of the process.\<close>

record trace_io =
  ti_udp :: "int \<Rightarrow> nat \<Rightarrow> udp_io"
  ti_icmp :: "int \<Rightarrow> nat \<Rightarrow> icmp_io"
  ti_ident :: u16
  ti_test_sock :: int
  ti_test_recverr :: bool
  ti_clk :: clock

definition try_icmp :: "trace_io \<Rightarrow> int \<Rightarrow> nat \<Rightarrow> trace_st \<Rightarrow> (int \<times> string \<times> double) \<times> trace_st" where
  "try_icmp io ttl p st =
     (let seq = ts_echo st + 1; (r, lg) = probe_icmp_once (ti_icmp io ttl p) (ti_ident io) seq
      in (r, st\<lparr>ts_echo := seq, ts_log := ts_log st @ lg\<rparr>))"

definition probe_once :: "trace_io \<Rightarrow> int \<Rightarrow> nat \<Rightarrow> trace_st \<Rightarrow> (int \<times> string \<times> double) \<times> trace_st" where
  "probe_once io ttl p st =
     (if ts_udp st then
        (let prt = 33434 + ts_port st mod 2000;
             ((pr, addr, rtt), lg) = probe_udp_once (ti_udp io ttl p) ttl prt;
             st1 = st\<lparr>ts_port := ts_port st + 1, ts_log := ts_log st @ lg\<rparr>
         in if pr < 0 then try_icmp io ttl p (st1\<lparr>ts_udp := False, ts_method := ''icmp''\<rparr>) else ((pr, addr, rtt), st1))
      else try_icmp io ttl p st)"

text \<open>The attempts \<open>p, p + 1, ...\<close> of one hop.\<close>

fun hop_probes :: "trace_io \<Rightarrow> string \<Rightarrow> int \<Rightarrow> nat \<Rightarrow> nat \<Rightarrow> cpe_trace_hop \<Rightarrow> bool \<Rightarrow> trace_st \<Rightarrow> cpe_trace_hop \<times> bool \<times> trace_st" where
  "hop_probes io target ttl p 0 hop hop_reached st = (hop, hop_reached, st)"
| "hop_probes io target ttl p (Suc n) hop hop_reached st =
     (let ((pr, addr, rtt), st1) = probe_once io ttl p st in
      if pr \<le> 0 then hop_probes io target ttl (p + 1) n (hop_record hop False [] 0 False) hop_reached st1
      else if pr = 2 then
        hop_probes io target ttl (p + 1) n (hop_record hop True (str_or addr target) rtt True) True
          (st1\<lparr>ts_reached := True, ts_dest_rtt := rtt\<rparr>)
      else hop_probes io target ttl (p + 1) n (hop_record hop True addr rtt False) hop_reached st1)"

fun trace_hops :: "trace_io \<Rightarrow> string \<Rightarrow> nat \<Rightarrow> int list \<Rightarrow> cpe_trace_hop list \<Rightarrow> trace_st \<Rightarrow> cpe_trace_hop list \<times> trace_st" where
  "trace_hops io target probes [] hops st = (hops, st)"
| "trace_hops io target probes (ttl # ttls) hops st =
     (let (hop, hop_reached, st1) = hop_probes io target ttl 0 probes (hop_init ttl) False st;
          hops1 = hops @ [hop]
      in if hop_reached then (hops1, st1) else trace_hops io target probes ttls hops1 st1)"

definition bool_text :: "bool \<Rightarrow> string" where
  "bool_text b = (if b then ''true'' else ''false'')"

definition summary_sample :: "string \<Rightarrow> cpe_trace_result \<Rightarrow> cpe_perf_sample" where
  \<open>summary_sample probe_name tr =
     (let (rtt, loss) =
        (if tr_reached tr \<and> tr_dest_rtt_ms tr > 0 then (tr_dest_rtt_ms tr, 0)
         else if tr_hops tr \<noteq> [] then (hp_last_rtt_ms (last (tr_hops tr)), hp_loss (last (tr_hops tr))) else (0, 1))
      in \<lparr> ps_probe = cstr 32 probe_name, ps_target = cstr 64 (tr_target tr), ps_rtt_ms = rtt, ps_loss = loss,
           ps_ts_iso = cstr 40 (tr_ts_iso tr),
           ps_meta = cstr 128 (''{"hops":'' @ int_dec (int (length (tr_hops tr))) @ '',"reached":'' @ bool_text (tr_reached tr) @
             '',"method":"'' @ tr_method tr @ ''","probes":'' @ int_dec (tr_probes_per_hop tr) @ '',"demo":false}'') \<rparr>)\<close>

definition hop_meta :: "cpe_trace_result \<Rightarrow> cpe_trace_hop \<Rightarrow> string" where
  \<open>hop_meta tr h = ''{"hop":'' @ int_dec (hp_hop h) @ '',"sent":'' @ u32_dec (hp_sent h) @ '',"replies":'' @ u32_dec (hp_replies h) @
     '',"dest":'' @ bool_text (hp_reached_dest h) @ '',"path":"'' @ tr_target tr @ ''"}''\<close>

text \<open>The record of one hop, skipped when it does not fit.\<close>

definition hop_line :: "string \<Rightarrow> string \<Rightarrow> cpe_trace_result \<Rightarrow> cpe_trace_hop \<Rightarrow> string option" where
  "hop_line rid probe_name tr h =
     (if length (hop_meta tr h) \<ge> 128 then None
      else cpe_perf_format_ndjson (Some rid)
        (Some \<lparr> ps_probe = cstr 32 (probe_name @ ''_hop''), ps_target = cstr 64 (str_or (hp_addr h) ''*''), ps_rtt_ms = hp_last_rtt_ms h,
           ps_loss = hp_loss h, ps_ts_iso = cstr 40 (tr_ts_iso tr), ps_meta = hop_meta tr h \<rparr>) 768)"

definition push_hop :: "string \<Rightarrow> cpe_trace_result \<Rightarrow> cpe_trace_hop \<Rightarrow> ('p,'n,'w,'t) cpe_agent \<Rightarrow> ('p,'n,'w,'t) cpe_agent" where
  "push_hop probe_name tr h a =
     (case hop_line (c_router_id (ag_cfg a)) probe_name tr h of None \<Rightarrow> a | Some l \<Rightarrow> snd (cpe_agent_spool_push_line l a))"

definition emit_summary :: "string \<Rightarrow> cpe_trace_result \<Rightarrow> ('p,'n,'w,'t) cpe_agent \<Rightarrow> int \<times> ('p,'n,'w,'t) cpe_agent" where
  "emit_summary probe_name tr a =
     (let (r, b) = emit_sample_line (summary_sample probe_name tr) a
      in if r \<noteq> 0 then (-1, b) else (0, fold (push_hop probe_name tr) (tr_hops tr) b))"

text \<open>The test whether the kernel offers the error queue.\<close>

definition trace_start :: "trace_io \<Rightarrow> u16 \<Rightarrow> trace_st" where
  "trace_start io port_seq =
     (let ok = (ti_test_sock io \<ge> 0 \<and> ti_test_recverr io)
      in \<lparr> ts_udp = ok, ts_method = (if ok then ''udp'' else ''icmp''), ts_echo = 0, ts_port = port_seq, ts_reached = False,
           ts_dest_rtt = 0, ts_log = (if ti_test_sock io \<ge> 0 then [Open_sock (ti_test_sock io), Close_sock (ti_test_sock io)] else []) \<rparr>)"

definition clip_ttl :: "int \<Rightarrow> int" where
  "clip_ttl max_ttl = (let m = (if max_ttl \<le> 0 then 30 else max_ttl) in if m > 32 then 32 else m)"

definition clip_probes :: "int \<Rightarrow> int" where
  "clip_probes n = (let m = (if n \<le> 0 then 1 else n) in if m > 16 then 16 else m)"

text \<open>The result code, the static port counter, the log, the result, and the agent.\<close>

definition run_trace ::
  "trace_io \<Rightarrow> string option \<Rightarrow> int \<Rightarrow> int \<Rightarrow> string \<Rightarrow> u16 \<Rightarrow> ('p,'n,'w,cpe_trace_result) cpe_agent \<Rightarrow>
   int \<times> u16 \<times> probe_action list \<times> cpe_trace_result option \<times> ('p,'n,'w,cpe_trace_result) cpe_agent" where
  "run_trace io target_opt max_ttl0 probes0 probe_name port_seq a =
     (let max_ttl = clip_ttl max_ttl0; probes = clip_probes probes0 in
      case resolve_target target_opt a 64 of None \<Rightarrow> (-1, port_seq, [], None, a)
      | Some (target, dst) \<Rightarrow>
          (let (hops, st) = trace_hops io target (nat probes) (map int [1..<Suc (nat max_ttl)]) [] (trace_start io port_seq);
               tr = \<lparr> tr_target = cstr 64 target, tr_ts_iso = core_iso_now (ti_clk io), tr_method = ts_method st, tr_max_ttl = max_ttl,
                      tr_probes_per_hop = probes, tr_reached = ts_reached st, tr_dest_rtt_ms = ts_dest_rtt st, tr_hops = hops \<rparr>;
               (_, a1) = cpe_agent_set_last_trace (Some tr) a;
               (r, b) = emit_summary probe_name tr a1
           in if r \<noteq> 0 then (-1, ts_port st, ts_log st, None, b) else (0, ts_port st, ts_log st, Some tr, b)))"

definition cpe_agent_traceroute ::
  "trace_io \<Rightarrow> string option \<Rightarrow> int \<Rightarrow> u16 \<Rightarrow> ('p,'n,'w,cpe_trace_result) cpe_agent \<Rightarrow>
   int \<times> u16 \<times> probe_action list \<times> cpe_trace_result option \<times> ('p,'n,'w,cpe_trace_result) cpe_agent" where
  "cpe_agent_traceroute io target_opt max_ttl port_seq a = run_trace io target_opt max_ttl 1 ''traceroute'' port_seq a"

definition cpe_agent_mtr ::
  "trace_io \<Rightarrow> string option \<Rightarrow> int \<Rightarrow> int \<Rightarrow> u16 \<Rightarrow> ('p,'n,'w,cpe_trace_result) cpe_agent \<Rightarrow>
   int \<times> u16 \<times> probe_action list \<times> cpe_trace_result option \<times> ('p,'n,'w,cpe_trace_result) cpe_agent" where
  "cpe_agent_mtr io target_opt max_ttl probes port_seq a =
     run_trace io target_opt max_ttl (if probes \<le> 0 then 3 else probes) ''mtr'' port_seq a"

section \<open>The demo path\<close>

definition demo_hop :: "string \<Rightarrow> nat \<Rightarrow> nat \<Rightarrow> cpe_trace_hop" where
  "demo_hop target hops i =
     (let rtt = of_nat (i + 1);
          h = (hop_init (int i + 1))\<lparr>hp_sent := 1, hp_replies := 1, hp_last_rtt_ms := rtt, hp_avg_rtt_ms := rtt, hp_min_rtt_ms := rtt,
                hp_max_rtt_ms := rtt, hp_loss := 0\<rparr>
      in if i + 1 < hops then h\<lparr>hp_addr := cstr 64 (''10.0.'' @ dec (i + 1) @ ''.1'')\<rparr>
         else h\<lparr>hp_addr := cstr 64 target, hp_reached_dest := True\<rparr>)"

definition cpe_agent_demo_traceroute ::
  "clock \<Rightarrow> string option \<Rightarrow> int \<Rightarrow> ('p,'n,'w,cpe_trace_result) cpe_agent \<Rightarrow> int \<times> cpe_trace_result \<times> ('p,'n,'w,cpe_trace_result) cpe_agent" where
  \<open>cpe_agent_demo_traceroute clk target_opt max_ttl0 a =
     (let target = str_or (case target_opt of None \<Rightarrow> c_demo_target (ag_cfg a) | Some t \<Rightarrow> str_or t (c_demo_target (ag_cfg a))) ''1.1.1.1'';
          max_ttl = (let m = (if max_ttl0 \<le> 0 then 5 else max_ttl0) in if m > 32 then 32 else m);
          hops = nat (if max_ttl < 4 then max_ttl else 4);
          tr = \<lparr> tr_target = cstr 64 target, tr_ts_iso = core_iso_now clk, tr_method = ''demo'', tr_max_ttl = max_ttl, tr_probes_per_hop = 1,
                 tr_reached = True, tr_dest_rtt_ms = of_nat hops, tr_hops = map (demo_hop target hops) [0..<hops] \<rparr>;
          (_, a1) = cpe_agent_set_last_trace (Some tr) a;
          (r, b) = emit_sample_line \<lparr> ps_probe = ''traceroute'', ps_target = cstr 64 (tr_target tr), ps_rtt_ms = tr_dest_rtt_ms tr, ps_loss = 0,
             ps_ts_iso = cstr 40 (tr_ts_iso tr),
             ps_meta = cstr 128 (''{"hops":'' @ dec hops @ '',"reached":true,"method":"demo","probes":1,"demo":true}'') \<rparr> a1
      in (r, tr, b))\<close>

lemmas live_trace_defs [cdefs] =
  hop_init_def hop_loss_def hop_record_def udp_wait_probe_def udp_payload_def probe_udp_once_def probe_icmp_once_def resolve_target_def
  try_icmp_def probe_once_def bool_text_def summary_sample_def hop_meta_def hop_line_def push_hop_def emit_summary_def trace_start_def
  clip_ttl_def clip_probes_def run_trace_def cpe_agent_traceroute_def cpe_agent_mtr_def demo_hop_def cpe_agent_demo_traceroute_def

section \<open>The counters of a hop\<close>

definition rtt_ok :: "double \<Rightarrow> bool" where
  "rtt_ok r \<longleftrightarrow> 0 \<le> r \<and> r \<le> 10 ^ 300 - 1"

lemma rtt_ok_elapsed [simp]: "rtt_ok (elapsed_rtt t0 t1)" and rtt_ok_0 [simp]: "rtt_ok 0"
  using elapsed_rtt_range[of t0 t1] by (simp_all add: rtt_ok_def)

definition hop_ok :: "nat \<Rightarrow> cpe_trace_hop \<Rightarrow> bool" where
  "hop_ok n h \<longleftrightarrow> unat (hp_sent h) = n \<and> unat (hp_replies h) + unat (hp_timeouts h) = n \<and> 0 \<le> hp_loss h \<and> hp_loss h \<le> 1 \<and> rtt_ok (hp_last_rtt_ms h) \<and>
     (hp_replies h \<noteq> 0 \<longrightarrow> hp_min_rtt_ms h \<le> hp_last_rtt_ms h \<and> hp_last_rtt_ms h \<le> hp_max_rtt_ms h)"

lemma hop_ok_init: "hop_ok 0 (hop_init n)"
  by (simp add: hop_ok_def hop_init_def)

lemma unat_inc: "unat (w :: u32) < 4294967295 \<Longrightarrow> unat (w + 1) = unat w + 1"
  by (simp add: unat_word_ariths)

lemma loss_range:
  fixes t n :: nat
  assumes "t \<le> n" "n < 2 ^ 24"
  shows "0 \<le> sgl (sgl (of_nat t) / sgl (of_nat n))" "sgl (sgl (of_nat t) / sgl (of_nat n)) \<le> 1"
proof -
  have e: "sgl (of_nat t) = of_nat t" "sgl (of_nat n) = of_nat n"
    using assms by (simp_all add: sgl_def fl_exact)
  have q: "0 \<le> (of_nat t / of_nat n :: rat)" "(of_nat t / of_nat n :: rat) \<le> 2 ^ 0"
    using assms(1) by (cases "n = 0"; simp add: divide_le_eq_1)+
  show "0 \<le> sgl (sgl (of_nat t) / sgl (of_nat n))" unfolding e by (rule sgl_nonneg[OF q(1)])
  show "sgl (sgl (of_nat t) / sgl (of_nat n)) \<le> 1" unfolding e sgl_def[of "_ / _"] using fl_le[OF q, of 24 "-149"] by simp
qed

lemma hop_loss_range:
  assumes "unat (hp_timeouts h) \<le> unat (hp_sent h)" "unat (hp_sent h) < 2 ^ 24" "0 < hp_sent h"
  shows "0 \<le> hop_loss h" "hop_loss h \<le> 1"
  using loss_range[OF assms(1,2)] assms(3) by (simp_all add: hop_loss_def)

lemma hop_record_ok:
  assumes "hop_ok n h" "n < 16" "rtt_ok rtt"
  shows "hop_ok (Suc n) (hop_record h success addr rtt dest)"
proof -
  let ?r = "hop_record h success addr rtt dest"
  have c: "unat (hp_sent h) < 4294967295" "unat (hp_replies h) < 4294967295" "unat (hp_timeouts h) < 4294967295"
    using assms by (auto simp: hop_ok_def)
  have cnt: "unat (hp_sent ?r) = Suc n" "unat (hp_replies ?r) + unat (hp_timeouts ?r) = Suc n"
    using assms(1) unat_inc[OF c(1)] unat_inc[OF c(2)] unat_inc[OF c(3)] by (auto simp: hop_record_def Let_def hop_ok_def)
  have l: "hp_loss ?r = hop_loss ?r" "0 < hp_sent ?r"
  proof -
    have "0 < unat (hp_sent ?r)" using cnt(1) by simp
    then show "0 < hp_sent ?r" by (simp add: unat_gt_0 word_neq_0_conv)
    show "hp_loss ?r = hop_loss ?r" by (simp add: hop_record_def hop_loss_def Let_def)
  qed
  have lr: "0 \<le> hp_loss ?r" "hp_loss ?r \<le> 1"
    unfolding l(1) using cnt assms(2) l(2) by (auto intro!: hop_loss_range)
  have m: "hp_replies ?r \<noteq> 0 \<longrightarrow> hp_min_rtt_ms ?r \<le> hp_last_rtt_ms ?r \<and> hp_last_rtt_ms ?r \<le> hp_max_rtt_ms ?r"
    using assms(1) by (auto simp: hop_record_def Let_def hop_ok_def)
  have "rtt_ok (hp_last_rtt_ms ?r)" using assms(1,3) by (auto simp: hop_record_def Let_def hop_ok_def)
  then show ?thesis using cnt lr m by (simp add: hop_ok_def)
qed

lemma hop_record_frame [simp]:
  "hp_hop (hop_record h s ad r d) = hp_hop h"
  "hp_reached_dest (hop_record h s ad r d) \<longleftrightarrow> hp_reached_dest h \<or> s \<and> d"
  by (auto simp: hop_record_def Let_def)

section \<open>The sockets of the probes\<close>

lemma probe_udp_socks [simp]: "opened (snd (probe_udp_once io ttl prt)) = closed_socks (snd (probe_udp_once io ttl prt))"
  by (simp add: probe_udp_once_def Let_def split_beta)

lemma probe_icmp_socks [simp]: "opened (snd (probe_icmp_once io ident seq)) = closed_socks (snd (probe_icmp_once io ident seq))"
  by (simp add: probe_icmp_once_def Let_def split_beta)

lemma probe_once_frame:
  assumes "probe_once io ttl p st = (r, st')"
  shows "ts_reached st' = ts_reached st" "opened (ts_log st) = closed_socks (ts_log st) \<Longrightarrow> opened (ts_log st') = closed_socks (ts_log st')"
  using assms
  by (auto simp: probe_once_def try_icmp_def Let_def split_beta split: if_splits)

lemma udp_wait_rtt [simp]: "rtt_ok (snd (snd (udp_wait_probe io)))"
  by (simp add: udp_wait_probe_def Let_def split_beta split: errq.split option.split)

lemma probe_once_rtt:
  assumes "probe_once io ttl p st = ((pr, addr, rtt), st')"
  shows "rtt_ok rtt" "ts_dest_rtt st' = ts_dest_rtt st" "ts_method st' = ts_method st \<or> ts_method st' = ''icmp''"
proof -
  have "rtt_ok (snd (snd (fst (probe_udp_once io1 ttl prt))))" for io1 prt
    by (simp add: probe_udp_once_def Let_def split_beta)
  moreover have "rtt_ok (snd (snd (fst (probe_icmp_once io2 ident sq))))" for io2 ident sq
    by (simp add: probe_icmp_once_def Let_def split_beta)
  ultimately have u: "\<And>pr addr rtt lg io1 prt. probe_udp_once io1 ttl prt = ((pr, addr, rtt), lg) \<Longrightarrow> rtt_ok rtt"
    and i: "\<And>pr addr rtt lg io2 ident sq. probe_icmp_once io2 ident sq = ((pr, addr, rtt), lg) \<Longrightarrow> rtt_ok rtt"
    by (metis fst_conv snd_conv)+
  show "rtt_ok rtt" "ts_dest_rtt st' = ts_dest_rtt st" "ts_method st' = ts_method st \<or> ts_method st' = ''icmp''"
    using assms by (auto simp: probe_once_def try_icmp_def Let_def split: if_splits prod.splits dest: u i)
qed

lemma hop_probes_spec:
  assumes "hop_probes io target ttl p n hop reached st = (hop', reached', st')" "hop_ok k hop" "k + n \<le> 16"
    "hp_reached_dest hop = reached" "reached \<longrightarrow> ts_reached st" "opened (ts_log st) = closed_socks (ts_log st)"
    "rtt_ok (ts_dest_rtt st)"
  shows "rtt_ok (ts_dest_rtt st') \<and> hop_ok (k + n) hop' \<and> hp_hop hop' = hp_hop hop \<and> hp_reached_dest hop' = reached' \<and>
    (ts_reached st' \<longleftrightarrow> ts_reached st \<or> reached') \<and> (reached \<longrightarrow> reached') \<and> opened (ts_log st') = closed_socks (ts_log st')"
  using assms
proof (induction n arbitrary: p hop reached st k)
  case (Suc n)
  obtain pr addr rtt st1 where po: "probe_once io ttl p st = ((pr, addr, rtt), st1)" by (metis prod.collapse)
  note f = probe_once_frame[OF po] and g = probe_once_rtt[OF po]
  have k: "k < 16" using Suc.prems(3) by simp
  consider "pr \<le> 0" | "pr = 2" | "\<not> pr \<le> 0" "pr \<noteq> 2" by blast
  then show ?case
  proof cases
    case 1
    then have "hop_probes io target ttl (p + 1) n (hop_record hop False [] 0 False) reached st1 = (hop', reached', st')"
      using Suc.prems(1) po by simp
    from Suc.IH[OF this hop_record_ok[OF Suc.prems(2) k]] show ?thesis using f g Suc.prems(3-7) by simp
  next
    case 2
    then have "hop_probes io target ttl (p + 1) n (hop_record hop True (str_or addr target) rtt True) True
        (st1\<lparr>ts_reached := True, ts_dest_rtt := rtt\<rparr>) = (hop', reached', st')"
      using Suc.prems(1) po by simp
    from Suc.IH[OF this hop_record_ok[OF Suc.prems(2) k]] show ?thesis using f g Suc.prems(3-7) by auto
  next
    case 3
    then have "hop_probes io target ttl (p + 1) n (hop_record hop True addr rtt False) reached st1 = (hop', reached', st')"
      using Suc.prems(1) po by simp
    from Suc.IH[OF this hop_record_ok[OF Suc.prems(2) k]] show ?thesis using f g Suc.prems(3-7) by simp
  qed
qed auto

text \<open>The hops of a run: numbered from one, all attempts counted, and only the last may be the destination.\<close>

definition path_ok :: "nat \<Rightarrow> cpe_trace_hop list \<Rightarrow> bool" where
  "path_ok probes hops \<longleftrightarrow> map hp_hop hops = map int [1..<Suc (length hops)] \<and> list_all (hop_ok probes) hops \<and>
     (\<forall>h \<in> set (butlast hops). \<not> hp_reached_dest h)"

lemma path_ok_snoc:
  assumes "path_ok probes hops" "hop_ok probes h" "hp_hop h = int (Suc (length hops))" "\<forall>h \<in> set hops. \<not> hp_reached_dest h"
  shows "path_ok probes (hops @ [h])"
  using assms by (simp add: path_ok_def)

lemma trace_hops_spec:
  assumes "trace_hops io target probes ttls hops st = (hops', st')" "ttls = map int [Suc (length hops)..<Suc m]" "probes \<le> 16"
    "path_ok probes hops" "\<forall>h \<in> set hops. \<not> hp_reached_dest h" "\<not> ts_reached st" "opened (ts_log st) = closed_socks (ts_log st)"
    "length hops \<le> m" "rtt_ok (ts_dest_rtt st)"
  shows "rtt_ok (ts_dest_rtt st') \<and> path_ok probes hops' \<and> length hops' \<le> m \<and> opened (ts_log st') = closed_socks (ts_log st') \<and>
    (ts_reached st' \<longleftrightarrow> (\<exists>h \<in> set hops'. hp_reached_dest h)) \<and> (\<not> ts_reached st' \<longrightarrow> length hops' = m)"
  using assms
proof (induction ttls arbitrary: hops st)
  case Nil
  then show ?case by (auto split: if_splits)
next
  case (Cons ttl ttls)
  have l: "length hops < m" using Cons.prems(2) by (cases "length hops < m") auto
  have t: "ttl = int (Suc (length hops))" "ttls = map int [Suc (Suc (length hops))..<Suc m]"
    using Cons.prems(2) upt_conv_Cons[of "Suc (length hops)" "Suc m"] l by (simp_all del: upt_Suc)
  obtain hop hr st1 where hp: "hop_probes io target ttl 0 probes (hop_init ttl) False st = (hop, hr, st1)" by (metis prod_cases3)
  have h: "hop_ok probes hop" "hp_hop hop = ttl" "hp_reached_dest hop = hr" "ts_reached st1 \<longleftrightarrow> hr" "opened (ts_log st1) = closed_socks (ts_log st1)"
    and d: "rtt_ok (ts_dest_rtt st1)"
    using hop_probes_spec[OF hp hop_ok_init] Cons.prems(3,6,7,9) by (simp_all add: hop_init_def)
  have p: "path_ok probes (hops @ [hop])" using path_ok_snoc[OF Cons.prems(4) h(1)] h(2) t(1) Cons.prems(5) by simp
  show ?case
  proof (cases hr)
    case True
    then have "hops' = hops @ [hop]" "st' = st1" using Cons.prems(1) hp by simp_all
    then show ?thesis using p h d True l by auto
  next
    case False
    then have r: "trace_hops io target probes ttls (hops @ [hop]) st1 = (hops', st')" using Cons.prems(1) hp by simp
    show ?thesis using Cons.IH[OF r _ Cons.prems(3) p] t(2) Cons.prems(5) h d False l by auto
  qed
qed

section \<open>Emission\<close>

lemma last_trace_frame [simp]:
  "ag_last_trace (eq_push ty r n s a) = ag_last_trace a" "ag_last_trace (snd (cpe_agent_spool_push_line l b)) = ag_last_trace b"
  by (simp_all add: eq_push_def cpe_agent_spool_push_line_def Let_def split: option.split)

lemma last_trace_sample [simp]:
  "ag_last_trace (snd (spool_sample sm a)) = ag_last_trace a" "ag_last_trace (snd (emit_sample_line sm b)) = ag_last_trace b"
  by (simp_all add: emit_sample_line_def cpe_agent_set_last_sample_def spool_sample_def split_beta split: option.split)

lemma push_hop_frame [simp]: "ag_last_trace (push_hop nm tr h a) = ag_last_trace a" "agent_inv a \<Longrightarrow> agent_inv (push_hop nm tr h a)"
  by (simp_all add: push_hop_def agent_inv_spool_push split: option.split)

lemma push_hops_frame [simp]: "ag_last_trace (fold (push_hop nm tr) hs a) = ag_last_trace a" "agent_inv a \<Longrightarrow> agent_inv (fold (push_hop nm tr) hs a)"
  by (induction hs arbitrary: a) simp_all

lemma emit_summary_frame:
  "ag_last_trace (snd (emit_summary nm tr a)) = ag_last_trace a" "agent_inv a \<Longrightarrow> agent_inv (snd (emit_summary nm tr a))"
  by (simp_all add: emit_summary_def split_beta emit_sample_line_inv)

lemma agent_inv_last_trace [simp]: "agent_inv (a\<lparr>ag_last_trace := t\<rparr>) = agent_inv a"
  by (simp add: agent_inv_def)

lemma run_trace_inv:
  assumes "agent_inv a" "run_trace io t m n nm ps a = (r, ps', lg, res, b)"
  shows "agent_inv b"
proof (cases "resolve_target t a 64")
  case None
  then show ?thesis using assms by (simp add: run_trace_def Let_def)
next
  case (Some td)
  have "agent_inv (snd (snd (snd (snd (run_trace io t m n nm ps a)))))"
    using assms(1) Some by (simp add: run_trace_def Let_def split_beta cpe_agent_set_last_trace_def emit_summary_frame)
  then show ?thesis using assms(2) by simp
qed

lemma demo_trace_inv: "agent_inv a \<Longrightarrow> agent_inv (snd (snd (cpe_agent_demo_traceroute clk t m a)))"
  by (simp add: cpe_agent_demo_traceroute_def Let_def split_beta cpe_agent_set_last_trace_def emit_sample_line_inv)

lemma clip_ttl_range: "1 \<le> clip_ttl m" "clip_ttl m \<le> 32"
  and clip_probes_range: "1 \<le> clip_probes n" "clip_probes n \<le> 16"
  by (simp_all add: clip_ttl_def clip_probes_def Let_def)

text \<open>C40: A finished path discovery: at most 32 hops, the size of the array, numbered from one; every hop counts
  the configured number of probes, each as a reply or a time-out, with a loss share between 0
  and 1; the search stops at the first hop that is the destination and otherwise covers every time
  to live up to the limit; the result is remembered and every socket closed.\<close>

theorem trace_result_ok:
  assumes "run_trace io t m n nm ps a = (0, ps', lg, Some tr, b)"
  shows "tr_max_ttl tr = clip_ttl m \<and> tr_max_ttl tr \<le> 32 \<and> int (length (tr_hops tr)) \<le> tr_max_ttl tr \<and>
    map hp_hop (tr_hops tr) = map int [1..<Suc (length (tr_hops tr))] \<and>
    (\<forall>h \<in> set (tr_hops tr). unat (hp_sent h) = nat (clip_probes n) \<and> unat (hp_replies h) + unat (hp_timeouts h) = nat (clip_probes n) \<and>
       0 \<le> hp_loss h \<and> hp_loss h \<le> 1) \<and>
    (\<forall>h \<in> set (butlast (tr_hops tr)). \<not> hp_reached_dest h) \<and>
    (tr_reached tr \<longleftrightarrow> tr_hops tr \<noteq> [] \<and> hp_reached_dest (last (tr_hops tr))) \<and>
    (\<not> tr_reached tr \<longrightarrow> int (length (tr_hops tr)) = tr_max_ttl tr) \<and>
    ag_last_trace b = Some tr \<and> opened lg = closed_socks lg"
proof -
  obtain target dst where rt: "resolve_target t a 64 = Some (target, dst)"
    using assms by (auto simp: run_trace_def Let_def split: option.splits)
  obtain hops st where th: "trace_hops io target (nat (clip_probes n)) (map int [1..<Suc (nat (clip_ttl m))]) [] (trace_start io ps) = (hops, st)"
    by fastforce
  have s: "tr_hops tr = hops" "tr_reached tr = ts_reached st" "lg = ts_log st" "tr_max_ttl tr = clip_ttl m" "ag_last_trace b = Some tr"
    using assms rt th
    by (auto simp: run_trace_def Let_def split_beta cpe_agent_set_last_trace_def emit_summary_frame split: if_splits)
  have p: "path_ok (nat (clip_probes n)) hops" "length hops \<le> nat (clip_ttl m)" "opened (ts_log st) = closed_socks (ts_log st)"
    "ts_reached st \<longleftrightarrow> (\<exists>h \<in> set hops. hp_reached_dest h)" "\<not> ts_reached st \<longrightarrow> length hops = nat (clip_ttl m)"
    using trace_hops_spec[OF th, of "nat (clip_ttl m)"] clip_ttl_range[of m] clip_probes_range[of n] by (simp_all add: path_ok_def trace_start_def Let_def)
  have r: "ts_reached st \<longleftrightarrow> hops \<noteq> [] \<and> hp_reached_dest (last hops)"
    using p(1,4) by (cases hops rule: rev_cases) (auto simp: path_ok_def)
  show ?thesis using p r s clip_ttl_range[of m] clip_probes_range[of n] by (auto simp: path_ok_def hop_ok_def list_all_iff)
qed

text \<open>The summary of a multi-probe run hides loss at the destination: as soon as one probe was answered there in
  positive time, the spooled sample reports loss 0, whatever share of the probes was lost.\<close>

theorem mtr_summary_hides_loss:
  assumes "tr_reached tr" "0 < tr_dest_rtt_ms tr"
  shows "ps_loss (summary_sample nm tr) = 0"
  using assms by (simp add: summary_sample_def)

section \<open>A run always reports\<close>

lemma hop_probes_method: "line_safe (ts_method st) \<Longrightarrow> line_safe (ts_method (snd (snd (hop_probes io target ttl p n hop reached st))))"
proof (induction n arbitrary: p hop reached st)
  case (Suc n)
  obtain pr addr rtt st1 where po: "probe_once io ttl p st = ((pr, addr, rtt), st1)" by (metis prod.collapse)
  have "line_safe (ts_method st1)" using probe_once_rtt(3)[OF po] Suc.prems by auto
  then show ?case using Suc.IH po by (simp add: Let_def)
qed simp

lemma trace_hops_method: "line_safe (ts_method st) \<Longrightarrow> line_safe (ts_method (snd (trace_hops io target probes ttls hops st)))"
proof (induction ttls arbitrary: hops st)
  case (Cons ttl ttls)
  then show ?case using hop_probes_method[OF Cons.prems, of io target ttl 0 probes "hop_init ttl" False]
    by (simp add: Let_def split_beta)
qed simp

lemma line_safe_bool_text [simp]: "line_safe (bool_text b)"
  by (simp add: bool_text_def)

lemma summary_sample_wf:
  assumes "length nm < 32" "line_safe nm" "line_safe (tr_target tr)" "line_safe (tr_ts_iso tr)" "line_safe (tr_method tr)"
  shows "sample_wf (summary_sample nm tr)"
  using assms by (auto simp: sample_wf_def summary_sample_def length_cstr_less intro!: line_safe_cstr)

lemma push_hops_last [simp]: "ag_last (fold (push_hop nm tr) hs a) = ag_last a"
  by (induction hs arbitrary: a) (simp_all add: push_hop_def split: option.split)

lemma summary_sample_ranges:
  assumes "rtt_ok (tr_dest_rtt_ms tr)" "list_all (hop_ok n) (tr_hops tr)"
  shows "0 \<le> ps_rtt_ms (summary_sample nm tr) \<and> ps_rtt_ms (summary_sample nm tr) \<le> 10 ^ 300 - 1 \<and>
    0 \<le> ps_loss (summary_sample nm tr) \<and> ps_loss (summary_sample nm tr) \<le> 1"
proof (cases "tr_hops tr = []")
  case True
  then show ?thesis using assms(1) by (simp add: summary_sample_def rtt_ok_def del: of_rat_power)
next
  case False
  then have "hop_ok n (last (tr_hops tr))" using assms(2) by (simp add: list_all_iff)
  then show ?thesis using assms(1) False by (simp add: summary_sample_def rtt_ok_def hop_ok_def)
qed

lemma trace_reports:
  assumes a: "spool_ready a" "cfg_wf (ag_cfg a)" "line_safe (c_router_id (ag_cfg a))"
    and nm: "length nm < 32" "line_safe nm" and rt: "resolve_target t a 64 = Some (target, dst)"
  shows "\<exists>ps' lg tr b. run_trace io t m n nm ps a = (0, ps', lg, Some tr, b) \<and> tr_target tr = target \<and>
    ag_last b = Some (summary_sample nm tr)"
proof -
  obtain hops st where th: "trace_hops io target (nat (clip_probes n)) (map int [1..<Suc (nat (clip_ttl m))]) [] (trace_start io ps) = (hops, st)"
    by fastforce
  define tr where "tr = \<lparr> tr_target = cstr 64 target, tr_ts_iso = core_iso_now (ti_clk io), tr_method = ts_method st, tr_max_ttl = clip_ttl m,
    tr_probes_per_hop = clip_probes n, tr_reached = ts_reached st, tr_dest_rtt_ms = ts_dest_rtt st, tr_hops = hops \<rparr>"
  have p: "rtt_ok (tr_dest_rtt_ms tr)" "list_all (hop_ok (nat (clip_probes n))) (tr_hops tr)"
    using trace_hops_spec[OF th, of "nat (clip_ttl m)"] clip_ttl_range[of m] clip_probes_range[of n]
    by (simp_all add: path_ok_def trace_start_def Let_def tr_def)
  have "line_safe (ts_method (trace_start io ps))" by (simp add: trace_start_def Let_def)
  from trace_hops_method[OF this, of io target "nat (clip_probes n)" "map int [1..<Suc (nat (clip_ttl m))]" "[]"]
  have ms: "line_safe (ts_method st)" unfolding th by simp
  have tg: "line_safe target" "length target < 64" using rt line_safe_target
    by (auto simp: resolve_target_def Let_def split: if_splits option.splits)
  have w: "sample_wf (summary_sample nm tr)"
    using tg ms by (intro summary_sample_wf nm) (auto simp: tr_def intro!: line_safe_cstr)
  obtain line where line: "cpe_perf_format_ndjson (Some (c_router_id (ag_cfg a))) (Some (summary_sample nm tr)) 768 = Some line"
    using perf_ndjson_fits[OF w _ a(3)] a(2) summary_sample_ranges[OF p, of nm] by (auto simp: cfg_wf_def)
  from emit_sample_line_spool[of "a\<lparr>ag_last_trace := Some tr\<rparr>" "summary_sample nm tr" line] a(1) line
  obtain b where b: "emit_sample_line (summary_sample nm tr) (a\<lparr>ag_last_trace := Some tr\<rparr>) = (0, b)" "ag_last b = Some (summary_sample nm tr)"
    by auto
  then have "run_trace io t m n nm ps a = (0, ts_port st, ts_log st, Some tr, fold (push_hop nm tr) (tr_hops tr) b)"
    using rt th by (simp add: run_trace_def Let_def tr_def[symmetric] cpe_agent_set_last_trace_def emit_summary_def)
  then show ?thesis using b(2) tg(2) by (simp add: tr_def cstr_def)
qed

text \<open>A path discovery to a valid address always ends with a result, whatever the probes meet: a summary that
  fits its line is spooled even when no socket could be opened.\<close>

theorem trace_always_reports:
  assumes "spool_ready a" "cfg_wf (ag_cfg a)" "line_safe (c_router_id (ag_cfg a))"
    and "length nm < 32" "line_safe nm" and "resolve_target t a 64 = Some (target, dst)"
  shows "\<exists>ps' lg tr b. run_trace io t m n nm ps a = (0, ps', lg, Some tr, b) \<and> tr_target tr = target \<and>
    ag_last b = Some (summary_sample nm tr)"
  by (rule trace_reports[OF assms])

section \<open>Witnesses\<close>

lemma lab_resolve: "resolve_target None (fresh_agent cap) 64 = Some (''1.1.1.1'', 0x01010101)"
  using lab_target by (simp add: resolve_target_def fresh_agent_facts)

text \<open>No socket can be opened at all.\<close>

definition dead_io :: trace_io where
  "dead_io = \<lparr> ti_udp = \<lambda>_ _. \<lparr> ui_sock = -1, ui_recverr = False, ui_ttl = False, ui_sent = False, ui_polled = False, ui_pollin = False,
       ui_errq = Eq_error, ui_data = None, ui_t0 = clk0, ui_t1 = clk0 \<rparr>,
     ti_icmp = \<lambda>_ _. \<lparr> ci_dgram = -1, ci_raw = -1, ci_sent = False, ci_readable = False, ci_recv = [], ci_from = None, ci_t0 = clk0, ci_t1 = clk0 \<rparr>,
     ti_ident = 7, ti_test_sock = -1, ti_test_recverr = False, ti_clk = clk0 \<rparr>"

theorem trace_always_reports_witness:
  "\<exists>ps' lg tr b. run_trace dead_io None 3 1 ''mtr'' 0 (fresh_agent 4 :: (unit, unit, unit, cpe_trace_result) cpe_agent) = (0, ps', lg, Some tr, b) \<and> tr_target tr = ''1.1.1.1'' \<and>
    ag_last b = Some (summary_sample ''mtr'' tr)"
  by (rule trace_always_reports) (simp_all add: fresh_agent_facts lab_resolve defaults_wf)

lemma dead_run:
  "\<exists>ps' lg tr b. run_trace dead_io None 3 1 ''mtr'' 0 (fresh_agent 4 :: (unit, unit, unit, cpe_trace_result) cpe_agent) = (0, ps', lg, Some tr, b) \<and>
    tr_target tr = ''1.1.1.1'' \<and> ag_last b = Some (summary_sample ''mtr'' tr)"
  by (rule trace_reports) (simp_all add: fresh_agent_facts lab_resolve defaults_wf)

theorem trace_result_ok_witness:
  "\<exists>ps' lg tr b. run_trace dead_io None 3 1 ''mtr'' 0 (fresh_agent 4 :: (unit, unit, unit, cpe_trace_result) cpe_agent) = (0, ps', lg, Some tr, b) \<and> tr_max_ttl tr = 3 \<and>
    map hp_hop (tr_hops tr) = map int [1..<Suc (length (tr_hops tr))] \<and> ag_last_trace b = Some tr \<and> opened lg = closed_socks lg"
proof -
  obtain ps' lg tr b where r: "run_trace dead_io None 3 1 ''mtr'' 0 (fresh_agent 4 :: (unit, unit, unit, cpe_trace_result) cpe_agent) = (0, ps', lg, Some tr, b)"
    using dead_run by blast
  show ?thesis using trace_result_ok[OF r] r by (auto simp: clip_ttl_def)
qed

text \<open>Nine of ten probes lost, loss 0 reported.\<close>

definition lossy_trace :: cpe_trace_result where
  "lossy_trace = \<lparr> tr_target = ''1.1.1.1'', tr_ts_iso = [], tr_method = ''udp'', tr_max_ttl = 30, tr_probes_per_hop = 10, tr_reached = True,
     tr_dest_rtt_ms = 5, tr_hops = [(hop_init 1)\<lparr>hp_sent := 10, hp_replies := 1, hp_timeouts := 9, hp_loss := 9 / 10, hp_reached_dest := True\<rparr>] \<rparr>"

theorem mtr_summary_hides_loss_witness:
  "hp_loss (last (tr_hops lossy_trace)) = 9 / 10 \<and> ps_loss (summary_sample ''mtr'' lossy_trace) = 0"
  using mtr_summary_hides_loss[of lossy_trace "''mtr''"] by (simp add: lossy_trace_def)

end
