(* ===== verification/Nl80211.thy ===== *)
theory Nl80211
  imports Nflog
begin

text \<open>
  \<^verbatim>\<open>src/nl80211_netlink.c\<close>: the generic netlink socket for WiFi station dumps. Opening it asks the
  kernel for the number of the family \<^verbatim>\<open>nl80211\<close> and scans the answer, a netlink message with
  attributes. The results of the system calls are inputs; the calls that matter are recorded. As in
  \<open>Nflog\<close> every read of the answer is checked against the bytes received.
\<close>

section \<open>System calls\<close>

datatype nl_action = Nl_open int | Nl_send int bytes | Nl_close int

record nl_io =
  no_sock :: int
  no_bind :: bool
  no_send :: bool
  no_recv :: recv_result
  no_errno :: string \<comment> \<open>\<^verbatim>\<open>strerror(errno)\<close> after the call that failed\<close>

definition nf_if_nametoindex :: "(string \<Rightarrow> u32) \<Rightarrow> string option \<Rightarrow> int" where
  "nf_if_nametoindex lookup ifname =
     (case ifname of None \<Rightarrow> -1
      | Some n \<Rightarrow> if n = [] then -1 else if lookup n \<noteq> 0 then sint (lookup n) else -1)"

section \<open>The family number\<close>

text \<open>Attributes from \<open>aoff\<close> to \<open>aend\<close>; the family number is attribute 1.\<close>

function ctrl_attrs :: "bytes \<Rightarrow> nat \<Rightarrow> nat \<Rightarrow> u16 option option" where
  "ctrl_attrs resp aoff aend =
     (if aend < aoff + 4 then Some None
      else case (rd16le resp aoff, rd16le resp (aoff + 2)) of
        (Some alen, Some ty) \<Rightarrow>
          if alen < 4 \<or> aend < aoff + unat alen then Some None
          else if ty AND 0x3fff = 1 \<and> 6 \<le> alen then map_option Some (rd16le resp (aoff + 4))
          else ctrl_attrs resp (aoff + nla_align (unat alen)) aend
      | _ \<Rightarrow> None)"
  by pat_completeness auto
termination
  by (relation "measure (\<lambda>(resp, aoff, aend). aend - aoff)") (auto simp: nla_align_def word_less_nat_alt)

declare ctrl_attrs.simps [simp del]

text \<open>Messages from \<open>off\<close> on; \<^verbatim>\<open>GENL_ID_CTRL\<close> is 16.\<close>

function ctrl_msgs :: "bytes \<Rightarrow> nat \<Rightarrow> u16 option option" where
  "ctrl_msgs resp off =
     (if length resp < off + 16 then Some None
      else case (rd32 le32 resp off, rd16le resp (off + 4)) of
        (Some len, Some ty) \<Rightarrow>
          if len < 16 \<or> length resp < off + unat len then Some None
          else (case (if ty = 16 \<and> 20 \<le> len then ctrl_attrs resp (off + 20) (off + unat len) else Some None) of
              None \<Rightarrow> None
            | Some (Some i) \<Rightarrow> Some (Some i)
            | Some None \<Rightarrow> ctrl_msgs resp (off + nla_align (unat len)))
      | _ \<Rightarrow> None)"
  by pat_completeness auto
termination
  by (relation "measure (\<lambda>(resp, off). length resp - off)") (auto simp: nla_align_def word_less_nat_alt)

declare ctrl_msgs.simps [simp del]

text \<open>The request: \<^verbatim>\<open>CTRL_CMD_GETFAMILY\<close> with the name, its terminating NUL and padding.\<close>

definition ctrl_request :: "string \<Rightarrow> bytes" where
  "ctrl_request name =
     (let nb = map of_char name @ [0]; nla_len = 4 + length nb
      in le32_bytes (of_nat (20 + nla_align nla_len)) @ le16_bytes 16 @ le16_bytes 5 @ le32_bytes 1 @ le32_bytes 0 @
         [3, 1, 0, 0] @ pad4 (le16_bytes (of_nat nla_len) @ le16_bytes 2 @ nb))"

text \<open>\<open>None\<close>: a read outside the answer. \<open>Inl\<close>: the error text.\<close>

definition ctrl_resolve_family :: "nl_io \<Rightarrow> nat \<Rightarrow> string \<Rightarrow> (string + int) option" where
  "ctrl_resolve_family io err_len name =
     (if \<not> no_send io then Some (Inl (cstr err_len (''genl GETFAMILY send: '' @ no_errno io)))
      else case no_recv io of
        Received b \<Rightarrow>
          (let resp = take 512 b in
           if length resp < 16 then Some (Inl (cstr err_len (''genl GETFAMILY recv: short'')))
           else map_option (\<lambda>r. case r of Some i \<Rightarrow> Inr (int (unat i)) | None \<Rightarrow> Inl (cstr err_len ''nl80211 family id not found''))
             (ctrl_msgs resp 0))
      | _ \<Rightarrow> Some (Inl (cstr err_len (''genl GETFAMILY recv: '' @ no_errno io))))"

definition nl80211_netlink_open :: "nl_io \<Rightarrow> nat \<Rightarrow> ((string + int \<times> int) \<times> nl_action list) option" where
  "nl80211_netlink_open io err_len =
     (let fd = no_sock io in
      if fd < 0 then Some (Inl (cstr err_len (''socket NETLINK_GENERIC: '' @ no_errno io)), [])
      else if \<not> no_bind io then Some (Inl (cstr err_len (''bind genl: '' @ no_errno io)), [Nl_open fd, Nl_close fd])
      else case ctrl_resolve_family io err_len ''nl80211'' of
        None \<Rightarrow> None
      | Some (Inl e) \<Rightarrow> Some (Inl e, [Nl_open fd, Nl_send fd (ctrl_request ''nl80211''), Nl_close fd])
      | Some (Inr family) \<Rightarrow> Some (Inr (fd, family), [Nl_open fd, Nl_send fd (ctrl_request ''nl80211'')]))"

definition nl80211_netlink_close :: "int \<Rightarrow> nl_action list" where
  "nl80211_netlink_close fd = (if fd \<ge> 0 then [Nl_close fd] else [])"

section \<open>Station dumps\<close>

text \<open>\<^verbatim>\<open>NL80211_CMD_GET_STATION\<close> is 17, \<^verbatim>\<open>NLM_F_REQUEST | NLM_F_DUMP\<close> 0x301, the interface index attribute 3.\<close>

definition dump_msg :: "int \<Rightarrow> int \<Rightarrow> bytes" where
  "dump_msg family_id ifindex =
     le32_bytes 28 @ le16_bytes (of_int family_id) @ le16_bytes 0x301 @ le32_bytes 2 @ le32_bytes 0 @ [17, 0, 0, 0] @
     le16_bytes 8 @ le16_bytes 3 @ le32_bytes (of_int ifindex)"

definition nl80211_netlink_dump_stations :: "bool \<Rightarrow> string \<Rightarrow> nat \<Rightarrow> int \<Rightarrow> int \<Rightarrow> int \<Rightarrow> (string + unit) \<times> nl_action list" where
  "nl80211_netlink_dump_stations sent errno_text err_len fd family_id ifindex =
     (if fd < 0 \<or> family_id \<le> 0 \<or> ifindex \<le> 0 then (Inl (cstr err_len ''bad args for dump_stations''), [])
      else (if sent then Inr () else Inl (cstr err_len (''dump stations send: '' @ errno_text)), [Nl_send fd (dump_msg family_id ifindex)]))"

definition nl80211_netlink_recv :: "int \<Rightarrow> nat \<Rightarrow> recv_result \<Rightarrow> int \<times> bytes" where
  "nl80211_netlink_recv fd buflen r =
     (if fd < 0 \<or> buflen = 0 then (-1, [])
      else case r of Received b \<Rightarrow> (int (length (take buflen b)), take buflen b) | WouldBlock \<Rightarrow> (0, []) | RecvFailed \<Rightarrow> (-1, []))"

text \<open>\<^verbatim>\<open>O_NONBLOCK\<close> is 0x800.\<close>

definition nl80211_netlink_set_nonblock :: "int \<Rightarrow> (int \<Rightarrow> int) \<Rightarrow> int \<Rightarrow> int" where
  "nl80211_netlink_set_nonblock flags setfl fd = (if fd < 0 then -1 else if flags < 0 then -1 else setfl (flags OR 0x800))"

lemmas nl80211_defs [cdefs] =
  nf_if_nametoindex_def ctrl_request_def ctrl_resolve_family_def nl80211_netlink_open_def nl80211_netlink_close_def dump_msg_def
  nl80211_netlink_dump_stations_def nl80211_netlink_recv_def nl80211_netlink_set_nonblock_def

section \<open>The scan\<close>

lemma ctrl_attrs_total: "aend \<le> length resp \<Longrightarrow> \<exists>r. ctrl_attrs resp aoff aend = Some r"
proof (induction resp aoff aend rule: ctrl_attrs.induct)
  case (1 resp aoff aend)
  show ?case
  proof (cases "aend < aoff + 4")
    case True
    then show ?thesis by (subst ctrl_attrs.simps) simp
  next
    case False
    then have r: "rd16le resp aoff \<noteq> None" "rd16le resp (aoff + 2) \<noteq> None" using "1.prems" by (simp_all add: rd16le_in)
    then obtain alen ty where a: "rd16le resp aoff = Some alen" "rd16le resp (aoff + 2) = Some ty" by auto
    have "\<exists>v. rd16le resp (aoff + 4) = Some v" if "6 \<le> alen" "\<not> aend < aoff + unat alen"
    proof -
      have "6 \<le> unat alen" using that(1) by (simp add: word_le_nat_alt)
      then show ?thesis using that(2) "1.prems" by (simp add: rd16le_in)
    qed
    then show ?thesis using a False "1.IH"[OF False] "1.prems" by (subst ctrl_attrs.simps) auto
  qed
qed

lemma ctrl_msgs_total: "\<exists>r. ctrl_msgs resp off = Some r"
proof (induction resp off rule: ctrl_msgs.induct)
  case (1 resp off)
  show ?case
  proof (cases "length resp < off + 16")
    case True
    then show ?thesis by (subst ctrl_msgs.simps) simp
  next
    case False
    then obtain len ty where a: "rd32 le32 resp off = Some len" "rd16le resp (off + 4) = Some ty"
      by (auto simp: rd16le_in rd32_in)
    show ?thesis
    proof (cases "len < 16 \<or> length resp < off + unat len")
      case True
      then show ?thesis using a False by (subst ctrl_msgs.simps) auto
    next
      case F2: False
      then obtain q where q: "(if ty = 16 \<and> 20 \<le> len then ctrl_attrs resp (off + 20) (off + unat len) else Some None) = Some q"
        using ctrl_attrs_total[of "off + unat len" resp "off + 20"] by (cases "ty = 16 \<and> 20 \<le> len") auto
      show ?thesis using a False F2 q "1.IH"[OF False] by (subst ctrl_msgs.simps) (auto split: option.split)
    qed
  qed
qed

section \<open>Finding the family\<close>

definition enc_attr :: "u16 \<times> bytes \<Rightarrow> bytes" where
  "enc_attr at = pad4 (le16_bytes (of_nat (4 + length (snd at))) @ le16_bytes (fst at) @ snd at)"

text \<open>A reply of the controller with the given attributes.\<close>

definition ctrl_reply :: "(u16 \<times> bytes) list \<Rightarrow> bytes" where
  "ctrl_reply ats = (let body = concat (map enc_attr ats) in
     le32_bytes (of_nat (20 + length body)) @ le16_bytes 16 @ le16_bytes 0 @ le32_bytes 1 @ le32_bytes 0 @ [1, 2, 0, 0] @ body)"

lemma length_enc_attr: "length (enc_attr at) = nla_align (4 + length (snd at))"
  by (simp add: enc_attr_def numeral_eq_Suc)

lemma enc_attr_reads:
  assumes "resp = pre @ enc_attr at @ post" "length (snd at) < 65000"
  shows "rd16le resp (length pre) = Some (of_nat (4 + length (snd at)))" "rd16le resp (length pre + 2) = Some (fst at)"
    "snd at = le16_bytes w \<Longrightarrow> rd16le resp (length pre + 4) = Some w"
    "unat (of_nat (4 + length (snd at)) :: u16) = 4 + length (snd at)" "length pre + (4 + length (snd at)) \<le> length resp"
proof -
  define pad where "pad = replicate (nla_align (4 + length (snd at)) - (4 + length (snd at))) (0 :: u8)"
  have r: "resp = pre @ le16_bytes (of_nat (4 + length (snd at))) @ le16_bytes (fst at) @ snd at @ pad @ post"
    using assms(1) by (simp add: enc_attr_def pad4_def pad_def numeral_eq_Suc)
  show "rd16le resp (length pre) = Some (of_nat (4 + length (snd at)))" unfolding r by (rule rd16le_at)
  show "rd16le resp (length pre + 2) = Some (fst at)"
    unfolding r using rd16le_at[of "pre @ le16_bytes (of_nat (4 + length (snd at)))"] by simp
  show "rd16le resp (length pre + 4) = Some w" if "snd at = le16_bytes w"
    unfolding r using rd16le_at[of "pre @ le16_bytes (of_nat (4 + length (snd at))) @ le16_bytes (fst at)" w] that by simp
  show "unat (of_nat (4 + length (snd at)) :: u16) = 4 + length (snd at)" using assms(2) by (intro unat_of_nat_small) simp
  show "length pre + (4 + length (snd at)) \<le> length resp" unfolding r by simp
qed

lemma ctrl_attrs_finds:
  assumes "resp = pre @ concat (map enc_attr (ats @ (1, le16_bytes i) # rest))" "\<forall>at \<in> set ats. fst at AND 0x3fff \<noteq> 1 \<and> length (snd at) < 65000"
  shows "ctrl_attrs resp (length pre) (length resp) = Some (Some i)"
  using assms
proof (induction ats arbitrary: pre)
  case Nil
  then have r: "resp = pre @ enc_attr (1, le16_bytes i) @ concat (map enc_attr rest)" by simp
  note e = enc_attr_reads[OF r]
  show ?case using e by (subst ctrl_attrs.simps) (auto simp: word_less_nat_alt word_le_nat_alt)
next
  case (Cons at ats)
  then have r: "resp = pre @ enc_attr at @ concat (map enc_attr (ats @ (1, le16_bytes i) # rest))" by simp
  have l: "length (snd at) < 65000" and t: "fst at AND 0x3fff \<noteq> 1" using Cons.prems(2) by auto
  note e = enc_attr_reads[OF r l]
  have "ctrl_attrs resp (length pre) (length resp) = ctrl_attrs resp (length pre + nla_align (4 + length (snd at))) (length resp)"
    using e t by (subst ctrl_attrs.simps) (auto simp: word_less_nat_alt)
  also have "\<dots> = Some (Some i)" using Cons.IH[of "pre @ enc_attr at"] Cons.prems by (simp add: length_enc_attr)
  finally show ?case .
qed

lemma ctrl_reply_reads:
  fixes ats :: "(u16 \<times> bytes) list"
  assumes "length (ctrl_reply ats) < 2 ^ 32"
  shows "rd32 le32 (ctrl_reply ats) 0 = Some (of_nat (length (ctrl_reply ats)))" "rd16le (ctrl_reply ats) 4 = Some 16"
    "20 \<le> length (ctrl_reply ats)" "unat (of_nat (length (ctrl_reply ats)) :: u32) = length (ctrl_reply ats)"
proof -
  let ?b = "concat (map enc_attr ats)"
  have l: "length (ctrl_reply ats) = 20 + length ?b" by (simp add: ctrl_reply_def Let_def)
  show "rd32 le32 (ctrl_reply ats) 0 = Some (of_nat (length (ctrl_reply ats)))"
    unfolding l using rd32le_at[of "[]"] by (simp add: ctrl_reply_def Let_def)
  show "rd16le (ctrl_reply ats) 4 = Some 16"
    using rd16le_at[of "le32_bytes (of_nat (20 + length ?b))" 16] by (simp add: ctrl_reply_def Let_def)
  show "20 \<le> length (ctrl_reply ats)" unfolding l by simp
  show "unat (of_nat (length (ctrl_reply ats)) :: u32) = length (ctrl_reply ats)" using assms by (intro unat_of_nat_small) simp
qed

lemma rd_take: "off + 3 < n \<Longrightarrow> rd32 f (take n b) off = rd32 f b off" "off + 1 < n \<Longrightarrow> rd16le (take n b) off = rd16le b off"
  by (auto simp: rd32_def rd16le_def rd8_def split: option.splits)

lemma ctrl_resolve_reply:
  assumes "no_send io" "no_recv io = Received (ctrl_reply (ats @ (1, le16_bytes i) # rest))"
    "\<forall>at \<in> set ats. fst at AND 0x3fff \<noteq> 1 \<and> length (snd at) < 65000"
    "length (ctrl_reply (ats @ (1, le16_bytes i) # rest)) < 2 ^ 32"
  shows "ctrl_resolve_family io n name = Some (if length (ctrl_reply (ats @ (1, le16_bytes i) # rest)) \<le> 512
      then Inr (int (unat i)) else Inl (cstr n ''nl80211 family id not found''))"
proof -
  let ?as = "ats @ (1, le16_bytes i) # rest"
  let ?r = "ctrl_reply ?as"
  note rd = ctrl_reply_reads[OF assms(4)]
  have "ctrl_msgs (take 512 ?r) 0 = Some (if length ?r \<le> 512 then Some i else None)"
  proof (cases "length ?r \<le> 512")
    case True
    define pre where "pre = le32_bytes (of_nat (20 + length (concat (map enc_attr ?as)))) @ le16_bytes 16 @ le16_bytes 0 @ le32_bytes 1 @
      le32_bytes 0 @ [1, 2, 0, 0]"
    have "?r = pre @ concat (map enc_attr ?as)" by (simp add: pre_def ctrl_reply_def Let_def)
    from ctrl_attrs_finds[OF this assms(3)] have "ctrl_attrs ?r 20 (length ?r) = Some (Some i)" by (simp add: pre_def)
    then show ?thesis using True rd
      by (subst ctrl_msgs.simps) (simp add: word_less_nat_alt word_le_nat_alt)
  next
    case False
    then show ?thesis using rd by (subst ctrl_msgs.simps) (auto simp: rd_take word_less_nat_alt)
  qed
  moreover have "\<not> length (take 512 ?r) < 16" using rd(3) by simp
  ultimately show ?thesis using assms(1,2) by (simp add: ctrl_resolve_family_def Let_def)
qed

lemma nl80211_open_total:
  "\<exists>r lg. nl80211_netlink_open io n = Some (r, lg) \<and>
    (case r of Inl _ \<Rightarrow> (Nl_open (no_sock io) \<in> set lg \<longleftrightarrow> Nl_close (no_sock io) \<in> set lg)
     | Inr (fd, family) \<Rightarrow> fd = no_sock io \<and> 0 \<le> fd \<and> 0 \<le> family \<and> Nl_open fd \<in> set lg \<and> Nl_close fd \<notin> set lg)"
proof -
  have "\<exists>q. ctrl_resolve_family io n ''nl80211'' = Some q \<and> (\<forall>f. q = Inr f \<longrightarrow> 0 \<le> f)"
  proof (cases "no_recv io")
    case (Received b)
    moreover obtain r where "ctrl_msgs (take 512 b) 0 = Some r" using ctrl_msgs_total by blast
    ultimately show ?thesis by (cases r) (auto simp: ctrl_resolve_family_def Let_def)
  qed (simp_all add: ctrl_resolve_family_def)
  then obtain q where q: "ctrl_resolve_family io n ''nl80211'' = Some q" "\<forall>f. q = Inr f \<longrightarrow> 0 \<le> f" by blast
  then show ?thesis by (cases q) (simp_all add: nl80211_netlink_open_def Let_def)
qed

text \<open>The scan of the controller's answer finds the number of the family wherever its attribute stands,
  provided the answer fits the buffer of 512 bytes. A longer answer is cut off by the receive call and
  then refused as a whole, also when the number was among the bytes received.\<close>

theorem ctrl_resolve_family_reply:
  assumes "no_send io" "no_recv io = Received (ctrl_reply (ats @ (1, le16_bytes i) # rest))"
    "\<forall>at \<in> set ats. fst at AND 0x3fff \<noteq> 1 \<and> length (snd at) < 65000"
    "length (ctrl_reply (ats @ (1, le16_bytes i) # rest)) < 2 ^ 32"
  shows "ctrl_resolve_family io n name = Some (if length (ctrl_reply (ats @ (1, le16_bytes i) # rest)) \<le> 512
      then Inr (int (unat i)) else Inl (cstr n ''nl80211 family id not found''))"
  by (rule ctrl_resolve_reply[OF assms])

section \<open>Witness\<close>

definition family_io :: "bytes \<Rightarrow> nl_io" where
  "family_io reply = \<lparr> no_sock = 4, no_bind = True, no_send = True, no_recv = Received reply, no_errno = [] \<rparr>"

theorem ctrl_resolve_family_reply_witness:
  "ctrl_resolve_family (family_io (ctrl_reply [(2, replicate 8 110), (1, le16_bytes 28)])) 96 ''nl80211'' = Some (Inr 28) \<and>
   ctrl_resolve_family (family_io (ctrl_reply [(2, replicate 8 110), (1, le16_bytes 28), (6, replicate 600 0)])) 96 ''nl80211'' =
     Some (Inl ''nl80211 family id not found'')"
proof -
  have l: "length (ctrl_reply [(2, replicate 8 110), (1, le16_bytes 28)]) = 40"
    "length (ctrl_reply [(2, replicate 8 110), (1, le16_bytes 28), (6, replicate 600 0)]) = 644"
    by (simp_all add: ctrl_reply_def length_enc_attr nla_align_def)
  show ?thesis
    using ctrl_resolve_family_reply[of "family_io (ctrl_reply [(2, replicate 8 110), (1, le16_bytes 28)])" "[(2, replicate 8 110)]" 28 "[]" 96 "''nl80211''"]
      ctrl_resolve_family_reply[of "family_io (ctrl_reply [(2, replicate 8 110), (1, le16_bytes 28), (6, replicate 600 0)])" "[(2, replicate 8 110)]" 28
        "[(6, replicate 600 0)]" 96 "''nl80211''"] l
    by (simp add: family_io_def cstr_def)
qed

end
