(* ===== verification/Wifi_Stats.thy ===== *)
theory Wifi_Stats
  imports Ipc_Request Nl80211
begin

text \<open>
  \<^verbatim>\<open>agent/wifi_stats.c\<close>: the state of a WiFi interface and the statistics of its stations. The
  directory listing, the files of sysfs, the interface queries and the socket results are inputs;
  the nl80211 parser of libnetdiag is a parameter: its creation, \<open>feed\<close> and \<open>next\<close>.
\<close>

section \<open>Data\<close>

text \<open>The fields of \<^verbatim>\<open>nl80211_event_t\<close> the agent reads.\<close>

record nl80211_event =
  nv_station :: bool \<comment> \<open>\<^verbatim>\<open>type == NL80211_EVENT_STATION\<close>\<close>
  nv_has_mac :: bool
  nv_client_mac :: bytes
  nv_signal_dbm :: u32
  nv_signal_avg_dbm :: u32
  nv_snr_db :: u8
  nv_has_mcs :: bool
  nv_mcs_index :: u8
  nv_tx_retries :: u32
  nv_tx_failed :: u32
  nv_rx_bytes :: u32
  nv_tx_bytes :: u32
  nv_frequency_mhz :: u32
  nv_has_signal :: bool

record cpe_wifi_station =
  st_mac :: string
  st_signal_dbm :: u32
  st_signal_avg_dbm :: u32
  st_snr_db :: u8
  st_mcs :: u8
  st_tx_retries :: u32
  st_tx_failed :: u32
  st_rx_bytes :: u32
  st_tx_bytes :: u32
  st_freq_mhz :: u32
  st_has_signal :: bool
  st_has_mcs :: bool

record cpe_wifi_iface_state =
  wi_ifname :: string
  wi_ifindex :: int
  wi_up :: bool
  wi_running :: bool
  wi_wireless :: bool
  wi_operstate :: string
  wi_mac :: string
  wi_mtu :: u32

text \<open>The station array with its count is the list of the stations.\<close>

record cpe_wifi_snapshot =
  ws_iface :: cpe_wifi_iface_state
  ws_stations :: "cpe_wifi_station list"
  ws_stations_valid :: bool
  ws_demo :: bool
  ws_ts_iso :: string
  ws_err :: string

text \<open>What the system knows of its interfaces.\<close>

record wif_env =
  ni_exists :: "string \<Rightarrow> bool"
  ni_dir :: "string list option"
  ni_index :: "string \<Rightarrow> u32"
  ni_file :: "string \<Rightarrow> string option"
  ni_sock :: int
  ni_flags :: "string \<Rightarrow> u16 option"
  ni_hwaddr :: "string \<Rightarrow> bytes option"
  ni_mtu :: "string \<Rightarrow> u32 option"

text \<open>The parser, the socket results and what each receive call returns.\<close>

record 'q wifi_env =
  we_open :: nl_io
  we_sent :: bool
  we_errno :: string
  we_create :: "'q option"
  we_feed :: "bytes \<Rightarrow> 'q \<Rightarrow> 'q"
  we_next :: "'q \<Rightarrow> (nl80211_event \<times> 'q) option"
  we_rx :: "nat \<Rightarrow> recv_result"

section \<open>Interfaces\<close>

definition wifi_mac_fmt :: "bytes \<Rightarrow> string" where
  "wifi_mac_fmt m = cstr 18 (hex2 (m ! 0) @ '':'' @ hex2 (m ! 1) @ '':'' @ hex2 (m ! 2) @ '':'' @ hex2 (m ! 3) @ '':'' @ hex2 (m ! 4) @ '':'' @ hex2 (m ! 5))"

definition has_prefix :: "string \<Rightarrow> string \<Rightarrow> bool" where
  \<comment> \<open>\<^verbatim>\<open>strncmp(s, p, strlen(p)) == 0\<close>\<close>
  "has_prefix p s \<longleftrightarrow> take (length p) s = p"

definition is_wireless_name :: "(string \<Rightarrow> bool) \<Rightarrow> string \<Rightarrow> bool" where
  "is_wireless_name path_exists ifname \<longleftrightarrow>
     ifname \<noteq> [] \<and>
     (path_exists (cstr 160 (''/sys/class/net/'' @ ifname @ ''/wireless'')) \<or>
      path_exists (cstr 160 (''/sys/class/net/'' @ ifname @ ''/phy80211'')) \<or>
      has_prefix ''wlan'' ifname \<or> has_prefix ''ath'' ifname \<or> has_prefix ''rai'' ifname \<or> has_prefix ''rax'' ifname \<or>
      has_prefix ''wl'' ifname)"

fun list_ifaces :: "(string \<Rightarrow> bool) \<Rightarrow> nat \<Rightarrow> string list \<Rightarrow> string list \<Rightarrow> string list" where
  "list_ifaces ex max_names [] names = names"
| "list_ifaces ex max_names (d # ds) names =
     (if \<not> length names < max_names then names
      else if take 1 d = ''.'' then list_ifaces ex max_names ds names
      else if \<not> is_wireless_name ex d then list_ifaces ex max_names ds names
      else if length d \<ge> 32 then list_ifaces ex max_names ds names
      else list_ifaces ex max_names ds (names @ [d]))"

definition cpe_agent_wifi_list_ifaces :: "wif_env \<Rightarrow> nat \<Rightarrow> int \<times> string list" where
  "cpe_agent_wifi_list_ifaces ni max_names =
     (if max_names = 0 then (-1, [])
      else case ni_dir ni of None \<Rightarrow> (0, [])
        | Some ds \<Rightarrow> (let names = list_ifaces (ni_exists ni) max_names ds [] in (int (length names), names)))"

definition pick_wifi_if :: "wif_env \<Rightarrow> string option \<Rightarrow> ('p,'n,'w,'t) cpe_agent \<Rightarrow> string" where
  "pick_wifi_if ni ifname_opt a =
     cstr 32 (case ifname_opt of
        Some n \<Rightarrow> str_or n (str_or (c_wifi_if (ag_cfg a)) (case snd (cpe_agent_wifi_list_ifaces ni 32) of [] \<Rightarrow> ''wlan0'' | x # _ \<Rightarrow> x))
      | None \<Rightarrow> str_or (c_wifi_if (ag_cfg a)) (case snd (cpe_agent_wifi_list_ifaces ni 32) of [] \<Rightarrow> ''wlan0'' | x # _ \<Rightarrow> x))"

text \<open>\<^verbatim>\<open>fgets(out, n, fp)\<close>: at most \<open>n - 1\<close> characters, through the first line feed.\<close>

fun fgets :: "nat \<Rightarrow> string \<Rightarrow> string" where
  "fgets 0 s = []"
| "fgets (Suc n) [] = []"
| "fgets (Suc n) (c # cs) = (if n = 0 then [] else if of_char c = (10 :: nat) then [c] else c # fgets n cs)"

definition trim_end :: "string \<Rightarrow> string" where
  "trim_end s = rev (dropWhile (\<lambda>c. of_char c \<in> {10 :: nat, 13, 32}) (rev s))"

text \<open>\<open>None\<close> when the file cannot be opened or is empty.\<close>

definition read_sysfs_str :: "string option \<Rightarrow> nat \<Rightarrow> string option" where
  "read_sysfs_str file out_sz =
     (case file of None \<Rightarrow> None
      | Some s \<Rightarrow> (let l = fgets out_sz s in
          if l = [] then None else Some (trim_end (takeWhile (\<lambda>c. of_char c \<noteq> (0 :: nat)) l))))"

definition iface0 :: cpe_wifi_iface_state where
  "iface0 = \<lparr> wi_ifname = [], wi_ifindex = 0, wi_up = False, wi_running = False, wi_wireless = False, wi_operstate = [], wi_mac = [], wi_mtu = 0 \<rparr>"

text \<open>The three \<^verbatim>\<open>ioctl\<close> queries; \<^verbatim>\<open>ifr_name\<close> has 16 bytes, \<^verbatim>\<open>IFF_UP\<close> is 1, \<^verbatim>\<open>IFF_RUNNING\<close> 0x40.\<close>

definition iface_queries :: "wif_env \<Rightarrow> string \<Rightarrow> cpe_wifi_iface_state \<Rightarrow> cpe_wifi_iface_state" where
  "iface_queries ni ifname o0 =
     (let nm = cstr 16 ifname;
          o1 = (case ni_flags ni nm of None \<Rightarrow> o0 | Some f \<Rightarrow> o0\<lparr>wi_up := f AND 1 \<noteq> 0, wi_running := f AND 0x40 \<noteq> 0\<rparr>);
          o2 = (case ni_hwaddr ni nm of None \<Rightarrow> o1 | Some m \<Rightarrow> o1\<lparr>wi_mac := wifi_mac_fmt m\<rparr>)
      in case ni_mtu ni nm of None \<Rightarrow> o2 | Some v \<Rightarrow> o2\<lparr>wi_mtu := v\<rparr>)"

definition cpe_agent_wifi_iface_state ::
  "wif_env \<Rightarrow> string option \<Rightarrow> ('p,'n,'w,'t) cpe_agent \<Rightarrow> int \<times> cpe_wifi_iface_state" where
  "cpe_agent_wifi_iface_state ni ifname_opt a =
     (let ifname = pick_wifi_if ni ifname_opt a;
          o1 = iface0\<lparr>wi_ifname := cstr 32 ifname\<rparr>; idx = ni_index ni ifname
      in if idx = 0 then (-1, o1)
         else
           (let o2 = o1\<lparr>wi_ifindex := sint idx, wi_wireless := is_wireless_name (ni_exists ni) ifname,
                        wi_operstate := (case read_sysfs_str (ni_file ni (cstr 192 (''/sys/class/net/'' @ ifname @ ''/operstate''))) 16 of
                          None \<Rightarrow> ''unknown'' | Some s \<Rightarrow> s)\<rparr>
            in if ni_sock ni < 0 then (0, o2) else (0, iface_queries ni ifname o2)))"

section \<open>Stations\<close>

definition station_from_event :: "nl80211_event \<Rightarrow> cpe_wifi_station" where
  "station_from_event ev =
     \<lparr> st_mac = (if nv_has_mac ev then wifi_mac_fmt (nv_client_mac ev) else []), st_signal_dbm = nv_signal_dbm ev,
       st_signal_avg_dbm = nv_signal_avg_dbm ev, st_snr_db = nv_snr_db ev, st_mcs = (if nv_has_mcs ev then nv_mcs_index ev else 0xFF),
       st_tx_retries = nv_tx_retries ev, st_tx_failed = nv_tx_failed ev, st_rx_bytes = nv_rx_bytes ev, st_tx_bytes = nv_tx_bytes ev,
       st_freq_mhz = nv_frequency_mhz ev, st_has_signal = nv_has_signal ev, st_has_mcs = nv_has_mcs ev \<rparr>"

definition add_station :: "(cpe_wifi_station \<Rightarrow> cpe_wifi_station) \<Rightarrow> nl80211_event \<Rightarrow> cpe_wifi_station list \<Rightarrow> cpe_wifi_station list" where
  "add_station fixup ev sts =
     (if nv_station ev \<and> nv_has_mac ev \<and> length sts < 32 then sts @ [fixup (station_from_event ev)] else sts)"

text \<open>The loop over the events of the parser.\<close>

partial_function (option) wifi_drain ::
  "('q \<Rightarrow> (nl80211_event \<times> 'q) option) \<Rightarrow> (cpe_wifi_station \<Rightarrow> cpe_wifi_station) \<Rightarrow> 'q \<Rightarrow> cpe_wifi_station list \<Rightarrow>
   ('q \<times> cpe_wifi_station list) option" where
  "wifi_drain nx fixup q sts =
     (case nx q of None \<Rightarrow> Some (q, sts)
      | Some p \<Rightarrow> wifi_drain nx fixup (snd p) (add_station fixup (fst p) sts))"

text \<open>The rounds \<open>k, k + 1, ...\<close> of the receive loop; the error text, if a receive call failed.\<close>

fun dump_rounds :: "'q wifi_env \<Rightarrow> int \<Rightarrow> nat \<Rightarrow> nat \<Rightarrow> 'q \<Rightarrow> cpe_wifi_station list \<Rightarrow> (cpe_wifi_station list \<times> string) option" where
  "dump_rounds we fd 0 k q sts = Some (sts, [])"
| "dump_rounds we fd (Suc m) k q sts =
     (let (n, buf) = nl80211_netlink_recv fd 8192 (we_rx we k) in
      if n < 0 then Some (sts, cstr 96 (''nl80211 recv: '' @ we_errno we))
      else if n = 0 then (if k = 0 then dump_rounds we fd m (k + 1) q sts else Some (sts, []))
      else case wifi_drain (we_next we) id (we_feed we buf q) sts of None \<Rightarrow> None
        | Some (q', sts') \<Rightarrow> dump_rounds we fd m (k + 1) q' sts')"

text \<open>The return code, the error text, the stations with their validity, and the socket log.\<close>

definition dump_stations_live ::
  "'q wifi_env \<Rightarrow> int \<Rightarrow> (int \<times> string \<times> cpe_wifi_station list \<times> bool \<times> nl_action list) option" where
  "dump_stations_live we ifindex =
     (case nl80211_netlink_open (we_open we) 96 of None \<Rightarrow> None
      | Some (Inl e, lg) \<Rightarrow> Some (-1, e, [], False, lg)
      | Some (Inr (fd, family), lg) \<Rightarrow>
        (case nl80211_netlink_dump_stations (we_sent we) (we_errno we) 96 fd family ifindex of
           (Inl e, lg2) \<Rightarrow> Some (-1, e, [], False, lg @ lg2 @ nl80211_netlink_close fd)
         | (Inr _, lg2) \<Rightarrow>
           (case we_create we of None \<Rightarrow> Some (-1, ''nl80211_parse_create failed'', [], False, lg @ lg2 @ nl80211_netlink_close fd)
            | Some q \<Rightarrow>
              (case dump_rounds we fd 64 0 q [] of None \<Rightarrow> None
               | Some (sts, e) \<Rightarrow> Some (0, e, sts, True, lg @ lg2 @ nl80211_netlink_close fd)))))"

section \<open>Records\<close>

definition json_bool :: "bool \<Rightarrow> string" where
  "json_bool b = (if b then ''true'' else ''false'')"

definition wifi_head :: "string \<Rightarrow> cpe_wifi_snapshot \<Rightarrow> string" where
  \<open>wifi_head rid s = ''"ts":"'' @ ws_ts_iso s @ ''","router_id":"'' @ str_or rid ''unknown'' @ ''","if":"'' @ wi_ifname (ws_iface s)\<close>

definition iface_json :: "string \<Rightarrow> cpe_wifi_snapshot \<Rightarrow> string" where
  \<open>iface_json rid s = ''{"type":"cpe_wifi","subtype":"iface",'' @ wifi_head rid s @ ''","ifindex":'' @ int_dec (wi_ifindex (ws_iface s)) @
     '',"up":'' @ json_bool (wi_up (ws_iface s)) @ '',"running":'' @ json_bool (wi_running (ws_iface s)) @
     '',"operstate":"'' @ wi_operstate (ws_iface s) @ ''","wireless":'' @ json_bool (wi_wireless (ws_iface s)) @
     '',"mac":"'' @ wi_mac (ws_iface s) @ ''","mtu":'' @ u32_dec (wi_mtu (ws_iface s)) @
     '',"stations":'' @ u32_dec (of_nat (length (ws_stations s))) @ '',"demo":'' @ json_bool (ws_demo s) @ ''}''\<close>

definition station_json :: "string \<Rightarrow> cpe_wifi_snapshot \<Rightarrow> cpe_wifi_station \<Rightarrow> string" where
  \<open>station_json rid s t = ''{"type":"cpe_wifi","subtype":"station",'' @ wifi_head rid s @ ''","client_mac":"'' @ st_mac t @
     ''","rssi":'' @ int_dec (sint (st_signal_dbm t)) @ '',"rssi_avg":'' @ int_dec (sint (st_signal_avg_dbm t)) @
     '',"snr":'' @ int_dec (sint (st_snr_db t)) @ '',"mcs":'' @ u8_dec (st_mcs t) @ '',"tx_retries":'' @ u32_dec (st_tx_retries t) @
     '',"tx_failed":'' @ u32_dec (st_tx_failed t) @ '',"rx_bytes":'' @ u32_dec (st_rx_bytes t) @ '',"tx_bytes":'' @ u32_dec (st_tx_bytes t) @
     '',"freq_mhz":'' @ u32_dec (st_freq_mhz t) @ '',"demo":'' @ json_bool (ws_demo s) @ ''}''\<close>

definition push_fitting :: "string \<Rightarrow> ('p,'n,'w,'t) cpe_agent \<Rightarrow> ('p,'n,'w,'t) cpe_agent" where
  "push_fitting line a = (if length line < 768 then snd (cpe_agent_spool_push_line line a) else a)"

definition emit_wifi_ndjson :: "cpe_wifi_snapshot \<Rightarrow> ('p,'n,'w,'t) cpe_agent \<Rightarrow> ('p,'n,'w,'t) cpe_agent" where
  "emit_wifi_ndjson s a =
     (let rid = c_router_id (ag_cfg a)
      in fold (\<lambda>t. push_fitting (station_json rid s t)) (ws_stations s) (push_fitting (iface_json rid s) a))"

section \<open>Dumps\<close>

definition env_emit :: "('c,'f) ipc_env \<Rightarrow> ('p,'n,'w,'t) cpe_agent \<Rightarrow> int \<times> ('p,'n,'w,'t) cpe_agent" where
  "env_emit env a =
     (let ((r, _), b) = cpe_agent_emit_flush (ie_post env) (ie_open_file env) (ie_write env) (ie_flushed env) (ie_closed env) (ie_stdout env) a
      in (r, b))"

definition store_wifi ::
  "('c,'f) ipc_env \<Rightarrow> bool \<Rightarrow> cpe_wifi_snapshot \<Rightarrow> ('p,'n,cpe_wifi_snapshot,'t) cpe_agent \<Rightarrow> ('p,'n,cpe_wifi_snapshot,'t) cpe_agent" where
  "store_wifi env emit_ndjson s a =
     (let (_, b) = cpe_agent_set_last_wifi (Some s) a
      in if emit_ndjson then snd (env_emit env (emit_wifi_ndjson s b)) else b)"

text \<open>The return code, the snapshot handed out, the socket log, and the agent.\<close>

definition cpe_agent_wifi_dump ::
  "('c,'f) ipc_env \<Rightarrow> wif_env \<Rightarrow> 'q wifi_env \<Rightarrow> clock \<Rightarrow> string option \<Rightarrow> bool \<Rightarrow> ('p,'n,cpe_wifi_snapshot,'t) cpe_agent \<Rightarrow>
   (int \<times> cpe_wifi_snapshot \<times> nl_action list \<times> ('p,'n,cpe_wifi_snapshot,'t) cpe_agent) option" where
  "cpe_agent_wifi_dump env ni we clk ifname_opt emit_ndjson a =
     (let (r, ifc) = cpe_agent_wifi_iface_state ni ifname_opt a in
      if r \<noteq> 0 then
        Some (-1, \<lparr> ws_iface = iface0, ws_stations = [], ws_stations_valid = False, ws_demo = False, ws_ts_iso = [],
                    ws_err = ''wifi iface not found'' \<rparr>, [], a)
      else case dump_stations_live we (wi_ifindex ifc) of None \<Rightarrow> None
      | Some (d, e, sts, valid, lg) \<Rightarrow>
          (let s = \<lparr> ws_iface = ifc, ws_stations = (if d \<noteq> 0 then [] else sts), ws_stations_valid = (d = 0 \<and> valid), ws_demo = False,
                     ws_ts_iso = core_iso_now clk, ws_err = (if d \<noteq> 0 then cstr 96 (str_or e ''nl80211 dump failed'') else []) \<rparr>
           in Some (0, s, lg, store_wifi env emit_ndjson s a)))"

text \<open>The frame of the demo station: magic number, hardware address, signal -65, rate index 25, signal-to-noise ratio 7, three retries.\<close>

definition wsynth :: bytes where
  "wsynth = [0x38, 0x32, 0x31, 0x31, 0xaa, 0xbb, 0xcc, 0xdd, 0xee, 0xff] @ be32_bytes (-65) @ [25, 7, 0, 0, 0, 3]"

definition demo_freq :: "cpe_wifi_station \<Rightarrow> cpe_wifi_station" where
  "demo_freq t = (if st_freq_mhz t = 0 then t\<lparr>st_freq_mhz := 2437\<rparr> else t)"

definition demo_iface :: cpe_wifi_iface_state where
  "demo_iface = \<lparr> wi_ifname = ''wlan0'', wi_ifindex = 0, wi_up = True, wi_running = True, wi_wireless = True, wi_operstate = ''up'',
     wi_mac = ''02:00:00:00:00:10'', wi_mtu = 1500 \<rparr>"

definition cpe_agent_demo_wifi_dump ::
  "('c,'f) ipc_env \<Rightarrow> wif_env \<Rightarrow> 'q wifi_env \<Rightarrow> clock \<Rightarrow> bool \<Rightarrow> ('p,'n,cpe_wifi_snapshot,'t) cpe_agent \<Rightarrow>
   (int \<times> cpe_wifi_snapshot option \<times> ('p,'n,cpe_wifi_snapshot,'t) cpe_agent) option" where
  "cpe_agent_demo_wifi_dump env ni we clk emit_ndjson a =
     (let wif = c_wifi_if (ag_cfg a);
          (r, ifc) = cpe_agent_wifi_iface_state ni (if wif \<noteq> [] then Some wif else None) a
      in case we_create we of None \<Rightarrow> Some (-1, None, a)
         | Some q \<Rightarrow>
           (case wifi_drain (we_next we) demo_freq (we_feed we wsynth q) [] of None \<Rightarrow> None
            | Some (_, sts) \<Rightarrow>
              (let s = \<lparr> ws_iface = (if r \<noteq> 0 then demo_iface else ifc), ws_stations = sts, ws_stations_valid = True, ws_demo = True,
                         ws_ts_iso = core_iso_now clk, ws_err = [] \<rparr>
               in Some (0, Some s, store_wifi env emit_ndjson s a))))"

lemmas wifi_defs [cdefs] =
  wifi_mac_fmt_def has_prefix_def is_wireless_name_def cpe_agent_wifi_list_ifaces_def pick_wifi_if_def trim_end_def read_sysfs_str_def iface0_def
  iface_queries_def cpe_agent_wifi_iface_state_def station_from_event_def add_station_def wifi_drain.simps dump_stations_live_def json_bool_def
  wifi_head_def iface_json_def station_json_def push_fitting_def emit_wifi_ndjson_def env_emit_def store_wifi_def cpe_agent_wifi_dump_def
  wsynth_def demo_freq_def demo_iface_def cpe_agent_demo_wifi_dump_def

section \<open>The stations of a dump\<close>

definition is_sta :: "nl80211_event \<Rightarrow> bool" where
  "is_sta ev \<longleftrightarrow> nv_station ev \<and> nv_has_mac ev"

lemma take_take_append: "take n (take n xs @ ys) = take n (xs @ ys)"
  by (cases "length xs \<le> n") simp_all

lemma add_stations:
  assumes "length sts \<le> 32"
  shows "fold (add_station fixup) evs sts = take 32 (sts @ map (fixup \<circ> station_from_event) (filter is_sta evs))"
  using assms
proof (induction evs arbitrary: sts)
  case (Cons ev evs)
  show ?case
  proof (cases "is_sta ev \<and> length sts < 32")
    case True
    then show ?thesis using Cons.IH[of "sts @ [fixup (station_from_event ev)]"]
      by (simp add: add_station_def is_sta_def[symmetric] take_Cons')
  next
    case False
    then show ?thesis using Cons.IH[of sts] Cons.prems by (auto simp: add_station_def is_sta_def)
  qed
qed simp

text \<open>The state of the parser once the events are taken.\<close>

fun after :: "('q \<Rightarrow> ('e \<times> 'q) option) \<Rightarrow> 'q \<Rightarrow> 'e list \<Rightarrow> 'q" where
  "after nx q [] = q"
| "after nx q (e # es) = (case nx q of None \<Rightarrow> q | Some (_, q') \<Rightarrow> after nx q' es)"

lemma wifi_drain_spec:
  "yields nx q evs \<Longrightarrow> wifi_drain nx fixup q sts = Some (after nx q evs, fold (add_station fixup) evs sts)"
proof (induction evs arbitrary: q sts)
  case Nil
  then show ?case by (subst wifi_drain.simps) simp
next
  case (Cons e es)
  then obtain q' where "nx q = Some (e, q')" "yields nx q' es" by (rule_tac yields_ConsE) auto
  then show ?case using Cons.IH[of q'] by (subst wifi_drain.simps) simp
qed

text \<open>A dump as the parser sees it: the messages received, each with the events it gives.\<close>

fun session :: "'q wifi_env \<Rightarrow> 'q \<Rightarrow> (bytes \<times> nl80211_event list) list \<Rightarrow> bool" where
  "session we q [] \<longleftrightarrow> True"
| "session we q ((b, evs) # r) \<longleftrightarrow> b \<noteq> [] \<and> length b \<le> 8192 \<and> yields (we_next we) (we_feed we b q) evs \<and> session we (after (we_next we) (we_feed we b q) evs) r"

lemma dump_rounds_session:
  assumes "0 \<le> fd" "session we q ms" "\<forall>j < length ms. we_rx we (k + j) = Received (fst (ms ! j))" "length ms \<le> n"
    "length ms < n \<longrightarrow> we_rx we (k + length ms) = WouldBlock \<and> 0 < k + length ms"
    "length sts \<le> 32"
  shows "dump_rounds we fd n k q sts = Some (take 32 (sts @ map station_from_event (filter is_sta (concat (map snd ms)))), [])"
  using assms
proof (induction ms arbitrary: k q n sts)
  case Nil
  then show ?case by (cases n) (simp_all add: nl80211_netlink_recv_def)
next
  case (Cons m ms)
  obtain b evs where m: "m = (b, evs)" by fastforce
  obtain n' where n: "n = Suc n'" using Cons.prems(4) by (cases n) auto
  have s: "b \<noteq> []" "length b \<le> 8192" "yields (we_next we) (we_feed we b q) evs" "session we (after (we_next we) (we_feed we b q) evs) ms"
    using Cons.prems(2) m by auto
  have rx: "we_rx we k = Received b" using Cons.prems(3) m by fastforce
  have rest: "\<forall>j < length ms. we_rx we (k + 1 + j) = Received (fst (ms ! j))" using Cons.prems(3) by fastforce
  let ?sts = "take 32 (sts @ map station_from_event (filter is_sta evs))"
  have "dump_rounds we fd n k q sts = dump_rounds we fd n' (k + 1) (after (we_next we) (we_feed we b q) evs) ?sts"
    using s(1,2) rx Cons.prems(1,6) wifi_drain_spec[OF s(3), of id sts]
    by (simp add: n nl80211_netlink_recv_def add_stations)
  also have "\<dots> = Some (take 32 (?sts @ map station_from_event (filter is_sta (concat (map snd ms)))), [])"
    using Cons.IH[OF Cons.prems(1) s(4) rest, of n' ?sts] Cons.prems(4,5) n by simp
  finally show ?case by (simp only: take_take_append) (simp add: m)
qed

text \<open>C39: A finished dump reports the first 32 stations the parser announced with a hardware address, in the order of
  their arrival, however the announcements are spread over the messages, and closes its socket.\<close>

theorem wifi_dump_stations:
  assumes "nl80211_netlink_open (we_open we) 96 = Some (Inr (fd, family), lg)" "0 \<le> fd" "0 < family" "0 < ifindex" "we_sent we"
    "we_create we = Some q" "session we q ms" "\<forall>j < length ms. we_rx we j = Received (fst (ms ! j))" "ms \<noteq> []" "length ms \<le> 64"
    "length ms < 64 \<longrightarrow> we_rx we (length ms) = WouldBlock"
  shows "dump_stations_live we ifindex = Some (0, [], take 32 (map station_from_event (filter is_sta (concat (map snd ms)))), True,
    lg @ [Nl_send fd (dump_msg family ifindex), Nl_close fd])"
  using assms dump_rounds_session[of fd we q ms 0 64 "[]"]
  by (simp add: dump_stations_live_def nl80211_netlink_dump_stations_def nl80211_netlink_close_def)

text \<open>A receive error in the middle of a dump is not reported: the stations read so far count as the complete
  and valid table, and the error text is dropped.\<close>

theorem wifi_receive_error_hidden:
  assumes "nl80211_netlink_open (we_open we) 96 = Some (Inr (fd, family), lg)" "0 \<le> fd" "0 < family" "we_sent we" "we_create we = Some q"
    "we_rx we 0 = RecvFailed" "cpe_agent_wifi_iface_state ni nm a = (0, ifc)" "0 < wi_ifindex ifc"
  shows "\<exists>s lg' b. cpe_agent_wifi_dump env ni we clk nm emit a = Some (0, s, lg', b) \<and> ws_stations s = [] \<and> ws_stations_valid s \<and> ws_err s = []"
proof -
  have "dump_rounds we fd 64 0 q [] = Some ([], cstr 96 (''nl80211 recv: '' @ we_errno we))"
    using assms(2,6) by (simp add: nl80211_netlink_recv_def numeral_eq_Suc)
  then show ?thesis using assms(1-5,7,8)
    by (simp add: cpe_agent_wifi_dump_def dump_stations_live_def nl80211_netlink_dump_stations_def Let_def)
qed

section \<open>The records of a snapshot\<close>

lemma line_safe_takeWhile: "line_safe s \<Longrightarrow> line_safe (takeWhile P s)"
  by (auto simp: line_safe_def dest: set_takeWhileD)

lemma length_fgets: "length (fgets n s) \<le> n - 1"
  by (induction n s rule: fgets.induct) auto

lemma fgets_butlast: "c \<in> set (butlast (fgets n s)) \<Longrightarrow> of_char c \<noteq> (10 :: nat)"
  by (induction n s rule: fgets.induct) (auto split: if_splits)

lemma trim_end_append: "\<exists>t. s = trim_end s @ t"
  unfolding trim_end_def by (metis rev_append rev_rev_ident takeWhile_dropWhile_id)

lemma trim_end_last: "trim_end s \<noteq> [] \<Longrightarrow> of_char (last (trim_end s)) \<noteq> (10 :: nat)"
  unfolding trim_end_def using hd_dropWhile[of "\<lambda>c. of_char c \<in> {10 :: nat, 13, 32}" "rev s"] by (auto simp: last_rev)

lemma trim_end_no_lf:
  assumes "\<forall>c \<in> set (butlast s). of_char c \<noteq> (10 :: nat)" "c \<in> set (trim_end s)"
  shows "of_char c \<noteq> (10 :: nat)"
proof -
  obtain t where t: "s = trim_end s @ t" using trim_end_append by blast
  have n: "trim_end s \<noteq> []" using assms(2) by auto
  then have d: "set (trim_end s) = insert (last (trim_end s)) (set (butlast (trim_end s)))"
    by (metis append_butlast_last_id insert_is_Un list.simps(15) set_append sup_commute set_empty empty_set)
  have "set (butlast (trim_end s)) \<subseteq> set (butlast s)"
    by (subst (2) t) (auto simp: butlast_append dest: in_set_butlastD)
  then show ?thesis using assms trim_end_last[OF n] d by auto
qed

lemma read_sysfs_str_safe:
  assumes "read_sysfs_str file 16 = Some s"
  shows "length s \<le> 15" "line_safe s"
proof -
  obtain f where f: "s = trim_end (takeWhile (\<lambda>c. of_char c \<noteq> (0 :: nat)) (fgets 16 f))"
    using assms by (auto simp: read_sysfs_str_def Let_def split: option.splits if_splits)
  define l where "l = takeWhile (\<lambda>c. of_char c \<noteq> (0 :: nat)) (fgets 16 f)"
  have "length l \<le> 15" using le_trans[OF length_takeWhile_le length_fgets, of _ 16 f] unfolding l_def by simp
  moreover obtain t where t: "l = s @ t" using trim_end_append[of l] f by (auto simp: l_def)
  ultimately show "length s \<le> 15" by simp
  have "set (butlast l) \<subseteq> set (butlast (fgets 16 f))"
    unfolding l_def by (metis append_butlast_last_id butlast_append set_append subset_iff takeWhile_dropWhile_id UnCI append_Nil2 in_set_butlastD)
  then have "\<forall>c \<in> set (butlast l). of_char c \<noteq> (10 :: nat)" using fgets_butlast by blast
  then have "\<forall>c \<in> set s. of_char c \<noteq> (10 :: nat)" using trim_end_no_lf[of l] f by (simp add: l_def)
  moreover have "\<forall>c \<in> set s. of_char c \<noteq> (0 :: nat)" using t by (auto simp: l_def dest!: set_takeWhileD) (metis UnCI set_append set_takeWhileD)
  ultimately show "line_safe s" by (simp add: line_safe_def)
qed

lemma length_int_dec32: "length (int_dec (sint (w :: u32))) \<le> 11"
  using length_int_dec[of 10 "sint w"] sint_greater_eq[of w] sint_less[of w] by simp

lemma length_int_dec8: "length (int_dec (sint (w :: u8))) \<le> 4"
  using length_int_dec[of 3 "sint w"] sint_greater_eq[of w] sint_less[of w] by simp

lemma line_safe_json_bool [simp]: "line_safe (json_bool b)" and length_json_bool [fmt_len]: "length (json_bool b) \<le> 5"
  by (simp_all add: json_bool_def)

lemma wifi_mac_fmt_facts [simp]: "length (wifi_mac_fmt m) = 17" "line_safe (wifi_mac_fmt m)"
  by (simp_all add: wifi_mac_fmt_def cstr_def)

definition text_ok :: "nat \<Rightarrow> string \<Rightarrow> bool" where
  "text_ok n s \<longleftrightarrow> length s \<le> n \<and> line_safe s"

definition wifi_wf :: "cpe_wifi_snapshot \<Rightarrow> bool" where
  "wifi_wf s \<longleftrightarrow> text_ok 39 (ws_ts_iso s) \<and> text_ok 31 (wi_ifname (ws_iface s)) \<and> text_ok 15 (wi_operstate (ws_iface s)) \<and>
     text_ok 17 (wi_mac (ws_iface s)) \<and> (\<exists>w :: u32. wi_ifindex (ws_iface s) = sint w) \<and> (\<forall>t \<in> set (ws_stations s). text_ok 17 (st_mac t))"

lemma wifi_lines_fit:
  assumes "wifi_wf s" "text_ok 63 rid"
  shows "text_ok 767 (iface_json rid s)" "t \<in> set (ws_stations s) \<Longrightarrow> text_ok 767 (station_json rid s t)"
proof -
  have r: "text_ok 63 (str_or rid ''unknown'')" using assms(2) by (simp add: str_or_def text_ok_def)
  have h: "text_ok 175 (wifi_head rid s)" using assms(1) r by (simp add: wifi_head_def wifi_wf_def text_ok_def)
  note j = length_json_bool[of "wi_up (ws_iface s)"] length_json_bool[of "wi_running (ws_iface s)"]
    length_json_bool[of "wi_wireless (ws_iface s)"] length_json_bool[of "ws_demo s"] length_u32_dec[of "wi_mtu (ws_iface s)"]
    length_u32_dec[of "of_nat (length (ws_stations s))"]
  have "length (int_dec (wi_ifindex (ws_iface s))) \<le> 11" using assms(1) length_int_dec32 by (auto simp: wifi_wf_def)
  with h j assms(1) show "text_ok 767 (iface_json rid s)" by (simp add: iface_json_def wifi_wf_def text_ok_def)
  note n = length_int_dec32[of "st_signal_dbm t"] length_int_dec32[of "st_signal_avg_dbm t"] length_int_dec8[of "st_snr_db t"]
    length_u8_dec[of "st_mcs t"] length_u32_dec[of "st_tx_retries t"] length_u32_dec[of "st_tx_failed t"] length_u32_dec[of "st_rx_bytes t"]
    length_u32_dec[of "st_tx_bytes t"] length_u32_dec[of "st_freq_mhz t"] length_json_bool[of "ws_demo s"]
  show "text_ok 767 (station_json rid s t)" if "t \<in> set (ws_stations s)"
  proof -
    have "text_ok 17 (st_mac t)" using assms(1) that by (simp add: wifi_wf_def)
    then show ?thesis using h n by (simp add: station_json_def text_ok_def)
  qed
qed

lemma push_fitting_ok: "text_ok 767 l \<Longrightarrow> push_fitting l a = spool_push l a"
  by (simp add: push_fitting_def text_ok_def spool_push_def)

lemma fold_push_fitting: "\<forall>t \<in> set ts. text_ok 767 (f t) \<Longrightarrow> fold (\<lambda>t. push_fitting (f t)) ts a = fold spool_push (map f ts) a"
  by (induction ts arbitrary: a) (simp_all add: push_fitting_ok)

definition wifi_lines :: "string \<Rightarrow> cpe_wifi_snapshot \<Rightarrow> string list" where
  "wifi_lines rid s = iface_json rid s # map (station_json rid s) (ws_stations s)"

lemma emit_wifi_lines:
  assumes "wifi_wf s" "text_ok 63 (c_router_id (ag_cfg a))"
  shows "emit_wifi_ndjson s a = fold spool_push (wifi_lines (c_router_id (ag_cfg a)) s) a"
  using wifi_lines_fit[OF assms] by (simp add: emit_wifi_ndjson_def Let_def wifi_lines_def push_fitting_ok fold_push_fitting)

section \<open>Snapshots of the agent\<close>

lemma iface_state_wf:
  assumes "cpe_agent_wifi_iface_state ni nm a = (r, ifc)" "line_safe (pick_wifi_if ni nm a)"
  shows "text_ok 31 (wi_ifname ifc) \<and> text_ok 15 (wi_operstate ifc) \<and> text_ok 17 (wi_mac ifc) \<and> (\<exists>w :: u32. wi_ifindex ifc = sint w)"
proof -
  have q: "wi_ifname (iface_queries ni n o0) = wi_ifname o0" "wi_operstate (iface_queries ni n o0) = wi_operstate o0"
    "wi_ifindex (iface_queries ni n o0) = wi_ifindex o0" "text_ok 17 (wi_mac o0) \<Longrightarrow> text_ok 17 (wi_mac (iface_queries ni n o0))" for n o0
    by (simp_all add: iface_queries_def Let_def text_ok_def split: option.split)
  have o: "text_ok 15 (case read_sysfs_str f 16 of None \<Rightarrow> ''unknown'' | Some s \<Rightarrow> s)" for f
    using read_sysfs_str_safe[of f] by (simp add: text_ok_def split: option.split)
  have n: "text_ok 31 (cstr 32 (pick_wifi_if ni nm a))" using assms(2) length_cstr_le[of 32] by (simp add: text_ok_def line_safe_cstr)
  have z: "\<exists>w :: u32. 0 = sint w" by (rule exI[of _ 0]) simp
  show ?thesis using assms(1) q(4) o n z
    by (auto simp: cpe_agent_wifi_iface_state_def Let_def q(1-3) iface0_def text_ok_def split: if_splits)
qed

definition stations_ok :: "cpe_wifi_station list \<Rightarrow> bool" where
  "stations_ok sts \<longleftrightarrow> length sts \<le> 32 \<and> (\<forall>t \<in> set sts. text_ok 17 (st_mac t))"

lemma stations_ok_Nil [simp]: "stations_ok []"
  by (simp add: stations_ok_def)

lemma add_station_ok:
  assumes "\<And>t. st_mac (fixup t) = st_mac t" "stations_ok sts"
  shows "stations_ok (add_station fixup ev sts)"
  using assms by (auto simp: add_station_def stations_ok_def station_from_event_def text_ok_def)

lemma wifi_drain_ok:
  assumes "wifi_drain nx fixup q sts = Some r" "\<forall>t. st_mac (fixup t) = st_mac t" "stations_ok sts"
  shows "stations_ok (snd r)"
proof -
  have "(\<forall>t. st_mac (fixup t) = st_mac t) \<longrightarrow> stations_ok sts \<longrightarrow> stations_ok (snd r)"
    by (rule wifi_drain.raw_induct[OF _ assms(1),
          where P = "\<lambda>nx fixup q sts r. (\<forall>t. st_mac (fixup t) = st_mac t) \<longrightarrow> stations_ok sts \<longrightarrow> stations_ok (snd r)"])
      (auto split: option.splits simp: add_station_ok)
  then show ?thesis using assms by blast
qed

lemma dump_rounds_ok: "dump_rounds we fd n k q sts = Some (sts', e) \<Longrightarrow> stations_ok sts \<Longrightarrow> stations_ok sts'"
proof (induction n arbitrary: k q sts)
  case (Suc n)
  then show ?case using wifi_drain_ok[where fixup = id]
    by (fastforce simp: Let_def split: if_splits option.splits prod.splits)
qed simp

lemma dump_stations_ok: "dump_stations_live we i = Some (d, e, sts, v, lg) \<Longrightarrow> stations_ok sts"
  by (auto simp: dump_stations_live_def split: option.splits sum.splits prod.splits dest: dump_rounds_ok)

lemma wifi_wf_dump:
  assumes "cpe_agent_wifi_dump env ni we clk nm emit a = Some (0, s, lg, b)" "line_safe (pick_wifi_if ni nm a)"
  shows "wifi_wf s" "length (ws_stations s) \<le> 32" "b = store_wifi env emit s a"
proof -
  obtain r ifc where ifc: "cpe_agent_wifi_iface_state ni nm a = (r, ifc)" by fastforce
  then obtain d e sts v where d: "dump_stations_live we (wi_ifindex ifc) = Some (d, e, sts, v, lg)"
    and s: "s = \<lparr> ws_iface = ifc, ws_stations = (if d \<noteq> 0 then [] else sts), ws_stations_valid = (d = 0 \<and> v), ws_demo = False,
      ws_ts_iso = core_iso_now clk, ws_err = (if d \<noteq> 0 then cstr 96 (str_or e ''nl80211 dump failed'') else []) \<rparr>"
    and b: "b = store_wifi env emit s a"
    using assms(1) by (auto simp: cpe_agent_wifi_dump_def Let_def split: if_splits option.splits)
  show "b = store_wifi env emit s a" by (rule b)
  show "wifi_wf s" "length (ws_stations s) \<le> 32"
    using iface_state_wf[OF ifc assms(2)] dump_stations_ok[OF d] length_iso_now(3)[of clk] by (auto simp: s wifi_wf_def stations_ok_def text_ok_def)
qed

section \<open>Frame and invariant\<close>

lemma last_wifi_frame [simp]:
  "ag_last_wifi (snd (cpe_agent_spool_push_line l b)) = ag_last_wifi b" "ag_last_wifi (spool_push l b) = ag_last_wifi b"
  by (simp_all add: cpe_agent_spool_push_line_def eq_push_def spool_push_def Let_def split: option.split)

lemma last_wifi_pushes [simp]: "ag_last_wifi (fold spool_push ls b) = ag_last_wifi b"
  by (induction ls arbitrary: b) simp_all

lemma flush_last_wifi: "ag_last_wifi (snd (cpe_agent_spool_flush wr fls f a)) = ag_last_wifi a"
  using flush_frame[of wr fls f a] by auto

lemma env_emit_frame [simp]: "ag_last_wifi (snd (env_emit env a)) = ag_last_wifi a" "ag_cfg (snd (env_emit env a)) = ag_cfg a"
proof -
  let ?e = "cpe_agent_emit_flush (ie_post env) (ie_open_file env) (ie_write env) (ie_flushed env) (ie_closed env) (ie_stdout env) a"
  have "ag_last_wifi (snd ?e) = ag_last_wifi a"
    by (rule_tac emit_flush_cases[of "ie_post env" "ie_open_file env" "ie_write env" "ie_flushed env" "ie_closed env" "ie_stdout env" a]) (simp_all add: flush_last_wifi)
  then show "ag_last_wifi (snd (env_emit env a)) = ag_last_wifi a" by (simp add: env_emit_def split_beta)
  show "ag_cfg (snd (env_emit env a)) = ag_cfg a" by (simp add: env_emit_def split_beta emit_flush_frame)
qed

lemma env_emit_inv: "agent_inv a \<Longrightarrow> agent_inv (snd (env_emit env a))"
  by (simp add: env_emit_def split_beta emit_flush_inv)

lemma push_fitting_inv: "agent_inv a \<Longrightarrow> agent_inv (push_fitting l a)"
  by (simp add: push_fitting_def agent_inv_spool_push)

lemma fold_fitting_inv: "agent_inv a \<Longrightarrow> agent_inv (fold (\<lambda>t. push_fitting (f t)) ts a)"
  by (induction ts arbitrary: a) (simp_all add: push_fitting_inv)

lemma emit_wifi_inv: "agent_inv a \<Longrightarrow> agent_inv (emit_wifi_ndjson s a)"
  by (simp add: emit_wifi_ndjson_def Let_def push_fitting_inv fold_fitting_inv)

lemma store_wifi_inv: "agent_inv a \<Longrightarrow> agent_inv (store_wifi env emit s a)"
  by (simp add: store_wifi_def cpe_agent_set_last_wifi_def env_emit_inv emit_wifi_inv)

definition wifi_finite :: "'q wifi_env \<Rightarrow> bool" where
  "wifi_finite we \<longleftrightarrow> (\<forall>q. \<exists>evs. yields (we_next we) q evs)"

lemma dump_rounds_returns: "wifi_finite we \<Longrightarrow> \<exists>r. dump_rounds we fd n k q sts = Some r"
proof (induction n arbitrary: k q sts)
  case (Suc n)
  obtain c b where c: "nl80211_netlink_recv fd 8192 (we_rx we k) = (c, b)" by fastforce
  obtain evs where "yields (we_next we) (we_feed we b q) evs" using Suc.prems by (auto simp: wifi_finite_def)
  note d = wifi_drain_spec[OF this, of id sts]
  show ?case using Suc.IH[OF Suc.prems] by (simp add: c d)
qed simp

lemma dump_stations_returns:
  assumes "wifi_finite we"
  shows "\<exists>d e sts v lg. dump_stations_live we i = Some (d, e, sts, v, lg) \<and>
    (Nl_open (no_sock (we_open we)) \<in> set lg \<longleftrightarrow> Nl_close (no_sock (we_open we)) \<in> set lg)"
proof -
  obtain r lg where o: "nl80211_netlink_open (we_open we) 96 = Some (r, lg)"
    and l: "case r of Inl _ \<Rightarrow> (Nl_open (no_sock (we_open we)) \<in> set lg \<longleftrightarrow> Nl_close (no_sock (we_open we)) \<in> set lg)
      | Inr (fd, family) \<Rightarrow> fd = no_sock (we_open we) \<and> 0 \<le> fd \<and> 0 \<le> family \<and> Nl_open fd \<in> set lg \<and> Nl_close fd \<notin> set lg"
    using nl80211_open_total[of "we_open we" 96] by blast
  show ?thesis
  proof (cases r)
    case (Inl e)
    then show ?thesis using o l by (intro exI[of _ "-1"] exI[of _ e] exI[of _ "[]"] exI[of _ False] exI[of _ lg]) (simp add: dump_stations_live_def)
  next
    case (Inr p)
    obtain fd family where p: "p = (fd, family)" by fastforce
    obtain dr lg2 where dr: "nl80211_netlink_dump_stations (we_sent we) (we_errno we) 96 fd family i = (dr, lg2)" by fastforce
    have rr: "\<exists>sts e. dump_rounds we fd 64 0 q [] = Some (sts, e)" for q using dump_rounds_returns[OF assms] by fastforce
    have o': "nl80211_netlink_open (we_open we) 96 = Some (Inr (fd, family), lg)" using o Inr p by simp
    have c: "nl80211_netlink_close fd = [Nl_close fd]" using l Inr p by (simp add: nl80211_netlink_close_def)
    have e: "dump_stations_live we i =
      (case dr of Inl e \<Rightarrow> Some (-1, e, [], False, lg @ lg2 @ [Nl_close fd])
       | Inr _ \<Rightarrow> (case we_create we of None \<Rightarrow> Some (-1, ''nl80211_parse_create failed'', [], False, lg @ lg2 @ [Nl_close fd])
         | Some q \<Rightarrow> map_option (\<lambda>(sts, e). (0, e, sts, True, lg @ lg2 @ [Nl_close fd])) (dump_rounds we fd 64 0 q [])))"
      by (simp add: dump_stations_live_def o' dr c split: sum.split option.split)
    have "\<exists>d e sts v. dump_stations_live we i = Some (d, e, sts, v, lg @ lg2 @ [Nl_close fd])"
    proof (cases "we_create we")
      case None
      then show ?thesis unfolding e by (cases dr) auto
    next
      case (Some q)
      moreover obtain sts er where "dump_rounds we fd 64 0 q [] = Some (sts, er)" using rr by blast
      ultimately show ?thesis unfolding e by (cases dr) auto
    qed
    then obtain d e sts v where "dump_stations_live we i = Some (d, e, sts, v, lg @ lg2 @ [Nl_close fd])" by blast
    then show ?thesis using l Inr p by (intro exI conjI) auto
  qed
qed

text \<open>A dump of the stations returns whenever the parser's queue of events runs empty, keeps the invariant of the
  agent, and has closed the socket it opened.\<close>

theorem wifi_dump_safe:
  assumes "wifi_finite we" "agent_inv a"
  shows "\<exists>r s lg b. cpe_agent_wifi_dump env ni we clk nm emit a = Some (r, s, lg, b) \<and> agent_inv b \<and>
    (Nl_open (no_sock (we_open we)) \<in> set lg \<longleftrightarrow> Nl_close (no_sock (we_open we)) \<in> set lg)"
proof -
  obtain r ifc where ifc: "cpe_agent_wifi_iface_state ni nm a = (r, ifc)" by fastforce
  obtain d e sts v lg where "dump_stations_live we (wi_ifindex ifc) = Some (d, e, sts, v, lg)"
    "Nl_open (no_sock (we_open we)) \<in> set lg \<longleftrightarrow> Nl_close (no_sock (we_open we)) \<in> set lg" using dump_stations_returns[OF assms(1)] by blast
  then show ?thesis using assms(2) by (simp add: cpe_agent_wifi_dump_def ifc Let_def store_wifi_inv)
qed

text \<open>A reported dump becomes the last snapshot, holds at most 32 stations, and its records, one of the interface
  and one per station, are pushed to the spool in that order before the emission, each complete and in one line.\<close>

theorem wifi_dump_records:
  assumes "cpe_agent_wifi_dump env ni we clk nm True a = Some (0, s, lg, b)" "line_safe (pick_wifi_if ni nm a)" "spool_ready a"
    "cfg_wf (ag_cfg a)" "line_safe (c_router_id (ag_cfg a))"
  shows "ag_last_wifi b = Some s \<and> length (ws_stations s) \<le> 32 \<and>
    (\<forall>l \<in> set (wifi_lines (c_router_id (ag_cfg a)) s). length l < 768 \<and> line_safe l) \<and>
    (\<exists>a'. b = snd (env_emit env a') \<and> spool_view a' = spool_view (fold spool_push (wifi_lines (c_router_id (ag_cfg a)) s) a))"
proof -
  note d = wifi_wf_dump[OF assms(1,2)]
  have r: "text_ok 63 (c_router_id (ag_cfg a))" using assms(4,5) by (simp add: text_ok_def cfg_wf_def)
  let ?a = "a\<lparr>ag_last_wifi := Some s\<rparr>"
  have e: "emit_wifi_ndjson s ?a = fold spool_push (wifi_lines (c_router_id (ag_cfg a)) s) ?a"
    using emit_wifi_lines[OF d(1), of ?a] r by simp
  have v: "spool_view (fold spool_push ls ?a) = spool_view (fold spool_push ls a)" for ls
    using pushes_view_cong[of ?a a] assms(3) by simp
  have b: "b = snd (env_emit env (emit_wifi_ndjson s ?a))" using d(3) by (simp add: store_wifi_def cpe_agent_set_last_wifi_def)
  have "\<forall>l \<in> set (wifi_lines (c_router_id (ag_cfg a)) s). text_ok 767 l"
    using wifi_lines_fit[OF d(1) r] by (auto simp: wifi_lines_def)
  then show ?thesis using d(2) b e v by (auto simp: text_ok_def)
qed

section \<open>Witnesses\<close>

text \<open>A radio with one station; the parser is a list of events, and every message adds the station once.\<close>

definition lab_station :: nl80211_event where
  "lab_station = \<lparr> nv_station = True, nv_has_mac = True, nv_client_mac = [0xaa, 0xbb, 0xcc, 0xdd, 0xee, 0xff], nv_signal_dbm = -65,
     nv_signal_avg_dbm = -60, nv_snr_db = 7, nv_has_mcs = False, nv_mcs_index = 0, nv_tx_retries = 3, nv_tx_failed = 0, nv_rx_bytes = 10,
     nv_tx_bytes = 20, nv_frequency_mhz = 2437, nv_has_signal = True \<rparr>"

definition lab_wifi :: "(nat \<Rightarrow> recv_result) \<Rightarrow> nl80211_event list wifi_env" where
  "lab_wifi rx = \<lparr> we_open = family_io (ctrl_reply [(1, le16_bytes 28)]), we_sent = True, we_errno = [], we_create = Some [],
     we_feed = \<lambda>b q. q @ [lab_station], we_next = list_next, we_rx = rx \<rparr>"

definition lab_if :: wif_env where
  "lab_if = \<lparr> ni_exists = \<lambda>_. False, ni_dir = Some [''lo'', ''wlan0''], ni_index = \<lambda>_. 3, ni_file = \<lambda>_. Some ''up\<newline>'', ni_sock = -1,
     ni_flags = \<lambda>_. None, ni_hwaddr = \<lambda>_. None, ni_mtu = \<lambda>_. None \<rparr>"

abbreviation lab_agent :: "(unit, unit, cpe_wifi_snapshot, unit) cpe_agent" where
  "lab_agent \<equiv> fresh_agent 4"

lemma lab_open: "\<exists>lg. nl80211_netlink_open (we_open (lab_wifi rx)) 96 = Some (Inr (4, 28), lg)"
proof -
  have "length (ctrl_reply [(1, le16_bytes 28)]) = 28" by (simp add: ctrl_reply_def length_enc_attr nla_align_def)
  then have "ctrl_resolve_family (family_io (ctrl_reply [(1, le16_bytes 28)])) 96 ''nl80211'' = Some (Inr 28)"
    using ctrl_resolve_reply[of "family_io (ctrl_reply [(1, le16_bytes 28)])" "[]" 28 "[]" 96 "''nl80211''"] by (simp add: family_io_def)
  then show ?thesis by (simp add: lab_wifi_def nl80211_netlink_open_def family_io_def Let_def)
qed

lemma lab_wifi_simps [simp]:
  "we_sent (lab_wifi rx)" "we_create (lab_wifi rx) = Some []" "we_next (lab_wifi rx) = list_next" "we_feed (lab_wifi rx) b q = q @ [lab_station]"
  "we_rx (lab_wifi rx) = rx"
  by (simp_all add: lab_wifi_def)

lemma lab_pick: "pick_wifi_if lab_if None lab_agent = ''wlan0''"
  by (simp add: pick_wifi_if_def fresh_agent_facts lab_if_def cpe_agent_wifi_list_ifaces_def is_wireless_name_def has_prefix_def str_or_def
      Let_def cstr_def)

lemma lab_iface: "\<exists>ifc. cpe_agent_wifi_iface_state lab_if None lab_agent = (0, ifc) \<and> wi_ifindex ifc = 3"
  by (simp add: cpe_agent_wifi_iface_state_def lab_pick Let_def) (simp add: lab_if_def)

theorem wifi_dump_stations_witness:
  "\<exists>lg. dump_stations_live (lab_wifi (\<lambda>k. if k = 0 then Received [1] else WouldBlock)) 3 =
     Some (0, [], [station_from_event lab_station], True, lg)"
proof -
  let ?rx = "\<lambda>k :: nat. if k = 0 then Received [1] else WouldBlock"
  obtain lg where o: "nl80211_netlink_open (we_open (lab_wifi ?rx)) 96 = Some (Inr (4, 28), lg)" using lab_open by blast
  have l: "is_sta lab_station" by (simp add: is_sta_def lab_station_def)
  show ?thesis
    using wifi_dump_stations[OF o, where ifindex = 3 and q = "[]" and ms = "[([1], [lab_station])]"] by (simp add: l)
qed

theorem wifi_receive_error_hidden_witness:
  "\<exists>s lg b. cpe_agent_wifi_dump quiet_env lab_if (lab_wifi (\<lambda>_. RecvFailed)) clk0 None False lab_agent = Some (0, s, lg, b) \<and>
    ws_stations s = [] \<and> ws_stations_valid s \<and> ws_err s = []"
proof -
  obtain lg where o: "nl80211_netlink_open (we_open (lab_wifi (\<lambda>_. RecvFailed))) 96 = Some (Inr (4, 28), lg)" using lab_open by blast
  obtain ifc where i: "cpe_agent_wifi_iface_state lab_if None lab_agent = (0, ifc)" "wi_ifindex ifc = 3" using lab_iface by blast
  show ?thesis by (rule wifi_receive_error_hidden[OF o _ _ _ _ _ i(1)]) (simp_all add: i(2))
qed

lemma lab_finite: "wifi_finite (lab_wifi rx)"
  by (simp add: wifi_finite_def)

theorem wifi_dump_safe_witness:
  "\<exists>r s lg b. cpe_agent_wifi_dump quiet_env lab_if (lab_wifi (\<lambda>_. WouldBlock)) clk0 None True lab_agent = Some (r, s, lg, b) \<and> agent_inv b \<and>
    (Nl_open (no_sock (we_open (lab_wifi (\<lambda>_. WouldBlock)))) \<in> set lg \<longleftrightarrow> Nl_close (no_sock (we_open (lab_wifi (\<lambda>_. WouldBlock)))) \<in> set lg)"
  by (rule wifi_dump_safe[OF lab_finite fresh_agent_facts(2)])

theorem wifi_dump_records_witness:
  "\<exists>s lg b. cpe_agent_wifi_dump quiet_env lab_if (lab_wifi (\<lambda>_. WouldBlock)) clk0 None True lab_agent = Some (0, s, lg, b) \<and>
    ag_last_wifi b = Some s \<and> length (ws_stations s) \<le> 32"
proof -
  obtain ifc where i: "cpe_agent_wifi_iface_state lab_if None lab_agent = (0, ifc)" using lab_iface by blast
  obtain d e sts v lg where d: "dump_stations_live (lab_wifi (\<lambda>_. WouldBlock)) (wi_ifindex ifc) = Some (d, e, sts, v, lg)"
    using dump_stations_returns[OF lab_finite, of "\<lambda>_. WouldBlock" "wi_ifindex ifc"] by blast
  obtain s b where r: "cpe_agent_wifi_dump quiet_env lab_if (lab_wifi (\<lambda>_. WouldBlock)) clk0 None True lab_agent = Some (0, s, lg, b)"
    using i d by (simp add: cpe_agent_wifi_dump_def Let_def)
  show ?thesis using wifi_dump_records[OF r] r defaults_wf by (auto simp: lab_pick fresh_agent_facts)
qed

end
