(* ===== verification/Agent_Loop.thy ===== *)
theory Agent_Loop
  imports Ipc_Server Live_Trace Wifi_Stats "HOL-Library.Monad_Syntax"
begin

text \<open>
  \<^verbatim>\<open>agent/agent_loop_poll.c\<close>, the host loop without libuv, the callbacks of \<^verbatim>\<open>agent/agent_loop.c\<close>,
  its counterpart with libuv, and \<^verbatim>\<open>cpe_agent_sample_tick\<close>. What the system delivers in an
  iteration is an input: signals at the points where the code looks at its flags, clocks, received
  data, client connections. The server holds a pointer to the agent, so its copy is brought up to
  date before a poll and read back after it.
\<close>

section \<open>State and inputs\<close>

record ('p,'n,'w,'t) loop_st =
  lp_agent :: "('p,'n,'w,'t) cpe_agent"
  lp_ipc :: "('p,'n,'w,'t) ipc_server option"
  lp_hup :: bool
  lp_stop :: bool
  lp_dseq :: u16 \<comment> \<open>the static counters of the two pings\<close>
  lp_lseq :: u16
  lp_ticks :: u32
  lp_log :: "probe_action list"

record cpe_agent_run_opts =
  ro_max_ticks :: u32
  ro_config_path :: "string option"
  ro_router_id_override :: "string option"
  ro_ipc_socket_override :: "string option"
  ro_ipc_disable :: bool

text \<open>The signals delivered since the flags were last looked at.\<close>

record sigs =
  sg_hup :: bool
  sg_stop :: bool

record ('c,'f) poll_env =
  pe_world :: "nat \<Rightarrow> nat \<Rightarrow> ('c,'f) ipc_env"
  pe_send_ok :: "nat \<Rightarrow> nat \<Rightarrow> bool"
  pe_rd :: "nat \<Rightarrow> client_read"
  pe_accepts :: "int list"

record ('p,'c,'f) tick_env =
  tk_sig :: sigs
  tk_alloc :: "nat \<Rightarrow> bool"
  tk_nflog_open :: "u16 \<Rightarrow> u32 \<Rightarrow> string + int"
  tk_nfct :: "'c nfct_env"
  tk_load :: "string \<Rightarrow> string + cpe_agent_config"
  tk_feed :: "'p \<Rightarrow> bytes \<Rightarrow> u64 \<Rightarrow> bool \<times> 'p"
  tk_settle :: "'p \<Rightarrow> u64 \<Rightarrow> 'p"
  tk_stats :: "'p \<Rightarrow> ping_stats option"
  tk_clk :: clock
  tk_ident :: u16
  tk_ping :: ping_io
  tk_emit :: "('c,'f) ipc_env"
  tk_tcp :: "('c,'f) ipc_env"
  tk_now :: clock
  tk_tcp_emit :: "('c,'f) ipc_env"
  tk_poll :: "('c,'f) poll_env"

text \<open>One slice of the sleep: the signals that interrupt it, the poll and the flow tick after it.\<close>

record ('c,'f) slice_env =
  se_sig :: sigs
  se_sleep :: "sigs list"
  se_poll :: "('c,'f) poll_env"
  se_flow :: "('c,'f) ipc_env"
  se_emit :: "('c,'f) ipc_env"

section \<open>Signals\<close>

definition hup_handler :: "bool \<Rightarrow> ('p,'n,'w,'t) loop_st \<Rightarrow> ('p,'n,'w,'t) loop_st" where
  \<comment> \<open>the argument says whether the signal is \<^verbatim>\<open>SIGHUP\<close>\<close>
  "hup_handler is_hup s = (if is_hup then s\<lparr>lp_hup := True\<rparr> else s\<lparr>lp_stop := True\<rparr>)"

definition deliver_sigs :: "sigs \<Rightarrow> ('p,'n,'w,'t) loop_st \<Rightarrow> ('p,'n,'w,'t) loop_st" where
  "deliver_sigs sg s = (let s1 = (if sg_hup sg then hup_handler True s else s) in if sg_stop sg then hup_handler False s1 else s1)"

definition cpe_agent_hup_take :: "('p,'n,'w,'t) loop_st \<Rightarrow> bool \<times> ('p,'n,'w,'t) loop_st" where
  "cpe_agent_hup_take s = (if lp_hup s then (True, s\<lparr>lp_hup := False\<rparr>) else (False, s))"

text \<open>\<^verbatim>\<open>nanosleep\<close> is interrupted once per element.\<close>

fun msleep :: "sigs list \<Rightarrow> ('p,'n,'w,'t) loop_st \<Rightarrow> ('p,'n,'w,'t) loop_st" where
  "msleep [] s = s"
| "msleep (sg # sgs) s = (let s1 = deliver_sigs sg s in if lp_stop s1 then s1 else msleep sgs s1)"

section \<open>The parts of an iteration\<close>

function drain_events :: "('p,'n,'w,'t) cpe_agent \<Rightarrow> ('p,'n,'w,'t) cpe_agent" where
  "drain_events a = (case cpe_agent_next_event a of None \<Rightarrow> a | Some (ev, b) \<Rightarrow> drain_events b)"
  by pat_completeness auto
termination
  by (relation "measure ag_eq_cnt") (auto intro: agent_events.takes)

declare drain_events.simps [simp del]

definition handle_hup ::
  "('p,'c,'f) tick_env \<Rightarrow> cpe_agent_run_opts \<Rightarrow> ('p,'n,'w,'t) loop_st \<Rightarrow> ('p,'n,'w,'t) loop_st" where
  "handle_hup te op s =
     (let (taken, s1) = cpe_agent_hup_take s in
      if \<not> taken then s1
      else
        (let (r, b) = cpe_agent_reload_config (tk_alloc te) (tk_nflog_open te) (tk_nfct te) (tk_load te) (ro_config_path op)
               (ro_router_id_override op) (lp_agent s1)
         in s1\<lparr>lp_agent := drain_events b\<rparr>))"

definition cpe_agent_sample_tick ::
  "('p,'c,'f) tick_env \<Rightarrow> ('p,'n,'w,'t) loop_st \<Rightarrow> int \<times> ('p,'n,'w,'t) loop_st" where
  "cpe_agent_sample_tick te s =
     (if c_demo_mode (ag_cfg (lp_agent s)) then
        (let (r, sq, b) = cpe_agent_demo_ping_tick (tk_feed te) (tk_settle te) (tk_stats te) (tk_clk te) (lp_dseq s) (lp_agent s)
         in (r, s\<lparr>lp_dseq := sq, lp_agent := b\<rparr>))
      else
        (let (r, sq, lg, b) = cpe_agent_live_ping_tick (tk_feed te) (tk_settle te) (tk_ident te) (tk_ping te) (lp_lseq s) (lp_agent s)
         in (r, s\<lparr>lp_lseq := sq, lp_log := lp_log s @ lg, lp_agent := b\<rparr>)))"

definition emit_when :: "bool \<Rightarrow> ('c,'f) ipc_env \<Rightarrow> ('p,'n,'w,'t) cpe_agent \<Rightarrow> ('p,'n,'w,'t) cpe_agent" where
  "emit_when c env a = (if c then snd (env_emit env a) else a)"

definition tcp_part :: "('p,'c,'f) tick_env \<Rightarrow> ('p,'n,'w,'t) cpe_agent \<Rightarrow> ('p,'n,'w,'t) cpe_agent option" where
  "tcp_part te a =
     (if c_tcp_stats_enabled (ag_cfg a) then
        (let env = tk_tcp te in
         do { (n, b) \<leftarrow> cpe_agent_tcp_tick (ie_sort_remotes env) (ie_sort_prefixes env) (ie_pkt_clk env) (tk_now te) (ie_clk env) (ie_clk2 env)
                (ie_nflog_open env) (ie_nflog_rx env) a;
              Some (emit_when (n > 0) (tk_tcp_emit te) b) })
      else Some a)"

definition flow_part :: "('c,'f) ipc_env \<Rightarrow> ('c,'f) ipc_env \<Rightarrow> ('p,'n,'w,'t) cpe_agent \<Rightarrow> ('p,'n,'w,'t) cpe_agent option" where
  "flow_part env emit_env a =
     (if c_flow_acct_enabled (ag_cfg a) then do { (n, b) \<leftarrow> env_flow_tick env a; Some (emit_when (n > 0) emit_env b) } else Some a)"

definition ipc_poll :: "('c,'f) poll_env \<Rightarrow> ('p,'n,'w,'t) loop_st \<Rightarrow> ('p,'n,'w,'t) loop_st option" where
  "ipc_poll pe s =
     (case lp_ipc s of None \<Rightarrow> Some s
      | Some sv \<Rightarrow>
          do { (n, sv') \<leftarrow> cpe_ipc_server_poll (pe_world pe) (pe_send_ok pe) (pe_rd pe) (pe_accepts pe) (sv\<lparr>sv_agent := lp_agent s\<rparr>);
               Some (s\<lparr>lp_ipc := Some sv', lp_agent := sv_agent sv'\<rparr>) })"

definition tick_interval :: "('p,'n,'w,'t) cpe_agent \<Rightarrow> u32" where
  "tick_interval a = (if c_demo_interval_ms (ag_cfg a) \<noteq> 0 then c_demo_interval_ms (ag_cfg a) else 5000)"

section \<open>The loop without libuv\<close>

text \<open>The body up to the end of the sample; the interval is read after the reload.\<close>

definition poll_tick ::
  "('p,'c,'f) tick_env \<Rightarrow> cpe_agent_run_opts \<Rightarrow> ('p,'n,'w,'t) loop_st \<Rightarrow> (u32 \<times> ('p,'n,'w,'t) loop_st) option" where
  "poll_tick te op s =
     (let s1 = handle_hup te op s; (r, s2) = cpe_agent_sample_tick te s1 in
      do { a \<leftarrow> tcp_part te (emit_when (r = 0) (tk_emit te) (lp_agent s2));
           s3 \<leftarrow> ipc_poll (tk_poll te) (s2\<lparr>lp_agent := a\<rparr>);
           Some (tick_interval (lp_agent s1), s3\<lparr>lp_agent := drain_events (lp_agent s3), lp_ticks := lp_ticks s3 + 1\<rparr>) })"

text \<open>The sleep in slices of 200 milliseconds; \<open>k\<close> numbers the slices.\<close>

lemma slice_left: "left \<noteq> 0 \<Longrightarrow> unat ((left :: u32) - (if left > 200 then 200 else left)) < unat left"
  by (auto simp: unat_sub_if' word_less_nat_alt unat_gt_0)

function slices :: "(nat \<Rightarrow> ('c,'f) slice_env) \<Rightarrow> nat \<Rightarrow> u32 \<Rightarrow> ('p,'n,'w,'t) loop_st \<Rightarrow> ('p,'n,'w,'t) loop_st option" where
  "slices se k left s =
     (let s0 = deliver_sigs (se_sig (se k)) s in
      if left = 0 \<or> lp_stop s0 then Some s0
      else
        do { s1 \<leftarrow> ipc_poll (se_poll (se k)) (msleep (se_sleep (se k)) s0);
             a \<leftarrow> flow_part (se_flow (se k)) (se_emit (se k)) (lp_agent s1);
             slices se (k + 1) (left - (if left > 200 then 200 else left)) (s1\<lparr>lp_agent := a\<rparr>) })"
  by pat_completeness auto
termination
  by (relation "measure (\<lambda>(se, k, left, s). unat left)") (auto simp: slice_left)

declare slices.simps [simp del]

text \<open>The counter \<open>k\<close> numbers the iterations.\<close>

partial_function (option) poll_loop ::
  "(nat \<Rightarrow> ('p,'c,'f) tick_env) \<Rightarrow> (nat \<Rightarrow> nat \<Rightarrow> ('c,'f) slice_env) \<Rightarrow> cpe_agent_run_opts \<Rightarrow> nat \<Rightarrow> ('p,'n,'w,'t) loop_st \<Rightarrow>
   ('p,'n,'w,'t) loop_st option" where
  "poll_loop te se op k s =
     (let s0 = deliver_sigs (tk_sig (te k)) s in
      if lp_stop s0 then Some s0
      else Option.bind (poll_tick (te k) op s0) (\<lambda>r.
        if ro_max_ticks op > 0 \<and> lp_ticks (snd r) \<ge> ro_max_ticks op then Some (snd r)
        else Option.bind (slices (se k) 0 (fst r) (snd r)) (poll_loop te se op (k + 1))))"

definition ipc_path :: "cpe_agent_run_opts \<Rightarrow> cpe_agent_config \<Rightarrow> string option" where
  "ipc_path op cfg =
     (if ro_ipc_disable op then None
      else
        (let p = (case ro_ipc_socket_override op of None \<Rightarrow> c_ipc_socket cfg | Some q \<Rightarrow> str_or q (c_ipc_socket cfg))
         in if p \<noteq> [] \<and> p \<noteq> ''off'' \<and> p \<noteq> ''none'' then Some p else None))"

text \<open>The server is created by \<open>create\<close>; a failure leaves the agent without a control socket.\<close>

definition loop_start ::
  "(('p,'n,'w,'t) cpe_agent \<Rightarrow> string option \<Rightarrow> (string \<times> ipc_action list) + ('p,'n,'w,'t) ipc_server) \<Rightarrow> u16 \<Rightarrow> u16 \<Rightarrow> cpe_agent_run_opts \<Rightarrow>
   ('p,'n,'w,'t) cpe_agent \<Rightarrow> ('p,'n,'w,'t) loop_st" where
  "loop_start create dseq lseq op a =
     \<lparr> lp_agent = a,
       lp_ipc = (case ipc_path op (ag_cfg a) of None \<Rightarrow> None
                 | Some p \<Rightarrow> (case create a (Some p) of Inl _ \<Rightarrow> None | Inr sv \<Rightarrow> Some sv)),
       lp_hup = False, lp_stop = False, lp_dseq = dseq, lp_lseq = lseq, lp_ticks = 0, lp_log = [] \<rparr>"

text \<open>The final state and what the destruction of the server does.\<close>

definition cpe_agent_run_uv ::
  "(('p,'n,'w,'t) cpe_agent \<Rightarrow> string option \<Rightarrow> (string \<times> ipc_action list) + ('p,'n,'w,'t) ipc_server) \<Rightarrow> sigs list \<Rightarrow>
   (nat \<Rightarrow> ('p,'c,'f) tick_env) \<Rightarrow> (nat \<Rightarrow> nat \<Rightarrow> ('c,'f) slice_env) \<Rightarrow> cpe_agent_run_opts option \<Rightarrow> u16 \<Rightarrow> u16 \<Rightarrow> ('p,'n,'w,'t) cpe_agent \<Rightarrow>
   (('p,'n,'w,'t) loop_st \<times> ipc_action list) option" where
  "cpe_agent_run_uv create sleep te se opts dseq lseq a =
     (let op = (case opts of Some q \<Rightarrow> q
           | None \<Rightarrow> \<lparr> ro_max_ticks = 0, ro_config_path = None, ro_router_id_override = None, ro_ipc_socket_override = None, ro_ipc_disable = False \<rparr>)
      in do { s \<leftarrow> poll_loop te se op 0 (msleep sleep (loop_start create dseq lseq op a));
              Some (s, case lp_ipc s of None \<Rightarrow> [] | Some sv \<Rightarrow> cpe_ipc_server_destroy sv) })"

section \<open>Inputs a run may meet\<close>

definition poll_ok :: "('c,'f) poll_env \<Rightarrow> bool" where
  "poll_ok pe \<longleftrightarrow> (\<forall>i j. env_ok (pe_world pe i j))"

definition tick_ok :: "('p,'c,'f) tick_env \<Rightarrow> bool" where
  "tick_ok te \<longleftrightarrow> list_all rx_ok (ie_nflog_rx (tk_tcp te)) \<and> poll_ok (tk_poll te)"

definition slice_ok :: "('c,'f) slice_env \<Rightarrow> bool" where
  "slice_ok se \<longleftrightarrow> poll_ok (se_poll se) \<and> env_ok (se_flow se)"

section \<open>The callbacks of the loop with libuv\<close>

text \<open>
  The timers are libuv's; a callback is an operation on the context. \<open>uc_repeat\<close> is the period the sample timer
  runs with, \<open>uc_stopped\<close> says that \<^verbatim>\<open>uv_stop\<close> was called.
\<close>

record ('p,'n,'w,'t) uv_ctx =
  uc_st :: "('p,'n,'w,'t) loop_st"
  uc_last_interval_ms :: u32
  uc_repeat :: u64
  uc_stopped :: bool

definition rearm_timer :: "('p,'n,'w,'t) uv_ctx \<Rightarrow> ('p,'n,'w,'t) uv_ctx" where
  "rearm_timer c =
     (let interval = (ucast (tick_interval (lp_agent (uc_st c))) :: u64) in
      if interval = ucast (uc_last_interval_ms c) then c else c\<lparr>uc_last_interval_ms := ucast interval, uc_repeat := interval\<rparr>)"

definition uv_handle_hup :: "('p,'c,'f) tick_env \<Rightarrow> cpe_agent_run_opts \<Rightarrow> ('p,'n,'w,'t) uv_ctx \<Rightarrow> ('p,'n,'w,'t) uv_ctx" where
  "uv_handle_hup te op c =
     (let (taken, s1) = cpe_agent_hup_take (uc_st c) in
      if \<not> taken then c\<lparr>uc_st := s1\<rparr>
      else
        (let (r, b) = cpe_agent_reload_config (tk_alloc te) (tk_nflog_open te) (tk_nfct te) (tk_load te) (ro_config_path op)
               (ro_router_id_override op) (lp_agent s1);
             c1 = c\<lparr>uc_st := s1\<lparr>lp_agent := drain_events b\<rparr>\<rparr>
         in if r \<noteq> Inr () then c1 else rearm_timer c1))"

definition on_timer ::
  "('p,'c,'f) tick_env \<Rightarrow> cpe_agent_run_opts \<Rightarrow> ('p,'n,'w,'t) uv_ctx \<Rightarrow> ('p,'n,'w,'t) uv_ctx option" where
  "on_timer te op c =
     (if lp_stop (uc_st c) then Some (c\<lparr>uc_stopped := True\<rparr>)
      else
        (let c1 = uv_handle_hup te op c; (r, s2) = cpe_agent_sample_tick te (uc_st c1) in
         do { a \<leftarrow> tcp_part te (emit_when (r = 0) (tk_emit te) (lp_agent s2));
              let s3 = s2\<lparr>lp_agent := drain_events a, lp_ticks := lp_ticks s2 + 1\<rparr> in
              Some (c1\<lparr>uc_st := s3, uc_stopped := uc_stopped c1 \<or> (ro_max_ticks op > 0 \<and> lp_ticks s3 \<ge> ro_max_ticks op)\<rparr>) }))"

definition on_ipc_timer :: "('c,'f) slice_env \<Rightarrow> ('p,'n,'w,'t) uv_ctx \<Rightarrow> ('p,'n,'w,'t) uv_ctx option" where
  "on_ipc_timer se c =
     (if lp_stop (uc_st c) then Some (c\<lparr>uc_stopped := True\<rparr>)
      else do { s1 \<leftarrow> ipc_poll (se_poll se) (uc_st c);
                a \<leftarrow> flow_part (se_flow se) (se_emit se) (lp_agent s1);
                Some (c\<lparr>uc_st := s1\<lparr>lp_agent := a\<rparr>\<rparr>) })"

text \<open>The context \<^verbatim>\<open>cpe_agent_run_uv\<close> starts libuv with.\<close>

definition uv_start :: "('p,'n,'w,'t) loop_st \<Rightarrow> ('p,'n,'w,'t) uv_ctx" where
  "uv_start s = \<lparr> uc_st = s, uc_last_interval_ms = tick_interval (lp_agent s), uc_repeat = ucast (tick_interval (lp_agent s)), uc_stopped = False \<rparr>"

text \<open>
  What libuv may call next: the sample timer while the loop was not stopped, the control timer also in the
  iteration that stops the loop, a signal handler at any time.
\<close>

inductive uv_step ::
  "('p,'c,'f) tick_env set \<Rightarrow> ('c,'f) slice_env set \<Rightarrow> cpe_agent_run_opts \<Rightarrow> ('p,'n,'w,'t) uv_ctx \<Rightarrow> ('p,'n,'w,'t) uv_ctx \<Rightarrow> bool"
  for ticks sls op where
  sample: "te \<in> ticks \<Longrightarrow> \<not> uc_stopped c \<Longrightarrow> on_timer te op c = Some c' \<Longrightarrow> uv_step ticks sls op c c'"
| control: "se \<in> sls \<Longrightarrow> on_ipc_timer se c = Some c' \<Longrightarrow> uv_step ticks sls op c c'"
| on_signal_uv: "uv_step ticks sls op c (c\<lparr>uc_st := hup_handler h (uc_st c)\<rparr>)"

inductive_cases uv_stepE: "uv_step ticks sls op c c'"

lemmas agent_loop_defs [cdefs] =
  hup_handler_def deliver_sigs_def cpe_agent_hup_take_def drain_events.simps handle_hup_def cpe_agent_sample_tick_def emit_when_def tcp_part_def
  flow_part_def ipc_poll_def tick_interval_def poll_tick_def slices.simps poll_loop.simps ipc_path_def loop_start_def cpe_agent_run_uv_def
  rearm_timer_def uv_handle_hup_def on_timer_def on_ipc_timer_def uv_start_def

section \<open>Invariant\<close>

definition loop_inv :: "('p,'n,'w,'t) loop_st \<Rightarrow> bool" where
  "loop_inv s \<longleftrightarrow> agent_inv (lp_agent s) \<and> (\<forall>sv. lp_ipc s = Some sv \<longrightarrow> server_inv sv) \<and> opened (lp_log s) = closed_socks (lp_log s)"

lemma next_event_inv: "agent_inv a \<Longrightarrow> cpe_agent_next_event a = Some (ev, b) \<Longrightarrow> agent_inv b"
  using next_event_view(2)[of a]
  by (auto simp: cpe_agent_next_event_def agent_inv_def core_inv_def slots_inv_def spool_inv_def split: if_splits)

lemma drain_events_inv: "agent_inv a \<Longrightarrow> agent_inv (drain_events a)"
proof (induction a rule: drain_events.induct)
  case (1 a)
  show ?case by (subst drain_events.simps) (auto split: option.split intro: 1 dest: next_event_inv[OF 1(2)])
qed

lemma drain_events_empty: "cpe_agent_next_event (drain_events a) = None"
proof (induction a rule: drain_events.induct)
  case (1 a)
  then show ?case by (subst drain_events.simps) (auto split: option.split)
qed

lemma deliver_sigs_simps [simp]:
  "lp_agent (deliver_sigs sg s) = lp_agent s" "lp_ipc (deliver_sigs sg s) = lp_ipc s" "lp_log (deliver_sigs sg s) = lp_log s" "lp_ticks (deliver_sigs sg s) = lp_ticks s"
  "lp_stop (deliver_sigs sg s) \<longleftrightarrow> lp_stop s \<or> sg_stop sg" "lp_hup (deliver_sigs sg s) \<longleftrightarrow> lp_hup s \<or> sg_hup sg" "loop_inv (deliver_sigs sg s) = loop_inv s"
  by (auto simp: deliver_sigs_def hup_handler_def Let_def loop_inv_def)

lemma msleep_simps [simp]:
  "lp_agent (msleep sgs s) = lp_agent s" "lp_ipc (msleep sgs s) = lp_ipc s" "lp_log (msleep sgs s) = lp_log s" "lp_ticks (msleep sgs s) = lp_ticks s"
  "loop_inv (msleep sgs s) = loop_inv s" "lp_stop s \<Longrightarrow> lp_stop (msleep sgs s)"
  by (induction sgs arbitrary: s) (simp_all add: Let_def)

lemma handle_hup_inv: "loop_inv s \<Longrightarrow> loop_inv (handle_hup te op s)"
  by (simp add: handle_hup_def cpe_agent_hup_take_def loop_inv_def Let_def split_beta drain_events_inv reload_inv)

lemma handle_hup_ticks [simp]: "lp_ticks (handle_hup te op s) = lp_ticks s"
  by (simp add: handle_hup_def cpe_agent_hup_take_def Let_def split_beta)

lemma sample_tick_inv:
  assumes "loop_inv s" "cpe_agent_sample_tick te s = (r, s')"
  shows "loop_inv s'" "lp_ticks s' = lp_ticks s"
proof -
  obtain x where x: "cpe_agent_demo_ping_tick (tk_feed te) (tk_settle te) (tk_stats te) (tk_clk te) (lp_dseq s) (lp_agent s) = x" by blast
  obtain y0 y1 y2 y3 where y: "cpe_agent_live_ping_tick (tk_feed te) (tk_settle te) (tk_ident te) (tk_ping te) (lp_lseq s) (lp_agent s) = (y0, y1, y2, y3)"
    by (metis prod_cases4)
  show "loop_inv s'" using assms x demo_ping_inv[of "lp_agent s"] live_ping_safe[OF y]
    by (auto simp: cpe_agent_sample_tick_def loop_inv_def y split_beta Let_def split: if_splits)
  show "lp_ticks s' = lp_ticks s" using assms(2) by (auto simp: cpe_agent_sample_tick_def split_beta Let_def split: if_splits)
qed

lemma emit_when_inv: "agent_inv a \<Longrightarrow> agent_inv (emit_when c env a)"
  by (simp add: emit_when_def env_emit_inv)

lemma tcp_part_inv:
  assumes "agent_inv a" "list_all rx_ok (ie_nflog_rx (tk_tcp te))"
  shows "\<exists>b. tcp_part te a = Some b \<and> agent_inv b"
proof -
  let ?env = "tk_tcp te"
  obtain n b where t: "cpe_agent_tcp_tick (ie_sort_remotes ?env) (ie_sort_prefixes ?env) (ie_pkt_clk ?env) (tk_now te) (ie_clk ?env) (ie_clk2 ?env)
      (ie_nflog_open ?env) (ie_nflog_rx ?env) a = Some (n, b)" and b: "core_inv b" "tcp_inv (ag_tcp b)" "ag_flow b = ag_flow a"
    using tcp_tick_inv[of a] assms unfolding agent_inv_def by blast
  then have "agent_inv b" using assms(1) by (simp add: agent_inv_def)
  then show ?thesis using t assms(1) by (simp add: tcp_part_def Let_def emit_when_inv)
qed

lemma flow_part_inv:
  assumes "agent_inv a" "env_ok env"
  shows "\<exists>b. flow_part env ee a = Some b \<and> agent_inv b"
  using env_flow_tick_ok[OF assms(2,1)] assms(1) by (auto simp: flow_part_def emit_when_inv)

lemma ipc_poll_inv:
  assumes "loop_inv s" "poll_ok pe"
  shows "\<exists>s'. ipc_poll pe s = Some s' \<and> loop_inv s' \<and> lp_ticks s' = lp_ticks s \<and> lp_stop s' = lp_stop s"
proof (cases "lp_ipc s")
  case None
  then show ?thesis using assms(1) by (simp add: ipc_poll_def)
next
  case (Some sv)
  let ?sv = "sv\<lparr>sv_agent := lp_agent s\<rparr>"
  have i: "server_inv ?sv" using assms(1) Some by (simp add: loop_inv_def server_inv_def)
  have "\<exists>n sv'. cpe_ipc_server_poll (pe_world pe) (pe_send_ok pe) (pe_rd pe) (pe_accepts pe) ?sv = Some (n, sv') \<and> server_inv sv'"
    using poll_clients_inv[OF _ accept_inv[OF i], of "pe_world pe" "[0..<8]"] i assms(2)
    by (auto simp: cpe_ipc_server_poll_def list_all_iff poll_ok_def)
  then obtain n sv' where p: "cpe_ipc_server_poll (pe_world pe) (pe_send_ok pe) (pe_rd pe) (pe_accepts pe) ?sv = Some (n, sv')" "server_inv sv'"
    by blast
  then show ?thesis using assms(1) Some by (simp add: ipc_poll_def loop_inv_def server_inv_def)
qed

lemma poll_tick_inv:
  assumes "loop_inv s" "tick_ok te"
  shows "\<exists>iv s'. poll_tick te op s = Some (iv, s') \<and> loop_inv s' \<and> lp_ticks s' = lp_ticks s + 1 \<and> cpe_agent_next_event (lp_agent s') = None"
proof -
  let ?s1 = "handle_hup te op s"
  obtain r s2 where st: "cpe_agent_sample_tick te ?s1 = (r, s2)" by fastforce
  note s2 = sample_tick_inv[OF handle_hup_inv[OF assms(1)] st]
  have "agent_inv (emit_when (r = 0) (tk_emit te) (lp_agent s2))" using s2(1) by (simp add: loop_inv_def emit_when_inv)
  from tcp_part_inv[OF this] assms(2)
  obtain a where a: "tcp_part te (emit_when (r = 0) (tk_emit te) (lp_agent s2)) = Some a" "agent_inv a" by (auto simp: tick_ok_def)
  have "loop_inv (s2\<lparr>lp_agent := a\<rparr>)" using s2(1) a(2) by (simp add: loop_inv_def)
  from ipc_poll_inv[OF this, of "tk_poll te"] assms(2)
  obtain s3 where s3: "ipc_poll (tk_poll te) (s2\<lparr>lp_agent := a\<rparr>) = Some s3" "loop_inv s3" "lp_ticks s3 = lp_ticks s2" by (auto simp: tick_ok_def)
  then show ?thesis using st a s2(2) by (simp add: poll_tick_def Let_def loop_inv_def drain_events_inv drain_events_empty)
qed

lemma slices_inv:
  assumes "\<forall>k. slice_ok (se k)" "loop_inv s"
  shows "\<exists>s'. slices se k left s = Some s' \<and> loop_inv s' \<and> lp_ticks s' = lp_ticks s"
  using assms
proof (induction se k left s rule: slices.induct)
  case (1 se k left s)
  let ?s0 = "deliver_sigs (se_sig (se k)) s"
  show ?case
  proof (cases "left = 0 \<or> lp_stop ?s0")
    case True
    then show ?thesis using "1.prems" by (subst slices.simps) (simp only: Let_def if_True, simp)
  next
    case False
    have ok: "poll_ok (se_poll (se k))" "env_ok (se_flow (se k))" using "1.prems"(1) by (auto simp: slice_ok_def)
    have "loop_inv (msleep (se_sleep (se k)) ?s0)" using "1.prems"(2) by simp
    from ipc_poll_inv[OF this ok(1)]
    obtain s1 where s1: "ipc_poll (se_poll (se k)) (msleep (se_sleep (se k)) ?s0) = Some s1" "loop_inv s1" "lp_ticks s1 = lp_ticks s"
      by auto
    then obtain a where a: "flow_part (se_flow (se k)) (se_emit (se k)) (lp_agent s1) = Some a" "agent_inv a"
      using flow_part_inv[OF _ ok(2), of "lp_agent s1" "se_emit (se k)"] by (auto simp: loop_inv_def)
    have "loop_inv (s1\<lparr>lp_agent := a\<rparr>)" using s1(2) a(2) by (simp add: loop_inv_def)
    from "1.IH"[OF refl False s1(1) a(1) "1.prems"(1) this]
    show ?thesis using s1 a False by (subst slices.simps) (simp only: Let_def if_False, simp)
  qed
qed

text \<open>Every state at the head of the loop satisfies the invariant, and the loop that is given a limit ends.\<close>

lemma poll_loop_limit:
  assumes "\<forall>k. tick_ok (te k)" "\<forall>k j. slice_ok (se k j)" "loop_inv s" "lp_ticks s < ro_max_ticks op"
  shows "\<exists>s'. poll_loop te se op k s = Some s' \<and> loop_inv s' \<and> lp_ticks s' \<le> ro_max_ticks op \<and> (lp_stop s' \<or> lp_ticks s' = ro_max_ticks op)"
  using assms(3,4)
proof (induction "unat (ro_max_ticks op) - unat (lp_ticks s)" arbitrary: k s rule: less_induct)
  case less
  let ?s0 = "deliver_sigs (tk_sig (te k)) s"
  show ?case
  proof (cases "lp_stop ?s0")
    case True
    then show ?thesis using less.prems by (subst poll_loop.simps) (simp only: Let_def if_True, simp)
  next
    case False
    have "loop_inv ?s0" using less.prems by simp
    from poll_tick_inv[OF this, of "te k" op] assms(1)
    obtain iv s1 where s1: "poll_tick (te k) op ?s0 = Some (iv, s1)" "loop_inv s1" "lp_ticks s1 = lp_ticks s + 1" by auto
    have t: "unat (lp_ticks s1) = unat (lp_ticks s) + 1" "unat (lp_ticks s) < unat (ro_max_ticks op)"
    proof -
      show l: "unat (lp_ticks s) < unat (ro_max_ticks op)" using less.prems(2) by (simp add: word_less_nat_alt)
      then have "unat (lp_ticks s) < 4294967295" using unat_u32_less[of "ro_max_ticks op"] by linarith
      then show "unat (lp_ticks s1) = unat (lp_ticks s) + 1" unfolding s1(3) by (rule unat_inc)
    qed
    obtain s2 where s2: "slices (se k) 0 iv s1 = Some s2" "loop_inv s2" "lp_ticks s2 = lp_ticks s1"
      using slices_inv[of "se k" s1 0 iv] s1(2) assms(2) by auto
    show ?thesis
    proof (cases "lp_ticks s1 \<ge> ro_max_ticks op")
      case True
      then have "lp_ticks s1 = ro_max_ticks op" using t by (simp add: word_le_nat_alt word_unat_eq_iff)
      moreover have "0 < ro_max_ticks op" using t by (simp add: word_less_nat_alt)
      ultimately show ?thesis using s1 False by (subst poll_loop.simps) (simp only: Let_def if_False, simp)
    next
      case F2: False
      have "\<exists>s'. poll_loop te se op (k + 1) s2 = Some s' \<and> loop_inv s' \<and> lp_ticks s' \<le> ro_max_ticks op \<and> (lp_stop s' \<or> lp_ticks s' = ro_max_ticks op)"
        using F2 s2 t by (intro less.hyps) (auto simp: word_less_nat_alt word_le_nat_alt)
      then show ?thesis using s1 s2 False F2 by (subst poll_loop.simps) (simp only: Let_def if_False, simp)
    qed
  qed
qed

section \<open>Runs\<close>

lemma ipc_create_inv:
  "agent_inv a \<Longrightarrow> cpe_ipc_server_create calloc_ok sock be le a p = Inr sv \<Longrightarrow> server_inv sv"
  by (auto simp: cpe_ipc_server_create_def server_inv_def Let_def list_all_iff split: if_splits sum.splits option.splits)

lemma loop_start_inv: "agent_inv a \<Longrightarrow> loop_inv (loop_start (cpe_ipc_server_create calloc_ok sock be le) dseq lseq op a)"
  by (auto simp: loop_start_def loop_inv_def split: option.splits sum.splits dest: ipc_create_inv)

text \<open>The loop with a limit on its iterations ends, whatever the network, the clients and the signals do: either
  a signal asked for it or exactly the given number of iterations was made; the agent and the server
  keep their invariants and no probe socket stays open.\<close>

theorem agent_run_returns:
  assumes "\<forall>k. tick_ok (te k)" "\<forall>k j. slice_ok (se k j)" "agent_inv a" "0 < ro_max_ticks op"
  shows "\<exists>s lg. cpe_agent_run_uv (cpe_ipc_server_create calloc_ok sock be le) sleep te se (Some op) dseq lseq a = Some (s, lg) \<and>
    agent_inv (lp_agent s) \<and> (lp_stop s \<or> lp_ticks s = ro_max_ticks op) \<and> opened (lp_log s) = closed_socks (lp_log s)"
proof -
  let ?s = "msleep sleep (loop_start (cpe_ipc_server_create calloc_ok sock be le) dseq lseq op a)"
  have "loop_inv ?s" "lp_ticks ?s < ro_max_ticks op" using loop_start_inv[OF assms(3)] assms(4) by (simp_all add: loop_start_def)
  from poll_loop_limit[OF assms(1,2) this, of 0]
  show ?thesis by (auto simp: cpe_agent_run_uv_def loop_inv_def)
qed

section \<open>The two loops\<close>

lemma uv_handle_hup_st [simp]: "uc_st (uv_handle_hup te op c) = handle_hup te op (uc_st c)"
  by (simp add: uv_handle_hup_def handle_hup_def rearm_timer_def Let_def split_beta)

text \<open>Both loops treat a sample alike: without a control socket an iteration of the portable loop and the
  timer callback of the libuv loop take the same state to the same state, and a slice of the
  sleep does what the control timer does.\<close>

theorem loops_agree:
  assumes "lp_ipc (uc_st c) = None" "\<not> lp_stop (uc_st c)"
  shows "map_option snd (poll_tick te op (uc_st c)) = map_option uc_st (on_timer te op c) \<and>
    map_option uc_st (on_ipc_timer sl c) = flow_part (se_flow sl) (se_emit sl) (lp_agent (uc_st c)) \<bind> (\<lambda>a. Some ((uc_st c)\<lparr>lp_agent := a\<rparr>))"
proof -
  have n: "lp_ipc (handle_hup te op (uc_st c)) = None"
    using assms(1) by (simp add: handle_hup_def cpe_agent_hup_take_def Let_def split_beta)
  obtain r s2 where st: "cpe_agent_sample_tick te (handle_hup te op (uc_st c)) = (r, s2)" by fastforce
  have n2: "lp_ipc s2 = None" using st n by (auto simp: cpe_agent_sample_tick_def Let_def split_beta split: if_splits)
  have "map_option snd (poll_tick te op (uc_st c)) = map_option uc_st (on_timer te op c)"
    using st n2 assms(2) by (cases "tcp_part te (emit_when (r = 0) (tk_emit te) (lp_agent s2))") (simp_all add: poll_tick_def on_timer_def Let_def ipc_poll_def)
  moreover have "map_option uc_st (on_ipc_timer sl c) = flow_part (se_flow sl) (se_emit sl) (lp_agent (uc_st c)) \<bind> (\<lambda>a. Some ((uc_st c)\<lparr>lp_agent := a\<rparr>))"
    using assms by (cases "flow_part (se_flow sl) (se_emit sl) (lp_agent (uc_st c))") (simp_all add: on_ipc_timer_def ipc_poll_def)
  ultimately show ?thesis ..
qed

lemma on_timer_inv:
  assumes "loop_inv (uc_st c)" "tick_ok te"
  shows "\<exists>c'. on_timer te op c = Some c' \<and> loop_inv (uc_st c') \<and>
    (\<not> lp_stop (uc_st c) \<longrightarrow> lp_ticks (uc_st c') = lp_ticks (uc_st c) + 1 \<and>
       uc_stopped c' = (uc_stopped c \<or> ro_max_ticks op > 0 \<and> lp_ticks (uc_st c') \<ge> ro_max_ticks op)) \<and>
    (lp_stop (uc_st c) \<longrightarrow> uc_stopped c' \<and> lp_ticks (uc_st c') = lp_ticks (uc_st c))"
proof (cases "lp_stop (uc_st c)")
  case True
  then show ?thesis using assms(1) by (simp add: on_timer_def)
next
  case False
  let ?c1 = "uv_handle_hup te op c"
  obtain r s2 where st: "cpe_agent_sample_tick te (uc_st ?c1) = (r, s2)" by fastforce
  have "loop_inv (uc_st ?c1)" using handle_hup_inv[OF assms(1)] by simp
  note s2 = sample_tick_inv[OF this st]
  have "agent_inv (emit_when (r = 0) (tk_emit te) (lp_agent s2))" using s2(1) by (simp add: loop_inv_def emit_when_inv)
  from tcp_part_inv[OF this] assms(2)
  obtain a where a: "tcp_part te (emit_when (r = 0) (tk_emit te) (lp_agent s2)) = Some a" "agent_inv a" by (auto simp: tick_ok_def)
  have "uc_stopped ?c1 = uc_stopped c" by (simp add: uv_handle_hup_def rearm_timer_def Let_def split_beta)
  then show ?thesis using False st a s2 by (simp add: on_timer_def Let_def loop_inv_def drain_events_inv)
qed

lemma on_ipc_timer_inv:
  assumes "loop_inv (uc_st c)" "slice_ok se"
  shows "\<exists>c'. on_ipc_timer se c = Some c' \<and> loop_inv (uc_st c') \<and> lp_ticks (uc_st c') = lp_ticks (uc_st c) \<and> (uc_stopped c \<longrightarrow> uc_stopped c')"
proof (cases "lp_stop (uc_st c)")
  case True
  then show ?thesis using assms(1) by (simp add: on_ipc_timer_def)
next
  case False
  have ok: "poll_ok (se_poll se)" "env_ok (se_flow se)" using assms(2) by (auto simp: slice_ok_def)
  obtain s1 where s1: "ipc_poll (se_poll se) (uc_st c) = Some s1" "loop_inv s1" "lp_ticks s1 = lp_ticks (uc_st c)"
    using ipc_poll_inv[OF assms(1) ok(1)] by auto
  then obtain a where a: "flow_part (se_flow se) (se_emit se) (lp_agent s1) = Some a" "agent_inv a"
    using flow_part_inv[OF _ ok(2), of "lp_agent s1" "se_emit se"] by (auto simp: loop_inv_def)
  then show ?thesis using False s1 by (simp add: on_ipc_timer_def loop_inv_def)
qed

definition uv_inv :: "cpe_agent_run_opts \<Rightarrow> ('p,'n,'w,'t) uv_ctx \<Rightarrow> bool" where
  "uv_inv op c \<longleftrightarrow> loop_inv (uc_st c) \<and>
     (0 < ro_max_ticks op \<longrightarrow> lp_ticks (uc_st c) \<le> ro_max_ticks op \<and> (\<not> uc_stopped c \<longrightarrow> lp_ticks (uc_st c) < ro_max_ticks op))"

lemma uv_step_inv:
  assumes "uv_step ticks sls op c c'" "uv_inv op c" "\<forall>te \<in> ticks. tick_ok te" "\<forall>se \<in> sls. slice_ok se"
  shows "uv_inv op c'"
  using assms(1)
proof (cases rule: uv_step.cases)
  case (sample te)
  have l: "loop_inv (uc_st c)" and t: "0 < ro_max_ticks op \<longrightarrow> lp_ticks (uc_st c) < ro_max_ticks op" using assms(2) sample(2) by (auto simp: uv_inv_def)
  have n: "0 < ro_max_ticks op \<longrightarrow> lp_ticks (uc_st c) + 1 \<le> ro_max_ticks op"
    using t inc_le by blast
  obtain c2 where "on_timer te op c = Some c2 \<and> loop_inv (uc_st c2) \<and>
    (\<not> lp_stop (uc_st c) \<longrightarrow> lp_ticks (uc_st c2) = lp_ticks (uc_st c) + 1 \<and>
       uc_stopped c2 = (uc_stopped c \<or> ro_max_ticks op > 0 \<and> lp_ticks (uc_st c2) \<ge> ro_max_ticks op)) \<and>
    (lp_stop (uc_st c) \<longrightarrow> uc_stopped c2 \<and> lp_ticks (uc_st c2) = lp_ticks (uc_st c))"
    using on_timer_inv[OF l, of te op] assms(3) sample(1) by blast
  then show ?thesis using sample(3) t n by (cases "lp_stop (uc_st c)") (auto simp: uv_inv_def not_le)
next
  case (control se)
  obtain c2 where "on_ipc_timer se c = Some c2 \<and> loop_inv (uc_st c2) \<and> lp_ticks (uc_st c2) = lp_ticks (uc_st c) \<and> (uc_stopped c \<longrightarrow> uc_stopped c2)"
    using on_ipc_timer_inv[of c se] assms(2,4) control(1) by (auto simp: uv_inv_def)
  then show ?thesis using control(2) assms(2) by (auto simp: uv_inv_def)
next
  case (on_signal_uv h)
  then show ?thesis using assms(2) by (simp add: uv_inv_def loop_inv_def hup_handler_def)
qed


section \<open>Witnesses\<close>

definition calm :: sigs where
  "calm = \<lparr> sg_hup = False, sg_stop = False \<rparr>"

definition quiet_poll :: "(nfct_event list, unit) poll_env" where
  "quiet_poll = \<lparr> pe_world = \<lambda>_ _. quiet_env, pe_send_ok = \<lambda>_ _. True, pe_rd = \<lambda>_. Again, pe_accepts = [] \<rparr>"

definition quiet_tick :: "(unit, nfct_event list, unit) tick_env" where
  "quiet_tick = \<lparr> tk_sig = calm, tk_alloc = \<lambda>_. True, tk_nflog_open = \<lambda>_ _. Inl ''no capability'', tk_nfct = ie_nfct quiet_env,
     tk_load = \<lambda>_. Inl ''no file'', tk_feed = \<lambda>p _ _. (True, p), tk_settle = \<lambda>p _. p, tk_stats = \<lambda>_. None, tk_clk = clk0, tk_ident = 7,
     tk_ping = echo_io 1, tk_emit = quiet_env, tk_tcp = quiet_env, tk_now = clk0, tk_tcp_emit = quiet_env, tk_poll = quiet_poll \<rparr>"

definition quiet_slice :: "(nfct_event list, unit) slice_env" where
  "quiet_slice = \<lparr> se_sig = calm, se_sleep = [], se_poll = quiet_poll, se_flow = quiet_env, se_emit = quiet_env \<rparr>"

definition lab_opts :: cpe_agent_run_opts where
  "lab_opts = \<lparr> ro_max_ticks = 2, ro_config_path = None, ro_router_id_override = None, ro_ipc_socket_override = None, ro_ipc_disable = False \<rparr>"

lemma quiet_ok: "tick_ok quiet_tick" "slice_ok quiet_slice"
  using quiet_env_ok by (simp_all add: tick_ok_def slice_ok_def poll_ok_def quiet_tick_def quiet_slice_def quiet_poll_def env_ok_def)

theorem agent_run_returns_witness:
  "\<exists>s lg. cpe_agent_run_uv (cpe_ipc_server_create True (Inr 3) None None) [] (\<lambda>_. quiet_tick) (\<lambda>_ _. quiet_slice) (Some lab_opts) 0 0
      (fresh_agent 4 :: (unit, unit, unit, unit) cpe_agent) = Some (s, lg) \<and>
    agent_inv (lp_agent s) \<and> (lp_stop s \<or> lp_ticks s = ro_max_ticks lab_opts) \<and> opened (lp_log s) = closed_socks (lp_log s)"
  by (rule agent_run_returns) (simp_all add: quiet_ok fresh_agent_facts lab_opts_def)

theorem loops_agree_witness:
  "map_option snd (poll_tick quiet_tick lab_opts (uc_st (uv_start (loop_start (\<lambda>_ _. Inl ([], [])) 0 0 lab_opts lab_agent)))) =
   map_option uc_st (on_timer quiet_tick lab_opts (uv_start (loop_start (\<lambda>_ _. Inl ([], [])) 0 0 lab_opts lab_agent)))"
  using loops_agree[of "uv_start (loop_start (\<lambda>_ _. Inl ([], [])) 0 0 lab_opts lab_agent)" quiet_tick lab_opts quiet_slice]
  by (simp add: uv_start_def loop_start_def split: option.split)


end
