(* ===== verification/Agent_Api.thy ===== *)
theory Agent_Api
  imports Agent_Loop
begin

text \<open>
  The public operations of the agent (\<^verbatim>\<open>include/cpe_agent.h\<close>) as a language: one constructor per function,
  with the inputs the model of that function takes, and the state a call leaves. A host, the request
  server, the Lua bindings and the control tool drive the agent by such sequences of calls.
\<close>

section \<open>Calls\<close>

datatype ('p,'n,'c,'f,'q) api_call =
    Apply_config "('p,'c,'f) tick_env" "cpe_agent_config option"
  | Reload_config "('p,'c,'f) tick_env" "string option" "string option"
  | Next_event
  | Provide_buffer nat "string list option" nat
  | Demo_ping_tick "('p,'c,'f) tick_env" u16
  | Live_ping_tick "('p,'c,'f) tick_env" u16
  | Feed_icmp_echo_reply "('p,'c,'f) tick_env" bytes u64
  | Arping if_env arp_io "string option" "string option"
  | Demo_arping "bytes \<Rightarrow> u64 \<Rightarrow> u32 option" clock "string option"
  | Traceroute trace_io "string option" int u16
  | Mtr trace_io "string option" int int u16
  | Demo_traceroute clock "string option" int
  | Wifi_dump "('c,'f) ipc_env" wif_env "'q wifi_env" clock "string option" bool
  | Demo_wifi_dump "('c,'f) ipc_env" wif_env "'q wifi_env" clock bool
  | Set_last_sample cpe_perf_sample
  | Set_last_trace cpe_trace_result
  | Feed_nfct "'n \<Rightarrow> bytes \<Rightarrow> 'n" "'n \<Rightarrow> (nfct_event \<times> 'n) option" "nfct_event \<Rightarrow> tuple4 option" "nfct_event \<Rightarrow> tuple6 option" bytes u64
  | Tcp_open "('c,'f) ipc_env"
  | Tcp_close
  | Tcp_poll "('c,'f) ipc_env" nat
  | Tcp_tick "('p,'c,'f) tick_env"
  | Tcp_emit "('c,'f) ipc_env" nat
  | Tcp_feed_payload clock bytes
  | Tcp_feed_nflog "nat \<Rightarrow> clock" bytes
  | Tcp_reset clock
  | Flow_open "'c nfct_env"
  | Flow_close
  | Flow_poll "'c nfct_env" "nat \<Rightarrow> nat \<Rightarrow> clock" clock "recv_result list" nat
  | Flow_tick "('c,'f) ipc_env"
  | Flow_feed_event clock clock "nfct_event option"
  | Spool_flush "string \<Rightarrow> 'f \<Rightarrow> 'f option" "'f \<Rightarrow> bool" 'f
  | Emit_flush "('c,'f) ipc_env"
  | Ipc_request "('c,'f) ipc_env" string

type_synonym ('p,'n) agent = "('p,'n,cpe_wifi_snapshot,cpe_trace_result) cpe_agent"

fun exec :: "('p,'n,'c,'f,'q) api_call \<Rightarrow> ('p,'n) agent \<Rightarrow> ('p,'n) agent option" where
  "exec (Apply_config te cfg) a = Some (snd (cpe_agent_apply_config (tk_alloc te) (tk_nflog_open te) (tk_nfct te) cfg a))"
| "exec (Reload_config te path rid) a =
     Some (snd (cpe_agent_reload_config (tk_alloc te) (tk_nflog_open te) (tk_nfct te) (tk_load te) path rid a))"
| "exec Next_event a = Some (case cpe_agent_next_event a of None \<Rightarrow> a | Some (_, b) \<Rightarrow> b)"
| "exec (Provide_buffer sl buf len) a = Some (snd (cpe_agent_provide_buffer sl buf len a))"
| "exec (Demo_ping_tick te seq) a = Some (snd (snd (cpe_agent_demo_ping_tick (tk_feed te) (tk_settle te) (tk_stats te) (tk_clk te) seq a)))"
| "exec (Live_ping_tick te seq) a =
     Some (snd (snd (snd (cpe_agent_live_ping_tick (tk_feed te) (tk_settle te) (tk_ident te) (tk_ping te) seq a))))"
| "exec (Feed_icmp_echo_reply te icmp ts) a = Some (snd (cpe_agent_feed_icmp_echo_reply (tk_feed te) (tk_settle te) icmp ts a))"
| "exec (Arping ie io t i) a = Some (snd (snd (cpe_agent_arping ie io t i a)))"
| "exec (Demo_arping latency clk t) a = Some (snd (cpe_agent_demo_arping latency clk t a))"
| "exec (Traceroute io t m ps) a = Some (snd (snd (snd (snd (cpe_agent_traceroute io t m ps a)))))"
| "exec (Mtr io t m n ps) a = Some (snd (snd (snd (snd (cpe_agent_mtr io t m n ps a)))))"
| "exec (Demo_traceroute clk t m) a = Some (snd (snd (cpe_agent_demo_traceroute clk t m a)))"
| "exec (Wifi_dump env ni we clk nm em) a = map_option (\<lambda>r. snd (snd (snd r))) (cpe_agent_wifi_dump env ni we clk nm em a)"
| "exec (Demo_wifi_dump env ni we clk em) a = map_option (\<lambda>r. snd (snd r)) (cpe_agent_demo_wifi_dump env ni we clk em a)"
| "exec (Set_last_sample s) a = Some (snd (cpe_agent_set_last_sample (Some s) a))"
| "exec (Set_last_trace t) a = Some (snd (cpe_agent_set_last_trace (Some t) a))"
| "exec (Feed_nfct feed nx t4 t6 d ts) a = map_option snd (cpe_agent_feed_nfct feed nx t4 t6 d ts a)"
| "exec (Tcp_open env) a = Some (snd (cpe_agent_tcp_open (ie_nflog_open env) a))"
| "exec Tcp_close a = Some (cpe_agent_tcp_close a)"
| "exec (Tcp_poll env m) a = map_option snd (cpe_agent_tcp_poll (ie_pkt_clk env) (ie_nflog_open env) (ie_nflog_rx env) m a)"
| "exec (Tcp_tick te) a =
     (let env = tk_tcp te in
      map_option snd (cpe_agent_tcp_tick (ie_sort_remotes env) (ie_sort_prefixes env) (ie_pkt_clk env) (tk_now te) (ie_clk env) (ie_clk2 env)
        (ie_nflog_open env) (ie_nflog_rx env) a))"
| "exec (Tcp_emit env n) a = Some (snd (cpe_agent_tcp_emit (ie_sort_remotes env) (ie_sort_prefixes env) (ie_clk env) (ie_clk2 env) n a))"
| "exec (Tcp_feed_payload clk p) a = map_option snd (cpe_agent_tcp_feed_payload clk p a)"
| "exec (Tcp_feed_nflog clk m) a = map_option snd (cpe_agent_tcp_feed_nflog clk m a)"
| "exec (Tcp_reset clk) a = Some (cpe_agent_tcp_reset clk a)"
| "exec (Flow_open env) a = Some (snd (cpe_agent_flow_open env a))"
| "exec Flow_close a = Some (cpe_agent_flow_close a)"
| "exec (Flow_poll env clk now rx m) a = map_option snd (cpe_agent_flow_poll env clk now rx m a)"
| "exec (Flow_tick env) a = map_option snd (env_flow_tick env a)"
| "exec (Flow_feed_event clk now ev) a = Some (snd (cpe_agent_flow_feed_event clk now ev a))"
| "exec (Spool_flush wr fls f) a = Some (snd (cpe_agent_spool_flush wr fls f a))"
| "exec (Emit_flush env) a = Some (snd (env_emit env a))"
| "exec (Ipc_request env req) a = map_option snd (cpe_ipc_handle_request env req 8192 a)"

fun exec_all :: "('p,'n,'c,'f,'q) api_call list \<Rightarrow> ('p,'n) agent \<Rightarrow> ('p,'n) agent option" where
  "exec_all [] a = Some a"
| "exec_all (c # cs) a = exec c a \<bind> exec_all cs"

text \<open>What a call may rely on: the libraries' event queues run empty and netlink datagrams are padded.\<close>

fun call_ok :: "('p,'n,'c,'f,'q) api_call \<Rightarrow> bool" where
  "call_ok (Wifi_dump env ni we clk nm em) \<longleftrightarrow> wifi_finite we"
| "call_ok (Demo_wifi_dump env ni we clk em) \<longleftrightarrow> wifi_finite we"
| "call_ok (Feed_nfct feed nx t4 t6 d ts) \<longleftrightarrow> (\<forall>q. \<exists>evs. yields nx q evs)"
| "call_ok (Tcp_poll env m) \<longleftrightarrow> env_ok env"
| "call_ok (Tcp_tick te) \<longleftrightarrow> tick_ok te"
| "call_ok (Tcp_feed_nflog clk m) \<longleftrightarrow> length m < 2 ^ 64 \<and> 4 dvd length m"
| "call_ok (Flow_poll env clk now rx m) \<longleftrightarrow> env_finite env"
| "call_ok (Flow_tick env) \<longleftrightarrow> env_ok env"
| "call_ok (Ipc_request env req) \<longleftrightarrow> env_ok env"
| "call_ok _ \<longleftrightarrow> True"

section \<open>Every sequence of calls is safe\<close>

lemma agent_invI: "core_inv b \<Longrightarrow> tcp_inv (ag_tcp b) \<Longrightarrow> flow_inv (ag_flow b) \<Longrightarrow> agent_inv b"
  by (simp add: agent_inv_def)

lemma flow_step_inv: "flow_step_ok a b \<Longrightarrow> agent_inv a \<Longrightarrow> agent_inv b"
  by (auto simp: flow_step_ok_def agent_inv_def)

lemma demo_wifi_inv:
  assumes "wifi_finite we" "agent_inv a"
  shows "\<exists>r. cpe_agent_demo_wifi_dump env ni we clk em a = Some r \<and> agent_inv (snd (snd r))"
proof (cases "we_create we")
  case None
  then show ?thesis using assms(2) by (simp add: cpe_agent_demo_wifi_dump_def Let_def split_beta)
next
  case (Some q)
  obtain evs where "yields (we_next we) (we_feed we wsynth q) evs" using assms(1) by (auto simp: wifi_finite_def)
  from wifi_drain_spec[OF this, of demo_freq "[]"] Some assms(2) show ?thesis
    by (simp add: cpe_agent_demo_wifi_dump_def Let_def split_beta store_wifi_inv)
qed

lemma wifi_inv:
  assumes "wifi_finite we" "agent_inv a"
  shows "\<exists>r. cpe_agent_wifi_dump env ni we clk nm em a = Some r \<and> agent_inv (snd (snd (snd r)))"
proof -
  obtain r ifc where ifc: "cpe_agent_wifi_iface_state ni nm a = (r, ifc)" by fastforce
  obtain d e sts v lg where "dump_stations_live we (wi_ifindex ifc) = Some (d, e, sts, v, lg)" using dump_stations_returns[OF assms(1)] by blast
  then show ?thesis using assms(2) by (simp add: cpe_agent_wifi_dump_def ifc Let_def store_wifi_inv)
qed

lemma trace_inv:
  assumes "agent_inv a"
  shows "agent_inv (snd (snd (snd (snd (run_trace io t m n nm ps a)))))"
  by (metis assms prod.collapse run_trace_inv)

lemma probe_inv:
  assumes "agent_inv a"
  shows "agent_inv (snd (snd (snd (cpe_agent_live_ping_tick feed settle ident io seq a))))" "agent_inv (snd (snd (cpe_agent_arping ie ao t i a)))"
  using live_ping_safe[of feed settle ident io seq a] arping_safe[of ie ao t i a] assms by (metis prod.collapse)+

lemma feed_nfct_inv:
  assumes "\<forall>q. \<exists>evs. yields nx q evs" "agent_inv a"
  shows "\<exists>r. cpe_agent_feed_nfct feed nx t4 t6 d ts a = Some r \<and> agent_inv (snd r)"
proof -
  let ?a = "a\<lparr>ag_nfct := feed (ag_nfct a) d\<rparr>"
  obtain evs where "yields nx (ag_nfct ?a) evs" using assms(1) by blast
  from feed_nfct_total[OF this, of t4 t6 ts 0] assms(2) show ?thesis by (auto simp: cpe_agent_feed_nfct_def)
qed

lemma tcp_calls_inv:
  assumes "agent_inv a"
  shows "agent_inv (snd (cpe_agent_tcp_open op a))" "agent_inv (cpe_agent_tcp_close a)" "agent_inv (cpe_agent_tcp_reset clk a)"
    "agent_inv (snd (cpe_agent_tcp_emit qr qp clk clk2 n a))"
    "list_all rx_ok rx \<Longrightarrow> \<exists>r. cpe_agent_tcp_poll pclk op rx m a = Some r \<and> agent_inv (snd r)"
    "list_all rx_ok rx \<Longrightarrow> \<exists>r. cpe_agent_tcp_tick qr qp pclk nclk clk clk2 op rx a = Some r \<and> agent_inv (snd r)"
  using tcp_open_inv[of a op] tcp_reset_inv[of clk a] tcp_emit_core[of a qr qp clk clk2] tcp_poll_inv[of a rx pclk op m]
    tcp_tick_inv[of a rx qr qp pclk nclk clk clk2 op] assms
  by (auto simp: agent_inv_def) (simp add: cpe_agent_tcp_reset_def Let_def)+

lemma tcp_feed_inv:
  assumes "agent_inv a"
  shows "\<exists>r. cpe_agent_tcp_feed_payload clk p a = Some r \<and> agent_inv (snd r)"
    "length m < 2 ^ 64 \<and> 4 dvd length m \<Longrightarrow> \<exists>r. cpe_agent_tcp_feed_nflog clks m a = Some r \<and> agent_inv (snd r)"
proof -
  have f: "cpe_agent_tcp_feed_payload clk p a = Some (n, b) \<Longrightarrow> ag_flow b = ag_flow a" for n b
    by (auto simp: cpe_agent_tcp_feed_payload_def Let_def split: if_splits option.splits)
  have g: "cpe_agent_tcp_feed_nflog clks m a = Some (n, b) \<Longrightarrow> ag_flow b = ag_flow a" for n b
    by (auto simp: cpe_agent_tcp_feed_nflog_def Let_def split: if_splits option.splits)
  show "\<exists>r. cpe_agent_tcp_feed_payload clk p a = Some r \<and> agent_inv (snd r)"
    using tcp_feed_payload_inv[of a clk p] assms f by (fastforce simp: agent_inv_def)
  show "length m < 2 ^ 64 \<and> 4 dvd length m \<Longrightarrow> \<exists>r. cpe_agent_tcp_feed_nflog clks m a = Some r \<and> agent_inv (snd r)"
    using tcp_feed_nflog_inv[of a m clks] assms g by (fastforce simp: agent_inv_def)
qed

lemma flow_calls_inv:
  assumes "agent_inv a"
  shows "agent_inv (snd (cpe_agent_flow_open env a))" "agent_inv (cpe_agent_flow_close a)" "agent_inv (snd (cpe_agent_flow_feed_event clk now ev a))"
    "env_finite env \<Longrightarrow> \<exists>r. cpe_agent_flow_poll env clks now rx m a = Some r \<and> agent_inv (snd r)"
proof -
  obtain r b where o: "cpe_agent_flow_open env a = (r, b)" by fastforce
  show "agent_inv (snd (cpe_agent_flow_open env a))" using flow_step_inv[OF flow_open_ok(1)[OF o] assms] o by simp
  show "agent_inv (cpe_agent_flow_close a)"
    using assms flow_close_inv[of a] by (auto simp: agent_inv_def) (simp_all add: cpe_agent_flow_close_def)
  show "agent_inv (snd (cpe_agent_flow_feed_event clk now ev a))"
  proof (cases ev)
    case (Some e)
    obtain r b where e: "apply_event clk e (mono_ms now) a = (r, b)" by fastforce
    have "flow_inv (ag_flow a)" using assms by (simp add: agent_inv_def)
    then show ?thesis using flow_step_inv[OF apply_event_ok[OF e] assms] Some e by (simp add: cpe_agent_flow_feed_event_def)
  qed (use assms in \<open>simp add: cpe_agent_flow_feed_event_def\<close>)
  show "env_finite env \<Longrightarrow> \<exists>r. cpe_agent_flow_poll env clks now rx m a = Some r \<and> agent_inv (snd r)"
    using flow_poll_ok[of env a clks now rx m] flow_step_inv[OF _ assms] assms by (fastforce simp: agent_inv_def)
qed

lemma slots_agent_inv: "agent_inv a \<Longrightarrow> slots_inv a"
  by (simp add: agent_inv_def core_inv_def)

lemma provide_refused: "agent_inv a \<Longrightarrow> cpe_agent_provide_buffer sl buf len a = (-1, a)"
  using slots_agent_inv[of a] by (auto simp: cpe_agent_provide_buffer_def slots_inv_def)

lemma request_inv:
  assumes "env_ok env" "agent_inv a"
  shows "\<exists>r. cpe_ipc_handle_request env req 8192 a = Some r \<and> agent_inv (snd r)"
  using handle_request_ok[OF assms, of 8192 req] by fastforce

lemma tick_inv:
  assumes "env_ok env" "agent_inv a"
  shows "\<exists>r. env_flow_tick env a = Some r \<and> agent_inv (snd r)"
  using env_flow_tick_ok[OF assms] by fastforce

lemmas exec_inv_rules =
  apply_config_inv reload_inv demo_ping_inv probe_inv feed_icmp_inv demo_arping_inv trace_inv demo_trace_inv agent_inv_eq_push tcp_calls_inv(1-4)
  flow_calls_inv(1-3) flush_inv env_emit_inv provide_refused

lemma exec_inv:
  assumes "call_ok c" "agent_inv a"
  shows "\<exists>b. exec c a = Some b \<and> agent_inv b"
proof (cases c)
  case Next_event
  then show ?thesis using assms next_event_inv by (auto split: option.split)
next
  case (Wifi_dump env ni we clk nm em)
  then show ?thesis using assms wifi_inv[of we a] by fastforce
next
  case (Demo_wifi_dump env ni we clk em)
  then show ?thesis using assms demo_wifi_inv[of we a] by fastforce
next
  case (Feed_nfct feed nx t4 t6 d ts)
  then show ?thesis using assms feed_nfct_inv[of nx a] by fastforce
next
  case (Tcp_poll env m)
  then show ?thesis using assms tcp_calls_inv(5)[of a "ie_nflog_rx env"] by (fastforce simp: env_ok_def)
next
  case (Tcp_tick te)
  then show ?thesis using assms tcp_calls_inv(6)[of a "ie_nflog_rx (tk_tcp te)"] by (fastforce simp: tick_ok_def Let_def)
next
  case (Tcp_feed_payload clk p)
  then show ?thesis using assms tcp_feed_inv(1)[of a] by fastforce
next
  case (Tcp_feed_nflog clk m)
  then show ?thesis using assms tcp_feed_inv(2)[of a m clk] by fastforce
next
  case (Flow_poll env clk now rx m)
  then show ?thesis using assms flow_calls_inv(4)[of a env] by fastforce
next
  case (Flow_tick env)
  then show ?thesis using assms tick_inv[of env a] by fastforce
next
  case (Ipc_request env req)
  then show ?thesis using assms request_inv[of env a req] by fastforce
qed (use assms(2) in \<open>simp_all add: exec_inv_rules cpe_agent_traceroute_def cpe_agent_mtr_def cpe_agent_set_last_sample_def cpe_agent_set_last_trace_def\<close>)

lemma exec_all_inv: "list_all call_ok cs \<Longrightarrow> agent_inv a \<Longrightarrow> \<exists>b. exec_all cs a = Some b \<and> agent_inv b"
proof (induction cs arbitrary: a)
  case (Cons c cs)
  then obtain b where "exec c a = Some b" "agent_inv b" using exec_inv[of c a] by auto
  then show ?case using Cons by simp
qed simp

lemma agent_inv_bounds:
  assumes "agent_inv b"
  shows "length (eq_view b) \<le> 16" "length (spool_view b) \<le> ag_spool_cap b" "\<forall>l \<in> set (spool_view b). length l < 768"
    "length (sn_remotes (tc_snap (ag_tcp b))) \<le> 256" "length (sn_prefixes (tc_snap (ag_tcp b))) \<le> 128" "length (fs_table (ag_flow b)) = 1024"
proof -
  show "length (eq_view b) \<le> 16" using evq.bound[of b] assms by (simp add: agent_inv_def core_inv_def)
  have s: "spool_ready b \<or> spool_view b = []" using assms by (auto simp: agent_inv_def core_inv_def spool_inv_def spool_view_def)
  show "length (spool_view b) \<le> ag_spool_cap b" using s spq.bound[of b] by auto
  show "\<forall>l \<in> set (spool_view b). length l < 768" using s by (auto simp: spool_ready_def)
  show "length (sn_remotes (tc_snap (ag_tcp b))) \<le> 256" "length (sn_prefixes (tc_snap (ag_tcp b))) \<le> 128"
    using assms by (simp_all add: agent_inv_def tcp_inv_def snap_wf_def)
  show "length (fs_table (ag_flow b)) = 1024" using assms by (simp add: agent_inv_def flow_inv_def)
qed


section \<open>Witness\<close>

lemma lab_create: "\<exists>a. cpe_agent_create True (Some ()) (Some ()) (\<lambda>_. True) = Some (a :: (unit, unit) agent)"
  by (simp add: cpe_agent_create_def ensure_spool_def cpe_agent_config_defaults_def agent0_def Let_def split_beta)


end
