(* ===== verification/Agent_Main.thy ===== *)
theory Agent_Main
  imports Agent_Loop
begin

text \<open>
  The programs around the agent: its entry point \<^verbatim>\<open>agent/main.c\<close>, the simulation and fuzzing drivers
  \<^verbatim>\<open>agent/agent_sim.c\<close> and \<^verbatim>\<open>agent/agent_fuzz.c\<close>, and the tool interface \<^verbatim>\<open>agent/harness_driver.c\<close>.
  What \<^verbatim>\<open>getopt_long\<close> returns is an input; the embedded Lua interpreter, the simulated clock with its
  timers, the YAML parser and the registry of tools are parameters.
\<close>

section \<open>Command line of the agent\<close>

text \<open>What \<^verbatim>\<open>getopt_long\<close> returns for each option; \<open>Arg_unknown\<close> for \<^verbatim>\<open>'?'\<close>.\<close>

datatype agent_option = Arg_config string | Arg_router_id string | Arg_demo | Arg_once | Arg_lua | Arg_lua_eval string
  | Arg_lua_file string | Arg_history string | Arg_socket string | Arg_no_ipc | Arg_help | Arg_unknown

record agent_args =
  ma_config_path :: "string option"
  ma_router_override :: "string option"
  ma_history_path :: "string option"
  ma_lua_eval :: "string option"
  ma_lua_file :: "string option"
  ma_ipc_socket :: "string option"
  ma_force_demo :: bool
  ma_once :: bool
  ma_lua_repl :: bool
  ma_no_ipc :: bool

definition agent_args0 :: agent_args where
  "agent_args0 = \<lparr> ma_config_path = None, ma_router_override = None, ma_history_path = None, ma_lua_eval = None, ma_lua_file = None,
     ma_ipc_socket = None, ma_force_demo = False, ma_once = False, ma_lua_repl = False, ma_no_ipc = False \<rparr>"

text \<open>\<open>Inl\<close> is the exit status after the usage text.\<close>

fun agent_options :: "agent_option list \<Rightarrow> agent_args \<Rightarrow> int + agent_args" where
  "agent_options [] m = Inr m"
| "agent_options (Arg_config s # r) m = agent_options r (m\<lparr>ma_config_path := Some s\<rparr>)"
| "agent_options (Arg_router_id s # r) m = agent_options r (m\<lparr>ma_router_override := Some s\<rparr>)"
| "agent_options (Arg_demo # r) m = agent_options r (m\<lparr>ma_force_demo := True\<rparr>)"
| "agent_options (Arg_once # r) m = agent_options r (m\<lparr>ma_once := True\<rparr>)"
| "agent_options (Arg_lua # r) m = agent_options r (m\<lparr>ma_lua_repl := True\<rparr>)"
| "agent_options (Arg_lua_eval s # r) m = agent_options r (m\<lparr>ma_lua_eval := Some s\<rparr>)"
| "agent_options (Arg_lua_file s # r) m = agent_options r (m\<lparr>ma_lua_file := Some s\<rparr>)"
| "agent_options (Arg_history s # r) m = agent_options r (m\<lparr>ma_history_path := Some s\<rparr>)"
| "agent_options (Arg_socket s # r) m = agent_options r (m\<lparr>ma_ipc_socket := Some s\<rparr>)"
| "agent_options (Arg_no_ipc # r) m = agent_options r (m\<lparr>ma_no_ipc := True\<rparr>)"
| "agent_options (Arg_help # r) m = Inl 0"
| "agent_options (Arg_unknown # r) m = Inl 1"

section \<open>Entry point of the agent\<close>

text \<open>The interpreter runs on the agent: a script returns its error text, the shell its exit status.\<close>

record ('p,'n,'w,'t) lua_host =
  lh_dofile :: "string \<Rightarrow> ('p,'n,'w,'t) cpe_agent \<Rightarrow> string option \<times> ('p,'n,'w,'t) cpe_agent"
  lh_dostring :: "string \<Rightarrow> ('p,'n,'w,'t) cpe_agent \<Rightarrow> string option \<times> ('p,'n,'w,'t) cpe_agent"
  lh_repl :: "string option \<Rightarrow> ('p,'n,'w,'t) cpe_agent \<Rightarrow> int \<times> ('p,'n,'w,'t) cpe_agent"

record ('p,'n,'w,'t,'c,'f) main_env =
  me_calloc :: bool
  me_ping :: "'p option"
  me_nfct :: "'n option"
  me_alloc :: "nat \<Rightarrow> bool"
  me_reload :: "('p,'c,'f) tick_env"
  me_force :: "('p,'c,'f) tick_env"
  me_once :: "('p,'c,'f) tick_env"
  me_emit :: "('c,'f) ipc_env"
  me_lua :: "('p,'n,'w,'t) lua_host option"
  me_server :: "('p,'n,'w,'t) cpe_agent \<Rightarrow> string option \<Rightarrow> (string \<times> ipc_action list) + ('p,'n,'w,'t) ipc_server"
  me_sleep :: "sigs list"
  me_ticks :: "nat \<Rightarrow> ('p,'c,'f) tick_env"
  me_slices :: "nat \<Rightarrow> nat \<Rightarrow> ('c,'f) slice_env"

text \<open>The exit status, the texts \<^verbatim>\<open>main\<close> prints, standard output after the single emission and the agent after its destruction.\<close>

record ('p,'n,'w,'t,'f) main_result =
  mr_rc :: int
  mr_err :: "string list"
  mr_out :: "'f option"
  mr_agent :: "('p,'n,'w,'t) cpe_agent option"

definition newline :: string where
  "newline = [CHR 0x0A]"

definition finish :: "int \<Rightarrow> string list \<Rightarrow> ('p,'n,'w,'t) cpe_agent \<Rightarrow> ('p,'n,'w,'t,'f) main_result" where
  "finish rc err a = \<lparr> mr_rc = rc, mr_err = err, mr_out = None, mr_agent = Some (cpe_agent_destroy a) \<rparr>"

text \<open>The event loop that prints: one line per event.\<close>

function event_lines :: "('p,'n,'w,'t) cpe_agent \<Rightarrow> string list \<times> ('p,'n,'w,'t) cpe_agent" where
  "event_lines a =
     (case cpe_agent_next_event a of None \<Rightarrow> ([], a)
      | Some (ev, b) \<Rightarrow>
          (let (ls, c) = event_lines b
           in ((''  event '' @ cpe_agent_event_type_name (ev_type ev) @ '': '' @ ev_reason ev @ newline) # ls, c)))"
  by pat_completeness auto
termination
  by (relation "measure ag_eq_cnt") (auto intro: agent_events.takes)

declare event_lines.simps [simp del]

text \<open>Creation and configuration: an early exit or the running agent with its events drained.\<close>

definition agent_boot ::
  "('p,'n,'w,'t,'c,'f) main_env \<Rightarrow> agent_args \<Rightarrow> ('p,'n,'w,'t,'f) main_result + ('p,'n,'w,'t) cpe_agent" where
  "agent_boot env m =
     (case cpe_agent_create (me_calloc env) (me_ping env) (me_nfct env) (me_alloc env) of
        None \<Rightarrow> Inl \<lparr> mr_rc = 1, mr_err = [''cpe_agent: create failed'' @ newline], mr_out = None, mr_agent = None \<rparr>
      | Some a0 \<Rightarrow>
          (let te = me_reload env;
               (r, a1) = cpe_agent_reload_config (tk_alloc te) (tk_nflog_open te) (tk_nfct te) (tk_load te) (ma_config_path m) (ma_router_override m) a0
           in case r of
                Inl e \<Rightarrow>
                  (let (ls, a2) = event_lines a1
                   in Inl (finish 1 ((''cpe_agent: config load/apply failed: '' @ str_or (cstr 256 e) ''unknown'' @ newline) # ls) a2))
              | Inr _ \<Rightarrow>
                  (let te2 = me_force env;
                       (ok, a2) = (if ma_force_demo m \<or> ma_once m
                                   then (let (q, b) = cpe_agent_apply_config (tk_alloc te2) (tk_nflog_open te2) (tk_nfct te2)
                                               (Some ((ag_cfg a1)\<lparr>c_demo_mode := True\<rparr>)) a1 in (q = 0, b))
                                   else (True, a1))
                   in if \<not> ok then Inl (finish 1 [''cpe_agent: force demo apply rejected'' @ newline] a2)
                      else Inr (drain_events a2))))"

definition run_once :: "('p,'n,'w,'t,'c,'f) main_env \<Rightarrow> ('p,'n,'w,'t) cpe_agent \<Rightarrow> ('p,'n,'w,'t,'f) main_result" where
  "run_once env a =
     (let te = me_once env; em = me_emit env;
          (r, sq, a1) = cpe_agent_demo_ping_tick (tk_feed te) (tk_settle te) (tk_stats te) (tk_clk te) 0 a
      in if r \<noteq> 0 then finish 1 [''cpe_agent: demo tick failed'' @ newline] a1
         else
           (let ((n, f), a2) = cpe_agent_emit_flush (ie_post em) (ie_open_file em) (ie_write em) (ie_flushed em) (ie_closed em) (ie_stdout em) a1
            in if n < 0 then (finish 1 [''cpe_agent: emit_flush failed'' @ newline] a2)\<lparr>mr_out := Some f\<rparr>
               else (finish 0 [] (drain_events a2))\<lparr>mr_out := Some f\<rparr>))"

definition run_scripts ::
  "('p,'n,'w,'t) lua_host option \<Rightarrow> agent_args \<Rightarrow> ('p,'n,'w,'t) cpe_agent \<Rightarrow> ('p,'n,'w,'t,'f) main_result" where
  "run_scripts lua m a =
     (case lua of
        None \<Rightarrow> finish 1 [''cpe_agent: Lua unavailable (rebuild with -DCPE_AGENT_WITH_LUA=ON)'' @ newline] a
      | Some L \<Rightarrow>
          (let (e1, a1) = (case ma_lua_file m of None \<Rightarrow> (None, a) | Some f \<Rightarrow> lh_dofile L f a) in
           case e1 of Some e \<Rightarrow> finish 1 [''cpe_agent: lua-file: '' @ str_or (cstr 256 e) ''error'' @ newline] a1
           | None \<Rightarrow>
               (let (e2, a2) = (case ma_lua_eval m of None \<Rightarrow> (None, a1) | Some c \<Rightarrow> lh_dostring L c a1) in
                case e2 of Some e \<Rightarrow> finish 1 [''cpe_agent: lua-eval: '' @ str_or (cstr 256 e) ''error'' @ newline] a2
                | None \<Rightarrow>
                    if ma_lua_repl m then (let (rc, a3) = lh_repl L (ma_history_path m) a2 in finish rc [] a3) else finish 0 [] a2)))"

definition run_options :: "agent_args \<Rightarrow> cpe_agent_run_opts" where
  "run_options m = \<lparr> ro_max_ticks = 0, ro_config_path = ma_config_path m, ro_router_id_override = ma_router_override m,
     ro_ipc_socket_override = ma_ipc_socket m, ro_ipc_disable = ma_no_ipc m \<rparr>"

text \<open>
  The whole program; \<open>None\<close> when the loop never ends. The actions of the destruction of the server are returned
  beside the result, with the final state of the loop.
\<close>

definition agent_main ::
  "('p,'n,'w,'t,'c,'f) main_env \<Rightarrow> string \<Rightarrow> agent_option list \<Rightarrow> (('p,'n,'w,'t,'f) main_result \<times> ('p,'n,'w,'t) loop_st option) option" where
  "agent_main env usage opts =
     (case agent_options opts agent_args0 of
        Inl rc \<Rightarrow> Some (\<lparr> mr_rc = rc, mr_err = [usage], mr_out = None, mr_agent = None \<rparr>, None)
      | Inr m \<Rightarrow>
          (case agent_boot env m of Inl res \<Rightarrow> Some (res, None)
           | Inr a \<Rightarrow>
               if ma_once m then Some (run_once env a, None)
               else if ma_lua_repl m \<or> ma_lua_eval m \<noteq> None \<or> ma_lua_file m \<noteq> None then Some (run_scripts (me_lua env) m a, None)
               else do { (s, lg) \<leftarrow> cpe_agent_run_uv (me_server env) (me_sleep env) (me_ticks env) (me_slices env) (Some (run_options m)) 0 0 a;
                         Some (finish 0 [] (lp_agent s), Some s) }))"


section \<open>Every run of the agent ends in an orderly way\<close>

definition released :: "('p,'n,'w,'t) cpe_agent \<Rightarrow> bool" where
  "released a \<longleftrightarrow> ag_spool a = None \<and> tc_fd (ag_tcp a) < 0 \<and> fs_fd (ag_flow a) < 0"

lemma destroy_released: "released (cpe_agent_destroy a)"
  using destroy_closes[of a] by (simp add: released_def)

lemma finish_simps [simp]:
  "mr_rc (finish rc e a) = rc" "mr_err (finish rc e a) = e" "mr_agent (finish rc e a) = Some (cpe_agent_destroy a)"
  by (simp_all add: finish_def)

lemma drain_events_frame: "\<exists>h c. drain_events a = a\<lparr>ag_eq_head := h, ag_eq_cnt := c\<rparr>"
proof (induction a rule: drain_events.induct)
  case (1 a)
  show ?case
  proof (cases "cpe_agent_next_event a")
    case None
    then show ?thesis by (intro exI[of _ "ag_eq_head a"] exI[of _ "ag_eq_cnt a"]) (subst drain_events.simps, simp)
  next
    case (Some p)
    then obtain ev b where p: "cpe_agent_next_event a = Some (ev, b)" by (cases p) auto
    then obtain h c where b: "b = a\<lparr>ag_eq_head := h, ag_eq_cnt := c\<rparr>" by (auto simp: cpe_agent_next_event_def split: if_splits)
    from 1[OF p refl] obtain h' c' where "drain_events b = b\<lparr>ag_eq_head := h', ag_eq_cnt := c'\<rparr>" by blast
    then have "drain_events a = a\<lparr>ag_eq_head := h', ag_eq_cnt := c'\<rparr>" using p b by (subst drain_events.simps) simp
    then show ?thesis by blast
  qed
qed

lemma drain_events_keeps [simp]:
  "ag_cfg (drain_events a) = ag_cfg a" "spool_view (drain_events a) = spool_view a" "spool_ready (drain_events a) = spool_ready a"
proof -
  obtain h c where e: "drain_events a = a\<lparr>ag_eq_head := h, ag_eq_cnt := c\<rparr>" using drain_events_frame by blast
  show "ag_cfg (drain_events a) = ag_cfg a" "spool_view (drain_events a) = spool_view a" "spool_ready (drain_events a) = spool_ready a"
    unfolding e by (simp_all add: spool_view_def spool_ready_def split: option.split)
qed

lemma reload_applied:
  assumes "agent_inv a" "cpe_agent_reload_config al op env load path rid a = (Inr u, b)" "spool_view a = []"
  shows "agent_inv b \<and> spool_ready b \<and> spool_view b = []"
proof -
  obtain cfg where c: "cpe_agent_apply_config al op env (Some cfg) a = (0, b)"
    using assms(2) by (auto simp: cpe_agent_reload_config_def Let_def split_beta split: sum.splits if_splits) (metis prod.collapse)
  from config_applied[OF assms(1) c] assms(3) show ?thesis by (auto simp: config_outcome_def)
qed

lemma boot_running:
  fixes a :: "('p,'n,'w,'t) cpe_agent"
  assumes "agent_boot env m = Inr a"
  shows "agent_inv a" "spool_ready a" "spool_view a = []" "cpe_agent_next_event a = None"
    "ma_force_demo m \<or> ma_once m \<Longrightarrow> c_demo_mode (ag_cfg a)"
proof -
  let ?te = "me_reload env" and ?tf = "me_force env"
  obtain a0 :: "('p,'n,'w,'t) cpe_agent" where a0: "cpe_agent_create (me_calloc env) (me_ping env) (me_nfct env) (me_alloc env) = Some a0"
    using assms by (cases "cpe_agent_create (me_calloc env) (me_ping env) (me_nfct env) (me_alloc env) :: ('p,'n,'w,'t) cpe_agent option")
      (simp_all add: agent_boot_def)
  obtain r a1 where a1: "cpe_agent_reload_config (tk_alloc ?te) (tk_nflog_open ?te) (tk_nfct ?te) (tk_load ?te) (ma_config_path m) (ma_router_override m) a0 = (r, a1)"
    by fastforce
  then obtain u where r: "r = Inr u" using assms a0 by (cases r) (auto simp: agent_boot_def Let_def split_beta)
  have i1: "agent_inv a1" "spool_ready a1" "spool_view a1 = []"
    using reload_applied[OF create_inv(1)[OF a0] a1[unfolded r] create_inv(3)[OF a0]] by simp_all
  obtain q b where b: "cpe_agent_apply_config (tk_alloc ?tf) (tk_nflog_open ?tf) (tk_nfct ?tf) (Some ((ag_cfg a1)\<lparr>c_demo_mode := True\<rparr>)) a1 = (q, b)"
    by fastforce
  define a2 where "a2 = (if ma_force_demo m \<or> ma_once m then b else a1)"
  have q: "ma_force_demo m \<or> ma_once m \<Longrightarrow> q = 0" and a: "a = drain_events a2"
    using assms a0 a1 r b by (auto simp: agent_boot_def a2_def Let_def split: if_splits)
  have "agent_inv a2 \<and> spool_ready a2 \<and> spool_view a2 = [] \<and> (ma_force_demo m \<or> ma_once m \<longrightarrow> c_demo_mode (ag_cfg a2))"
  proof (cases "ma_force_demo m \<or> ma_once m")
    case True
    then show ?thesis using config_applied[OF i1(1) b] q i1 by (auto simp: a2_def config_outcome_def config_shadow_def Let_def)
  next
    case False
    then show ?thesis using i1 by (simp add: a2_def)
  qed
  then show "agent_inv a" "spool_ready a" "spool_view a = []" "cpe_agent_next_event a = None"
    "ma_force_demo m \<or> ma_once m \<Longrightarrow> c_demo_mode (ag_cfg a)"
    by (simp_all add: a drain_events_inv drain_events_empty)
qed

lemma boot_failed: "agent_boot env m = Inl res \<Longrightarrow> mr_rc res = 1 \<and> mr_err res \<noteq> [] \<and> (\<forall>b. mr_agent res = Some b \<longrightarrow> released b)"
  by (auto simp: agent_boot_def Let_def split_beta destroy_released split: option.splits sum.splits if_splits)

text \<open>A signal that asks for it ends the loop without a limit, whatever comes before it.\<close>

lemma poll_loop_signal:
  assumes "\<forall>k. tick_ok (te k)" "\<forall>k j. slice_ok (se k j)" "loop_inv s" "ro_max_ticks op = 0" "sg_stop (tk_sig (te (k + n)))"
  shows "\<exists>s'. poll_loop te se op k s = Some s' \<and> loop_inv s' \<and> lp_stop s'"
  using assms(3,5)
proof (induction n arbitrary: k s)
  case 0
  then show ?case by (subst poll_loop.simps) (simp add: Let_def)
next
  case (Suc n)
  let ?s0 = "deliver_sigs (tk_sig (te k)) s"
  show ?case
  proof (cases "lp_stop ?s0")
    case True
    then show ?thesis using Suc.prems by (subst poll_loop.simps) (simp only: Let_def if_True, simp)
  next
    case False
    have "loop_inv ?s0" using Suc.prems by simp
    from poll_tick_inv[OF this, of "te k" op] assms(1)
    obtain iv s1 where s1: "poll_tick (te k) op ?s0 = Some (iv, s1)" "loop_inv s1" by auto
    obtain s2 where s2: "slices (se k) 0 iv s1 = Some s2" "loop_inv s2" using slices_inv[of "se k" s1 0 iv] s1(2) assms(2) by auto
    have "\<exists>s'. poll_loop te se op (k + 1) s2 = Some s' \<and> loop_inv s' \<and> lp_stop s'" using s2(2) Suc.prems(2) by (intro Suc.IH) simp_all
    then show ?thesis using s1 s2 False assms(4) by (subst poll_loop.simps) (simp only: Let_def if_False, simp)
  qed
qed



section \<open>A single sample\<close>



section \<open>The simulated clock\<close>

text \<open>
  The clock and the timers of \<^verbatim>\<open>libsim\<close>: \<open>sm_next\<close> takes the next timer event and says whether it is
  \<^verbatim>\<open>SIM_TIMER_EVENT_FIRED\<close>. Delays are nanoseconds, the clock is advanced in milliseconds.
\<close>

record 'm sim_env =
  sm_clock :: bool
  sm_timers :: "'m option"
  sm_schedule_after :: "u64 \<Rightarrow> 'm \<Rightarrow> 'm"
  sm_advance_ms :: "u64 \<Rightarrow> 'm \<Rightarrow> 'm"
  sm_next :: "'m \<Rightarrow> (bool \<times> 'm) option"

text \<open>The ticks number their inputs by the sequence counter of the synthetic ping.\<close>

partial_function (option) timer_events ::
  "('m \<Rightarrow> (bool \<times> 'm) option) \<Rightarrow> (u16 \<Rightarrow> ('p,'c,'f) tick_env) \<Rightarrow> 'm \<Rightarrow> u16 \<Rightarrow> ('p,'n,'w,'t) cpe_agent \<Rightarrow> ('m \<times> u16 \<times> ('p,'n,'w,'t) cpe_agent) option" where
  "timer_events nx te tm sq a =
     (case nx tm of None \<Rightarrow> Some (tm, sq, a)
      | Some (fired, tm') \<Rightarrow>
          if fired then
            (case cpe_agent_demo_ping_tick (tk_feed (te sq)) (tk_settle (te sq)) (tk_stats (te sq)) (tk_clk (te sq)) sq a of
               (_, sq', b) \<Rightarrow> timer_events nx te tm' sq' b)
          else timer_events nx te tm' sq a)"

definition tick_delay :: "bytes \<Rightarrow> u64 \<times> bytes" where
  "tick_delay d =
     (if 2 \<le> length d then
        (let delay = or (ucast (d ! 0)) (push_bit 8 (ucast (d ! 1))) :: u64
         in (if delay = 0 then 1 else if delay > 60000 then 60000 else delay, drop 2 d))
      else (10, d))"

fun sim_ticks ::
  "'m sim_env \<Rightarrow> (u16 \<Rightarrow> ('p,'c,'f) tick_env) \<Rightarrow> nat \<Rightarrow> bytes \<Rightarrow> 'm \<Rightarrow> u16 \<Rightarrow> ('p,'n,'w,'t) cpe_agent \<Rightarrow> (u16 \<times> ('p,'n,'w,'t) cpe_agent) option" where
  "sim_ticks env te 0 d tm sq a = Some (sq, a)"
| "sim_ticks env te (Suc n) d tm sq a =
     (let (delay, d') = tick_delay d in
      do { (tm', sq', b) \<leftarrow> timer_events (sm_next env) te (sm_advance_ms env delay (sm_schedule_after env (delay * 1000000) tm)) sq a;
           sim_ticks env te n d' tm' sq' b })"

definition tick_count :: "bytes \<Rightarrow> nat" where
  "tick_count d = (if d = [] then 1 else unat (d ! 0) mod 8 + 1)"

definition cpe_agent_sim_drive ::
  "'m sim_env \<Rightarrow> (u16 \<Rightarrow> ('p,'c,'f) tick_env) \<Rightarrow> bytes \<Rightarrow> u16 \<Rightarrow> ('p,'n,'w,'t) cpe_agent \<Rightarrow> (u16 \<times> ('p,'n,'w,'t) cpe_agent) option" where
  "cpe_agent_sim_drive env te d sq a =
     (if \<not> sm_clock env then Some (sq, a)
      else case sm_timers env of None \<Rightarrow> Some (sq, a) | Some tm \<Rightarrow> sim_ticks env te (tick_count d) (drop 1 d) tm sq a)"

text \<open>The agent before its destruction and after it; no agent when it cannot be created.\<close>

definition cpe_agent_sim_drive_standalone ::
  "('p,'n,'w,'t,'c,'f) main_env \<Rightarrow> 'm sim_env \<Rightarrow> (u16 \<Rightarrow> ('p,'c,'f) tick_env) \<Rightarrow> bytes \<Rightarrow> u16 \<Rightarrow>
   (u16 \<times> (('p,'n,'w,'t) cpe_agent \<times> ('p,'n,'w,'t) cpe_agent) option) option" where
  "cpe_agent_sim_drive_standalone me env te d sq =
     (case cpe_agent_create (me_calloc me) (me_ping me) (me_nfct me) (me_alloc me) of
        None \<Rightarrow> Some (sq, None)
      | Some a0 \<Rightarrow>
          (let tf = me_force me;
               a1 = drain_events (snd (cpe_agent_apply_config (tk_alloc tf) (tk_nflog_open tf) (tk_nfct tf)
                      (Some (cpe_agent_config_defaults\<lparr>c_demo_mode := True\<rparr>)) a0))
           in do { (sq', b) \<leftarrow> cpe_agent_sim_drive env te d sq a1; Some (sq', Some (b, cpe_agent_destroy b)) }))"

text \<open>
  What the driver relies on: a timer that was scheduled on an idle manager fires once when the clock is advanced by its
  delay, and no other event comes.
\<close>

definition sim_fires :: "'m sim_env \<Rightarrow> bool" where
  "sim_fires env \<longleftrightarrow> sm_clock env \<and> (\<exists>tm. sm_timers env = Some tm \<and> yields (sm_next env) tm []) \<and>
     (\<forall>tm d. yields (sm_next env) tm [] \<longrightarrow> 0 < d \<longrightarrow> d \<le> 60000 \<longrightarrow>
        yields (sm_next env) (sm_advance_ms env d (sm_schedule_after env (d * 1000000) tm)) [True])"

lemma tick_delay_range: "0 < fst (tick_delay d) \<and> fst (tick_delay d) \<le> 60000"
  by (auto simp: tick_delay_def Let_def word_gt_0)

lemma demo_ping_seq: "fst (snd (cpe_agent_demo_ping_tick feed settle stats clk sq a)) = sq + 1"
  by (simp add: cpe_agent_demo_ping_tick_def Let_def split_beta split: option.split)

lemma sim_ticks_count:
  assumes "sim_fires env" "yields (sm_next env) tm []" "agent_inv a"
  shows "\<exists>b. sim_ticks env te n d tm sq a = Some (sq + of_nat n, b) \<and> agent_inv b"
  using assms(2,3)
proof (induction n arbitrary: d tm sq a)
  case 0
  then show ?case by simp
next
  case (Suc n)
  obtain dl d' where dl: "tick_delay d = (dl, d')" by fastforce
  let ?tm = "sm_advance_ms env dl (sm_schedule_after env (dl * 1000000) tm)"
  have "yields (sm_next env) ?tm [True]" using assms(1) Suc.prems(1) tick_delay_range[of d] dl by (simp add: sim_fires_def)
  then obtain tm' where tm': "sm_next env ?tm = Some (True, tm')" "sm_next env tm' = None" by (auto split: option.splits)
  obtain r b where b: "cpe_agent_demo_ping_tick (tk_feed (te sq)) (tk_settle (te sq)) (tk_stats (te sq)) (tk_clk (te sq)) sq a = (r, sq + 1, b)"
    using demo_ping_seq[of "tk_feed (te sq)" "tk_settle (te sq)" "tk_stats (te sq)" "tk_clk (te sq)" sq a] by (metis prod.collapse)
  have t: "timer_events (sm_next env) te ?tm sq a = Some (tm', sq + 1, b)"
    using tm' b by (simp add: timer_events.simps[of _ _ ?tm] timer_events.simps[of _ _ tm'])
  have "agent_inv b" using demo_ping_inv[OF Suc.prems(2)] b by (metis snd_conv)
  then obtain c where "sim_ticks env te n d' tm' (sq + 1) b = Some (sq + 1 + of_nat n, c)" "agent_inv c"
    using Suc.IH[of tm' b d' "sq + 1"] tm'(2) by auto
  then show ?case using dl t by (simp add: algebra_simps)
qed

text \<open>
  The simulation runs one to eight synthetic pings, as the first byte of its input says, whatever delays the rest of
  it asks for; the agent keeps its invariants and is destroyed at the end.
\<close>

theorem sim_drive_ticks:
  fixes me :: "('p,'n,'w,'t,'c,'f) main_env" and a0 :: "('p,'n,'w,'t) cpe_agent"
  assumes "sim_fires env" "cpe_agent_create (me_calloc me) (me_ping me) (me_nfct me) (me_alloc me) = Some a0"
  shows "\<exists>b. cpe_agent_sim_drive_standalone me env te d sq = Some (sq + of_nat (tick_count d), Some (b, cpe_agent_destroy b)) \<and>
    agent_inv b \<and> released (cpe_agent_destroy b) \<and> 1 \<le> tick_count d \<and> tick_count d \<le> 8"
proof -
  let ?tf = "me_force me"
  define a1 where "a1 = drain_events (snd (cpe_agent_apply_config (tk_alloc ?tf) (tk_nflog_open ?tf) (tk_nfct ?tf)
    (Some (cpe_agent_config_defaults\<lparr>c_demo_mode := True\<rparr>)) a0))"
  have i: "agent_inv a1" unfolding a1_def by (intro drain_events_inv apply_config_inv create_inv(1)[OF assms(2)])
  obtain tm where tm: "sm_timers env = Some tm" "yields (sm_next env) tm []" "sm_clock env" using assms(1) by (auto simp: sim_fires_def)
  from sim_ticks_count[OF assms(1) tm(2) i, of te "tick_count d" "drop 1 d" sq]
  obtain b where b: "sim_ticks env te (tick_count d) (drop 1 d) tm sq a1 = Some (sq + of_nat (tick_count d), b)" "agent_inv b" by blast
  have "unat (d ! 0) mod 8 < 8" by simp
  then have "1 \<le> tick_count d \<and> tick_count d \<le> 8" by (simp add: tick_count_def del: mod_less_divisor pos_mod_bound)
  then show ?thesis using b assms(2) tm(1,3)
    by (simp add: cpe_agent_sim_drive_standalone_def cpe_agent_sim_drive_def a1_def[symmetric] Let_def destroy_released)
qed


section \<open>The fuzzing driver\<close>

text \<open>What the loader leaves in the configuration, also when it fails half way; \<open>None\<close> when the parser never ends.\<close>

fun applied_paths :: "(string \<Rightarrow> string option) \<Rightarrow> string list \<Rightarrow> cpe_agent_config \<Rightarrow> cpe_agent_config" where
  "applied_paths look [] c = c"
| "applied_paths look (k # ks) c =
     (case look k of None \<Rightarrow> applied_paths look ks c
      | Some val \<Rightarrow> (case apply_scalar c k val of Inl e \<Rightarrow> c | Inr c' \<Rightarrow> applied_paths look ks c'))"

record 'y yaml_env =
  ye_create :: "'y option"
  ye_feed :: "'y \<Rightarrow> string \<Rightarrow> nat \<times> 'y"
  ye_next :: "'y \<Rightarrow> (yaml_event \<times> 'y) option"
  ye_lookup :: "'y \<Rightarrow> string \<Rightarrow> string option"

definition yaml_config :: "'y yaml_env \<Rightarrow> string \<Rightarrow> cpe_agent_config option" where
  "yaml_config env y =
     (let out = cpe_agent_config_defaults in
      if y = [] then Some out
      else case ye_create env of None \<Rightarrow> Some out
      | Some ctx \<Rightarrow>
          (let (n, ctx1) = ye_feed env ctx y in
           if n = 0 then Some out
           else case yaml_check (ye_next env) ctx1 of None \<Rightarrow> None
           | Some (Inl e) \<Rightarrow> Some out
           | Some (Inr ctx2) \<Rightarrow> Some (applied_paths (lookup (ye_lookup env) ctx2) g_paths out)))"

definition fuzz_sample :: "bytes \<Rightarrow> cpe_perf_sample" where
  "fuzz_sample d =
     (let byte = (\<lambda>i z. if i < length d then unat (d ! i) else z) in
      \<lparr> ps_probe = ''ping'',
        ps_target = cstr 64 (if d = [] then ''0.0.0.0''
          else dec (unat (d ! 0) mod 223 + 1) @ ''.'' @ dec (byte 1 0) @ ''.'' @ dec (byte 2 0) @ ''.'' @ dec (byte 3 1)),
        ps_rtt_ms = (if d = [] then 0 else dbl (of_nat (unat (d ! 0)))),
        ps_loss = (if 1 < length d then sgl (of_nat (unat (d ! 1)) / 255) else 0),
        ps_ts_iso = epoch_iso, ps_meta = ''{}'' \<rparr>)"

definition bytes_text :: "bytes \<Rightarrow> string" where
  "bytes_text d = map (\<lambda>b. char_of (unat b)) d"

text \<open>
  The line, the latency text and the agent before and after its destruction; the inner \<open>None\<close> when the agent cannot be
  created, the outer one when the parser never ends or the line does not fit its buffer.
\<close>

definition cpe_agent_fuzz_config_and_ndjson ::
  "('p,'n,'w,'t,'c,'f) main_env \<Rightarrow> 'y yaml_env \<Rightarrow> bytes \<Rightarrow> u16 \<Rightarrow>
   (string \<times> string option \<times> ('p,'n,'w,'t) cpe_agent \<times> ('p,'n,'w,'t) cpe_agent) option option" where
  "cpe_agent_fuzz_config_and_ndjson me ye d sq =
     do { cfg \<leftarrow> yaml_config ye (bytes_text d);
          case cpe_agent_create (me_calloc me) (me_ping me) (me_nfct me) (me_alloc me) of
            None \<Rightarrow> Some None
          | Some a0 \<Rightarrow>
              (let tf = me_force me; te = me_once me;
                   a1 = drain_events (snd (cpe_agent_apply_config (tk_alloc tf) (tk_nflog_open tf) (tk_nfct tf) (Some cfg) a0))
               in do { line \<leftarrow> cpe_perf_format_ndjson (Some (str_or (c_router_id cfg) ''fuzz'')) (Some (fuzz_sample d)) 768;
                       let a2 = snd (cpe_agent_spool_push_line line a1);
                           a3 = (if 4 < length d \<and> and (d ! 4) 1 \<noteq> 0
                                 then snd (snd (cpe_agent_demo_ping_tick (tk_feed te) (tk_settle te) (tk_stats te) (tk_clk te) sq a2))
                                 else a2)
                       in Some (Some (line, cpe_agent_get_local_latency_json 768 a3, a3, cpe_agent_destroy a3)) }) }"

lemma applied_paths_ok: "apply_paths look ks c = Inr c' \<Longrightarrow> applied_paths look ks c = c'"
  by (induction look ks c rule: apply_paths.induct) (auto split: option.splits sum.splits)

lemma applied_paths_wf: "cfg_wf c \<Longrightarrow> cfg_wf (applied_paths look ks c)"
proof (induction look ks c rule: applied_paths.induct)
  case (2 look k ks c)
  then show ?case using apply_scalar_wf[OF 2(3), of k] by (auto split: option.splits sum.splits dest: res_okD)
qed simp

lemma yaml_config_loaded:
  "cpe_agent_config_load_yaml_buf (ye_create env) (ye_feed env) (ye_next env) (ye_lookup env) (Some y) = Some (Inr c) \<Longrightarrow> yaml_config env y = Some c"
  by (auto simp: cpe_agent_config_load_yaml_buf_def yaml_config_def load_from_ctx_def Let_def split_beta applied_paths_ok
      split: if_splits option.splits sum.splits)

lemma yaml_check_ends: "yields nx ctx evs \<Longrightarrow> yaml_check nx ctx \<noteq> None"
proof (induction evs arbitrary: ctx)
  case Nil
  then show ?case by (simp add: yaml_check.simps)
next
  case (Cons e es)
  then obtain ctx' where "nx ctx = Some (e, ctx')" "yields nx ctx' es" by (rule_tac yields_ConsE)
  then show ?case using Cons.IH by (subst yaml_check.simps) (auto split: yaml_event.split)
qed

lemma yaml_config_wf:
  assumes "\<forall>ctx. \<exists>evs. yields (ye_next env) ctx evs"
  shows "\<exists>c. yaml_config env y = Some c \<and> cfg_wf c"
proof -
  have "yaml_check (ye_next env) ctx \<noteq> None" for ctx using assms yaml_check_ends[of "ye_next env" ctx] by metis
  then have "(yaml_check (ye_next env) ctx = None) = False" for ctx by simp
  then show ?thesis using defaults_wf applied_paths_wf[OF defaults_wf]
    by (auto simp: yaml_config_def Let_def split_beta simp del: not_None_eq split: option.splits sum.splits)
qed

lemma fuzz_sample_fits:
  assumes "length rid < 64"
  shows "\<exists>line. cpe_perf_format_ndjson (Some rid) (Some (fuzz_sample d)) 768 = Some line"
proof -
  have u: "unat b < 256" for b :: u8 using unat_u8_less[of b] by simp
  have "(10 :: nat) ^ 3 - 1 = 999" by simp
  then have u0: "(of_nat (unat b) :: rat) \<le> of_nat (10 ^ 3 - 1)" for b :: u8 unfolding of_nat_le_iff using u[of b] by linarith
  have r: "length (fixed 3 (ps_rtt_ms (fuzz_sample d))) \<le> 3 + 3 + 1"
  proof (rule length_fixed)
    show "ps_rtt_ms (fuzz_sample d) \<le> of_nat (10 ^ 3 - 1)"
      using u0[of "d ! 0"] dbl_of_nat[of "unat (d ! 0)"] u[of "d ! 0"] by (auto simp: fuzz_sample_def Let_def)
    show "0 \<le> ps_rtt_ms (fuzz_sample d)" using dbl_nonneg[OF of_nat_0_le_iff[of "unat (d ! 0)"]] by (auto simp: fuzz_sample_def Let_def)
  qed simp_all
  have q: "(of_nat (unat b) :: rat) / 255 \<le> 2 ^ 0" for b :: u8
  proof -
    have "(of_nat (unat b) :: rat) \<le> of_nat 255" unfolding of_nat_le_iff using u[of b] by linarith
    then show ?thesis by simp
  qed
  have l: "length (fixed 4 (ps_loss (fuzz_sample d))) \<le> 1 + 4 + 1"
  proof (rule length_fixed)
    have "0 \<le> (of_nat (unat (d ! 1)) :: rat) / 255" by (rule divide_nonneg_nonneg[OF of_nat_0_le_iff]) simp
    from fl_le[OF this q, of 24 "-149"] have "sgl (of_nat (unat (d ! 1)) / 255) \<le> 2 ^ 0" unfolding sgl_def by linarith
    then show "ps_loss (fuzz_sample d) \<le> of_nat (10 ^ 1 - 1)" by (auto simp: fuzz_sample_def Let_def)
    show "0 \<le> ps_loss (fuzz_sample d)" using sgl_nonneg[OF divide_nonneg_nonneg[OF of_nat_0_le_iff[of "unat (d ! 1)"], of 255]] by (auto simp: fuzz_sample_def Let_def)
  qed simp_all
  have "length (ps_target (fuzz_sample d)) < 64" by (simp add: fuzz_sample_def Let_def length_cstr_less)
  moreover have "length (str_or rid ''unknown'') \<le> 63" using assms by (simp add: str_or_def)
  ultimately show ?thesis using r l unfolding cpe_perf_format_ndjson_def Let_def option.case
    by (simp add: fuzz_sample_def Let_def str_or_def epoch_iso_def)
qed

text \<open>C30: 
  The fuzzing driver is safe on every input: it returns whenever the YAML parser comes to an end, the record of the
  sample always fits its line, the agent keeps its invariants under any configuration the parser produces, also a
  half applied one, and it is released at the end.
\<close>

theorem fuzz_safe:
  fixes me :: "('p,'n,'w,'t,'c,'f) main_env"
  assumes "\<forall>ctx. \<exists>evs. yields (ye_next ye) ctx evs"
  shows "\<exists>r. cpe_agent_fuzz_config_and_ndjson me ye d sq = Some r \<and>
    (\<forall>line lat a b. r = Some (line, lat, a, b) \<longrightarrow> length line < 768 \<and> agent_inv a \<and> released b)"
proof -
  obtain cfg where cfg: "yaml_config ye (bytes_text d) = Some cfg" "cfg_wf cfg" using yaml_config_wf[OF assms] by blast
  have "length (str_or (c_router_id cfg) ''fuzz'') < 64" using cfg(2) by (simp add: cfg_wf_def str_or_def)
  then obtain line where line: "cpe_perf_format_ndjson (Some (str_or (c_router_id cfg) ''fuzz'')) (Some (fuzz_sample d)) 768 = Some line"
    using fuzz_sample_fits by blast
  have len: "length line < 768" using line by (auto simp: cpe_perf_format_ndjson_def Let_def split: if_splits)
  show ?thesis
  proof (cases "cpe_agent_create (me_calloc me) (me_ping me) (me_nfct me) (me_alloc me) :: ('p,'n,'w,'t) cpe_agent option")
    case None
    then show ?thesis using cfg(1) by (simp add: cpe_agent_fuzz_config_and_ndjson_def)
  next
    case (Some a0)
    let ?tf = "me_force me"
    define a1 where "a1 = drain_events (snd (cpe_agent_apply_config (tk_alloc ?tf) (tk_nflog_open ?tf) (tk_nfct ?tf) (Some cfg) a0))"
    have "agent_inv a1" unfolding a1_def by (intro drain_events_inv apply_config_inv create_inv(1)[OF Some])
    then have "agent_inv (snd (cpe_agent_spool_push_line line a1))" by (rule agent_inv_spool_push)
    then show ?thesis using cfg(1) line len Some
      by (auto simp: cpe_agent_fuzz_config_and_ndjson_def a1_def[symmetric] Let_def destroy_released demo_ping_inv)
  qed
qed

section \<open>The tool interface\<close>

record harness_tool_def =
  td_name :: string
  td_description :: string
  td_parameters_json :: string
  td_function :: bool

definition local_latency_tool :: harness_tool_def where
  \<open>local_latency_tool = \<lparr> td_name = ''get_local_latency'',
     td_description = ''Return the last CPE performance sample (rtt_ms, loss, probe, target). Local only; no network.'',
     td_parameters_json = ''{"type":"object","properties":{}}'', td_function = True \<rparr>\<close>

text \<open>\<open>register\<close> is \<^verbatim>\<open>harness_tool_register\<close>: 0 for success.\<close>

definition cpe_harness_register_tools :: "(harness_tool_def \<Rightarrow> 'h \<Rightarrow> int \<times> 'h) \<Rightarrow> 'h option \<Rightarrow> int \<times> 'h option" where
  "cpe_harness_register_tools register h =
     (case h of None \<Rightarrow> (-1, None)
      | Some c \<Rightarrow> (let (r, c') = register local_latency_tool c in (if r \<noteq> 0 then -1 else 0, Some c')))"

definition cpe_harness_invoke_local :: "('p,'n,'w,'t) cpe_agent option \<Rightarrow> string option \<Rightarrow> nat \<Rightarrow> string option" where
  "cpe_harness_invoke_local agent name out_cap =
     (case agent of None \<Rightarrow> None
      | Some a \<Rightarrow>
          (case name of None \<Rightarrow> None
           | Some nm \<Rightarrow> if out_cap < 8 then None else if nm \<noteq> ''get_local_latency'' then None else cpe_agent_get_local_latency_json out_cap a))"


section \<open>Concrete runs\<close>

definition lab_stats :: ping_stats where
  "lab_stats = \<lparr> pg_avg_latency_ms = 7, pg_loss_pct = 0, pg_replies = 1, pg_timeouts = 0 \<rparr>"

definition stop_tick :: "(unit, nfct_event list, unit) tick_env" where
  "stop_tick = quiet_tick\<lparr>tk_sig := \<lparr> sg_hup = False, sg_stop = True \<rparr>\<rparr>"

definition lab_main :: "(unit, unit, unit, unit, nfct_event list, unit) main_env" where
  "lab_main = \<lparr> me_calloc = True, me_ping = Some (), me_nfct = Some (), me_alloc = \<lambda>_. True, me_reload = quiet_tick, me_force = quiet_tick,
     me_once = quiet_tick\<lparr>tk_stats := \<lambda>_. Some lab_stats\<rparr>, me_emit = quiet_env\<lparr>ie_write := \<lambda>_ _. Some ()\<rparr>, me_lua = None,
     me_server = cpe_ipc_server_create True (Inr 3) None None, me_sleep = [], me_ticks = \<lambda>_. stop_tick, me_slices = \<lambda>_ _. quiet_slice \<rparr>"

lemma main_create: "cpe_agent_create True (Some ()) (Some ()) (\<lambda>_. True) = Some (fresh_agent 256)"
  by (simp add: cpe_agent_create_def fresh_agent_def ensure_spool_def cpe_agent_config_defaults_def agent0_def Let_def)

lemma valid_defaults:
  "cpe_agent_config_validate (Some (config_shadow (cpe_agent_config_defaults\<lparr>c_generation := g, c_demo_mode := True\<rparr>))) = None"
  by (simp add: cpe_agent_config_validate_def config_shadow_def cpe_agent_config_defaults_def)

lemma shadow_defaults: "config_shadow (cpe_agent_config_defaults\<lparr>c_generation := g\<rparr>) = cpe_agent_config_defaults\<lparr>c_generation := g\<rparr>"
  by (simp add: config_shadow_def cpe_agent_config_defaults_def)

lemma lab_boot:
  assumes "ma_config_path m = None" "ma_router_override m = None"
  shows "\<exists>a g. agent_boot lab_main m = Inr a \<and> ag_cfg a = cpe_agent_config_defaults\<lparr>c_generation := g\<rparr>"
proof -
  let ?te = quiet_tick and ?a0 = "fresh_agent 256 :: (unit, unit, unit, unit) cpe_agent"
  have d: "(cpe_agent_config_defaults\<lparr>c_generation := g\<rparr>)\<lparr>c_demo_mode := True\<rparr> = cpe_agent_config_defaults\<lparr>c_generation := g\<rparr>" for g
    by (simp add: cpe_agent_config_defaults_def)
  have v: "cpe_agent_config_validate (Some (cpe_agent_config_defaults\<lparr>c_generation := g\<rparr>)) = None" for g
    by (simp add: cpe_agent_config_validate_def cpe_agent_config_defaults_def)
  have applied: "\<exists>b g'. cpe_agent_apply_config (tk_alloc ?te) (tk_nflog_open ?te) (tk_nfct ?te) (Some (cpe_agent_config_defaults\<lparr>c_generation := g\<rparr>)) a = (0, b) \<and>
      ag_cfg b = cpe_agent_config_defaults\<lparr>c_generation := g'\<rparr> \<and> agent_inv b"
    if "agent_inv a" for g and a :: "(unit, unit, unit, unit) cpe_agent"
  proof -
    obtain r b where rb: "cpe_agent_apply_config (tk_alloc ?te) (tk_nflog_open ?te) (tk_nfct ?te) (Some (cpe_agent_config_defaults\<lparr>c_generation := g\<rparr>)) a = (r, b)"
      by fastforce
    from config_applied[OF that rb] have "r = 0" "ag_cfg b = cpe_agent_config_defaults\<lparr>c_generation := c_generation (ag_cfg a) + 1\<rparr>" "agent_inv b"
      unfolding config_outcome_def shadow_defaults v by (simp_all add: quiet_tick_def)
    then show ?thesis using rb by blast
  qed
  obtain b g where b: "cpe_agent_apply_config (tk_alloc ?te) (tk_nflog_open ?te) (tk_nfct ?te) (Some (cpe_agent_config_defaults\<lparr>c_generation := 0\<rparr>)) ?a0 = (0, b)"
    "ag_cfg b = cpe_agent_config_defaults\<lparr>c_generation := g\<rparr>" "agent_inv b" using applied[OF fresh_agent_facts(2)] by blast
  have rl: "cpe_agent_reload_config (tk_alloc ?te) (tk_nflog_open ?te) (tk_nfct ?te) (tk_load ?te) None None ?a0 = (Inr (), b)"
    using b(1) by (simp add: cpe_agent_reload_config_def reload_source_def fresh_agent_facts(3))
  obtain c h where c: "cpe_agent_apply_config (tk_alloc ?te) (tk_nflog_open ?te) (tk_nfct ?te) (Some ((ag_cfg b)\<lparr>c_demo_mode := True\<rparr>)) b = (0, c)"
    "ag_cfg c = cpe_agent_config_defaults\<lparr>c_generation := h\<rparr>" using applied[OF b(3), of g] by (auto simp: b(2) d)
  show ?thesis using rl c b(2) by (auto simp: agent_boot_def lab_main_def main_create assms Let_def)
qed



definition lab_sim :: "bool list sim_env" where
  "lab_sim = \<lparr> sm_clock = True, sm_timers = Some [], sm_schedule_after = \<lambda>_ q. q @ [True], sm_advance_ms = \<lambda>_ q. q, sm_next = list_next \<rparr>"

theorem sim_drive_ticks_witness:
  "\<exists>b. cpe_agent_sim_drive_standalone lab_main lab_sim (\<lambda>_. quiet_tick) [2, 0, 0, 255, 255] 0 = Some (3, Some (b, cpe_agent_destroy b)) \<and> agent_inv b"
proof -
  have "sim_fires lab_sim" by (auto simp: sim_fires_def lab_sim_def simp del: yields.simps)
  moreover have "cpe_agent_create (me_calloc lab_main) (me_ping lab_main) (me_nfct lab_main) (me_alloc lab_main) = Some (fresh_agent 256)"
    by (simp add: lab_main_def main_create)
  ultimately have "\<exists>b. cpe_agent_sim_drive_standalone lab_main lab_sim (\<lambda>_. quiet_tick) [2, 0, 0, 255, 255] 0 =
      Some (0 + of_nat (tick_count [2, 0, 0, 255, 255]), Some (b, cpe_agent_destroy b)) \<and>
    agent_inv b \<and> released (cpe_agent_destroy b) \<and> 1 \<le> tick_count [2, 0, 0, 255, 255] \<and> tick_count [2, 0, 0, 255, 255] \<le> 8"
    by (rule sim_drive_ticks)
  then show ?thesis by (auto simp: tick_count_def)
qed

definition lab_yaml :: "yaml_event list yaml_env" where
  "lab_yaml = \<lparr> ye_create = Some [YAML_OTHER], ye_feed = \<lambda>c y. (length y, c), ye_next = list_next,
     ye_lookup = \<lambda>_ k. if k = ''router_id'' then Some ''r1'' else None \<rparr>"

theorem fuzz_safe_witness:
  "\<exists>r. cpe_agent_fuzz_config_and_ndjson lab_main lab_yaml [200, 1, 2, 3, 1] 0 = Some r"
proof -
  have "\<forall>ctx. \<exists>evs. yields (ye_next lab_yaml) ctx evs" by (simp add: lab_yaml_def)
  from fuzz_safe[OF this, of lab_main "[200, 1, 2, 3, 1]" 0] show ?thesis by blast
qed

end
