(* ===== verification/Tls_Egress.thy ===== *)
theory Tls_Egress
  imports Agent_Core
begin

text \<open>
  \<^verbatim>\<open>agent/tls_egress.c\<close>: Basic authentication, URL parsing, the plain HTTP client and the
  HTTPS client over mbedTLS. Name resolution, sockets and the TLS library are parameters; the
  calls that have an effect outside are recorded in order. An error text is what the caller's
  buffer of \<open>err_len\<close> bytes holds; an \<open>err_len\<close> of 0 stands for no buffer.
\<close>

section \<open>Base64 and Basic authentication\<close>

definition b64_tbl :: string where
  "b64_tbl = ''ABCDEFGHIJKLMNOPQRSTUVWXYZabcdefghijklmnopqrstuvwxyz0123456789+/''"

definition b64_digit :: "u32 \<Rightarrow> nat \<Rightarrow> char" where
  \<comment> \<open>\<^verbatim>\<open>b64_tbl[(v >> k) & 63]\<close>\<close>
  "b64_digit v k = b64_tbl ! unat (drop_bit k v AND 63)"

text \<open>The loop: the bytes that are left and the text so far.\<close>

fun b64_loop :: "nat \<Rightarrow> bytes \<Rightarrow> string \<Rightarrow> string option" where
  "b64_loop out_sz [] out = Some out"
| "b64_loop out_sz [a] out =
     (let v = push_bit 16 (ucast a) in
      if length out + 4 \<ge> out_sz then None
      else Some (out @ [b64_digit v 18, b64_digit v 12, CHR ''='', CHR ''='']))"
| "b64_loop out_sz [a, b] out =
     (let v = push_bit 16 (ucast a) OR push_bit 8 (ucast b) in
      if length out + 4 \<ge> out_sz then None
      else Some (out @ [b64_digit v 18, b64_digit v 12, b64_digit v 6, CHR ''='']))"
| "b64_loop out_sz (a # b # c # rest) out =
     (let v = push_bit 16 (ucast a) OR push_bit 8 (ucast b) OR ucast c in
      if length out + 4 \<ge> out_sz then None
      else b64_loop out_sz rest (out @ [b64_digit v 18, b64_digit v 12, b64_digit v 6, b64_digit v 0]))"

definition b64_encode :: "bytes \<Rightarrow> nat \<Rightarrow> string option" where
  "b64_encode inp out_sz = (if out_sz = 0 then None else b64_loop out_sz inp [])"

definition char_bytes :: "string \<Rightarrow> bytes" where
  \<comment> \<open>\<^verbatim>\<open>(const unsigned char *)s\<close>\<close>
  "char_bytes s = map of_char s"

definition build_basic_auth :: "string \<Rightarrow> string option \<Rightarrow> nat \<Rightarrow> string option" where
  "build_basic_auth user pass hdr_sz =
     (if user = [] \<or> hdr_sz < 16 then None
      else
        (let raw = user @ '':'' @ (case pass of None \<Rightarrow> [] | Some p \<Rightarrow> p) in
         if length raw \<ge> 320 then None
         else case b64_encode (char_bytes raw) 440 of None \<Rightarrow> None
         | Some enc \<Rightarrow>
             (let hdr = ''Authorization: Basic '' @ enc @ [CHR 0x0D, CHR 0x0A]
              in if length hdr \<ge> hdr_sz then None else Some hdr)))"

section \<open>URLs\<close>

text \<open>
  \<^verbatim>\<open>slash\<close> is the rest of the text from the first slash, \<^verbatim>\<open>colon\<close> counts only before it. The
  result is the scheme, the host, the port and the path.
\<close>

definition parse_authority :: "bool \<Rightarrow> string \<Rightarrow> nat \<Rightarrow> nat \<Rightarrow> nat \<Rightarrow> (bool \<times> string \<times> string \<times> string) option" where
  "parse_authority https p host_sz port_sz path_sz =
     (let slash = dropWhile (\<lambda>c. c \<noteq> CHR ''/'') p;
          before = takeWhile (\<lambda>c. c \<noteq> CHR ''/'') p;
          has_port = (CHR '':'' \<in> set before);
          host = takeWhile (\<lambda>c. c \<noteq> CHR '':'') before;
          prt = (if has_port then tl (dropWhile (\<lambda>c. c \<noteq> CHR '':'') before) else if https then ''443'' else ''80'')
      in if host = [] \<or> length host \<ge> host_sz then None
         else if has_port \<and> (prt = [] \<or> length prt \<ge> port_sz) then None
         else if slash \<noteq> [] \<and> length slash \<ge> path_sz then None
         else Some (https, host, cstr port_sz prt, cstr path_sz (if slash = [] then ''/'' else slash)))"

definition parse_url :: "string \<Rightarrow> nat \<Rightarrow> nat \<Rightarrow> nat \<Rightarrow> (bool \<times> string \<times> string \<times> string) option" where
  "parse_url url host_sz port_sz path_sz =
     (if take 8 url = ''https://'' then parse_authority True (drop 8 url) host_sz port_sz path_sz
      else if take 7 url = ''http://'' then parse_authority False (drop 7 url) host_sz port_sz path_sz
      else None)"

definition http_status_ok :: "string \<Rightarrow> bool" where
  "http_status_ok resp \<longleftrightarrow> length resp \<ge> 12 \<and> (take 9 resp = ''HTTP/1.1 '' \<or> take 9 resp = ''HTTP/1.0 '') \<and> resp ! 9 = CHR ''2''"

section \<open>Plain HTTP\<close>

datatype net_action = Opened int | Sent int string | Closed int

text \<open>
  \<open>ne_resolve numeric host port\<close> is \<^verbatim>\<open>getaddrinfo\<close>: an error text or the candidate
  addresses; \<open>ne_socket\<close> and \<open>ne_connect\<close> are the results of \<^verbatim>\<open>socket\<close> and \<^verbatim>\<open>connect\<close>
  for a candidate; \<open>ne_send k n\<close> is the result of the \<open>k\<close>-th \<^verbatim>\<open>send\<close> call of the exchange, which
  offers \<open>n\<close> bytes; \<open>ne_poll\<close> tells whether the response became readable; \<open>ne_recv\<close> is what
  \<^verbatim>\<open>recv\<close> stored, empty when it returned 0 or failed.
\<close>

record 'a net_env =
  ne_resolve :: "bool \<Rightarrow> string \<Rightarrow> string \<Rightarrow> string + 'a list"
  ne_socket :: "'a \<Rightarrow> int"
  ne_connect :: "'a \<Rightarrow> bool"
  ne_strerror :: string
  ne_send :: "nat \<Rightarrow> nat \<Rightarrow> int"
  ne_poll :: bool
  ne_recv :: string

fun try_connect :: "'a net_env \<Rightarrow> 'a list \<Rightarrow> int \<Rightarrow> net_action list \<Rightarrow> int \<times> net_action list" where
  "try_connect env [] fd lg = (fd, lg)"
| "try_connect env (rp # rps) fd lg =
     (let fd = ne_socket env rp in
      if fd < 0 then try_connect env rps fd lg
      else if ne_connect env rp then (fd, lg @ [Opened fd])
      else try_connect env rps (-1) (lg @ [Opened fd, Closed fd]))"

definition tcp_connect :: "'a net_env \<Rightarrow> string \<Rightarrow> string \<Rightarrow> nat \<Rightarrow> (string + int) \<times> net_action list" where
  "tcp_connect env host prt err_len =
     (let res = (case ne_resolve env True host prt of Inl _ \<Rightarrow> ne_resolve env False host prt | Inr rs \<Rightarrow> Inr rs) in
      case res of
        Inl e \<Rightarrow> (Inl (cstr err_len (''getaddrinfo: '' @ e)), [])
      | Inr rs \<Rightarrow>
          (let (fd, lg) = try_connect env rs (-1) []
           in if fd < 0 then (Inl (cstr err_len (''connect failed: '' @ ne_strerror env)), lg) else (Inr fd, lg)))"

definition crlf :: string where
  "crlf = [CHR 0x0D, CHR 0x0A]"

definition request_header :: "string \<Rightarrow> string \<Rightarrow> string \<Rightarrow> string option \<Rightarrow> string" where
  "request_header host path body auth_hdr =
     ''POST '' @ path @ '' HTTP/1.1'' @ crlf @ ''Host: '' @ host @ crlf @ ''Content-Type: application/x-ndjson'' @ crlf @
     ''Content-Length: '' @ dec (length body) @ crlf @ ''Connection: close'' @ crlf @
     (case auth_hdr of None \<Rightarrow> [] | Some h \<Rightarrow> h) @ crlf"

text \<open>
  The write loop of both clients. \<open>wr k n\<close> is the result of call \<open>k\<close> with \<open>n\<close> bytes; the
  result is the last failing return value or \<open>None\<close>, the number of calls and the log.
\<close>

function send_all :: "(nat \<Rightarrow> nat \<Rightarrow> int) \<Rightarrow> (string \<Rightarrow> 'l) \<Rightarrow> string \<Rightarrow> nat \<Rightarrow> nat \<Rightarrow> 'l list \<Rightarrow> int option \<times> nat \<times> 'l list" where
  "send_all wr act buf written k lg =
     (if written < length buf then
        (let w = wr k (length buf - written) in
         if w \<le> 0 then (Some w, k + 1, lg)
         else send_all wr act buf (written + nat w) (k + 1) (lg @ [act (take (nat w) (drop written buf))]))
      else (None, k, lg))"
  by pat_completeness auto
termination
  by (relation "measure (\<lambda>(wr, act, buf, written, k, lg). length buf - written)") auto

declare send_all.simps [simp del]

definition not_eol :: "char \<Rightarrow> bool" where
  "not_eol c \<longleftrightarrow> c \<noteq> CHR 0x0D \<and> c \<noteq> CHR 0x0A"

text \<open>
  The error text of a response that is not 2xx: the status line and the first line of the body. The
  searches run over the C string, which ends at the first NUL.
\<close>

definition http_error :: "nat \<Rightarrow> string \<Rightarrow> string" where
  "http_error err_len resp =
     (let line = take (err_len - 1) (takeWhile not_eol resp);
          c = takeWhile (\<lambda>c. c \<noteq> CHR 0x00) resp;
          bp = (case strstr c (crlf @ crlf) of Some r \<Rightarrow> drop 4 r
                | None \<Rightarrow> (case strstr c [CHR 0x0A, CHR 0x0A] of Some r \<Rightarrow> drop 2 r | None \<Rightarrow> []));
          e = (if bp \<noteq> [] \<and> length line + 3 < err_len
               then line @ '' | '' @ take (err_len - 1 - (length line + 3)) (takeWhile not_eol bp) else line)
      in if e = [] then cstr err_len ''http non-2xx'' else e)"

definition plain_http_post ::
  "'a net_env \<Rightarrow> string \<Rightarrow> string \<Rightarrow> string \<Rightarrow> string \<Rightarrow> string option \<Rightarrow> nat \<Rightarrow> string option \<times> net_action list" where
  "plain_http_post env host prt path body auth_hdr err_len =
     (case tcp_connect env host prt err_len of
        (Inl e, lg) \<Rightarrow> (Some e, lg)
      | (Inr fd, lg) \<Rightarrow>
          (let hdr = request_header host path body auth_hdr in
           if length hdr \<ge> 1536 then (Some (cstr err_len ''hdr overflow''), lg @ [Closed fd])
           else
             (let (r, k, lg1) = send_all (ne_send env) (Sent fd) hdr 0 0 lg in
              if r \<noteq> None then (Some (cstr err_len ''send hdr failed''), lg1 @ [Closed fd])
              else
                (let (r, k, lg2) = send_all (ne_send env) (Sent fd) body 0 k lg1 in
                 if r \<noteq> None then (Some (cstr err_len ''send body failed''), lg2 @ [Closed fd])
                 else if \<not> ne_poll env then (Some (cstr err_len ''response timeout''), lg2 @ [Closed fd])
                 else
                   (let resp = take 511 (ne_recv env) in
                    if resp = [] then (Some (cstr err_len ''no response''), lg2 @ [Closed fd])
                    else if \<not> http_status_ok resp then (Some (http_error err_len resp), lg2 @ [Closed fd])
                    else (None, lg2 @ [Closed fd]))))))"

section \<open>HTTPS\<close>

datatype authmode = VERIFY_NONE | VERIFY_OPTIONAL | VERIFY_REQUIRED

datatype tls_action = Connect string string | Authmode authmode | Ca_chain string | Own_cert string string | Hostname string
  | Handshake | Written string | Close_notify | Freed

text \<open>
  The results of the mbedTLS calls; \<open>le_want\<close> recognises \<^verbatim>\<open>WANT_READ\<close> and \<^verbatim>\<open>WANT_WRITE\<close>,
  \<open>le_handshake j\<close> is the result of the \<open>j\<close>-th handshake call, \<open>le_read\<close> the result of the read:
  a value that is not positive, or the bytes.
\<close>

record tls_env =
  le_seed :: int
  le_parse_crt :: "string \<Rightarrow> bool"
  le_parse_key :: "string \<Rightarrow> bool"
  le_connect :: "string \<Rightarrow> string \<Rightarrow> int"
  le_config_defaults :: int
  le_own_cert :: bool
  le_setup :: bool
  le_set_hostname :: "string \<Rightarrow> bool"
  le_want :: "int \<Rightarrow> bool"
  le_handshake :: "nat \<Rightarrow> int"
  le_write :: "nat \<Rightarrow> nat \<Rightarrow> int"
  le_read :: "int + string"

text \<open>The handshake loop: \<open>None\<close> if it never ends, otherwise the last result.\<close>

partial_function (option) handshake_loop :: "tls_env \<Rightarrow> nat \<Rightarrow> int option" where
  [code]: "handshake_loop env j =
     (let ret = le_handshake env j in
      if ret = 0 then Some 0
      else if \<not> le_want env ret then Some ret
      else handshake_loop env (j + 1))"

definition opt_str :: "string option \<Rightarrow> string" where
  \<comment> \<open>a NULL pointer and the empty string are treated alike\<close>
  "opt_str s = (case s of None \<Rightarrow> [] | Some s \<Rightarrow> s)"

text \<open>The authentication mode and the trust chain that are configured.\<close>

definition auth_actions :: "string \<Rightarrow> bool \<Rightarrow> tls_action list" where
  "auth_actions ca insecure =
     (if ca \<noteq> [] \<and> \<not> insecure then [Authmode VERIFY_REQUIRED, Ca_chain ca]
      else if ca \<noteq> [] then [Authmode VERIFY_OPTIONAL, Ca_chain ca]
      else [Authmode VERIFY_NONE])"

text \<open>Everything before the handshake: an error text or nothing, and the log.\<close>

definition tls_setup :: "tls_env \<Rightarrow> string \<Rightarrow> string \<Rightarrow> http_opts option \<Rightarrow> nat \<Rightarrow> string option \<times> tls_action list" where
  "tls_setup env host prt opts err_len =
     (let ca = (case opts of None \<Rightarrow> [] | Some p \<Rightarrow> opt_str (ho_ca_file p));
          cert = (case opts of None \<Rightarrow> [] | Some p \<Rightarrow> opt_str (ho_cert_file p));
          key = (case opts of None \<Rightarrow> [] | Some p \<Rightarrow> opt_str (ho_key_file p));
          insecure = (case opts of None \<Rightarrow> True | Some p \<Rightarrow> ho_tls_insecure p);
          own = (cert \<noteq> [] \<and> key \<noteq> []);
          lg1 = [Connect host prt];
          lg2 = lg1 @ auth_actions ca insecure;
          lg3 = (if own then lg2 @ [Own_cert cert key] else lg2)
      in if le_seed env \<noteq> 0 then (Some (cstr err_len (''ctr_drbg_seed '' @ int_dec (le_seed env))), [])
         else if ca \<noteq> [] \<and> \<not> le_parse_crt env ca then (Some (cstr err_len ''parse ca_file''), [])
         else if own \<and> \<not> le_parse_crt env cert then (Some (cstr err_len ''parse cert_file''), [])
         else if own \<and> \<not> le_parse_key env key then (Some (cstr err_len ''parse key_file''), [])
         else if le_connect env host prt \<noteq> 0 then (Some (cstr err_len (''connect '' @ int_dec (le_connect env host prt))), lg1)
         else if le_config_defaults env \<noteq> 0 then (Some (cstr err_len (''ssl_config_defaults '' @ int_dec (le_config_defaults env))), lg1)
         else if own \<and> \<not> le_own_cert env then (Some (cstr err_len ''own_cert''), lg3)
         else if \<not> le_setup env then (Some (cstr err_len ''ssl_setup''), lg3)
         else if \<not> le_set_hostname env host then (Some (cstr err_len ''set_hostname''), lg3)
         else (None, lg3 @ [Hostname host]))"

text \<open>The exchange after the handshake.\<close>

definition tls_exchange ::
  "tls_env \<Rightarrow> string \<Rightarrow> string \<Rightarrow> string \<Rightarrow> string option \<Rightarrow> nat \<Rightarrow> tls_action list \<Rightarrow> string option \<times> tls_action list" where
  "tls_exchange env host path body auth_hdr err_len lg =
     (let hdr = request_header host path body auth_hdr in
      if length hdr \<ge> 1536 then (Some (cstr err_len ''hdr overflow''), lg)
      else
        (let (r, k, lg1) = send_all (le_write env) Written hdr 0 0 lg in
         case r of Some e \<Rightarrow> (Some (cstr err_len (''write hdr '' @ int_dec e)), lg1)
         | None \<Rightarrow>
             (let (r, k, lg2) = send_all (le_write env) Written body 0 k lg1 in
              case r of Some e \<Rightarrow> (Some (cstr err_len (''write body '' @ int_dec e)), lg2)
              | None \<Rightarrow>
                  (case le_read env of
                     Inl e \<Rightarrow> (Some (cstr err_len (''read '' @ int_dec e)), lg2)
                   | Inr resp \<Rightarrow>
                       if http_status_ok (take 511 resp) then (None, lg2) else (Some (cstr err_len ''http non-2xx''), lg2)))))"

definition tls_cleanup :: "tls_action list" where
  "tls_cleanup = [Close_notify, Freed]"

definition mbedtls_https_post ::
  "tls_env option \<Rightarrow> string \<Rightarrow> string \<Rightarrow> string \<Rightarrow> string \<Rightarrow> string option \<Rightarrow> http_opts option \<Rightarrow> nat \<Rightarrow>
   (string option \<times> tls_action list) option" where
  \<comment> \<open>without an environment, the program was built without mbedTLS\<close>
  "mbedtls_https_post envp host prt path body auth_hdr opts err_len =
     (case envp of None \<Rightarrow> Some (Some (cstr err_len ''HTTPS requires mbedTLS (CPE_AGENT_WITH_MBEDTLS)''), [])
      | Some env \<Rightarrow>
          (case tls_setup env host prt opts err_len of
             (Some e, lg) \<Rightarrow> Some (Some e, lg @ tls_cleanup)
           | (None, lg) \<Rightarrow>
               (case handshake_loop env 0 of None \<Rightarrow> None
                | Some ret \<Rightarrow>
                    if ret \<noteq> 0 then Some (Some (cstr err_len (''handshake '' @ int_dec ret)), lg @ tls_cleanup)
                    else
                      (let (r, lg1) = tls_exchange env host path body auth_hdr err_len (lg @ [Handshake])
                       in Some (r, lg1 @ tls_cleanup)))))"

section \<open>The entry points\<close>

definition cpe_agent_tls_available :: "tls_env option \<Rightarrow> bool" where
  "cpe_agent_tls_available envp \<longleftrightarrow> envp \<noteq> None"

text \<open>The result is the error text, \<open>None\<close> on success, with what was done on plain and TLS sockets.\<close>

definition cpe_agent_http_post ::
  "'a net_env \<Rightarrow> tls_env option \<Rightarrow> string \<Rightarrow> string \<Rightarrow> http_opts option \<Rightarrow> nat \<Rightarrow>
   (string option \<times> net_action list \<times> tls_action list) option" where
  "cpe_agent_http_post net tls url body opts err_len =
     (case parse_url url 256 16 512 of
        None \<Rightarrow> Some (Some (cstr err_len ''bad url (need http:// or https://)''), [], [])
      | Some (https, host, prt, path) \<Rightarrow>
          (let user = (case opts of None \<Rightarrow> [] | Some p \<Rightarrow> opt_str (ho_username p));
               auth = (if user = [] then Some None
                       else map_option Some (build_basic_auth user (map_option ho_password opts) 512))
           in case auth of
                None \<Rightarrow> Some (Some (cstr err_len ''basic auth encode failed''), [], [])
              | Some auth_hdr \<Rightarrow>
                  if https then
                    (case mbedtls_https_post tls host prt path body auth_hdr opts err_len of None \<Rightarrow> None
                     | Some (r, lg) \<Rightarrow> Some (r, [], lg))
                  else (let (r, lg) = plain_http_post net host prt path body auth_hdr err_len in Some (r, lg, []))))"

definition cpe_agent_tls_post ::
  "'a net_env \<Rightarrow> tls_env option \<Rightarrow> string \<Rightarrow> string \<Rightarrow> string option \<Rightarrow> string option \<Rightarrow> string option \<Rightarrow> nat \<Rightarrow>
   (string option \<times> net_action list \<times> tls_action list) option" where
  "cpe_agent_tls_post net tls url body ca cert key err_len =
     cpe_agent_http_post net tls url body
       (Some \<lparr> ho_username = None, ho_password = [], ho_ca_file = ca, ho_cert_file = cert, ho_key_file = key,
              ho_tls_insecure = (opt_str ca = []) \<rparr>) err_len"


lemmas tls_egress_defs [cdefs] =
  b64_tbl_def b64_digit_def b64_encode_def char_bytes_def build_basic_auth_def parse_authority_def parse_url_def
  http_status_ok_def tcp_connect_def crlf_def request_header_def send_all.simps not_eol_def http_error_def
  plain_http_post_def opt_str_def auth_actions_def tls_setup_def tls_exchange_def tls_cleanup_def
  mbedtls_https_post_def cpe_agent_tls_available_def cpe_agent_http_post_def cpe_agent_tls_post_def

section \<open>Base64 is decodable\<close>

text \<open>A decoder, written independently of the encoder.\<close>

definition b64_code :: "char \<Rightarrow> u32" where
  "b64_code c = of_nat (length (takeWhile (\<lambda>x. x \<noteq> c) b64_tbl))"

fun b64_decode :: "string \<Rightarrow> bytes" where
  "b64_decode (p # q # r # s # rest) =
     (let v = push_bit 18 (b64_code p) OR push_bit 12 (b64_code q) OR
              (if r = CHR ''='' then 0 else push_bit 6 (b64_code r)) OR (if s = CHR ''='' then 0 else b64_code s)
      in ucast (drop_bit 16 v) # (if r = CHR ''='' then [] else ucast (drop_bit 8 v) # (if s = CHR ''='' then [] else [ucast v]))
         @ b64_decode rest)"
| "b64_decode _ = []"

lemma b64_tbl_facts: "length b64_tbl = 64" "distinct b64_tbl" "CHR ''='' \<notin> set b64_tbl"
  by (simp_all add: b64_tbl_def)

lemma b64_code_nth:
  assumes "n < 64"
  shows "b64_code (b64_tbl ! n) = of_nat n" "b64_tbl ! n \<noteq> CHR ''=''"
proof -
  have "takeWhile (\<lambda>x. x \<noteq> b64_tbl ! n) b64_tbl = take n b64_tbl"
    using assms b64_tbl_facts(1,2) by (intro takeWhile_eq_take_P_nth) (auto simp: nth_eq_iff_index_eq)
  then show "b64_code (b64_tbl ! n) = of_nat n" using assms b64_tbl_facts(1) by (simp add: b64_code_def)
  show "b64_tbl ! n \<noteq> CHR ''=''" using assms b64_tbl_facts(1,3) nth_mem[of n b64_tbl] by metis
qed

lemma and63_take_bit: "(w :: u32) AND 63 = take_bit 6 w"
  by (simp add: take_bit_eq_mask mask_eq_exp_minus_1)

lemma b64_code_digit [simp]: "b64_code (b64_digit v k) = take_bit 6 (drop_bit k v)" "b64_digit v k \<noteq> CHR ''=''"
proof -
  let ?w = "drop_bit k v AND 63"
  have "unat ?w < 64"
    using word_and_le1[of "drop_bit k v" 63] by (simp add: word_le_nat_alt)
  from b64_code_nth[OF this] show "b64_code (b64_digit v k) = take_bit 6 (drop_bit k v)" "b64_digit v k \<noteq> CHR ''=''"
    by (simp_all add: b64_digit_def and63_take_bit)
qed

lemma sextets:
  fixes v :: u32
  assumes "\<And>n. bit v n \<Longrightarrow> n < 24"
  shows "push_bit 18 (take_bit 6 (drop_bit 18 v)) OR push_bit 12 (take_bit 6 (drop_bit 12 v)) OR
    push_bit 6 (take_bit 6 (drop_bit 6 v)) OR take_bit 6 (drop_bit 0 v) = v"
proof (rule bit_word_eqI)
  fix n :: nat
  consider "n < 6" | "6 \<le> n" "n < 12" | "12 \<le> n" "n < 18" | "18 \<le> n" "n < 24" | "24 \<le> n" by linarith
  then show "bit (push_bit 18 (take_bit 6 (drop_bit 18 v)) OR push_bit 12 (take_bit 6 (drop_bit 12 v)) OR
      push_bit 6 (take_bit 6 (drop_bit 6 v)) OR take_bit 6 (drop_bit 0 v)) n = bit v n"
    by cases (use assms[of n] in \<open>auto simp: bit_simps\<close>)
qed

lemma octets:
  "ucast (drop_bit 16 (push_bit 16 (ucast a) OR push_bit 8 (ucast b) OR ucast c :: u32)) = (a :: u8)"
  "ucast (drop_bit 8 (push_bit 16 (ucast a) OR push_bit 8 (ucast b) OR ucast c :: u32)) = (b :: u8)"
  "ucast (push_bit 16 (ucast a) OR push_bit 8 (ucast b) OR ucast c :: u32) = (c :: u8)"
  by (rule bit_word_eqI, auto simp: bit_simps dest: bit_imp_le_length)+


text \<open>The encoding without the limit.\<close>

fun b64_text :: "bytes \<Rightarrow> string" where
  "b64_text [] = []"
| "b64_text [a] = (let v = push_bit 16 (ucast a) in [b64_digit v 18, b64_digit v 12, CHR ''='', CHR ''=''])"
| "b64_text [a, b] = (let v = push_bit 16 (ucast a) OR push_bit 8 (ucast b)
     in [b64_digit v 18, b64_digit v 12, b64_digit v 6, CHR ''=''])"
| "b64_text (a # b # c # rest) = (let v = push_bit 16 (ucast a) OR push_bit 8 (ucast b) OR ucast c
     in [b64_digit v 18, b64_digit v 12, b64_digit v 6, b64_digit v 0] @ b64_text rest)"

lemma length_b64_text: "length (b64_text bs) = 4 * ((length bs + 2) div 3)"
proof (induction bs rule: b64_text.induct)
  case (4 a b c rest)
  then show ?case using div_add_self2[of 3 "length rest + 2"] by (simp add: Let_def)
qed (simp_all add: Let_def)

lemma b64_loop_eq:
  "b64_loop n bs out = (if bs \<noteq> [] \<and> n \<le> length out + length (b64_text bs) then None else Some (out @ b64_text bs))"
proof (induction n bs out rule: b64_loop.induct)
  case (4 n a b c rest out)
  then show ?case by (cases rest) (auto simp: Let_def)
qed (auto simp: Let_def)

lemma bytes24: "bit (push_bit 16 (ucast (a :: u8)) OR push_bit 8 (ucast (b :: u8)) OR ucast (c :: u8) :: u32) n \<Longrightarrow> n < 24"
  by (auto simp: bit_simps dest: bit_imp_le_length)

lemma upper_octets:
  fixes v :: u32
  defines "s18 \<equiv> push_bit 18 (take_bit 6 (drop_bit 18 v))" and "s12 \<equiv> push_bit 12 (take_bit 6 (drop_bit 12 v))"
    and "s6 \<equiv> push_bit 6 (take_bit 6 (drop_bit 6 v))"
  shows "(ucast (drop_bit 16 (s18 OR s12)) :: u8) = ucast (drop_bit 16 v)"
    "(ucast (drop_bit 16 (s18 OR s12 OR s6)) :: u8) = ucast (drop_bit 16 v)"
    "(ucast (drop_bit 8 (s18 OR s12 OR s6)) :: u8) = ucast (drop_bit 8 v)"
proof -
  show "(ucast (drop_bit 16 (s18 OR s12)) :: u8) = ucast (drop_bit 16 v)"
  proof (rule bit_word_eqI)
    fix n :: nat assume "n < LENGTH(8)"
    then show "bit (ucast (drop_bit 16 (s18 OR s12)) :: u8) n = bit (ucast (drop_bit 16 v) :: u8) n"
      by (cases "n < 2") (auto simp: s18_def s12_def bit_simps)
  qed
  show "(ucast (drop_bit 16 (s18 OR s12 OR s6)) :: u8) = ucast (drop_bit 16 v)"
  proof (rule bit_word_eqI)
    fix n :: nat assume "n < LENGTH(8)"
    then show "bit (ucast (drop_bit 16 (s18 OR s12 OR s6)) :: u8) n = bit (ucast (drop_bit 16 v) :: u8) n"
      by (cases "n < 2") (auto simp: s18_def s12_def s6_def bit_simps)
  qed
  show "(ucast (drop_bit 8 (s18 OR s12 OR s6)) :: u8) = ucast (drop_bit 8 v)"
  proof (rule bit_word_eqI)
    fix n :: nat assume "n < LENGTH(8)"
    then show "bit (ucast (drop_bit 8 (s18 OR s12 OR s6)) :: u8) n = bit (ucast (drop_bit 8 v) :: u8) n"
      by (cases "n < 4") (auto simp: s18_def s12_def s6_def bit_simps)
  qed
qed

lemma b64_decode_text: "b64_decode (b64_text bs) = bs"
proof (induction bs rule: b64_text.induct)
  case (2 a)
  show ?case using octets[of a 0 0] by (simp add: Let_def upper_octets del: drop_bit_or)
next
  case (3 a b)
  show ?case using octets[of a b 0] by (simp add: Let_def upper_octets del: drop_bit_or)
next
  case (4 a b c rest)
  let ?v = "push_bit 16 (ucast a) OR push_bit 8 (ucast b) OR ucast c :: u32"
  have "b64_decode (b64_text (a # b # c # rest)) = ucast (drop_bit 16 ?v) # ucast (drop_bit 8 ?v) # ucast ?v # b64_decode (b64_text rest)"
    using sextets[of ?v, OF bytes24] by (simp only: b64_text.simps b64_decode.simps Let_def append.simps b64_code_digit if_False refl)
  then show ?case using 4 octets[of a b c] by simp
qed simp

lemma build_basic_auth_eq:
  "build_basic_auth user pass 512 =
     (if user = [] \<or> 319 \<le> length user + length (opt_str pass) then None
      else Some (''Authorization: Basic '' @ b64_text (char_bytes (user @ '':'' @ opt_str pass)) @ crlf))"
proof -
  let ?raw = "user @ '':'' @ opt_str pass"
  have "length (b64_text (char_bytes ?raw)) < 440" if "length ?raw < 320"
    using that by (simp add: length_b64_text char_bytes_def)
  then show ?thesis
    by (auto simp: build_basic_auth_def opt_str_def b64_encode_def b64_loop_eq crlf_def Let_def length_b64_text char_bytes_def
        split: option.splits)
qed

lemma length_basic_auth: "build_basic_auth user pass 512 = Some h \<Longrightarrow> length h < 512"
  by (auto simp: build_basic_auth_eq length_b64_text char_bytes_def crlf_def split: if_splits)

text \<open>Basic authentication is refused exactly when the user name is empty or the credentials do not fit
  the 320-byte buffer; otherwise the header holds a text whose base64 decoding is
  \<^verbatim>\<open>user:password\<close>, and the intermediate buffers are never the limit.\<close>

theorem basic_auth_roundtrip:
  "if user = [] \<or> 319 \<le> length user + length pass then build_basic_auth user (Some pass) 512 = None
   else \<exists>enc. build_basic_auth user (Some pass) 512 = Some (''Authorization: Basic '' @ enc @ crlf) \<and>
          b64_decode enc = char_bytes (user @ '':'' @ pass) \<and> length enc < 440"
  using b64_decode_text[of "char_bytes (user @ '':'' @ pass)"]
  by (auto simp: build_basic_auth_eq opt_str_def length_b64_text char_bytes_def)

section \<open>URLs are parsed exactly\<close>

lemma takeWhile_neq_append: "c \<notin> set xs \<Longrightarrow> takeWhile (\<lambda>x. x \<noteq> c) (xs @ c # ys) = xs"
  "c \<notin> set xs \<Longrightarrow> dropWhile (\<lambda>x. x \<noteq> c) (xs @ c # ys) = c # ys"
  by (induction xs) auto

lemma takeWhile_neq_all: "c \<notin> set xs \<Longrightarrow> takeWhile (\<lambda>x. x \<noteq> c) xs = xs" "c \<notin> set xs \<Longrightarrow> dropWhile (\<lambda>x. x \<noteq> c) xs = []"
  by (induction xs) auto

lemma notin_takeWhile_neq: "c \<notin> set (takeWhile (\<lambda>x. x \<noteq> c) xs)"
  by (induction xs) auto

lemma dropWhile_neq_cases: "dropWhile (\<lambda>x. x \<noteq> c) xs = [] \<or> (\<exists>ys. dropWhile (\<lambda>x. x \<noteq> c) xs = c # ys)"
  by (induction xs) auto

lemma in_set_tl: "x \<in> set (tl xs) \<Longrightarrow> x \<in> set xs"
  by (cases xs) auto

definition url_text :: "bool \<Rightarrow> string \<Rightarrow> string option \<Rightarrow> string \<Rightarrow> string" where
  "url_text https host prt path =
     (if https then ''https://'' else ''http://'') @ host @ (case prt of None \<Rightarrow> [] | Some p \<Rightarrow> '':'' @ p) @ path"

definition url_ok :: "string \<Rightarrow> string option \<Rightarrow> string \<Rightarrow> bool" where
  "url_ok host prt path \<longleftrightarrow> host \<noteq> [] \<and> length host < 256 \<and> CHR ''/'' \<notin> set host \<and> CHR '':'' \<notin> set host \<and>
     (case prt of None \<Rightarrow> True | Some p \<Rightarrow> p \<noteq> [] \<and> length p < 16 \<and> CHR ''/'' \<notin> set p) \<and>
     (path = [] \<or> hd path = CHR ''/'') \<and> length path < 512"

lemma split_at_slash:
  assumes "CHR ''/'' \<notin> set a" "path = [] \<or> hd path = CHR ''/''"
  shows "takeWhile (\<lambda>c. c \<noteq> CHR ''/'') (a @ path) = a" "dropWhile (\<lambda>c. c \<noteq> CHR ''/'') (a @ path) = path"
  using assms takeWhile_neq_append[of "CHR ''/''" a] takeWhile_neq_all[of "CHR ''/''" a] by (cases path; simp)+

lemma parse_authority_text:
  assumes "url_ok host prt path"
  shows "parse_authority https (host @ (case prt of None \<Rightarrow> [] | Some p \<Rightarrow> '':'' @ p) @ path) 256 16 512 =
    Some (https, host, (case prt of None \<Rightarrow> if https then ''443'' else ''80'' | Some p \<Rightarrow> p), str_or path ''/'')"
proof -
  let ?a = "host @ (case prt of None \<Rightarrow> [] | Some p \<Rightarrow> '':'' @ p)"
  have a: "CHR ''/'' \<notin> set ?a" "path = [] \<or> hd path = CHR ''/''"
    using assms by (auto simp: url_ok_def split: option.splits)
  have c: "CHR '':'' \<notin> set host" "host \<noteq> []" "length host < 256" "length path < 512" using assms by (auto simp: url_ok_def)
  show ?thesis
  proof (cases prt)
    case None
    then show ?thesis using split_at_slash[OF a] c
      by (simp add: parse_authority_def Let_def str_or_def cstr_def takeWhile_neq_all(1)[OF c(1)])
  next
    case (Some p)
    then have p: "p \<noteq> []" "length p < 16" using assms by (auto simp: url_ok_def)
    show ?thesis using Some split_at_slash[OF a] takeWhile_neq_append[OF c(1), of p] c p
      by (simp add: parse_authority_def Let_def str_or_def cstr_def)
  qed
qed

lemma parse_authority_sound:
  assumes "parse_authority https p 256 16 512 = Some (h, host, prt, path)"
  shows "h = https \<and> (\<exists>pt tail. p = host @ (case pt of None \<Rightarrow> [] | Some p \<Rightarrow> '':'' @ p) @ tail \<and> url_ok host pt tail \<and>
    prt = (case pt of None \<Rightarrow> if https then ''443'' else ''80'' | Some p \<Rightarrow> p) \<and> path = str_or tail ''/'')"
proof -
  define before where "before = takeWhile (\<lambda>c. c \<noteq> CHR ''/'') p"
  define tail where "tail = dropWhile (\<lambda>c. c \<noteq> CHR ''/'') p"
  define pt where "pt = (if CHR '':'' \<in> set before then Some (tl (dropWhile (\<lambda>c. c \<noteq> CHR '':'') before)) else None)"
  let ?prt = "tl (dropWhile (\<lambda>c. c \<noteq> CHR '':'') before)"
  note A = assms[unfolded parse_authority_def Let_def, folded before_def tail_def]
  have host: "host = takeWhile (\<lambda>c. c \<noteq> CHR '':'') before" and h: "h = https"
    using A by (simp_all split: if_splits)
  have c: "host \<noteq> []" "length host < 256" "CHR '':'' \<in> set before \<Longrightarrow> ?prt \<noteq> [] \<and> length ?prt < 16" "length tail < 512"
    and prt: "prt = cstr 16 (if CHR '':'' \<in> set before then ?prt else if https then ''443'' else ''80'')"
    and path: "path = cstr 512 (if tail = [] then ''/'' else tail)"
    using A unfolding host by (auto split: if_splits)
  have "before = host @ (case pt of None \<Rightarrow> [] | Some p \<Rightarrow> '':'' @ p)"
  proof (cases "CHR '':'' \<in> set before")
    case True
    then have "dropWhile (\<lambda>c. c \<noteq> CHR '':'') before \<noteq> []" by (auto simp: dropWhile_eq_Nil_conv)
    with dropWhile_neq_cases[of "CHR '':''" before]
    have "before = host @ CHR '':'' # tl (dropWhile (\<lambda>c. c \<noteq> CHR '':'') before)"
      using takeWhile_dropWhile_id[of "\<lambda>c. c \<noteq> CHR '':''" before] host by (metis list.sel(3))
    with True show ?thesis by (simp add: pt_def)
  next
    case False
    have "host = before" unfolding host by (rule takeWhile_neq_all(1)[OF False])
    with False show ?thesis by (simp add: pt_def)
  qed
  moreover have "p = before @ tail" by (simp add: before_def tail_def)
  moreover have "url_ok host pt tail"
  proof -
    have "CHR ''/'' \<notin> set before" unfolding before_def by (rule notin_takeWhile_neq)
    then have "CHR ''/'' \<notin> set host" "CHR ''/'' \<notin> set ?prt"
      unfolding host by (auto dest: set_takeWhileD set_dropWhileD in_set_tl)
    moreover have "tail = [] \<or> hd tail = CHR ''/''" using dropWhile_neq_cases[of "CHR ''/''" p] by (auto simp: tail_def)
    moreover have "CHR '':'' \<notin> set host" unfolding host by (rule notin_takeWhile_neq)
    ultimately show ?thesis using c by (simp add: url_ok_def pt_def)
  qed
  moreover have "prt = (case pt of None \<Rightarrow> if https then ''443'' else ''80'' | Some p \<Rightarrow> p)" "path = str_or tail ''/''"
    using prt path c(3,4) by (auto simp: pt_def str_or_def cstr_def)
  ultimately show ?thesis using h by (metis append.assoc)
qed

lemma http_prefix: "take 8 (''http://'' @ host @ rest) \<noteq> ''https://''"
  by simp

lemma parse_url_iff:
  "parse_url url 256 16 512 = Some (https, host, prt, path) \<longleftrightarrow>
     (\<exists>pt tail. url = url_text https host pt tail \<and> url_ok host pt tail \<and>
        prt = (case pt of None \<Rightarrow> if https then ''443'' else ''80'' | Some p \<Rightarrow> p) \<and> path = str_or tail ''/'')"
  (is "?L = ?R")
proof
  assume L: ?L
  obtain s p where "url = (if s then ''https://'' else ''http://'') @ p" "parse_authority s p 256 16 512 = Some (https, host, prt, path)"
  proof (cases "take 8 url = ''https://''")
    case True
    then show thesis using L that[of True "drop 8 url"] append_take_drop_id[of 8 url] by (simp add: parse_url_def)
  next
    case False
    then have f: "take 7 url = ''http://''" "parse_authority False (drop 7 url) 256 16 512 = Some (https, host, prt, path)"
      using L by (simp_all add: parse_url_def split: if_splits)
    have "url = ''http://'' @ drop 7 url" unfolding f(1)[symmetric] by simp
    with f(2) show thesis using that[of False "drop 7 url"] by simp
  qed
  moreover from parse_authority_sound[OF this(2)] obtain pt tail where
    "https = s" "p = host @ (case pt of None \<Rightarrow> [] | Some p \<Rightarrow> '':'' @ p) @ tail" "url_ok host pt tail"
    "prt = (case pt of None \<Rightarrow> if s then ''443'' else ''80'' | Some p \<Rightarrow> p)" "path = str_or tail ''/''" by blast
  ultimately show ?R by (intro exI[of _ pt] exI[of _ tail]) (simp add: url_text_def)
next
  assume ?R
  then obtain pt tail where "url = url_text https host pt tail" "url_ok host pt tail"
    "prt = (case pt of None \<Rightarrow> if https then ''443'' else ''80'' | Some p \<Rightarrow> p)" "path = str_or tail ''/''" by blast
  then show ?L using parse_authority_text[of host pt tail https] by (cases https) (simp_all add: url_text_def parse_url_def)
qed

text \<open>The URL parser accepts exactly the texts \<^verbatim>\<open>scheme://host[:port][/path]\<close> whose parts fit their
  buffers, and returns those parts with the default port of the scheme and the path \<^verbatim>\<open>/\<close>
  where they are missing.\<close>

theorem parse_url_exact:
  "parse_url url 256 16 512 = Some (https, host, prt, path) \<longleftrightarrow>
     (\<exists>pt tail. url = url_text https host pt tail \<and> url_ok host pt tail \<and>
        prt = (case pt of None \<Rightarrow> if https then ''443'' else ''80'' | Some p \<Rightarrow> p) \<and> path = str_or tail ''/'')"
  by (rule parse_url_iff)

section \<open>Writing a request\<close>

lemma send_all_spec:
  assumes "send_all wr act buf written k lg = (r, k', lg')"
  shows "\<exists>chunks. lg' = lg @ map act chunks \<and> k' = k + length chunks + (if r = None then 0 else 1) \<and> [] \<notin> set chunks \<and>
    (if r = None then concat chunks = drop written buf
     else \<exists>rest. rest \<noteq> [] \<and> drop written buf = concat chunks @ rest \<and> the r \<le> 0)"
  using assms
proof (induction wr act buf written k lg rule: send_all.induct)
  case (1 wr act buf written k lg)
  define w where "w = wr k (length buf - written)"
  show ?case
  proof (cases "written < length buf")
    case False
    then show ?thesis using "1.prems" by (simp add: send_all.simps)
  next
    case wl: True
    show ?thesis
    proof (cases "w \<le> 0")
      case True
      then show ?thesis using "1.prems" wl by (subst (asm) send_all.simps) (auto simp: w_def[symmetric] Let_def)
    next
      case False
      have "send_all wr act buf (written + nat w) (k + 1) (lg @ [act (take (nat w) (drop written buf))]) = (r, k', lg')"
        using "1.prems" wl False by (subst (asm) send_all.simps) (simp add: w_def[symmetric] Let_def)
      from "1.IH"[OF wl w_def False this] obtain chunks where c: "lg' = (lg @ [act (take (nat w) (drop written buf))]) @ map act chunks"
        "k' = k + 1 + length chunks + (if r = None then 0 else 1)" "[] \<notin> set chunks"
        "if r = None then concat chunks = drop (written + nat w) buf
         else \<exists>rest. rest \<noteq> [] \<and> drop (written + nat w) buf = concat chunks @ rest \<and> the r \<le> 0" by blast
      have d: "drop written buf = take (nat w) (drop written buf) @ drop (written + nat w) buf"
        by (metis append_take_drop_id drop_drop add.commute)
      have "take (nat w) (drop written buf) \<noteq> []" using wl False by simp
      then show ?thesis using c d
        by (intro exI[of _ "take (nat w) (drop written buf) # chunks"]) (auto split: if_splits)
    qed
  qed
qed

lemma send_all_chunks:
  assumes "send_all wr act buf 0 k lg = (r, k', lg')"
  shows "\<exists>chunks rest. lg' = lg @ map act chunks \<and> buf = concat chunks @ rest \<and> (r = None \<longrightarrow> rest = [])"
  using send_all_spec[OF assms] by (cases r) auto

text \<open>The header of an accepted URL always fits its 1536-byte buffer.\<close>

lemma request_header_fits:
  assumes "parse_url url 256 16 512 = Some (https, host, prt, path)" "length body < 2 ^ 64"
    and "auth = None \<or> (\<exists>u p. auth = build_basic_auth u p 512)"
  shows "length (request_header host path body auth) < 1536"
proof -
  have "length host < 256" "length path < 512"
    using assms(1) by (auto simp: parse_url_iff url_ok_def str_or_def)
  moreover have "length (dec (length body)) \<le> 20"
    using assms(2) by (intro length_dec) simp_all
  moreover have "length (case auth of None \<Rightarrow> [] | Some h \<Rightarrow> h) < 512"
    using assms(3) length_basic_auth by (auto split: option.split)
  ultimately show ?thesis by (simp add: request_header_def crlf_def)
qed

section \<open>The plain client\<close>

definition opened_fds :: "net_action list \<Rightarrow> int list" where
  "opened_fds lg = concat (map (\<lambda>x. case x of Opened fd \<Rightarrow> [fd] | _ \<Rightarrow> []) lg)"

definition shut_fds :: "net_action list \<Rightarrow> int list" where
  "shut_fds lg = concat (map (\<lambda>x. case x of Closed fd \<Rightarrow> [fd] | _ \<Rightarrow> []) lg)"

definition sent_bytes :: "net_action list \<Rightarrow> string" where
  "sent_bytes lg = concat (map (\<lambda>x. case x of Sent fd s \<Rightarrow> s | _ \<Rightarrow> []) lg)"

lemma fds_simps [simp]:
  "opened_fds [] = []" "opened_fds (x # xs) = (case x of Opened fd \<Rightarrow> [fd] | _ \<Rightarrow> []) @ opened_fds xs"
  "opened_fds (xs @ ys) = opened_fds xs @ opened_fds ys" "opened_fds (map (Sent fd) cs) = []"
  "shut_fds [] = []" "shut_fds (x # xs) = (case x of Closed fd \<Rightarrow> [fd] | _ \<Rightarrow> []) @ shut_fds xs"
  "shut_fds (xs @ ys) = shut_fds xs @ shut_fds ys" "shut_fds (map (Sent fd) cs) = []"
  "sent_bytes [] = []" "sent_bytes (x # xs) = (case x of Sent fd s \<Rightarrow> s | _ \<Rightarrow> []) @ sent_bytes xs"
  "sent_bytes (xs @ ys) = sent_bytes xs @ sent_bytes ys" "sent_bytes (map (Sent fd) cs) = concat cs"
  by (simp_all add: opened_fds_def shut_fds_def sent_bytes_def comp_def)

lemma try_connect_spec:
  assumes "try_connect env rps fd0 lg = (fd, lg')" "fd0 < 0"
  shows "\<exists>fds. opened_fds lg' = opened_fds lg @ fds @ (if fd < 0 then [] else [fd]) \<and> shut_fds lg' = shut_fds lg @ fds \<and>
    sent_bytes lg' = sent_bytes lg"
  using assms
proof (induction env rps fd0 lg rule: try_connect.induct)
  case (2 env rp rps fd0 lg)
  show ?case
  proof (cases "ne_socket env rp < 0")
    case True
    then show ?thesis using "2.IH"(1)[OF refl] "2.prems" by simp
  next
    case False
    show ?thesis
    proof (cases "ne_connect env rp")
      case True
      then show ?thesis using False "2.prems" by (auto simp: Let_def)
    next
      case nc: False
      with False "2.prems" have "try_connect env rps (-1) (lg @ [Opened (ne_socket env rp), Closed (ne_socket env rp)]) = (fd, lg')"
        by (simp add: Let_def)
      from "2.IH"(2)[OF refl False nc this] obtain fds where
        "opened_fds lg' = opened_fds lg @ (ne_socket env rp # fds) @ (if fd < 0 then [] else [fd])"
        "shut_fds lg' = shut_fds lg @ (ne_socket env rp # fds)" "sent_bytes lg' = sent_bytes lg" by auto
      then show ?thesis by blast
    qed
  qed
qed simp

lemma tcp_connect_spec:
  assumes "tcp_connect env host prt err_len = (res, lg)"
  shows "\<exists>fds. opened_fds lg = fds @ (case res of Inl _ \<Rightarrow> [] | Inr fd \<Rightarrow> [fd]) \<and> shut_fds lg = fds \<and> sent_bytes lg = []"
proof (cases "case ne_resolve env True host prt of Inl _ \<Rightarrow> ne_resolve env False host prt | Inr rs \<Rightarrow> Inr rs")
  case (Inl e)
  then show ?thesis using assms by (auto simp: tcp_connect_def Let_def)
next
  case (Inr rs)
  obtain fd l where t: "try_connect env rs (-1) [] = (fd, l)" by fastforce
  then show ?thesis using assms Inr try_connect_spec[OF t] by (auto simp: tcp_connect_def Let_def split: if_splits)
qed

lemma length_http_error: "0 < err_len \<Longrightarrow> length (http_error err_len resp) < err_len"
  by (auto simp: http_error_def Let_def cstr_def)

lemma plain_post_spec:
  assumes "plain_http_post env host prt path body auth err_len = (r, lg)"
  shows "opened_fds lg = shut_fds lg \<and> (\<exists>rest. request_header host path body auth @ body = sent_bytes lg @ rest) \<and>
    (r = None \<longrightarrow> sent_bytes lg = request_header host path body auth @ body \<and> http_status_ok (take 511 (ne_recv env))) \<and>
    (\<forall>e. r = Some e \<longrightarrow> 0 < err_len \<longrightarrow> length e < err_len)"
proof -
  let ?hdr = "request_header host path body auth"
  obtain res lg0 where tc: "tcp_connect env host prt err_len = (res, lg0)" by fastforce
  from tcp_connect_spec[OF tc] obtain fds where l0: "opened_fds lg0 = fds @ (case res of Inl _ \<Rightarrow> [] | Inr fd \<Rightarrow> [fd])"
    "shut_fds lg0 = fds" "sent_bytes lg0 = []" by blast
  show ?thesis
  proof (cases res)
    case (Inl e)
    have "0 < err_len \<longrightarrow> length e < err_len"
      using tc Inl by (auto simp: tcp_connect_def Let_def length_cstr_less split: sum.splits prod.splits if_splits)
    then show ?thesis using assms tc l0 Inl by (auto simp: plain_http_post_def)
  next
    case (Inr fd)
    obtain r1 k1 lg1 where s1: "send_all (ne_send env) (Sent fd) ?hdr 0 0 lg0 = (r1, k1, lg1)" by (metis prod_cases3)
    obtain r2 k2 lg2 where s2: "send_all (ne_send env) (Sent fd) body 0 k1 lg1 = (r2, k2, lg2)" by (metis prod_cases3)
    from send_all_chunks[OF s1] obtain c1 t1 where c1: "lg1 = lg0 @ map (Sent fd) c1" "?hdr = concat c1 @ t1" "r1 = None \<longrightarrow> t1 = []"
      by blast
    from send_all_chunks[OF s2] obtain c2 t2 where c2: "lg2 = lg1 @ map (Sent fd) c2" "body = concat c2 @ t2" "r2 = None \<longrightarrow> t2 = []"
      by blast
    consider "1536 \<le> length ?hdr" | "length ?hdr < 1536" "r1 \<noteq> None" | "length ?hdr < 1536" "r1 = None" "r2 \<noteq> None"
      | "length ?hdr < 1536" "r1 = None" "r2 = None" by linarith
    then show ?thesis
    proof cases
      case 1
      then show ?thesis using assms tc l0 Inr by (auto simp: plain_http_post_def Let_def length_cstr_less)
    next
      case 2
      then show ?thesis using assms tc l0 Inr s1 c1 by (auto simp: plain_http_post_def Let_def length_cstr_less)
    next
      case 3
      then show ?thesis using assms tc l0 Inr s1 c1 s2 c2 by (auto simp: plain_http_post_def Let_def length_cstr_less)
    next
      case 4
      then show ?thesis using assms tc l0 Inr s1 c1 s2 c2 length_http_error[of err_len "take 511 (ne_recv env)"]
        by (auto simp: plain_http_post_def Let_def length_cstr_less split: if_splits)
    qed
  qed
qed

section \<open>The TLS client\<close>

definition written_bytes :: "tls_action list \<Rightarrow> string" where
  "written_bytes lg = concat (map (\<lambda>x. case x of Written s \<Rightarrow> s | _ \<Rightarrow> []) lg)"

lemma written_simps [simp]:
  "written_bytes [] = []" "written_bytes (x # xs) = (case x of Written s \<Rightarrow> s | _ \<Rightarrow> []) @ written_bytes xs"
  "written_bytes (xs @ ys) = written_bytes xs @ written_bytes ys" "written_bytes (map Written cs) = concat cs"
  "written_bytes (auth_actions ca i) = []" "written_bytes tls_cleanup = []"
  by (simp_all add: written_bytes_def comp_def auth_actions_def tls_cleanup_def)

text \<open>The handshake loop ends exactly when some call does not ask to be repeated.\<close>

lemma handshake_returns:
  assumes "le_handshake env (j + k) = 0 \<or> \<not> le_want env (le_handshake env (j + k))"
  shows "\<exists>ret. handshake_loop env j = Some ret"
  using assms
proof (induction k arbitrary: j)
  case 0
  then show ?case by (subst handshake_loop.simps) (auto simp: Let_def)
next
  case (Suc k)
  then show ?case using Suc.IH[of "j + 1"] by (subst handshake_loop.simps) (simp add: Let_def)
qed

text \<open>The log before the handshake for a given certificate, key and trust chain.\<close>

definition tls_prologue :: "string \<Rightarrow> string \<Rightarrow> http_opts option \<Rightarrow> tls_action list" where
  "tls_prologue host prt opts =
     Connect host prt # (case opts of None \<Rightarrow> [Authmode VERIFY_NONE]
       | Some p \<Rightarrow> auth_actions (opt_str (ho_ca_file p)) (ho_tls_insecure p) @
           (if opt_str (ho_cert_file p) \<noteq> [] \<and> opt_str (ho_key_file p) \<noteq> []
            then [Own_cert (opt_str (ho_cert_file p)) (opt_str (ho_key_file p))] else [])) @ [Hostname host]"

lemma written_prologue [simp]: "written_bytes (tls_prologue host prt opts) = []"
  by (simp add: tls_prologue_def split: option.split)

lemma tls_setup_ok: "tls_setup env host prt opts err_len = (None, lg) \<Longrightarrow> lg = tls_prologue host prt opts"
  by (cases opts) (auto simp: tls_setup_def tls_prologue_def Let_def auth_actions_def opt_str_def split: if_splits)

definition no_write :: "nat \<Rightarrow> string option \<times> tls_action list \<Rightarrow> bool" where
  "no_write n x \<longleftrightarrow> (\<forall>s. Written s \<notin> set (snd x)) \<and> (\<forall>e. fst x = Some e \<longrightarrow> 0 < n \<longrightarrow> length e < n)"

lemma tls_setup_no_write: "no_write err_len (tls_setup env host prt opts err_len)"
  unfolding tls_setup_def Let_def if_distrib[of "no_write err_len"]
  by (simp add: no_write_def length_cstr_less auth_actions_def)

lemma tls_exchange_spec:
  assumes "tls_exchange env host path body auth err_len lg = (r, lg')"
  shows "\<exists>chunks rest. lg' = lg @ map Written chunks \<and> request_header host path body auth @ body = concat chunks @ rest \<and>
    (r = None \<longrightarrow> rest = [] \<and> (\<exists>resp. le_read env = Inr resp \<and> http_status_ok (take 511 resp)))"
proof -
  let ?hdr = "request_header host path body auth"
  obtain r1 k1 lg1 where s1: "send_all (le_write env) Written ?hdr 0 0 lg = (r1, k1, lg1)" by (metis prod_cases3)
  obtain r2 k2 lg2 where s2: "send_all (le_write env) Written body 0 k1 lg1 = (r2, k2, lg2)" by (metis prod_cases3)
  from send_all_chunks[OF s1] obtain c1 t1 where c1: "lg1 = lg @ map Written c1" "?hdr = concat c1 @ t1" "r1 = None \<longrightarrow> t1 = []"
    by blast
  from send_all_chunks[OF s2] obtain c2 t2 where c2: "lg2 = lg1 @ map Written c2" "body = concat c2 @ t2" "r2 = None \<longrightarrow> t2 = []"
    by blast
  consider "1536 \<le> length ?hdr" | "length ?hdr < 1536" "r1 \<noteq> None" | "length ?hdr < 1536" "r1 = None" "r2 \<noteq> None"
    | "length ?hdr < 1536" "r1 = None" "r2 = None" by linarith
  then show ?thesis
  proof cases
    case 1
    then show ?thesis using assms
      by (intro exI[of _ "[] :: string list"] exI[of _ "?hdr @ body"]) (auto simp: tls_exchange_def Let_def)
  next
    case 2
    then show ?thesis using assms s1 c1 by (intro exI[of _ c1]) (auto simp: tls_exchange_def Let_def)
  next
    case 3
    then show ?thesis using assms s1 c1 s2 c2 by (intro exI[of _ "c1 @ c2"]) (auto simp: tls_exchange_def Let_def)
  next
    case 4
    then show ?thesis using assms s1 c1 s2 c2
      by (intro exI[of _ "c1 @ c2"]) (auto simp: tls_exchange_def Let_def split: sum.splits if_splits)
  qed
qed

lemma https_post_spec:
  assumes "mbedtls_https_post (Some env) host prt path body auth opts err_len = Some (r, lg)"
  shows "(\<forall>s. Written s \<notin> set lg) \<and> r \<noteq> None \<or>
    (\<exists>chunks rest. lg = tls_prologue host prt opts @ [Handshake] @ map Written chunks @ tls_cleanup \<and>
       request_header host path body auth @ body = concat chunks @ rest \<and>
       (r = None \<longrightarrow> rest = [] \<and> (\<exists>resp. le_read env = Inr resp \<and> http_status_ok (take 511 resp))))"
proof -
  obtain q lg0 where su: "tls_setup env host prt opts err_len = (q, lg0)" by fastforce
  have nw: "\<forall>s. Written s \<notin> set lg0" using tls_setup_no_write[of err_len env host prt opts] su by (simp add: no_write_def)
  show ?thesis
  proof (cases q)
    case (Some e)
    then show ?thesis using assms su nw by (auto simp: mbedtls_https_post_def tls_cleanup_def)
  next
    case None
    note p = tls_setup_ok[OF su[unfolded None]]
    obtain ret where hs: "handshake_loop env 0 = Some ret"
      using assms su None by (auto simp: mbedtls_https_post_def split: option.splits)
    obtain r1 lg1 where ex: "tls_exchange env host path body auth err_len (lg0 @ [Handshake]) = (r1, lg1)" by fastforce
    show ?thesis
    proof (cases "ret = 0")
      case True
      then show ?thesis using assms su None hs ex tls_exchange_spec[OF ex] p by (auto simp: mbedtls_https_post_def)
    next
      case False
      then show ?thesis using assms su None hs nw by (auto simp: mbedtls_https_post_def tls_cleanup_def)
    qed
  qed
qed

text \<open>C8: Nothing of a request is written to a TLS connection before the handshake, and before the handshake the
  connection is told to verify the peer exactly as the options say: a CA file without the insecure
  flag makes verification mandatory, a CA file with it optional, no CA file turns it off. The
  host name is always set, and the session is closed and freed at the end.\<close>

theorem tls_write_after_verification:
  assumes "mbedtls_https_post (Some env) host prt path body auth (Some p) err_len = Some (r, lg)" "Written s \<in> set lg"
  shows "\<exists>chunks rest. lg = [Connect host prt] @
      (if opt_str (ho_ca_file p) = [] then [Authmode VERIFY_NONE]
       else [Authmode (if ho_tls_insecure p then VERIFY_OPTIONAL else VERIFY_REQUIRED), Ca_chain (opt_str (ho_ca_file p))]) @
      (if opt_str (ho_cert_file p) = [] \<or> opt_str (ho_key_file p) = [] then []
       else [Own_cert (opt_str (ho_cert_file p)) (opt_str (ho_key_file p))]) @
      [Hostname host, Handshake] @ map Written chunks @ [Close_notify, Freed] \<and>
    request_header host path body auth @ body = concat chunks @ rest \<and> (r = None \<longrightarrow> rest = [])"
proof -
  from https_post_spec[OF assms(1)] assms(2) obtain chunks rest where
    c: "lg = tls_prologue host prt (Some p) @ [Handshake] @ map Written chunks @ tls_cleanup"
      "request_header host path body auth @ body = concat chunks @ rest" "r = None \<longrightarrow> rest = []" by blast
  show ?thesis
    by (rule exI[of _ chunks], rule exI[of _ rest], intro conjI) (use c in \<open>simp_all add: tls_prologue_def tls_cleanup_def auth_actions_def\<close>)
qed

section \<open>The entry points\<close>

text \<open>The bytes a post puts on the wire, plain or through TLS.\<close>

definition wire_bytes :: "net_action list \<times> tls_action list \<Rightarrow> string" where
  "wire_bytes l = sent_bytes (fst l) @ written_bytes (snd l)"

definition auth_header :: "http_opts option \<Rightarrow> string option" where
  "auth_header opts = (case opts of None \<Rightarrow> None
     | Some p \<Rightarrow> build_basic_auth (opt_str (ho_username p)) (Some (ho_password p)) 512)"

lemma http_post_spec:
  assumes "cpe_agent_http_post net tls url body opts err_len = Some (r, nlg, tlg)"
  shows "opened_fds nlg = shut_fds nlg \<and>
    (r = None \<longrightarrow> (\<exists>https host prt path. parse_url url 256 16 512 = Some (https, host, prt, path) \<and>
       wire_bytes (nlg, tlg) = request_header host path body (auth_header opts) @ body \<and> (https \<longrightarrow> nlg = []) \<and> (\<not> https \<longrightarrow> tlg = [])))"
proof (cases "parse_url url 256 16 512")
  case None
  then show ?thesis using assms by (auto simp: cpe_agent_http_post_def)
next
  case (Some u)
  obtain https host prt path where u: "u = (https, host, prt, path)" by (cases u)
  define user where "user = (case opts of None \<Rightarrow> [] | Some p \<Rightarrow> opt_str (ho_username p))"
  define auth where "auth = (if user = [] then Some None else map_option Some (build_basic_auth user (map_option ho_password opts) 512))"
  have eq: "cpe_agent_http_post net tls url body opts err_len = (case auth of
      None \<Rightarrow> Some (Some (cstr err_len ''basic auth encode failed''), [], [])
    | Some auth_hdr \<Rightarrow>
        if https then
          (case mbedtls_https_post tls host prt path body auth_hdr opts err_len of None \<Rightarrow> None | Some (r, lg) \<Rightarrow> Some (r, [], lg))
        else (let (r, lg) = plain_http_post net host prt path body auth_hdr err_len in Some (r, lg, [])))"
    using Some u by (simp add: cpe_agent_http_post_def user_def auth_def Let_def)
  show ?thesis
  proof (cases auth)
    case None
    then show ?thesis using assms eq by auto
  next
    case au: (Some ah)
    have ah: "ah = auth_header opts"
      using au by (cases opts) (auto simp: auth_def user_def auth_header_def build_basic_auth_def split: if_splits)
    show ?thesis
    proof (cases https)
      case True
      then have m: "mbedtls_https_post tls host prt path body ah opts err_len = Some (r, tlg)" "nlg = []"
        using assms eq au by (auto split: option.splits)
      show ?thesis
      proof (cases tls)
        case None
        then show ?thesis using m by (auto simp: mbedtls_https_post_def)
      next
        case env: (Some env)
        have "wire_bytes (nlg, tlg) = request_header host path body ah @ body" if "r = None"
        proof -
          from https_post_spec[OF m(1)[unfolded env]] that obtain chunks where
            "tlg = tls_prologue host prt opts @ [Handshake] @ map Written chunks @ tls_cleanup"
            "request_header host path body ah @ body = concat chunks" by auto
          then show ?thesis using m(2) by (simp add: wire_bytes_def)
        qed
        then show ?thesis using m(2) Some u True ah by auto
      qed
    next
      case False
      then have m: "plain_http_post net host prt path body ah err_len = (r, nlg)" "tlg = []"
        using assms eq au by (auto split: prod.splits)
      show ?thesis using plain_post_spec[OF m(1)] m(2) Some u False ah by (auto simp: wire_bytes_def)
    qed
  qed
qed

text \<open>A post that reports success has put exactly the request header, with the credentials of the
  options, and the body on the wire, over TLS if and only if the URL says https, and received a 2xx
  status; in every outcome each socket it opened has been closed.\<close>

theorem http_post_complete:
  assumes "cpe_agent_http_post net tls url body opts err_len = Some (r, nlg, tlg)"
  shows "opened_fds nlg = shut_fds nlg \<and>
    (r = None \<longrightarrow> (\<exists>https host prt path. parse_url url 256 16 512 = Some (https, host, prt, path) \<and>
       wire_bytes (nlg, tlg) = request_header host path body (auth_header opts) @ body \<and> (https \<longrightarrow> nlg = []) \<and> (\<not> https \<longrightarrow> tlg = [])))"
  by (rule http_post_spec[OF assms])

section \<open>Liveness\<close>

lemma send_all_ok:
  assumes "\<And>k n. 0 < n \<Longrightarrow> 0 < wr k n"
  shows "fst (send_all wr act buf written k lg) = None"
  using assms
proof (induction wr act buf written k lg rule: send_all.induct)
  case (1 wr act buf written k lg)
  show ?case
  proof (cases "written < length buf")
    case True
    define w where "w = wr k (length buf - written)"
    have w: "\<not> w \<le> 0" using "1.prems"[of "length buf - written" k] True by (simp add: w_def)
    show ?thesis using True w "1.IH"[OF True w_def w "1.prems"]
      by (subst send_all.simps) (simp add: Let_def w_def)
  qed (simp add: send_all.simps)
qed

lemma try_connect_ok:
  assumes "\<exists>x \<in> set rps. 0 \<le> ne_socket env x \<and> ne_connect env x"
  shows "0 \<le> fst (try_connect env rps fd lg)"
  using assms by (induction env rps fd lg rule: try_connect.induct) (auto simp: Let_def)

text \<open>A network that cooperates: the host resolves to a candidate that accepts the connection, every send
  takes some bytes, and the server answers 2xx.\<close>

definition cooperative :: "'a net_env \<Rightarrow> string \<Rightarrow> string \<Rightarrow> bool" where
  "cooperative net host prt \<longleftrightarrow>
     (case ne_resolve net True host prt of
        Inl _ \<Rightarrow> (case ne_resolve net False host prt of Inl _ \<Rightarrow> False | Inr rs \<Rightarrow> \<exists>x \<in> set rs. 0 \<le> ne_socket net x \<and> ne_connect net x)
      | Inr rs \<Rightarrow> \<exists>x \<in> set rs. 0 \<le> ne_socket net x \<and> ne_connect net x) \<and>
     (\<forall>k n. 0 < n \<longrightarrow> 0 < ne_send net k n) \<and> ne_poll net \<and> http_status_ok (take 511 (ne_recv net))"

lemma plain_post_live:
  assumes c: "cooperative net host prt" and "length (request_header host path body auth) < 1536"
  shows "fst (plain_http_post net host prt path body auth err_len) = None"
proof -
  have "\<exists>fd lg. tcp_connect net host prt err_len = (Inr fd, lg)"
    using c try_connect_ok[of _ net "-1" "[]"]
    by (auto simp: tcp_connect_def cooperative_def Let_def split: sum.splits prod.splits) (metis fst_conv not_le)+
  then obtain fd lg where tc: "tcp_connect net host prt err_len = (Inr fd, lg)" by blast
  have ok: "fst (send_all (ne_send net) (Sent fd) buf w k l) = None" for buf w k l
    using c by (intro send_all_ok) (simp add: cooperative_def)
  have "take 511 (ne_recv net) \<noteq> []" "http_status_ok (take 511 (ne_recv net))" "ne_poll net"
    using c by (auto simp: cooperative_def http_status_ok_def)
  then show ?thesis using assms(2) tc ok[of "request_header host path body auth" 0 0 lg] ok[of body 0]
    by (auto simp: plain_http_post_def Let_def split: prod.splits) (metis fst_conv option.distinct(1))+
qed

lemma auth_of_config:
  assumes "cfg_wf c"
  shows "c_egress_user c \<noteq> [] \<Longrightarrow> \<exists>h. build_basic_auth (c_egress_user c) (Some (c_egress_password c)) 512 = Some h"
  using assms by (auto simp: build_basic_auth_eq opt_str_def cfg_wf_def)

lemma http_post_live:
  assumes "cfg_wf c" "parse_url (c_https_url c) 256 16 512 = Some (False, host, prt, path)" "cooperative net host prt" "length body < 2 ^ 64"
  shows "\<exists>nlg. cpe_agent_http_post net tls (c_https_url c) body (Some (http_opts_of c)) err_len = Some (None, nlg, [])"
proof -
  have fit: "length (request_header host path body auth) < 1536" if "auth = None \<or> (\<exists>u p. auth = build_basic_auth u p 512)" for auth
    by (rule request_header_fits[OF assms(2,4) that])
  have ok: "\<exists>nlg. plain_http_post net host prt path body auth err_len = (None, nlg)"
    if "auth = None \<or> (\<exists>u p. auth = build_basic_auth u p 512)" for auth
    using plain_post_live[OF assms(3) fit[OF that], of err_len] by (metis prod.collapse)
  show ?thesis
  proof (cases "c_egress_user c = []")
    case True
    obtain nlg where p: "plain_http_post net host prt path body None err_len = (None, nlg)" using ok[of None] by blast
    show ?thesis by (rule exI[of _ nlg]) (simp add: cpe_agent_http_post_def http_opts_of_def non_empty_def opt_str_def True assms(2) p)
  next
    case False
    then obtain h where h: "build_basic_auth (c_egress_user c) (Some (c_egress_password c)) 512 = Some h"
      using auth_of_config[OF assms(1)] by blast
    obtain nlg where p: "plain_http_post net host prt path body (Some h) err_len = (None, nlg)"
      using ok[of "Some h"] h[symmetric] by blast
    show ?thesis by (rule exI[of _ nlg]) (simp add: cpe_agent_http_post_def http_opts_of_def non_empty_def opt_str_def False h assms(2) p)
  qed
qed

section \<open>Emission over the HTTP client\<close>

text \<open>The call of \<^verbatim>\<open>cpe_agent_emit_flush\<close>, with its 160-byte error buffer.\<close>

definition http_accepts :: "'a net_env \<Rightarrow> tls_env option \<Rightarrow> string \<Rightarrow> string \<Rightarrow> http_opts \<Rightarrow> bool" where
  "http_accepts net tls url body opts =
     (case cpe_agent_http_post net tls url body (Some opts) 160 of Some (None, _) \<Rightarrow> True | _ \<Rightarrow> False)"

text \<open>C7: Emission to a collector loses nothing and sends nothing twice: when a flush removes lines from the spool,
  the connection carried exactly one request whose body is those lines, in order, each ended by a
  line feed, and the collector answered 2xx; otherwise the spool is unchanged.\<close>

theorem emit_flush_delivers:
  assumes "spool_ready a" "spool_view a \<noteq> []" "c_emit_mode (ag_cfg a) = ''http'' \<or> c_emit_mode (ag_cfg a) = ''https''"
    and fl: "cpe_agent_emit_flush (http_accepts net tls) open_file wr fls cl out a = ((n, out'), b)"
  shows "n = -1 \<and> b = a \<or>
    0 < n \<and> spool_view b = drop (nat n) (spool_view a) \<and>
    (let body = concat (map (\<lambda>l. l @ [CHR 0x0A]) (take (nat n) (spool_view a))) in
     \<exists>https host prt path nlg tlg. parse_url (c_https_url (ag_cfg a)) 256 16 512 = Some (https, host, prt, path) \<and>
       cpe_agent_http_post net tls (c_https_url (ag_cfg a)) body (Some (http_opts_of (ag_cfg a))) 160 = Some (None, nlg, tlg) \<and>
       wire_bytes (nlg, tlg) = request_header host path body (auth_header (Some (http_opts_of (ag_cfg a)))) @ body)"
proof -
  from emit_http_spec[OF assms(1-3), of "http_accepts net tls" open_file wr fls cl out] obtain m body where
    m: "min 7 (length (spool_view a)) \<le> m" "body = concat (map (\<lambda>l. l @ [CHR 0x0A]) (take m (spool_view a)))"
    and post: "if http_accepts net tls (c_https_url (ag_cfg a)) body (http_opts_of (ag_cfg a))
       then \<exists>b. cpe_agent_emit_flush (http_accepts net tls) open_file wr fls cl out a = ((int m, out), b) \<and>
              spool_view b = drop m (spool_view a) \<and> spool_ready b \<and> ag_spool_drops b = ag_spool_drops a
       else cpe_agent_emit_flush (http_accepts net tls) open_file wr fls cl out a = ((-1, out), a)" by blast
  show ?thesis
  proof (cases "http_accepts net tls (c_https_url (ag_cfg a)) body (http_opts_of (ag_cfg a))")
    case True
    then obtain nlg tlg where hp: "cpe_agent_http_post net tls (c_https_url (ag_cfg a)) body (Some (http_opts_of (ag_cfg a))) 160 = Some (None, nlg, tlg)"
      by (auto simp: http_accepts_def split: option.splits)
    have "n = int m" "spool_view b = drop m (spool_view a)" using post True fl by auto
    moreover have "0 < m" using m(1) assms(2) by (cases "spool_view a") auto
    ultimately show ?thesis using http_post_spec[OF hp] hp m(2) by (auto simp: Let_def)
  next
    case False
    then show ?thesis using post fl by simp
  qed
qed

text \<open>C24: Emission makes progress: with a well-formed configuration, a plain URL and a network that cooperates, a
  flush of a non-empty spool succeeds and removes at least seven lines, or all of them.\<close>

theorem emit_flush_progress:
  assumes "spool_ready a" "spool_view a \<noteq> []" "c_emit_mode (ag_cfg a) = ''http''" "cfg_wf (ag_cfg a)"
    and "parse_url (c_https_url (ag_cfg a)) 256 16 512 = Some (False, host, prt, path)" "cooperative net host prt"
  shows "\<exists>n b. cpe_agent_emit_flush (http_accepts net tls) open_file wr fls cl out a = ((int n, out), b) \<and>
    min 7 (length (spool_view a)) \<le> n \<and> spool_view b = drop n (spool_view a) \<and> spool_ready b"
proof -
  from emit_http_spec[OF assms(1,2) disjI1[OF assms(3)], of "http_accepts net tls" open_file wr fls cl out] obtain m body where
    m: "min 7 (length (spool_view a)) \<le> m" "length body < 6144"
    and post: "if http_accepts net tls (c_https_url (ag_cfg a)) body (http_opts_of (ag_cfg a))
       then \<exists>b. cpe_agent_emit_flush (http_accepts net tls) open_file wr fls cl out a = ((int m, out), b) \<and>
              spool_view b = drop m (spool_view a) \<and> spool_ready b \<and> ag_spool_drops b = ag_spool_drops a
       else cpe_agent_emit_flush (http_accepts net tls) open_file wr fls cl out a = ((-1, out), a)" by blast
  have "http_accepts net tls (c_https_url (ag_cfg a)) body (http_opts_of (ag_cfg a))"
    using http_post_live[OF assms(4-6), of body tls 160] m(2) by (auto simp: http_accepts_def)
  with post m show ?thesis by auto
qed

section \<open>Witnesses\<close>

definition lab_net :: "unit net_env" where
  "lab_net = \<lparr> ne_resolve = (\<lambda>_ _ _. Inr [()]), ne_socket = (\<lambda>_. 3), ne_connect = (\<lambda>_. True), ne_strerror = ''ok'',
     ne_send = (\<lambda>k n. int n), ne_poll = True, ne_recv = ''HTTP/1.1 200 OK'' @ crlf @ crlf \<rparr>"

definition lab_tls :: tls_env where
  "lab_tls = \<lparr> le_seed = 0, le_parse_crt = (\<lambda>_. True), le_parse_key = (\<lambda>_. True), le_connect = (\<lambda>_ _. 0), le_config_defaults = 0,
     le_own_cert = True, le_setup = True, le_set_hostname = (\<lambda>_. True), le_want = (\<lambda>r. r = - 26880), le_handshake = (\<lambda>j. if j = 0 then - 26880 else 0),
     le_write = (\<lambda>k n. int n), le_read = Inr (''HTTP/1.1 204 No Content'' @ crlf) \<rparr>"

definition lab_opts :: http_opts where
  "lab_opts = \<lparr> ho_username = None, ho_password = [], ho_ca_file = Some ''ca'', ho_cert_file = None, ho_key_file = None, ho_tls_insecure = False \<rparr>"

lemma lab_handshake: "handshake_loop lab_tls 0 = Some 0"
  by (simp add: handshake_loop.simps[of _ 0] handshake_loop.simps[of _ "Suc 0"] lab_tls_def Let_def)

lemma lab_cooperative: "cooperative lab_net host prt"
  by (simp add: cooperative_def lab_net_def http_status_ok_def crlf_def)

lemma send_all_whole:
  assumes "\<And>k n. wr k n = int n" "buf \<noteq> []"
  shows "send_all wr act buf 0 k lg = (None, k + 1, lg @ [act buf])"
  using assms by (subst send_all.simps) (simp add: Let_def send_all.simps[of _ _ _ "length buf"])

lemma lab_https_post:
  "mbedtls_https_post (Some lab_tls) ''h'' ''443'' ''/'' ''x'' None (Some lab_opts) 160 =
     Some (None, [Connect ''h'' ''443'', Authmode VERIFY_REQUIRED, Ca_chain ''ca'', Hostname ''h'', Handshake,
       Written (request_header ''h'' ''/'' ''x'' None), Written ''x'', Close_notify, Freed])"
proof -
  have "tls_setup lab_tls ''h'' ''443'' (Some lab_opts) 160 =
      (None, [Connect ''h'' ''443'', Authmode VERIFY_REQUIRED, Ca_chain ''ca'', Hostname ''h''])"
    by (simp add: tls_setup_def lab_tls_def lab_opts_def opt_str_def auth_actions_def)
  moreover have "request_header ''h'' ''/'' ''x'' None \<noteq> []" "length (request_header ''h'' ''/'' ''x'' None) < 1536"
    by (simp_all add: request_header_def crlf_def dec.simps)
  moreover have "le_write lab_tls k n = int n" for k n by (simp add: lab_tls_def)
  moreover have "le_read lab_tls = Inr (''HTTP/1.1 204 No Content'' @ crlf)" by (simp add: lab_tls_def)
  ultimately show ?thesis using lab_handshake
    by (simp add: mbedtls_https_post_def tls_exchange_def send_all_whole http_status_ok_def crlf_def tls_cleanup_def Let_def)
qed

theorem tls_write_after_verification_witness:
  "\<exists>chunks rest. [Connect ''h'' ''443'', Authmode VERIFY_REQUIRED, Ca_chain ''ca'', Hostname ''h'', Handshake,
       Written (request_header ''h'' ''/'' ''x'' None), Written ''x'', Close_notify, Freed] =
     [Connect ''h'' ''443'', Authmode VERIFY_REQUIRED, Ca_chain ''ca'', Hostname ''h'', Handshake] @ map Written chunks @ [Close_notify, Freed] \<and>
     request_header ''h'' ''/'' ''x'' None @ ''x'' = concat chunks @ rest"
  using tls_write_after_verification[OF lab_https_post, of "''x''"] by (simp add: lab_opts_def opt_str_def) (metis append_Nil2)

lemma lab_http_post:
  "\<exists>nlg. cpe_agent_http_post lab_net None ''http://c/ingest'' body (Some (http_opts_of (cpe_agent_config_defaults\<lparr>c_https_url := ''http://c/ingest''\<rparr>))) 160
     = Some (None, nlg, [])" if "length body < 2 ^ 64"
  using http_post_live[of "cpe_agent_config_defaults\<lparr>c_https_url := ''http://c/ingest''\<rparr>" "''c''" "''80''" "''/ingest''" lab_net body None 160]
    that lab_cooperative[of "''c''" "''80''"]
  by (simp add: cfg_wf_def cpe_agent_config_defaults_def parse_url_def parse_authority_def Let_def cstr_def)

theorem http_post_complete_witness:
  "\<exists>nlg. opened_fds nlg = shut_fds nlg \<and> wire_bytes (nlg, []) = request_header ''c'' ''/ingest'' ''x'' None @ ''x''"
proof -
  let ?opts = "Some (http_opts_of (cpe_agent_config_defaults\<lparr>c_https_url := ''http://c/ingest''\<rparr>))"
  obtain nlg where nlg: "cpe_agent_http_post lab_net None ''http://c/ingest'' ''x'' ?opts 160 = Some (None, nlg, [])"
    using lab_http_post[of "''x''"] by auto
  have "auth_header ?opts = None"
    by (simp add: auth_header_def http_opts_of_def non_empty_def cpe_agent_config_defaults_def build_basic_auth_def opt_str_def)
  moreover have "parse_url ''http://c/ingest'' 256 16 512 = Some (False, ''c'', ''80'', ''/ingest'')"
    by (simp add: parse_url_def parse_authority_def Let_def cstr_def)
  ultimately show ?thesis using http_post_complete[OF nlg] by auto
qed

lemma http_agent_cfg:
  "ag_cfg (http_agent ls) = cpe_agent_config_defaults\<lparr>c_emit_mode := ''http'', c_https_url := ''http://c/ingest''\<rparr>"
proof -
  have "ag_cfg (fold spool_push ls a) = ag_cfg a" for ls and a :: "(unit, unit, unit, unit) cpe_agent"
    by (induction ls arbitrary: a) (simp_all add: spool_push_def spool_push_frame)
  then show ?thesis
    by (simp add: http_agent_def Let_def agent_with_spool_def ensure_spool_def agent00_def agent0_def free_spool_def)
qed

lemma http_agent_ready:
  "cfg_wf (ag_cfg (http_agent ls))"
  "parse_url (c_https_url (ag_cfg (http_agent ls))) 256 16 512 = Some (False, ''c'', ''80'', ''/ingest'')"
  by (simp_all add: http_agent_cfg cfg_wf_def cpe_agent_config_defaults_def parse_url_def parse_authority_def Let_def cstr_def)

theorem emit_flush_progress_witness:
  "\<exists>n b. cpe_agent_emit_flush (http_accepts lab_net None) (\<lambda>_. None) (\<lambda>_ _. None) (\<lambda>_. True) (\<lambda>_. True) () (http_agent [''a'', ''b'']) =
     ((int n, ()), b) \<and> 2 \<le> n \<and> spool_view b = []"
  using emit_flush_progress[OF http_agent_facts(1) _ http_agent_facts(3) http_agent_ready lab_cooperative,
      of None "\<lambda>_. None" "\<lambda>_ _. None" "\<lambda>_. True" "\<lambda>_. True" "()"]
  by (force simp: http_agent_facts)

theorem emit_flush_delivers_witness:
  "\<exists>n b. cpe_agent_emit_flush (http_accepts lab_net None) (\<lambda>_. None) (\<lambda>_ _. None) (\<lambda>_. True) (\<lambda>_. True) () (http_agent [''a'', ''b'']) =
     ((n, ()), b) \<and> (n = -1 \<and> b = http_agent [''a'', ''b''] \<or> 0 < n \<and> spool_view b = drop (nat n) [''a'', ''b''])"
proof -
  obtain n u b where fl: "cpe_agent_emit_flush (http_accepts lab_net None) (\<lambda>_. None) (\<lambda>_ _. None) (\<lambda>_. True) (\<lambda>_. True) () (http_agent [''a'', ''b'']) =
     ((n, u), b)" by (metis prod.collapse)
  show ?thesis using emit_flush_delivers[OF http_agent_facts(1) _ _ fl] fl by (auto simp: http_agent_facts)
qed

end
