(* ===== verification/Ch_Query.thy ===== *)
theory Ch_Query
  imports Tls_Egress Ipc_Request "HOL-Library.Monad_Syntax" "HOL-Library.Char_ord"
begin

text \<open>
  \<^verbatim>\<open>agent/ctl_ch_query.c\<close>: the ClickHouse client of \<^verbatim>\<open>cpe_ctl\<close>. The query text, the HTTP exchange,
  the decoding of chunked bodies and the table that is printed. Sockets and allocation are
  parameters. The response buffer is the received bytes and the NUL that is stored behind them; reading
  a byte after that NUL, which was never written, makes the result \<open>None\<close>.
\<close>

section \<open>Arguments\<close>

record cpe_ctl_ch_opts =
  qo_url :: "string option"
  qo_user :: "string option"
  qo_password :: "string option"
  qo_table :: "string option"
  qo_router_id :: "string option"
  qo_limit :: u32

text \<open>The host and the port, or the negative result.\<close>

definition parse_base_url :: "string \<Rightarrow> nat \<Rightarrow> nat \<Rightarrow> int + (string \<times> string)" where
  "parse_base_url url host_sz port_sz =
     (if take 7 url \<noteq> ''http://'' \<and> take 8 url = ''https://'' then Inl (-2)
      else
        (let p = (if take 7 url = ''http://'' then drop 7 url else url);
             before = takeWhile (\<lambda>c. c \<noteq> CHR ''/'') p
         in if CHR '':'' \<in> set before then
              (let host = takeWhile (\<lambda>c. c \<noteq> CHR '':'') before;
                   prt = tl (dropWhile (\<lambda>c. c \<noteq> CHR '':'') before)
               in if host = [] \<or> length host \<ge> host_sz then Inl (-1)
                  else if prt = [] \<or> length prt \<ge> port_sz then Inl (-1)
                  else Inr (host, prt))
            else if before = [] \<or> length before \<ge> host_sz then Inl (-1)
            else Inr (before, cstr port_sz ''8123'')))"

definition ident_char :: "char \<Rightarrow> bool" where
  "ident_char c \<longleftrightarrow> (CHR ''a'' \<le> c \<and> c \<le> CHR ''z'') \<or> (CHR ''A'' \<le> c \<and> c \<le> CHR ''Z'') \<or>
     (CHR ''0'' \<le> c \<and> c \<le> CHR ''9'') \<or> c = CHR ''_'' \<or> c = CHR ''.'' \<or> c = CHR ''-''"

definition sql_ident_ok :: "string \<Rightarrow> bool" where
  "sql_ident_ok s \<longleftrightarrow> s \<noteq> [] \<and> list_all ident_char s"

section \<open>The exchange\<close>

text \<open>
  \<open>qe_net\<close> has name resolution, sockets and \<^verbatim>\<open>send\<close>; \<open>qe_malloc\<close> tells whether both allocations
  succeed; \<open>qe_poll k\<close> whether the \<open>k\<close>-th poll reports data; \<open>qe_recv k n\<close> is what the \<open>k\<close>-th
  \<^verbatim>\<open>recv\<close> with room for \<open>n\<close> bytes stores, empty when it returns 0 or fails.
\<close>

record 'a query_env =
  qe_net :: "'a net_env"
  qe_malloc :: bool
  qe_poll :: "nat \<Rightarrow> bool"
  qe_recv :: "nat \<Rightarrow> nat \<Rightarrow> string"

definition ch_tcp_connect :: "'a net_env \<Rightarrow> string \<Rightarrow> string \<Rightarrow> nat \<Rightarrow> (string + int) \<times> net_action list" where
  "ch_tcp_connect env host prt err_len =
     (let res = (case ne_resolve env True host prt of Inl _ \<Rightarrow> ne_resolve env False host prt | Inr rs \<Rightarrow> Inr rs) in
      case res of
        Inl e \<Rightarrow> (Inl (cstr err_len (''getaddrinfo: '' @ e)), [])
      | Inr rs \<Rightarrow>
          (let (fd, lg) = try_connect env rs (-1) []
           in if fd < 0 then (Inl (cstr err_len (''connect '' @ host @ '':'' @ prt @ '' failed'')), lg) else (Inr fd, lg)))"

definition ch_request :: "string \<Rightarrow> string \<Rightarrow> string \<Rightarrow> string \<Rightarrow> string" where
  "ch_request host user password sql =
     ''POST /?default_format=JSONEachRow HTTP/1.1'' @ crlf @ ''Host: '' @ host @ crlf @
     ''Content-Type: text/plain; charset=utf-8'' @ crlf @ ''Content-Length: '' @ dec (length sql) @ crlf @
     ''Connection: close'' @ crlf @
     (if user = [] then [] else ''X-ClickHouse-User: '' @ user @ crlf) @
     (if password = [] then [] else ''X-ClickHouse-Key: '' @ password @ crlf) @ crlf @ sql"

text \<open>The receive loop: call number, bytes so far.\<close>

function read_response :: "'a query_env \<Rightarrow> nat \<Rightarrow> nat \<Rightarrow> string \<Rightarrow> string" where
  "read_response env cap k resp =
     (if \<not> qe_poll env k then resp
      else if length resp + 1 \<ge> cap then resp
      else
        (let room = cap - length resp - 1; d = take room (qe_recv env k room) in
         if d = [] then resp else read_response env cap (k + 1) (resp @ d)))"
  by pat_completeness auto
termination
  by (relation "measure (\<lambda>(env, cap, k, resp). cap - length resp)") (auto simp: min_def simp flip: length_greater_0_conv)

declare read_response.simps [simp del]

section \<open>The response\<close>

definition xdigit_val :: "char \<Rightarrow> nat option" where
  "xdigit_val c =
     (if is_digit c then Some (of_char c - 48)
      else if CHR ''a'' \<le> c \<and> c \<le> CHR ''f'' then Some (of_char c - 87)
      else if CHR ''A'' \<le> c \<and> c \<le> CHR ''F'' then Some (of_char c - 55)
      else None)"

definition is_hex :: "char \<Rightarrow> bool" where
  "is_hex c \<longleftrightarrow> xdigit_val c \<noteq> None"

definition hex_digits_val :: "string \<Rightarrow> nat" where
  "hex_digits_val ds = foldl (\<lambda>a c. a * 16 + the (xdigit_val c)) 0 ds"

text \<open>
  \<^verbatim>\<open>strtoul(s, &end, 16)\<close>: as \<^const>\<open>strtoul\<close>, with an optional \<^verbatim>\<open>0x\<close>. A NUL is neither white space
  nor a digit, so the text may be followed by other bytes.
\<close>

definition skip_sign :: "string \<Rightarrow> string" where
  "skip_sign s = (if s \<noteq> [] \<and> (hd s = CHR ''-'' \<or> hd s = CHR ''+'') then tl s else s)"

definition skip_0x :: "string \<Rightarrow> string" where
  "skip_0x s =
     (case s of z # x # d # r \<Rightarrow> if z = CHR ''0'' \<and> (x = CHR ''x'' \<or> x = CHR ''X'') \<and> is_hex d then d # r else s
      | _ \<Rightarrow> s)"

definition strtoul16 :: "string \<Rightarrow> (nat \<times> string) option" where
  "strtoul16 s =
     (let s1 = dropWhile isspace s;
          neg = (s1 \<noteq> [] \<and> hd s1 = CHR ''-'');
          s2 = skip_0x (skip_sign s1);
          ds = takeWhile is_hex s2
      in if ds = [] then None
         else let v = hex_digits_val ds
              in Some ((if 2 ^ 64 \<le> v then 2 ^ 64 - 1 else if neg then (2 ^ 64 - v) mod 2 ^ 64 else v), dropWhile is_hex s2))"

definition tolower :: "char \<Rightarrow> char" where
  "tolower c = (if CHR ''A'' \<le> c \<and> c \<le> CHR ''Z'' then char_of ((of_char c :: nat) + 32) else c)"

definition blank :: "char \<Rightarrow> bool" where
  "blank c \<longleftrightarrow> c = CHR '' '' \<or> c = CHR 0x09"

text \<open>
  The search for the transfer encoding. \<open>h\<close> is the text from the current header on, \<open>n\<close> the distance
  to the body. Only the 17 characters before the colon are compared, and the value is read from the
  character after them.
\<close>

function te_chunked :: "string \<Rightarrow> nat \<Rightarrow> bool" where
  "te_chunked h n =
     (if 17 < n then
        if map tolower (take 17 h) = ''transfer-encoding'' then
          map tolower (take 7 (dropWhile blank (drop 17 h))) = ''chunked''
        else
          (case strstr h crlf of None \<Rightarrow> False
           | Some nl \<Rightarrow> let k = length h - length nl in if k \<ge> n then False else te_chunked (drop 2 nl) (n - (k + 2)))
      else False)"
  by pat_completeness auto
termination
  by (relation "measure (\<lambda>(h, n). n)") auto

declare te_chunked.simps [simp del]

definition looks_chunked :: "string \<Rightarrow> bool" where
  "looks_chunked body \<longleftrightarrow> body \<noteq> [] \<and>
     (case strtoul16 body of None \<Rightarrow> False
      | Some (csz, e) \<Rightarrow> csz > 0 \<and> (take 3 e = crlf @ ''{'' \<or> take 2 e = [CHR 0x0A, CHR ''{'']))"

text \<open>Reads of the buffer: a pointer is the rest of the buffer.\<close>

definition skip_char :: "char \<Rightarrow> string \<Rightarrow> string option" where
  \<comment> \<open>\<^verbatim>\<open>if (*p == c) p++\<close>\<close>
  "skip_char c p = (case p of [] \<Rightarrow> None | x # q \<Rightarrow> Some (if x = c then q else p))"

definition skip_eol :: "string \<Rightarrow> string option" where
  "skip_eol p = do { p \<leftarrow> skip_char (CHR 0x0D) p; skip_char (CHR 0x0A) p }"

lemma skip_0x_le: "length (skip_0x s) \<le> length s"
  by (auto simp: skip_0x_def split: list.split)

lemma strtoul16_shorter: "strtoul16 s = Some (v, e) \<Longrightarrow> length e < length s"
proof -
  assume a: "strtoul16 s = Some (v, e)"
  define t where "t = skip_0x (skip_sign (dropWhile isspace s))"
  have e: "e = dropWhile is_hex t" "takeWhile is_hex t \<noteq> []"
    using a by (auto simp: strtoul16_def Let_def t_def split: if_splits)
  have "length (takeWhile is_hex t) + length e = length t"
    unfolding e(1) by (metis length_append takeWhile_dropWhile_id)
  moreover have "length t \<le> length (skip_sign (dropWhile isspace s))" unfolding t_def by (rule skip_0x_le)
  moreover have "length (skip_sign (dropWhile isspace s)) \<le> length (dropWhile isspace s)" by (simp add: skip_sign_def)
  moreover have "length (dropWhile isspace s) \<le> length s" by (rule length_dropWhile_le)
  moreover have "0 < length (takeWhile is_hex t)" using e(2) by simp
  ultimately show ?thesis by linarith
qed

lemma skip_char_le: "skip_char c p = Some q \<Longrightarrow> length q \<le> length p"
  by (auto simp: skip_char_def split: list.splits if_splits)

lemma skip_eol_le: "skip_eol p = Some q \<Longrightarrow> length q \<le> length p"
  unfolding skip_eol_def by (auto simp: Option.bind_eq_Some_conv dest!: skip_char_le)

text \<open>
  The copy loop. \<open>out\<close> is what was copied so far, so \<^verbatim>\<open>o\<close> is its length. \<^verbatim>\<open>o + chunk\<close> is computed in
  64 bits. \<open>None\<close>: a copy that leaves the response or the output buffer.
\<close>

function dechunk :: "nat \<Rightarrow> string \<Rightarrow> string \<Rightarrow> string option" where
  "dechunk out_sz p out =
     (case p of [] \<Rightarrow> None
      | c # _ \<Rightarrow>
          if c = CHR 0x00 \<or> \<not> length out + 1 < out_sz then Some out
          else
            (case strtoul16 p of None \<Rightarrow> Some out
             | Some (chunk, e) \<Rightarrow>
                 (case skip_eol e of None \<Rightarrow> None
                  | Some p \<Rightarrow>
                      if chunk = 0 then Some out
                      else
                        (let chunk = (if (length out + chunk) mod 2 ^ 64 \<ge> out_sz then out_sz - length out - 1 else chunk) in
                         if length p < chunk \<or> length out + chunk \<ge> out_sz then None
                         else (case skip_eol (drop chunk p) of None \<Rightarrow> None
                               | Some q \<Rightarrow> dechunk out_sz q (out @ take chunk p))))))"
  by pat_completeness auto
termination
  by (relation "measure (\<lambda>(out_sz, p, out). length p)")
    (auto dest!: strtoul16_shorter skip_eol_le split: if_splits)

declare dechunk.simps [simp del]

definition http_status :: "string \<Rightarrow> int" where
  \<comment> \<open>of the response as a C string\<close>
  "http_status c =
     (if take 5 c = ''HTTP/'' \<and> CHR '' '' \<in> set c then atoi (tl (dropWhile (\<lambda>x. x \<noteq> CHR '' '') c)) else 0)"

definition response_body :: "string \<Rightarrow> string" where
  "response_body c =
     (case strstr c (crlf @ crlf) of Some r \<Rightarrow> drop 4 r
      | None \<Rightarrow> (case strstr c [CHR 0x0A, CHR 0x0A] of Some r \<Rightarrow> drop 2 r | None \<Rightarrow> c))"

text \<open>From the received bytes to an error text or the result text.\<close>

definition ch_response :: "nat \<Rightarrow> nat \<Rightarrow> string \<Rightarrow> (string + string) option" where
  "ch_response out_sz err_len resp =
     (let c = takeWhile (\<lambda>x. x \<noteq> CHR 0x00) resp;
          status = http_status c;
          body = response_body c;
          hdr_len = length c - length body
      in if status \<noteq> 200 then Some (Inl (cstr err_len (''HTTP '' @ int_dec status @ '': '' @ take 160 body)))
         else if te_chunked c hdr_len \<or> looks_chunked body
         then map_option Inr (dechunk out_sz (drop hdr_len (resp @ [CHR 0x00])) [])
         else Some (Inr (cstr out_sz body)))"

definition http_post_sql ::
  "'a query_env \<Rightarrow> string \<Rightarrow> string \<Rightarrow> string \<Rightarrow> string \<Rightarrow> string \<Rightarrow> nat \<Rightarrow> nat \<Rightarrow> (string + string) option \<times> net_action list" where
  \<comment> \<open>a part of the request that does not fit is a request that does not fit\<close>
  "http_post_sql env host prt user password sql out_sz err_len =
     (if out_sz < 8 then (Some (Inl []), [])
      else case ch_tcp_connect (qe_net env) host prt err_len of
        (Inl e, lg) \<Rightarrow> (Some (Inl e), lg)
      | (Inr fd, lg) \<Rightarrow>
          if \<not> qe_malloc env then (Some (Inl (cstr err_len ''oom'')), lg @ [Closed fd])
          else
            (let req = ch_request host user password sql in
             if length req \<ge> length sql + 768 then (Some (Inl []), lg @ [Closed fd])
             else
               (let (r, k, lg1) = send_all (ne_send (qe_net env)) (Sent fd) req 0 0 lg in
                if r \<noteq> None then (Some (Inl (cstr err_len ''send failed'')), lg1 @ [Closed fd])
                else (ch_response out_sz err_len (read_response env (out_sz + 8192) 0 []), lg1 @ [Closed fd]))))"

section \<open>The query\<close>

definition ch_columns :: string where
  "ch_columns =
     ''SELECT router_id, ts, event, flow_id, proto, lan_ip, lan_port, '' @
     ''wan_ip, wan_port, remote_ip, remote_port, bytes_up, bytes_down, '' @
     ''rate_up_bps, rate_down_bps, duration_ms, state ''"

definition ch_rid :: "string \<Rightarrow> string" where
  \<comment> \<open>the filter loop stops when the 96-byte buffer is full\<close>
  "ch_rid r = take 95 (filter ident_char r)"

definition ch_sql :: "string \<Rightarrow> string \<Rightarrow> nat \<Rightarrow> string" where
  "ch_sql table rid limit =
     ch_columns @ ''FROM '' @ table @
     (if rid = [] then [] else '' WHERE router_id = '' @ [CHR 0x27] @ rid @ [CHR 0x27]) @
     '' ORDER BY ts DESC LIMIT '' @ dec limit"

definition ch_limit :: "u32 \<Rightarrow> nat" where
  "ch_limit l = (let l = (if l = 0 then 50 else l) in if l > 500 then 500 else unat l)"

definition cpe_ctl_ch_query_flows ::
  "'a query_env \<Rightarrow> cpe_ctl_ch_opts \<Rightarrow> nat \<Rightarrow> nat \<Rightarrow> (string + string) option \<times> net_action list" where
  "cpe_ctl_ch_query_flows env opt out_sz err_len =
     (if out_sz < 16 then (Some (Inl (cstr err_len ''bad args'')), [])
      else
        (let url = str_or (opt_str (qo_url opt)) ''http://127.0.0.1:8123'';
             user = str_or (opt_str (qo_user opt)) ''default'';
             table = str_or (opt_str (qo_table opt)) ''edgehost.cpe_flows'';
             limit = ch_limit (qo_limit opt)
         in if \<not> sql_ident_ok table then (Some (Inl (cstr err_len ''invalid table name'')), [])
            else case parse_base_url url 256 16 of
              Inl prc \<Rightarrow>
                if prc = -2 then (Some (Inl (cstr err_len ''https CH URL not supported in cpe_ctl; use http://'')), [])
                else (Some (Inl (cstr err_len ''bad --ch-url'')), [])
            | Inr (host, prt) \<Rightarrow>
                (let sql = ch_sql table (ch_rid (opt_str (qo_router_id opt))) limit in
                 if length sql \<ge> 768 then (Some (Inl (cstr err_len ''sql overflow'')), [])
                 else http_post_sql env host prt user (opt_str (qo_password opt)) sql out_sz err_len)))"

section \<open>Printing\<close>

definition ch_field :: "string \<Rightarrow> string \<Rightarrow> string \<Rightarrow> string option" where
  \<comment> \<open>the text after the pattern, which has to fit 64 bytes\<close>
  "ch_field line key suffix =
     (let pat = [CHR 0x22] @ key @ suffix in
      if length pat \<ge> 64 then None else map_option (drop (length pat)) (strstr line pat))"

text \<open>The callers ignore the result; the output is empty when the key is not found.\<close>

definition ch_json_get_str :: "string \<Rightarrow> string \<Rightarrow> nat \<Rightarrow> string" where
  \<open>ch_json_get_str line key n =
     (case ch_field line key ''":"'' of None \<Rightarrow> [] | Some p \<Rightarrow> unquote (n - 1) p)\<close>

definition json_get_num :: "string \<Rightarrow> string \<Rightarrow> nat \<Rightarrow> string" where
  \<open>json_get_num line key n =
     (case ch_field line key ''":'' of None \<Rightarrow> []
      | Some p \<Rightarrow> cstr n (takeWhile (\<lambda>c. c \<noteq> CHR '','' \<and> c \<noteq> CHR ''}'') (dropWhile (\<lambda>c. c = CHR '' '') p)))\<close>

definition padr :: "nat \<Rightarrow> string \<Rightarrow> string" where
  \<comment> \<open>\<^verbatim>\<open>%-ws\<close>\<close>
  "padr w s = s @ replicate (w - length s) (CHR '' '')"

definition padl :: "nat \<Rightarrow> string \<Rightarrow> string" where
  \<comment> \<open>\<^verbatim>\<open>%ws\<close>\<close>
  "padl w s = replicate (w - length s) (CHR '' '') @ s"

definition flow_line :: "string \<Rightarrow> string \<Rightarrow> string \<Rightarrow> string \<Rightarrow> string \<Rightarrow> string \<Rightarrow> string \<Rightarrow> string \<Rightarrow> string" where
  "flow_line a b c d e f g h =
     padr 12 a @ '' '' @ padr 10 b @ '' '' @ padr 5 c @ '' '' @ padr 22 d @ '' '' @ padr 22 e @ '' '' @
     padl 12 f @ '' '' @ padl 12 g @ '' '' @ padr 20 h @ [CHR 0x0A]"

definition flow_row :: "string \<Rightarrow> string" where
  "flow_row line =
     (let lan = cstr 80 (ch_json_get_str line ''lan_ip'' 64 @ '':'' @ json_get_num line ''lan_port'' 16);
          remote = cstr 80 (ch_json_get_str line ''remote_ip'' 64 @ '':'' @ json_get_num line ''remote_port'' 16)
      in flow_line (ch_json_get_str line ''router_id'' 64) (ch_json_get_str line ''event'' 24)
           (json_get_num line ''proto'' 12) lan remote
           (json_get_num line ''bytes_up'' 24) (json_get_num line ''bytes_down'' 24) (ch_json_get_str line ''ts'' 40))"

definition ch_trim_end :: "string \<Rightarrow> string" where
  \<comment> \<open>the trailing carriage returns and spaces\<close>
  "ch_trim_end s = rev (dropWhile (\<lambda>c. c = CHR 0x0D \<or> c = CHR '' '') (rev s))"

text \<open>The loop over the lines: what is printed and the number of rows.\<close>

function print_rows :: "string \<Rightarrow> string \<times> nat" where
  "print_rows p =
     (if p = [] then ([], 0)
      else
        (let line = ch_trim_end (take 2047 (takeWhile (\<lambda>c. c \<noteq> CHR 0x0A) p));
             is_row = (line \<noteq> [] \<and> hd line = CHR ''{'');
             eol = dropWhile (\<lambda>c. c \<noteq> CHR 0x0A) p;
             (text, rows) = (if eol = [] then ([], 0) else print_rows (tl eol))
         in ((if is_row then flow_row line else []) @ text, rows + (if is_row then 1 else 0))))"
  by pat_completeness auto
termination
proof (relation "measure length", goal_cases)
  case (2 p)
  then show ?case
    using length_dropWhile_le[of "\<lambda>c. c \<noteq> CHR 0x0A" p] by (cases p) (auto simp: neq_Nil_conv)
qed simp

declare print_rows.simps [simp del]

definition cpe_ctl_ch_print_flows :: "string \<Rightarrow> string \<times> nat" where
  "cpe_ctl_ch_print_flows json =
     (let (text, rows) = print_rows json in
      (flow_line ''router_id'' ''event'' ''proto'' ''lan'' ''remote'' ''bytes_up'' ''bytes_down'' ''ts'' @
       flow_line ''------------'' ''----------'' ''-----'' ''----------------------'' ''----------------------''
         ''------------'' ''------------'' ''--------------------'' @
       text @ (if rows = 0 then ''(no rows)'' @ [CHR 0x0A] else []), rows))"

section \<open>Chunked bodies\<close>

lemma strstr_skip: "pat \<noteq> [] \<Longrightarrow> hd pat \<notin> set pre \<Longrightarrow> strstr (pre @ s) pat = strstr s pat"
  by (induction pre) (auto simp: take_Cons' neq_Nil_conv)

lemma hex_digit_facts:
  "d < 16 \<Longrightarrow> xdigit_val (hex_digit d) = Some d \<and> \<not> isspace (hex_digit d) \<and> hex_digit d \<notin> {CHR ''-'', CHR ''+'', CHR ''x'', CHR ''X''}"
proof -
  have "list_all (\<lambda>d. xdigit_val (hex_digit d) = Some d \<and> \<not> isspace (hex_digit d) \<and>
    hex_digit d \<notin> {CHR ''-'', CHR ''+'', CHR ''x'', CHR ''X''}) [0..<16]"
    by code_simp
  then show "d < 16 \<Longrightarrow> ?thesis" by (simp add: list_all_iff)
qed

lemma hex_chars:
  "c \<in> set (hex n) \<Longrightarrow> is_hex c \<and> \<not> isspace c \<and> c \<notin> {CHR ''-'', CHR ''+'', CHR ''x'', CHR ''X''}"
proof (induction n rule: hex.induct)
  case (1 n)
  then show ?case
    using hex_digit_facts[of n] hex_digit_facts[of "n mod 16"]
    by (subst (asm) hex.simps) (auto simp: is_hex_def split: if_splits)
qed

lemma hex_nonempty [simp]: "hex n \<noteq> []"
  by (subst hex.simps) simp

lemma hex_digits_val_hex [simp]: "hex_digits_val (hex n) = n"
proof (induction n rule: hex.induct)
  case (1 n)
  then show ?case
    by (subst hex.simps) (auto simp: hex_digits_val_def hex_digit_facts)
qed

lemma not_hex_cr [simp]: "\<not> is_hex (CHR 0x0D)"
  by (simp add: is_hex_def xdigit_val_def is_digit_def less_eq_char_def)

lemma skip_0x_id: "length s < 2 \<or> s ! 1 \<notin> {CHR ''x'', CHR ''X''} \<Longrightarrow> skip_0x s = s"
  by (auto simp: skip_0x_def split: list.split)

text \<open>A chunk size is read back.\<close>

lemma strtoul16_hex:
  assumes "n < 2 ^ 64"
  shows "strtoul16 (hex n @ CHR 0x0D # r) = Some (n, CHR 0x0D # r)"
proof -
  obtain c cs where h: "hex n = c # cs" by (meson hex_nonempty neq_Nil_conv)
  have c: "\<not> isspace c" "c \<noteq> CHR ''-''" "c \<noteq> CHR ''+''" using hex_chars[of c n] h by auto
  have "(hex n @ CHR 0x0D # r) ! 1 \<notin> {CHR ''x'', CHR ''X''}"
    using h hex_chars[of "hd cs" n] by (cases cs) auto
  then have s: "skip_0x (skip_sign (dropWhile isspace (hex n @ CHR 0x0D # r))) = hex n @ CHR 0x0D # r"
    using h c by (simp add: skip_sign_def skip_0x_id)
  have "takeWhile is_hex (hex n @ CHR 0x0D # r) = hex n" "dropWhile is_hex (hex n @ CHR 0x0D # r) = CHR 0x0D # r"
    using hex_chars[of _ n] by (simp_all add: takeWhile_append2 dropWhile_append2)
  moreover have "dropWhile isspace (hex n @ CHR 0x0D # r) = hex n @ CHR 0x0D # r" "hd (hex n @ CHR 0x0D # r) = c"
    using h c by simp_all
  ultimately show ?thesis using s c(2) assms by (simp add: strtoul16_def Let_def)
qed

text \<open>A body as the server sends it: every chunk with its size, then the empty chunk.\<close>

definition encode_chunk :: "string \<Rightarrow> string" where
  "encode_chunk d = hex (length d) @ crlf @ d @ crlf"

definition last_chunk :: string where
  "last_chunk = ''0'' @ crlf @ crlf"

definition chunked_body :: "string list \<Rightarrow> string" where
  "chunked_body ds = concat (map encode_chunk ds) @ last_chunk"

lemma skip_eol_crlf [simp]: "skip_eol (CHR 0x0D # CHR 0x0A # r) = Some r"
  by (simp add: skip_eol_def skip_char_def)

lemma skip_eol_some: "3 \<le> length s \<Longrightarrow> \<exists>q. skip_eol s = Some q \<and> q \<noteq> []"
  by (auto simp: skip_eol_def skip_char_def numeral_3_eq_3 Suc_le_length_iff)

lemma dechunk_full: "p \<noteq> [] \<Longrightarrow> out_sz \<le> length out + 1 \<Longrightarrow> dechunk out_sz p out = Some out"
  by (subst dechunk.simps) (auto split: list.split)

lemma dechunk_step:
  assumes "d \<noteq> []" "length out + length d < 2 ^ 64" "length out + 1 < out_sz" "r \<noteq> []"
  shows "dechunk out_sz (encode_chunk d @ r) out =
    (if length out + length d < out_sz then dechunk out_sz r (out @ d) else Some (out @ take (out_sz - length out - 1) d))"
proof -
  have p: "encode_chunk d @ r = hex (length d) @ CHR 0x0D # CHR 0x0A # d @ crlf @ r" by (simp add: encode_chunk_def crlf_def)
  obtain c cs where h: "hex (length d) = c # cs" by (meson hex_nonempty neq_Nil_conv)
  have c: "c \<noteq> CHR 0x00" using line_safe_hex[of "length d"] h by auto
  define k where "k = (if length out + length d \<ge> out_sz then out_sz - length out - 1 else length d)"
  have st: "strtoul16 (hex (length d) @ CHR 0x0D # CHR 0x0A # d @ crlf @ r) = Some (length d, CHR 0x0D # CHR 0x0A # d @ crlf @ r)"
    using assms(2) by (intro strtoul16_hex) simp
  have k: "k \<le> length d" "length out + k < out_sz" using assms(3) by (auto simp: k_def)
  have "dechunk out_sz (encode_chunk d @ r) out =
    (case skip_eol (drop k (d @ crlf @ r)) of None \<Rightarrow> None | Some q \<Rightarrow> dechunk out_sz q (out @ take k (d @ crlf @ r)))"
    unfolding p by (subst dechunk.simps) (use st h c assms k in \<open>simp add: Let_def flip: k_def\<close>)
  also have "\<dots> = (if length out + length d < out_sz then dechunk out_sz r (out @ d) else Some (out @ take (out_sz - length out - 1) d))"
  proof (cases "length out + length d < out_sz")
    case True
    then show ?thesis by (simp add: k_def crlf_def)
  next
    case False
    have "3 \<le> length (drop k (d @ crlf @ r))" using k assms(4) by (cases r) (auto simp: crlf_def)
    from skip_eol_some[OF this] obtain q where q: "skip_eol (drop k (d @ crlf @ r)) = Some q" "q \<noteq> []" by blast
    have "out_sz \<le> length (out @ take k d) + 1" using False k assms(3) by (auto simp: k_def)
    then show ?thesis using False q k by (simp add: dechunk_full) (simp add: k_def)
  qed
  finally show ?thesis .
qed

lemma dechunk_last: "length out + 1 < out_sz \<Longrightarrow> dechunk out_sz (last_chunk @ r) out = Some out"
proof -
  assume a: "length out + 1 < out_sz"
  have s: "strtoul16 (CHR ''0'' # CHR 0x0D # CHR 0x0A # CHR 0x0D # CHR 0x0A # r) = Some (0, CHR 0x0D # CHR 0x0A # CHR 0x0D # CHR 0x0A # r)"
    using strtoul16_hex[of 0 "CHR 0x0A # CHR 0x0D # CHR 0x0A # r"] by (simp add: hex_simps)
  show ?thesis using a s unfolding last_chunk_def crlf_def by (subst dechunk.simps) simp
qed

lemma dechunk_chunks:
  assumes "[] \<notin> set ds" "length out + length (concat ds) < 2 ^ 64" "length out < out_sz"
  shows "dechunk out_sz (chunked_body ds @ [CHR 0x00]) out = Some (take (out_sz - 1) (out @ concat ds))"
  using assms
proof (induction ds arbitrary: out)
  case Nil
  then show ?case
    using dechunk_last[of out out_sz] dechunk_full[of "last_chunk @ [CHR 0x00]" out_sz out]
    by (cases "length out + 1 < out_sz") (auto simp: chunked_body_def)
next
  case (Cons d ds)
  let ?r = "chunked_body ds @ [CHR 0x00]"
  have e: "chunked_body (d # ds) @ [CHR 0x00] = encode_chunk d @ ?r" by (simp add: chunked_body_def)
  show ?case
  proof (cases "length out + 1 < out_sz")
    case False
    then have "take (out_sz - 1) (out @ concat (d # ds)) = out" using Cons.prems(3) by simp
    then show ?thesis using False by (simp add: dechunk_full)
  next
    case True
    have "dechunk out_sz (encode_chunk d @ ?r) out =
      (if length out + length d < out_sz then dechunk out_sz ?r (out @ d) else Some (out @ take (out_sz - length out - 1) d))"
      using Cons.prems True by (intro dechunk_step) auto
    also have "\<dots> = Some (take (out_sz - 1) (out @ concat (d # ds)))"
    proof (cases "length out + length d < out_sz")
      case True
      then show ?thesis using Cons.prems Cons.IH[of "out @ d"] by simp
    qed (use Cons.prems(3) in simp)
    finally show ?thesis unfolding e .
  qed
qed

section \<open>Responses\<close>

definition header_text :: "string list \<Rightarrow> string" where
  "header_text ls = concat (map (\<lambda>l. l @ crlf) ls)"

definition header_line :: "string \<Rightarrow> bool" where
  "header_line l \<longleftrightarrow> l \<noteq> [] \<and> CHR 0x0D \<notin> set l \<and> CHR 0x00 \<notin> set l"

lemma header_end:
  assumes "ls \<noteq> []" "list_all header_line ls"
  shows "strstr (header_text ls @ crlf @ b) (crlf @ crlf) = Some (crlf @ crlf @ b)"
  using assms
proof (induction ls rule: list_nonempty_induct)
  case (single l)
  then show ?case
    using strstr_skip[of "crlf @ crlf" l "crlf @ crlf @ b"] by (simp add: header_text_def header_line_def crlf_def)
next
  case (cons l ls)
  obtain l' ls' where ls: "ls = l' # ls'" using cons.hyps by (cases ls) auto
  obtain x xs where l': "l' = x # xs" "x \<noteq> CHR 0x0D" using cons.prems ls by (cases l') (auto simp: header_line_def)
  have "strstr (header_text (l # ls) @ crlf @ b) (crlf @ crlf) = strstr (crlf @ header_text ls @ crlf @ b) (crlf @ crlf)"
    using cons.prems strstr_skip[of "crlf @ crlf" l "crlf @ header_text ls @ crlf @ b"]
    by (simp add: header_text_def header_line_def crlf_def)
  also have "\<dots> = strstr (header_text ls @ crlf @ b) (crlf @ crlf)"
    using ls l' by (simp add: header_text_def crlf_def)
  finally show ?case using cons.prems cons.IH by simp
qed

lemma response_body_text:
  "ls \<noteq> [] \<Longrightarrow> list_all header_line ls \<Longrightarrow> response_body (header_text ls @ crlf @ b) = b"
  by (simp add: response_body_def header_end crlf_def[THEN arg_cong[of _ _ length]])

lemma header_text_no_nul: "list_all header_line ls \<Longrightarrow> CHR 0x00 \<notin> set (header_text ls)"
  by (auto simp: header_text_def header_line_def list_all_iff crlf_def)

lemma status_200: "http_status (''HTTP/1.1 200 '' @ s) = 200"
  by (simp add: http_status_def atoi_def isspace_def is_digit_def digits_val_def digit_val_def Let_def)

text \<open>The body of a response to a query with rows starts with a chunk size and a brace.\<close>

lemma chunked_body_looks:
  assumes "[] \<notin> set ds" "ds \<noteq> []" "hd (concat ds) = CHR ''{''" "length (concat ds) < 2 ^ 64"
  shows "looks_chunked (chunked_body ds)"
proof -
  obtain d ds' where ds: "ds = d # ds'" using assms(2) by (cases ds) auto
  with assms(1,3) obtain xs where d: "d = CHR ''{'' # xs" by (cases d) auto
  have b: "chunked_body ds = hex (length d) @ CHR 0x0D # CHR 0x0A # CHR ''{'' # xs @ crlf @ chunked_body ds'"
    using ds d by (simp add: chunked_body_def encode_chunk_def crlf_def)
  have "strtoul16 (chunked_body ds) = Some (length d, CHR 0x0D # CHR 0x0A # CHR ''{'' # xs @ crlf @ chunked_body ds')"
    unfolding b using assms(4) ds by (intro strtoul16_hex) simp
  then show ?thesis using d by (simp add: looks_chunked_def b crlf_def)
qed

lemma chunked_body_no_nul: "CHR 0x00 \<notin> set (concat ds) \<Longrightarrow> CHR 0x00 \<notin> set (chunked_body ds)"
proof -
  have "CHR 0x00 \<notin> set (hex n)" for n
    using line_safe_hex[of n] by (force simp: line_safe_def)
  then show "CHR 0x00 \<notin> set (concat ds) \<Longrightarrow> ?thesis" by (auto simp: chunked_body_def encode_chunk_def last_chunk_def crlf_def)
qed

lemma ch_response_200:
  assumes "list_all header_line ((''HTTP/1.1 200 '' @ reason) # hs)" "CHR 0x00 \<notin> set body"
    and "c = header_text ((''HTTP/1.1 200 '' @ reason) # hs) @ crlf"
  shows "ch_response out_sz err_len (c @ body) =
    (if te_chunked (c @ body) (length c) \<or> looks_chunked body then map_option Inr (dechunk out_sz (body @ [CHR 0x00]) [])
     else Some (Inr (cstr out_sz body)))"
proof -
  let ?ls = "(''HTTP/1.1 200 '' @ reason) # hs"
  have n: "CHR 0x00 \<notin> set (c @ body)"
    using assms header_text_no_nul[OF assms(1)] by (simp add: crlf_def)
  then have t: "takeWhile (\<lambda>x. x \<noteq> CHR 0x00) (c @ body) = c @ body" by (auto simp: takeWhile_eq_all_conv)
  have b: "response_body (c @ body) = body" unfolding assms(3) using response_body_text[of ?ls body] assms(1) by simp
  have s: "http_status (c @ body) = 200"
    unfolding assms(3) using status_200[of "reason @ crlf @ header_text hs @ crlf @ body"] by (simp add: header_text_def)
  show ?thesis unfolding ch_response_def Let_def t b s by simp
qed

lemma ch_response_chunked:
  assumes "list_all header_line ((''HTTP/1.1 200 '' @ reason) # hs)"
    and "[] \<notin> set ds" "ds \<noteq> []" "hd (concat ds) = CHR ''{''" "CHR 0x00 \<notin> set (concat ds)" "length (concat ds) < 2 ^ 64" "0 < out_sz"
  shows "ch_response out_sz err_len (header_text ((''HTTP/1.1 200 '' @ reason) # hs) @ crlf @ chunked_body ds) =
    Some (Inr (cstr out_sz (concat ds)))"
proof -
  let ?c = "header_text ((''HTTP/1.1 200 '' @ reason) # hs) @ crlf"
  have "ch_response out_sz err_len (?c @ chunked_body ds) = map_option Inr (dechunk out_sz (chunked_body ds @ [CHR 0x00]) [])"
    using ch_response_200[OF assms(1) chunked_body_no_nul[OF assms(5)] refl] chunked_body_looks[OF assms(2,3,4,6)] by simp
  then show ?thesis using assms dechunk_chunks[of ds "[]" out_sz] by (simp add: cstr_def)
qed

text \<open>C26: 
  A successful answer with rows, sent in any non-empty chunks whose data starts with a brace, is decoded to
  exactly the concatenation of the chunks, cut to what fits the output buffer, whatever other headers it has.
\<close>

theorem ch_chunked_roundtrip:
  assumes "list_all header_line ((''HTTP/1.1 200 '' @ reason) # hs)"
    and "[] \<notin> set ds" "ds \<noteq> []" "hd (concat ds) = CHR ''{''" "CHR 0x00 \<notin> set (concat ds)" "length (concat ds) < 2 ^ 64" "0 < out_sz"
  shows "ch_response out_sz err_len (header_text ((''HTTP/1.1 200 '' @ reason) # hs) @ crlf @ chunked_body ds) =
    Some (Inr (cstr out_sz (concat ds)))"
  using assms by (rule ch_response_chunked)

theorem ch_chunked_roundtrip_witness:
  "ch_response 64 80 (header_text [''HTTP/1.1 200 OK'', ''Connection: close''] @ crlf @ chunked_body [''{}'' @ [CHR 0x0A], ''{}'']) =
   Some (Inr (''{}'' @ [CHR 0x0A] @ ''{}''))"
  using ch_chunked_roundtrip[of "''OK''" "[''Connection: close'']" "[''{}'' @ [CHR 0x0A], ''{}'']" 64 80]
  by (simp add: header_line_def cstr_def)

text \<open>
  A chunk that claims more bytes than were received is copied from beyond the received bytes. The
  size is only compared with the room in the output buffer, and that comparison wraps: a size of
  \<open>2 ^ 64 - 1\<close> after some data passes it.
\<close>

lemma dechunk_beyond:
  assumes "0 < n" "n < 2 ^ 64" "length d < n" "length out + n < out_sz \<or> 2 ^ 64 \<le> length out + n \<and> (length out + n) mod 2 ^ 64 < out_sz"
    and "length out + 1 < out_sz" "out_sz < 2 ^ 64"
  shows "dechunk out_sz (hex n @ crlf @ d @ [CHR 0x00]) out = None"
proof -
  obtain c cs where h: "hex n = c # cs" by (meson hex_nonempty neq_Nil_conv)
  have c: "c \<noteq> CHR 0x00" using line_safe_hex[of n] h by auto
  have st: "strtoul16 (hex n @ CHR 0x0D # CHR 0x0A # d @ [CHR 0x00]) = Some (n, CHR 0x0D # CHR 0x0A # d @ [CHR 0x00])"
    using assms(2) by (intro strtoul16_hex) simp
  have w: "\<not> out_sz \<le> (length out + n) mod 2 ^ 64" using assms(4,6) by (auto simp del: power_numeral)
  have "skip_eol (drop n (d @ [CHR 0x00])) = None" using assms(3) by (simp add: skip_eol_def skip_char_def)
  then show ?thesis
    by (subst dechunk.simps) (use st h c w assms in \<open>simp add: Let_def crlf_def split: option.split\<close>)
qed

text \<open>
  A chunk that claims more bytes than arrived before the connection ended is copied
  from beyond the received bytes: the size is only compared with the output buffer.
\<close>

theorem ch_chunk_overread:
  assumes "0 < n" "n < 2 ^ 64" "length d < n" "n < out_sz" "out_sz < 2 ^ 64"
  shows "dechunk out_sz (hex n @ crlf @ d @ [CHR 0x00]) [] = None"
  using assms by (intro dechunk_beyond) auto

theorem ch_chunk_overread_witness:
  "dechunk 4096 (hex 1000 @ crlf @ ''{'' @ [CHR 0x00]) [] = None"
  using ch_chunk_overread[of 1000 "''{''" 4096] by simp

text \<open>The size check wraps.\<close>

theorem ch_chunk_size_wraps:
  assumes "d \<noteq> []" "length d + 1 < out_sz" "out_sz < 2 ^ 64" "length r < 2 ^ 64 - 1"
  shows "dechunk out_sz (encode_chunk d @ hex (2 ^ 64 - 1) @ crlf @ r @ [CHR 0x00]) [] = None"
proof -
  have "dechunk out_sz (encode_chunk d @ hex (2 ^ 64 - 1) @ crlf @ r @ [CHR 0x00]) [] =
    dechunk out_sz (hex (2 ^ 64 - 1) @ crlf @ r @ [CHR 0x00]) d"
    using dechunk_step[of d "[]" out_sz "hex (2 ^ 64 - 1) @ crlf @ r @ [CHR 0x00]"] assms by simp
  also have "\<dots> = None"
  proof (rule dechunk_beyond)
    have "length d + (2 ^ 64 - 1) = (length d - 1) + 2 ^ 64" using assms(1) by (cases d) simp_all
    then have "(length d + (2 ^ 64 - 1)) mod 2 ^ 64 = ((length d - 1) + 2 ^ 64) mod 2 ^ 64" by (rule arg_cong)
    also have "\<dots> = length d - 1" using assms(2,3) unfolding mod_add_self2 by (intro mod_less) linarith
    finally have "(length d + (2 ^ 64 - 1)) mod 2 ^ 64 = length d - 1" .
    then show "length d + (2 ^ 64 - 1) < out_sz \<or> 2 ^ 64 \<le> length d + (2 ^ 64 - 1) \<and> (length d + (2 ^ 64 - 1)) mod 2 ^ 64 < out_sz"
      using assms(1,2) by (cases d) simp_all
  qed (use assms in simp_all)
  finally show ?thesis .
qed

theorem ch_chunk_size_wraps_witness:
  "dechunk 4096 (encode_chunk ''{}'' @ hex (2 ^ 64 - 1) @ crlf @ ''{}'' @ [CHR 0x00]) [] = None"
  using ch_chunk_size_wraps[of "''{}''" 4096 "''{}''"] by simp

text \<open>
  The transfer encoding header is never recognised: the value is compared from the colon on. A
  response without rows is then taken as it is.
\<close>

lemma te_colon: "map tolower name = ''transfer-encoding'' \<Longrightarrow> \<not> te_chunked (name @ '':'' @ v) n"
proof -
  assume a: "map tolower name = ''transfer-encoding''"
  have l: "length name = 17" using arg_cong[OF a, of length] by simp
  have "dropWhile blank (CHR '':'' # v) = CHR '':'' # v" by (simp add: blank_def)
  then show ?thesis by (subst te_chunked.simps) (use a l in \<open>simp add: tolower_def less_eq_char_def\<close>)
qed

lemma tolower_HTE [simp]: "tolower (CHR ''H'') = CHR ''h''" "tolower (CHR ''T'') = CHR ''t''" "tolower (CHR ''E'') = CHR ''e''"
  by code_simp+

lemma tolower_lower: "CHR ''Z'' < c \<or> c < CHR ''A'' \<Longrightarrow> tolower c = c"
  by (auto simp: tolower_def less_eq_char_def less_char_def)

lemma te_skip:
  assumes "CHR 0x0D \<notin> set l" "l \<noteq> []" "tolower (hd l) \<noteq> CHR ''t''" "\<And>n. \<not> te_chunked h n"
  shows "\<not> te_chunked (l @ crlf @ h) n"
proof -
  obtain x xs where l: "l = x # xs" using assms(2) by (cases l) auto
  have "map tolower (take 17 (l @ crlf @ h)) \<noteq> ''transfer-encoding''" using assms(3) by (simp add: l)
  moreover have "strstr (l @ crlf @ h) crlf = Some (crlf @ h)"
    using strstr_first[of crlf l h] assms(1) by (simp add: crlf_def)
  ultimately show ?thesis using assms(4) by (subst te_chunked.simps) (simp add: Let_def crlf_def)
qed

text \<open>
  The header that announces a chunked body is never recognised, in any spelling, because its value is compared from
  the colon on. An answer without rows is therefore returned with its empty chunk as if that were data.
\<close>

theorem ch_empty_result_raw:
  assumes "map tolower name = ''transfer-encoding''"
    and "list_all header_line ((''HTTP/1.1 200 '' @ reason) # (name @ '': chunked'') # hs)"
  shows "ch_response out_sz err_len
      (header_text ((''HTTP/1.1 200 '' @ reason) # (name @ '': chunked'') # hs) @ crlf @ chunked_body []) =
    Some (Inr (cstr out_sz (''0'' @ crlf @ crlf)))"
proof -
  let ?c = "header_text ((''HTTP/1.1 200 '' @ reason) # (name @ '': chunked'') # hs) @ crlf"
  have te: "\<not> te_chunked (name @ '':'' @ v) n" for v n using assms(1) by (rule te_colon)
  have "\<not> te_chunked ((''HTTP/1.1 200 '' @ reason) @ crlf @ name @ '':'' @ v) n" for v n
    using assms(2) by (intro te_skip te) (auto simp: header_line_def)
  then have nt: "\<not> te_chunked (?c @ chunked_body []) n" for n by (simp add: header_text_def)
  have "strtoul16 (chunked_body []) = Some (0, crlf @ crlf)"
    using strtoul16_hex[of 0 "CHR 0x0A # crlf"] by (simp add: hex_simps chunked_body_def last_chunk_def crlf_def)
  then have nl: "\<not> looks_chunked (chunked_body [])" by (simp add: looks_chunked_def)
  show ?thesis
    using ch_response_200[OF assms(2) chunked_body_no_nul refl, of "[]"] nt nl
    by (simp add: chunked_body_def last_chunk_def)
qed

theorem ch_empty_result_raw_witness:
  "ch_response 4096 80 (header_text [''HTTP/1.1 200 OK'', ''Transfer-Encoding: chunked''] @ crlf @ chunked_body []) =
   Some (Inr (''0'' @ crlf @ crlf))"
  using ch_empty_result_raw[of "''Transfer-Encoding''" "''OK''" "[]" 4096 80]
  by (simp add: header_line_def tolower_lower less_char_def cstr_def crlf_def)

section \<open>The query text\<close>

lemma ch_limit_range: "1 \<le> ch_limit l \<and> ch_limit l \<le> 500"
proof -
  have "l \<noteq> 0 \<Longrightarrow> 1 \<le> unat l" by (simp add: unat_gt_0 Suc_le_eq)
  moreover have "\<not> 500 < l \<Longrightarrow> unat l \<le> 500" by (simp add: not_less word_le_nat_alt)
  ultimately show ?thesis by (auto simp: ch_limit_def Let_def)
qed

lemma ch_rid_ok: "length (ch_rid r) \<le> 95 \<and> list_all ident_char (ch_rid r)"
  by (auto simp: ch_rid_def list_all_iff dest!: in_set_takeD)

definition safe_query :: "string \<Rightarrow> bool" where
  "safe_query sql \<longleftrightarrow> (\<exists>table rid n. sql = ch_sql table rid n \<and> sql_ident_ok table \<and> list_all ident_char rid \<and>
     length rid \<le> 95 \<and> 1 \<le> n \<and> n \<le> 500 \<and> length sql < 768)"

text \<open>Connections are closed, and what is sent is the request.\<close>

lemma ch_tcp_connect_spec:
  assumes "ch_tcp_connect env host prt err_len = (res, lg)"
  shows "\<exists>fds. opened_fds lg = fds @ (case res of Inl _ \<Rightarrow> [] | Inr fd \<Rightarrow> [fd]) \<and> shut_fds lg = fds \<and> sent_bytes lg = []"
proof (cases "case ne_resolve env True host prt of Inl _ \<Rightarrow> ne_resolve env False host prt | Inr rs \<Rightarrow> Inr rs")
  case (Inl e)
  then show ?thesis using assms by (auto simp: ch_tcp_connect_def Let_def)
next
  case (Inr rs)
  obtain fd l where t: "try_connect env rs (-1) [] = (fd, l)" by fastforce
  then show ?thesis using assms Inr try_connect_spec[OF t] by (auto simp: ch_tcp_connect_def Let_def split: if_splits)
qed

lemma http_post_sql_spec:
  assumes "http_post_sql env host prt user password sql out_sz err_len = (r, lg)"
  shows "opened_fds lg = shut_fds lg \<and> (\<exists>rest. ch_request host user password sql = sent_bytes lg @ rest) \<and>
    (\<forall>t. r = Some (Inr t) \<longrightarrow> sent_bytes lg = ch_request host user password sql)"
proof -
  let ?req = "ch_request host user password sql"
  obtain res lg0 where tc: "ch_tcp_connect (qe_net env) host prt err_len = (res, lg0)" by fastforce
  from ch_tcp_connect_spec[OF tc] obtain fds where l0: "opened_fds lg0 = fds @ (case res of Inl _ \<Rightarrow> [] | Inr fd \<Rightarrow> [fd])"
    "shut_fds lg0 = fds" "sent_bytes lg0 = []" by blast
  show ?thesis
  proof (cases res)
    case (Inl e)
    then show ?thesis using assms tc l0 by (auto simp: http_post_sql_def split: if_splits)
  next
    case (Inr fd)
    obtain r1 k1 lg1 where s1: "send_all (ne_send (qe_net env)) (Sent fd) ?req 0 0 lg0 = (r1, k1, lg1)" by (metis prod_cases3)
    from send_all_chunks[OF s1] obtain c1 t1 where c1: "lg1 = lg0 @ map (Sent fd) c1" "?req = concat c1 @ t1" "r1 = None \<longrightarrow> t1 = []"
      by blast
    show ?thesis using assms tc l0 Inr s1 c1 by (auto simp: http_post_sql_def Let_def split: if_splits)
  qed
qed

text \<open>C25: 
  A history query closes every socket it opens, and what it sends is a prefix of one request whose SQL text is the
  fixed statement with a table name and router id made only of letters, digits, underscores, dots and dashes, and a
  row limit from 1 to 500; a query that succeeds has sent all of it. No option can change the statement.
\<close>

theorem ch_query_sends_safe_sql:
  assumes "cpe_ctl_ch_query_flows env opt out_sz err_len = (r, lg)"
  shows "opened_fds lg = shut_fds lg \<and>
    (sent_bytes lg = [] \<or> (\<exists>host sql rest. safe_query sql \<and>
       ch_request host (str_or (opt_str (qo_user opt)) ''default'') (opt_str (qo_password opt)) sql = sent_bytes lg @ rest \<and>
       ((\<exists>t. r = Some (Inr t)) \<longrightarrow> rest = [])))"
proof -
  let ?table = "str_or (opt_str (qo_table opt)) ''edgehost.cpe_flows''"
  let ?sql = "ch_sql ?table (ch_rid (opt_str (qo_router_id opt))) (ch_limit (qo_limit opt))"
  let ?pw = "opt_str (qo_password opt)" and ?user = "str_or (opt_str (qo_user opt)) ''default''"
  consider "lg = []"
    | host prt where "sql_ident_ok ?table" "length ?sql < 768" "http_post_sql env host prt ?user ?pw ?sql out_sz err_len = (r, lg)"
    using assms by (auto simp: cpe_ctl_ch_query_flows_def Let_def split: if_splits sum.splits)
  then show ?thesis
  proof cases
    case (2 host prt)
    have "safe_query ?sql"
      using 2(1,2) ch_limit_range ch_rid_ok unfolding safe_query_def by blast
    with http_post_sql_spec[OF 2(3)] show ?thesis by (metis append_self_conv)
  qed simp
qed

definition lab_query :: "nat query_env" where
  "lab_query =
     \<lparr> qe_net = \<lparr> ne_resolve = (\<lambda>_ _ _. Inr [0]), ne_socket = (\<lambda>_. 7), ne_connect = (\<lambda>_. True), ne_strerror = [],
         ne_send = (\<lambda>_ n. int n), ne_poll = True, ne_recv = [] \<rparr>,
       qe_malloc = True, qe_poll = (\<lambda>_. True),
       qe_recv = (\<lambda>k _. if k = 0 then header_text [''HTTP/1.1 200 OK''] @ crlf @ chunked_body [''{}''] else []) \<rparr>"

definition lab_ch_opts :: cpe_ctl_ch_opts where
  "lab_ch_opts = \<lparr> qo_url = None, qo_user = None, qo_password = None, qo_table = None,
     qo_router_id = Some ''r1'', qo_limit = 1000 \<rparr>"

definition lab_request :: string where
  "lab_request = ch_request ''127.0.0.1'' ''default'' [] (ch_sql ''edgehost.cpe_flows'' ''r1'' 500)"

lemma send_all_once: "buf \<noteq> [] \<Longrightarrow> send_all (\<lambda>_ n. int n) act buf 0 0 lg = (None, 1, lg @ [act buf])"
  by (simp add: send_all.simps)

lemma lab_response:
  "ch_response 4096 80 (read_response lab_query 12288 0 []) = Some (Inr ''{}'')"
proof -
  define d where "d = header_text [''HTTP/1.1 200 OK''] @ crlf @ chunked_body [''{}'']"
  have l: "length d < 100" "d \<noteq> []"
    by (simp_all add: d_def header_text_def crlf_def chunked_body_def encode_chunk_def last_chunk_def hex_simps)
  have "read_response lab_query 12288 1 d = d"
    by (subst read_response.simps) (simp add: lab_query_def)
  then have "read_response lab_query 12288 0 [] = d"
    by (subst read_response.simps) (use l in \<open>simp add: lab_query_def Let_def flip: d_def\<close>)
  then show ?thesis
    unfolding d_def using ch_response_chunked[of "''OK''" "[]" "[''{}'']" 4096 80] by (simp add: header_line_def cstr_def)
qed

lemma lab_query_run:
  "cpe_ctl_ch_query_flows lab_query lab_ch_opts 4096 80 =
     (Some (Inr ''{}''), [Opened 7, Sent 7 lab_request, Closed 7])"
proof -
  have o: "ch_limit 1000 = 500" "ch_rid ''r1'' = ''r1''" "sql_ident_ok ''edgehost.cpe_flows''"
    "parse_base_url ''http://127.0.0.1:8123'' 256 16 = Inr (''127.0.0.1'', ''8123'')"
    by (simp_all add: ch_limit_def ch_rid_def sql_ident_ok_def ident_char_def less_eq_char_def parse_base_url_def)
  have len: "length (ch_sql ''edgehost.cpe_flows'' ''r1'' 500) < 768" "lab_request \<noteq> []"
    "length lab_request < length (ch_sql ''edgehost.cpe_flows'' ''r1'' 500) + 768"
    by (simp_all add: ch_sql_def ch_columns_def lab_request_def ch_request_def crlf_def dec_simps)
  have "http_post_sql lab_query ''127.0.0.1'' ''8123'' ''default'' [] (ch_sql ''edgehost.cpe_flows'' ''r1'' 500) 4096 80 =
     (Some (Inr ''{}''), [Opened 7, Sent 7 lab_request, Closed 7])"
    using len(2,3) lab_response send_all_once[OF len(2), of "Sent 7"]
    by (simp add: http_post_sql_def ch_tcp_connect_def lab_query_def Let_def flip: lab_request_def)
  then show ?thesis using o len(1) by (simp add: cpe_ctl_ch_query_flows_def lab_ch_opts_def opt_str_def str_or_def Let_def)
qed

theorem ch_query_sends_safe_sql_witness:
  "\<exists>host sql. safe_query sql \<and> ch_request host ''default'' [] sql = lab_request"
proof -
  have "lab_request \<noteq> []" by (simp add: lab_request_def ch_request_def)
  then show ?thesis
    using ch_query_sends_safe_sql[OF lab_query_run] by (auto simp: lab_ch_opts_def opt_str_def str_or_def)
qed

section \<open>The table\<close>

text \<open>A row as the server prints it: keys with quoted texts or plain numbers.\<close>

type_synonym json_field = "string \<times> bool \<times> string"

fun field_text :: "json_field \<Rightarrow> string" where
  "field_text (k, q, v) = [CHR 0x22] @ k @ [CHR 0x22, CHR '':''] @ (if q then [CHR 0x22] @ v @ [CHR 0x22] else v)"

fun fields_text :: "json_field list \<Rightarrow> string" where
  "fields_text [] = []"
| "fields_text [f] = field_text f"
| "fields_text (f # fs) = field_text f @ [CHR '',''] @ fields_text fs"

definition row_text :: "json_field list \<Rightarrow> string" where
  "row_text fs = [CHR ''{''] @ fields_text fs @ [CHR ''}'']"

fun field_ok :: "json_field \<Rightarrow> bool" where
  "field_ok (k, q, v) \<longleftrightarrow> sql_ident_ok k \<and> length k < 60 \<and>
     (if q then list_all (\<lambda>c. c \<notin> {CHR 0x22, CHR 0x5C, CHR 0x0A, CHR 0x00}) v else list_all ident_char v)"

lemma ident_char_not:
  "ident_char c \<Longrightarrow> c \<notin> {CHR 0x22, CHR '':'', CHR '','', CHR ''}'', CHR ''{'', CHR '' '', CHR 0x0A, CHR 0x0D}"
  by (auto simp: ident_char_def less_eq_char_def)

lemma ident_not_in: "list_all ident_char k \<Longrightarrow> c \<in> {CHR 0x22, CHR '':'', CHR '','', CHR ''}'', CHR ''{'', CHR '' '', CHR 0x0A, CHR 0x0D} \<Longrightarrow> c \<notin> set k"
  using ident_char_not by (auto simp: list_all_iff)

lemma take_prefix_eq: "take (length p) s = p \<longleftrightarrow> (\<exists>r. s = p @ r)"
  by (metis append_eq_conv_conj append_take_drop_id)

text \<open>The pattern \<^verbatim>\<open>"key":\<close> does not start inside another field.\<close>

lemma strstr_quoted:
  assumes "CHR 0x22 \<notin> set u" "CHR 0x22 \<notin> set k" "u \<noteq> k \<or> c \<noteq> CHR '':''"
  shows "strstr (CHR 0x22 # u @ CHR 0x22 # c # s) (CHR 0x22 # k @ CHR 0x22 # CHR '':'' # x) =
    strstr (CHR 0x22 # c # s) (CHR 0x22 # k @ CHR 0x22 # CHR '':'' # x)"
proof -
  have "u = k \<and> c = CHR '':''" if "u @ CHR 0x22 # c # s = k @ CHR 0x22 # CHR '':'' # x @ r" for r
  proof -
    have "takeWhile (\<lambda>y. y \<noteq> CHR 0x22) (u @ CHR 0x22 # t) = u" if "CHR 0x22 \<notin> set u" for u t
      using that by (induction u) auto
    then have "u = k" using arg_cong[OF that, of "takeWhile (\<lambda>y. y \<noteq> CHR 0x22)"] assms(1,2) by simp
    then show ?thesis using that by simp
  qed
  then have "take (length (CHR 0x22 # k @ CHR 0x22 # CHR '':'' # x)) (CHR 0x22 # u @ CHR 0x22 # c # s) \<noteq>
    CHR 0x22 # k @ CHR 0x22 # CHR '':'' # x"
    using assms(3) unfolding take_prefix_eq by auto
  then have "strstr (CHR 0x22 # u @ CHR 0x22 # c # s) (CHR 0x22 # k @ CHR 0x22 # CHR '':'' # x) =
    strstr (u @ CHR 0x22 # c # s) (CHR 0x22 # k @ CHR 0x22 # CHR '':'' # x)" by simp
  also have "\<dots> = strstr (CHR 0x22 # c # s) (CHR 0x22 # k @ CHR 0x22 # CHR '':'' # x)"
    using assms(1) by (intro strstr_skip) simp_all
  finally show ?thesis .
qed

lemma strstr_quote:
  "k \<noteq> [] \<Longrightarrow> c \<notin> set k \<Longrightarrow> c \<noteq> CHR 0x22 \<Longrightarrow> strstr (CHR 0x22 # c # s) (CHR 0x22 # k @ x) = strstr s (CHR 0x22 # k @ x)"
  by (cases k) auto

lemma strstr_other_field:
  assumes "field_ok (k1, q1, v1)" "sql_ident_ok k" "k1 \<noteq> k" "c = CHR '','' \<or> c = CHR ''}''"
  shows "strstr (field_text (k1, q1, v1) @ c # s) (CHR 0x22 # k @ CHR 0x22 # CHR '':'' # x) =
    strstr s (CHR 0x22 # k @ CHR 0x22 # CHR '':'' # x)"
proof -
  let ?pat = "CHR 0x22 # k @ CHR 0x22 # CHR '':'' # x"
  have k: "k \<noteq> []" "CHR 0x22 \<notin> set k" "CHR '':'' \<notin> set k" "c \<notin> set k"
    using assms(2,4) by (auto simp: sql_ident_ok_def dest: ident_not_in)
  have k1: "CHR 0x22 \<notin> set k1" using assms(1) by (auto simp: sql_ident_ok_def dest: ident_not_in)
  have v: "CHR 0x22 \<notin> set v1" using assms(1) by (auto simp: list_all_iff dest: ident_char_not split: if_splits)
  define w where "w = (if q1 then CHR 0x22 # v1 @ [CHR 0x22] else v1)"
  have "strstr (field_text (k1, q1, v1) @ c # s) ?pat = strstr (CHR 0x22 # k1 @ CHR 0x22 # CHR '':'' # w @ c # s) ?pat"
    by (simp add: w_def)
  also have "\<dots> = strstr (CHR 0x22 # CHR '':'' # w @ c # s) ?pat"
    by (rule strstr_quoted[OF k1 k(2)]) (simp add: assms(3))
  also have "\<dots> = strstr (w @ c # s) ?pat"
    by (rule strstr_quote[OF k(1,3)]) simp
  also have "\<dots> = strstr s ?pat"
  proof (cases q1)
    case True
    have "strstr (CHR 0x22 # v1 @ CHR 0x22 # c # s) ?pat = strstr (CHR 0x22 # c # s) ?pat"
      by (rule strstr_quoted[OF v k(2)]) (use assms(4) in auto)
    also have "\<dots> = strstr s ?pat"
      by (rule strstr_quote[OF k(1,4)]) (use assms(4) in auto)
    finally show ?thesis using True by (simp add: w_def)
  next
    case False
    then show ?thesis using v assms(4) strstr_skip[of ?pat "v1 @ [c]" s] by (auto simp: w_def)
  qed
  finally show ?thesis .
qed

lemma strstr_here: "pat \<noteq> [] \<Longrightarrow> strstr (pat @ s) pat = Some (pat @ s)"
  by (cases pat) auto

lemma ch_field_lookup:
  assumes "list_all field_ok fs" "distinct (map fst fs)" "(k, q, v) \<in> set fs" "sfx = (if q then [CHR 0x22, CHR '':'', CHR 0x22] else [CHR 0x22, CHR '':''])"
  shows "\<exists>c rest. strstr (fields_text fs @ [CHR ''}'']) (CHR 0x22 # k @ sfx) = Some ((CHR 0x22 # k @ sfx) @ v @ c # rest) \<and>
    (if q then c = CHR 0x22 else c \<in> {CHR '','', CHR ''}''})"
  using assms(1-3)
proof (induction fs)
  case (Cons f fs)
  obtain k1 q1 v1 where f: "f = (k1, q1, v1)" by (cases f)
  let ?pat = "CHR 0x22 # k @ sfx"
  obtain x where sfx: "sfx = CHR 0x22 # CHR '':'' # x" using assms(4) by (cases q) simp_all
  define c where "c = (if fs = [] then CHR ''}'' else CHR '','')"
  define s where "s = (if fs = [] then [] else fields_text fs @ [CHR ''}''])"
  have e: "fields_text (f # fs) @ [CHR ''}''] = field_text f @ c # s" by (cases fs) (simp_all add: c_def s_def)
  show ?case
  proof (cases "k1 = k")
    case True
    then have "f = (k, q, v)" using Cons.prems(2,3) f by (auto simp: rev_image_eqI)
    then have "field_text f @ c # s = ?pat @ v @ (if q then CHR 0x22 # c # s else c # s)" using assms(4) by simp
    then have "strstr (field_text f @ c # s) ?pat = Some (?pat @ v @ (if q then CHR 0x22 # c # s else c # s))"
      using strstr_here[of ?pat] by simp
    then show ?thesis unfolding e by (auto simp: c_def)
  next
    case False
    then have m: "(k, q, v) \<in> set fs" using Cons.prems(3) f by auto
    then have "sql_ident_ok k" "fs \<noteq> []" using Cons.prems(1) by (auto simp: list_all_iff)
    moreover have "strstr (field_text f @ c # s) ?pat = strstr s ?pat"
      unfolding f sfx using Cons.prems(1) False f \<open>sql_ident_ok k\<close> by (intro strstr_other_field) (auto simp: c_def)
    ultimately show ?thesis unfolding e using Cons.IH Cons.prems m by (simp add: s_def)
  qed
qed simp

lemma unquote_plain:
  "CHR 0x22 \<notin> set v \<Longrightarrow> CHR 0x5C \<notin> set v \<Longrightarrow> unquote room (v @ CHR 0x22 # rest) = take room v"
proof (induction v arbitrary: room)
  case Nil
  then show ?case by (cases rest) auto
next
  case (Cons a v)
  obtain b t where t: "v @ CHR 0x22 # rest = b # t" by (cases v) auto
  then show ?case using Cons.prems Cons.IH[of "room - 1"] by (cases room) auto
qed

lemma row_field:
  assumes "list_all field_ok fs" "distinct (map fst fs)" "(k, q, v) \<in> set fs" "0 < n"
  shows "(if q then ch_json_get_str (row_text fs) k n else json_get_num (row_text fs) k n) = cstr n v"
proof -
  define sfx where "sfx = (if q then [CHR 0x22, CHR '':'', CHR 0x22] else [CHR 0x22, CHR '':''])"
  have ok: "field_ok (k, q, v)" using assms(1,3) unfolding list_all_iff by blast
  obtain c rest where s: "strstr (fields_text fs @ [CHR ''}'']) (CHR 0x22 # k @ sfx) = Some ((CHR 0x22 # k @ sfx) @ v @ c # rest)"
    and c: "if q then c = CHR 0x22 else c \<in> {CHR '','', CHR ''}''}"
    using ch_field_lookup[OF assms(1-3) sfx_def] by blast
  have "strstr (row_text fs) (CHR 0x22 # k @ sfx) = Some ((CHR 0x22 # k @ sfx) @ v @ c # rest)"
    using s strstr_skip[of "CHR 0x22 # k @ sfx" "[CHR ''{'']"] by (simp add: row_text_def)
  moreover have "length sfx \<le> 3" by (simp add: sfx_def)
  ultimately have f: "ch_field (row_text fs) k sfx = Some (v @ c # rest)" using ok by (simp add: ch_field_def)
  show ?thesis
  proof (cases q)
    case True
    then have "CHR 0x22 \<notin> set v" "CHR 0x5C \<notin> set v" using ok by (auto simp: list_all_iff)
    then show ?thesis using f c True assms(4) by (simp add: ch_json_get_str_def sfx_def unquote_plain cstr_def)
  next
    case False
    have v: "\<forall>x\<in>set v. x \<noteq> CHR '','' \<and> x \<noteq> CHR ''}'' \<and> x \<noteq> CHR '' ''" using ok False by (auto simp: list_all_iff dest!: ident_char_not)
    have "dropWhile (\<lambda>c. c = CHR '' '') (v @ c # rest) = v @ c # rest" using v c False by (cases v) auto
    moreover have "takeWhile (\<lambda>c. c \<noteq> CHR '','' \<and> c \<noteq> CHR ''}'') (v @ c # rest) = v"
      using v c False by (subst takeWhile_append2) auto
    ultimately show ?thesis using f False by (simp add: json_get_num_def sfx_def)
  qed
qed

text \<open>What a row shows: the ten columns of the table, with the widths of their buffers.\<close>

definition table_columns :: "(string \<times> bool) list" where
  "table_columns = [(''router_id'', True), (''event'', True), (''proto'', False), (''lan_ip'', True), (''lan_port'', False),
     (''remote_ip'', True), (''remote_port'', False), (''bytes_up'', False), (''bytes_down'', False), (''ts'', True)]"

definition column :: "json_field list \<Rightarrow> string \<Rightarrow> string" where
  "column fs k = (case map_of fs k of None \<Rightarrow> [] | Some (q, v) \<Rightarrow> v)"

definition flow_row_ok :: "json_field list \<Rightarrow> bool" where
  "flow_row_ok fs \<longleftrightarrow> list_all field_ok fs \<and> distinct (map fst fs) \<and> length (row_text fs) < 2048 \<and>
     list_all (\<lambda>(k, q). map_option fst (map_of fs k) = Some q) table_columns"

definition shown_row :: "json_field list \<Rightarrow> string" where
  "shown_row fs =
     flow_line (cstr 64 (column fs ''router_id'')) (cstr 24 (column fs ''event'')) (cstr 12 (column fs ''proto''))
       (cstr 80 (cstr 64 (column fs ''lan_ip'') @ '':'' @ cstr 16 (column fs ''lan_port'')))
       (cstr 80 (cstr 64 (column fs ''remote_ip'') @ '':'' @ cstr 16 (column fs ''remote_port'')))
       (cstr 24 (column fs ''bytes_up'')) (cstr 24 (column fs ''bytes_down'')) (cstr 40 (column fs ''ts''))"

lemma row_column:
  assumes "flow_row_ok fs" "(k, q) \<in> set table_columns" "0 < n"
  shows "(if q then ch_json_get_str (row_text fs) k n else json_get_num (row_text fs) k n) = cstr n (column fs k)"
proof -
  have "map_option fst (map_of fs k) = Some q" using assms(1,2) by (auto simp: flow_row_ok_def list_all_iff)
  then obtain v where m: "map_of fs k = Some (q, v)" by auto
  then have "(k, q, v) \<in> set fs" by (rule map_of_SomeD)
  with assms show ?thesis using row_field[of fs k q v n] m by (simp add: flow_row_ok_def column_def)
qed

lemma flow_row_text:
  assumes "flow_row_ok fs"
  shows "flow_row (row_text fs) = shown_row fs"
proof -
  have s: "ch_json_get_str (row_text fs) k n = cstr n (column fs k)" if "(k, True) \<in> set table_columns" "0 < n" for k n
    using row_column[OF assms that] by simp
  have n: "json_get_num (row_text fs) k n = cstr n (column fs k)" if "(k, False) \<in> set table_columns" "0 < n" for k n
    using row_column[OF assms that] by simp
  have c: "list_all (\<lambda>k. (k, True) \<in> set table_columns) [''router_id'', ''event'', ''lan_ip'', ''remote_ip'', ''ts'']"
    "list_all (\<lambda>k. (k, False) \<in> set table_columns) [''proto'', ''lan_port'', ''remote_port'', ''bytes_up'', ''bytes_down'']"
    by code_simp+
  show ?thesis
    unfolding flow_row_def shown_row_def Let_def by (use c in \<open>simp only: list.pred_inject s n zero_less_numeral\<close>)
qed

lemma field_no_lf: "field_ok f \<Longrightarrow> CHR 0x0A \<notin> set (field_text f)"
proof (cases f)
  case (fields k q v)
  assume a: "field_ok f"
  then have "CHR 0x0A \<notin> set k" using fields ident_not_in[of k "CHR 0x0A"] by (simp add: sql_ident_ok_def)
  moreover have "CHR 0x0A \<notin> set v"
  proof (cases q)
    case True
    then show ?thesis using a fields by (auto simp: list_all_iff)
  next
    case False
    then show ?thesis using a fields ident_not_in[of v "CHR 0x0A"] by simp
  qed
  ultimately show ?thesis using fields by simp
qed

lemma fields_no_lf: "list_all field_ok fs \<Longrightarrow> CHR 0x0A \<notin> set (fields_text fs)"
  by (induction fs rule: fields_text.induct) (simp_all add: field_no_lf del: field_text.simps field_ok.simps)

lemma print_rows_row:
  assumes "flow_row_ok fs"
  shows "print_rows (row_text fs @ CHR 0x0A # s) = (shown_row fs @ fst (print_rows s), Suc (snd (print_rows s)))"
proof -
  have lf: "CHR 0x0A \<notin> set (row_text fs)" using assms fields_no_lf[of fs] by (auto simp: flow_row_ok_def row_text_def)
  then have t: "takeWhile (\<lambda>c. c \<noteq> CHR 0x0A) (row_text fs @ CHR 0x0A # s) = row_text fs"
    "dropWhile (\<lambda>c. c \<noteq> CHR 0x0A) (row_text fs @ CHR 0x0A # s) = CHR 0x0A # s"
    by (subst takeWhile_append2 dropWhile_append2; auto)+
  have "take 2047 (row_text fs) = row_text fs" using assms by (simp add: flow_row_ok_def)
  moreover have "ch_trim_end (row_text fs) = row_text fs" by (simp add: ch_trim_end_def row_text_def)
  moreover have "row_text fs \<noteq> [] \<and> hd (row_text fs) = CHR ''{''" by (simp add: row_text_def)
  ultimately show ?thesis
    using t flow_row_text[OF assms] by (subst print_rows.simps) (simp add: Let_def split_beta)
qed

text \<open>
  For rows in the server's format the table shows, after its two title lines, every row in order with the ten columns
  of that row, each cut to its buffer, and the number of rows is returned; without rows it says so.
\<close>

theorem ch_print_flows_table:
  assumes "list_all flow_row_ok rows"
  shows "\<exists>titles. cpe_ctl_ch_print_flows (concat (map (\<lambda>fs. row_text fs @ [CHR 0x0A]) rows)) =
    (titles @ concat (map shown_row rows) @ (if rows = [] then ''(no rows)'' @ [CHR 0x0A] else []), length rows)"
proof -
  have "print_rows (concat (map (\<lambda>fs. row_text fs @ [CHR 0x0A]) rows)) = (concat (map shown_row rows), length rows)"
    using assms
  proof (induction rows)
    case Nil
    then show ?case by (subst print_rows.simps) simp
  next
    case (Cons fs rows)
    then show ?case using print_rows_row[of fs "concat (map (\<lambda>fs. row_text fs @ [CHR 0x0A]) rows)"] by simp
  qed
  then show ?thesis by (simp add: cpe_ctl_ch_print_flows_def)
qed

theorem ch_print_flows_table_witness:
  "snd (cpe_ctl_ch_print_flows (row_text (map (\<lambda>(k, q). (k, q, ''1'')) table_columns) @ [CHR 0x0A])) = 1"
proof -
  let ?r = "map (\<lambda>(k, q). (k, q, ''1'')) table_columns"
  have "list_all flow_row_ok [?r]"
    by (simp add: flow_row_ok_def table_columns_def row_text_def sql_ident_ok_def ident_char_def less_eq_char_def)
  from ch_print_flows_table[OF this] show ?thesis by auto
qed

section \<open>Bounds of the result\<close>

lemma dechunk_fits: "dechunk out_sz p out = Some t \<Longrightarrow> length out < out_sz \<Longrightarrow> length t < out_sz"
proof (induction out_sz p out rule: dechunk.induct)
  case (1 out_sz p out)
  show ?case
  proof (cases "p = [] \<or> hd p = CHR 0x00 \<or> \<not> length out + 1 < out_sz \<or> strtoul16 p = None")
    case True
    then have "t = out" using "1.prems"(1) by (subst (asm) dechunk.simps) (auto split: list.splits if_splits)
    then show ?thesis using "1.prems"(2) by simp
  next
    case False
    then obtain x xs n e where p: "p = x # xs" "x \<noteq> CHR 0x00" "length out + 1 < out_sz" "strtoul16 p = Some (n, e)"
      by (cases p) auto
    define k where "k = (if (length out + n) mod 2 ^ 64 \<ge> out_sz then out_sz - length out - 1 else n)"
    have d: "dechunk out_sz p out = (case skip_eol e of None \<Rightarrow> None | Some q \<Rightarrow>
      if n = 0 then Some out else if length q < k \<or> length out + k \<ge> out_sz then None
      else (case skip_eol (drop k q) of None \<Rightarrow> None | Some r \<Rightarrow> dechunk out_sz r (out @ take k q)))"
      unfolding k_def using p by (subst dechunk.simps) (simp add: Let_def split: option.split)
    show ?thesis
    proof (cases "n = 0")
      case True
      then show ?thesis using "1.prems" d by (auto split: option.splits)
    next
      case False
      with "1.prems"(1) d obtain q r where q: "skip_eol e = Some q" "k \<le> length q" "length out + k < out_sz"
        "skip_eol (drop k q) = Some r" "dechunk out_sz r (out @ take k q) = Some t"
        by (auto split: option.splits if_splits)
      from "1.IH"[OF p(1) _ p(4) refl q(1) False k_def _ q(4) q(5)] p q(2,3)
      show ?thesis by simp
    qed
  qed
qed

lemma ch_response_fits:
  assumes "ch_response out_sz err_len resp = Some res" "0 < err_len" "0 < out_sz"
  shows "case res of Inl e \<Rightarrow> length e < err_len | Inr t \<Rightarrow> length t < out_sz"
  using assms dechunk_fits[of out_sz _ "[]"]
  by (auto simp: ch_response_def Let_def length_cstr_less split: if_splits)

lemma ch_tcp_connect_err: "ch_tcp_connect env host prt err_len = (Inl e, lg) \<Longrightarrow> 0 < err_len \<Longrightarrow> length e < err_len"
  by (auto simp: ch_tcp_connect_def Let_def length_cstr_less split: sum.splits prod.splits if_splits)

lemma http_post_sql_fits:
  assumes "http_post_sql env host prt user password sql out_sz err_len = (Some res, lg)" "0 < err_len"
  shows "case res of Inl e \<Rightarrow> length e < err_len | Inr t \<Rightarrow> length t < out_sz"
proof -
  obtain c lg0 where tc: "ch_tcp_connect (qe_net env) host prt err_len = (c, lg0)" by fastforce
  show ?thesis
  proof (cases c)
    case (Inl e)
    then show ?thesis using assms tc ch_tcp_connect_err[of "qe_net env" host prt err_len e lg0]
      by (auto simp: http_post_sql_def split: if_splits)
  next
    case (Inr fd)
    then show ?thesis using assms tc ch_response_fits[of out_sz err_len _ res]
      by (auto simp: http_post_sql_def Let_def length_cstr_less split_beta split: if_splits)
  qed
qed



end
