(* ===== verification/Ctl_Tool.thy ===== *)
theory Ctl_Tool
  imports Ch_Query Ipc_Server
begin

text \<open>
  \<^verbatim>\<open>agent/ipc_client.c\<close> and \<^verbatim>\<open>agent/ctl_main.c\<close>: the control tool. The socket calls, the environment
  variables and memory allocation are inputs; so is what \<^verbatim>\<open>getopt_long\<close> returns, a list of options and
  the operands left over. The Lua shell of the tool is a parameter. The client is composed with the
  server of \<open>Ipc_Server\<close>.
\<close>

section \<open>The client of the control socket\<close>

datatype reply_read = Read_failed | Read_data string \<comment> \<open>no bytes: the peer closed the connection\<close>

record client_env =
  ce_socket :: int
  ce_connect :: bool
  ce_errno :: string
  ce_send :: "nat \<Rightarrow> int"
  ce_recv :: "nat \<Rightarrow> nat \<Rightarrow> reply_read" \<comment> \<open>call number and room\<close>

text \<open>The receive loop: \<open>None\<close> for a failed call, otherwise the bytes received.\<close>

function read_reply :: "client_env \<Rightarrow> nat \<Rightarrow> nat \<Rightarrow> string \<Rightarrow> string option" where
  "read_reply env resp_sz k got =
     (if length got + 1 < resp_sz then
        (case ce_recv env k (resp_sz - length got - 1) of
           Read_failed \<Rightarrow> None
         | Read_data d \<Rightarrow>
             (let d = take (resp_sz - length got - 1) d in
              if d = [] then Some got
              else if CHR 0x0A \<in> set (got @ d) then Some (got @ d)
              else read_reply env resp_sz (k + 1) (got @ d)))
      else Some got)"
  by pat_completeness auto
termination
  by (relation "measure (\<lambda>(env, resp_sz, k, got). resp_sz - length got)") (auto simp: min_def simp flip: length_greater_0_conv)

declare read_reply.simps [simp del]

definition strip_eol :: "string \<Rightarrow> string" where
  "strip_eol s = rev (dropWhile (\<lambda>c. c = CHR 0x0A \<or> c = CHR 0x0D) (rev s))"

definition with_newline :: "string \<Rightarrow> string" where
  "with_newline req = (if req = [] \<or> last req \<noteq> CHR 0x0A then req @ [CHR 0x0A] else req)"

text \<open>The error text or the response, and what was done on the socket.\<close>

definition cpe_ipc_client_request :: "client_env \<Rightarrow> string \<Rightarrow> string \<Rightarrow> nat \<Rightarrow> nat \<Rightarrow> (string + string) \<times> net_action list" where
  "cpe_ipc_client_request env sock_path req resp_sz err_len =
     (let path = str_or sock_path ''/var/run/netforensics/cpe_agent.sock''; fd = ce_socket env; line = with_newline req in
      if resp_sz < 8 then (Inl (cstr err_len ''bad args''), [])
      else if fd < 0 then (Inl (cstr err_len (''socket: '' @ ce_errno env)), [])
      else if length path \<ge> 108 then (Inl (cstr err_len ''socket path too long''), [Opened fd, Closed fd])
      else if \<not> ce_connect env
      then (Inl (cstr err_len (''connect '' @ path @ '': '' @ ce_errno env @ '' (is cpe_agent running?)'')), [Opened fd, Closed fd])
      else if length req + 2 > 8192 then (Inl (cstr err_len ''request too long''), [Opened fd, Closed fd])
      else if ce_send env (length line) < 0 then (Inl (cstr err_len (''send: '' @ ce_errno env)), [Opened fd, Closed fd])
      else
        (let lg = [Opened fd, Sent fd (take (nat (ce_send env (length line))) line), Closed fd] in
         case read_reply env resp_sz 0 [] of
           None \<Rightarrow> (Inl (cstr err_len (''recv: '' @ ce_errno env)), lg)
         | Some got \<Rightarrow>
             if strip_eol got = [] then (Inl (cstr err_len ''empty response''), lg) else (Inr (strip_eol got), lg)))"

section \<open>One request to the daemon\<close>

definition plain_ops :: "string list" where
  "plain_ops = [''status'', ''config'', ''ping'', ''help'', ''last_sample'', ''latency'', ''spool'', ''emit'', ''tcp_stats'', ''tcp_reset'',
     ''flow_stats'', ''flow_tick'']"

text \<open>The request text before it is cut to its 256-byte buffer; \<open>None\<close> for an operation that is not known.\<close>

definition daemon_request :: "string \<Rightarrow> string option \<Rightarrow> u32 \<Rightarrow> string option" where
  \<open>daemon_request op arg limit =
     (let a = opt_str arg in
      if op \<in> set plain_ops then Some (''{"op":"'' @ op @ ''"}'')
      else if op = ''flow_list'' \<or> op = ''flows''
      then Some (''{"op":"flow_list","limit":'' @ (if a \<noteq> [] then a else cstr 16 (u32_dec (if limit = 0 then 32 else limit))) @ ''}'')
      else if op = ''tcp_by_ip''
      then Some (if a \<noteq> [] then ''{"op":"tcp_by_ip","ip":"'' @ a @ ''"}'' else ''{"op":"tcp_by_ip"}'')
      else if op = ''tcp_by_prefix''
      then Some (if a \<noteq> [] then ''{"op":"tcp_by_prefix","prefix":"'' @ a @ ''"}'' else ''{"op":"tcp_by_prefix"}'')
      else if op = ''tcp_poll'' then Some (''{"op":"tcp_poll","max":'' @ str_or a ''64'' @ ''}'')
      else if op = ''tcp_emit'' then Some (''{"op":"tcp_emit","top_n":'' @ str_or a ''20'' @ ''}'')
      else None)\<close>

record ctl_result =
  cr_rc :: int
  cr_out :: "string list"
  cr_err :: "string list"

definition line_feed :: string where
  "line_feed = [CHR 0x0A]"

definition oneshot_daemon :: "client_env \<Rightarrow> string \<Rightarrow> string \<Rightarrow> string option \<Rightarrow> u32 \<Rightarrow> ctl_result" where
  "oneshot_daemon env sock op arg limit =
     (case daemon_request op arg limit of
        None \<Rightarrow> \<lparr> cr_rc = 1, cr_out = [], cr_err = [''unknown op: '' @ op @ line_feed] \<rparr>
      | Some req \<Rightarrow>
          (case fst (cpe_ipc_client_request env sock (cstr 256 req) 8192 160) of
             Inl e \<Rightarrow> \<lparr> cr_rc = 1, cr_out = [], cr_err = [''cpe_ctl: '' @ str_or e ''request failed'' @ line_feed] \<rparr>
           | Inr resp \<Rightarrow> \<lparr> cr_rc = 0, cr_out = [takeWhile (\<lambda>c. c \<noteq> CHR 0x00) resp @ line_feed], cr_err = [] \<rparr>))"

section \<open>History\<close>

record ctl_opts =
  ct_sock :: string
  ct_ch_url :: "string option"
  ct_ch_user :: "string option"
  ct_ch_password :: "string option"
  ct_ch_table :: "string option"
  ct_router_id :: "string option"
  ct_limit :: u32
  ct_history :: bool
  ct_raw :: bool

definition env_or :: "string option \<Rightarrow> string option \<Rightarrow> string option" where
  \<comment> \<open>\<^verbatim>\<open>o ? o : (e && e[0] ? e : NULL)\<close>\<close>
  "env_or o' e = (case o' of Some s \<Rightarrow> Some s | None \<Rightarrow> if opt_str e \<noteq> [] then e else None)"

definition history_limit :: "ctl_opts \<Rightarrow> string option \<Rightarrow> u32" where
  "history_limit o' arg =
     (if opt_str arg \<noteq> [] then (let l = of_int (atoi (opt_str arg)) in if l = 0 then 50 else l)
      else if ct_limit o' \<noteq> 0 then ct_limit o' else 50)"

text \<open>\<open>None\<close>: the query reads beyond its response.\<close>

definition oneshot_history :: "'a query_env \<Rightarrow> bool \<Rightarrow> (string \<Rightarrow> string option) \<Rightarrow> ctl_opts \<Rightarrow> string option \<Rightarrow> ctl_result option" where
  "oneshot_history env malloc_ok getenv o' arg =
     (let ch = \<lparr> qo_url = env_or (ct_ch_url o') (getenv ''CPE_CH_URL''), qo_user = env_or (ct_ch_user o') (getenv ''CPE_CH_USER''),
                 qo_password = env_or (ct_ch_password o') (getenv ''CPE_CH_PASSWORD''), qo_table = ct_ch_table o',
                 qo_router_id = ct_router_id o', qo_limit = history_limit o' arg \<rparr>
      in if \<not> malloc_ok then Some \<lparr> cr_rc = 1, cr_out = [], cr_err = [''cpe_ctl: oom'' @ line_feed] \<rparr>
         else case fst (cpe_ctl_ch_query_flows env ch (512 * 1024) 256) of
           None \<Rightarrow> None
         | Some (Inl e) \<Rightarrow>
             Some \<lparr> cr_rc = 1, cr_out = [],
                    cr_err = [''cpe_ctl: ClickHouse query failed: '' @ str_or e ''error'' @ line_feed,
                      ''Hint: set --ch-url/--ch-password or CPE_CH_URL / CPE_CH_PASSWORD'' @ line_feed @
                      ''  e.g. cpe_ctl flow_list --history --ch-password passw0rd'' @ line_feed] \<rparr>
         | Some (Inr b) \<Rightarrow>
             (let body = takeWhile (\<lambda>c. c \<noteq> CHR 0x00) b in
              if ct_raw o'
              then Some \<lparr> cr_rc = 0, cr_out = [body] @ (if body \<noteq> [] \<and> last body \<noteq> CHR 0x0A then [line_feed] else []), cr_err = [] \<rparr>
              else Some \<lparr> cr_rc = 0, cr_out = [fst (cpe_ctl_ch_print_flows body)], cr_err = [] \<rparr>))"

section \<open>The command line\<close>

text \<open>What \<^verbatim>\<open>getopt_long\<close> returns for each option; \<open>Opt_unknown\<close> for \<^verbatim>\<open>'?'\<close>.\<close>

datatype ctl_option = Opt_socket string | Opt_history | Opt_ch_url string | Opt_ch_user string | Opt_ch_password string | Opt_ch_table string
  | Opt_router_id string | Opt_limit string | Opt_raw | Opt_lua | Opt_lua_eval string | Opt_lua_file string | Opt_history_file string
  | Opt_help | Opt_unknown

record ctl_parsed = ctl_opts +
  cp_history_file :: "string option"
  cp_lua_eval :: "string option"
  cp_lua_file :: "string option"
  cp_lua_repl :: bool

text \<open>The option loop: \<open>Inl\<close> is the exit status after the usage text.\<close>

fun ctl_options :: "ctl_option list \<Rightarrow> ctl_parsed \<Rightarrow> int + ctl_parsed" where
  "ctl_options [] o' = Inr o'"
| "ctl_options (Opt_socket s # r) o' = ctl_options r (o'\<lparr>ct_sock := s\<rparr>)"
| "ctl_options (Opt_history # r) o' = ctl_options r (o'\<lparr>ct_history := True\<rparr>)"
| "ctl_options (Opt_ch_url s # r) o' = ctl_options r (o'\<lparr>ct_ch_url := Some s\<rparr>)"
| "ctl_options (Opt_ch_user s # r) o' = ctl_options r (o'\<lparr>ct_ch_user := Some s\<rparr>)"
| "ctl_options (Opt_ch_password s # r) o' = ctl_options r (o'\<lparr>ct_ch_password := Some s\<rparr>)"
| "ctl_options (Opt_ch_table s # r) o' = ctl_options r (o'\<lparr>ct_ch_table := Some s\<rparr>)"
| "ctl_options (Opt_router_id s # r) o' = ctl_options r (o'\<lparr>ct_router_id := Some s\<rparr>)"
| "ctl_options (Opt_limit s # r) o' = ctl_options r (o'\<lparr>ct_limit := of_int (atoi s)\<rparr>)"
| "ctl_options (Opt_raw # r) o' = ctl_options r (o'\<lparr>ct_raw := True\<rparr>)"
| "ctl_options (Opt_lua # r) o' = ctl_options r (o'\<lparr>cp_lua_repl := True\<rparr>)"
| "ctl_options (Opt_lua_eval s # r) o' = ctl_options r (o'\<lparr>cp_lua_eval := Some s\<rparr>)"
| "ctl_options (Opt_lua_file s # r) o' = ctl_options r (o'\<lparr>cp_lua_file := Some s\<rparr>)"
| "ctl_options (Opt_history_file s # r) o' = ctl_options r (o'\<lparr>cp_history_file := Some s\<rparr>)"
| "ctl_options (Opt_help # r) o' = Inl 0"
| "ctl_options (Opt_unknown # r) o' = Inl 1"

definition ctl_defaults :: ctl_parsed where
  "ctl_defaults = \<lparr> ct_sock = ''/var/run/netforensics/cpe_agent.sock'', ct_ch_url = None, ct_ch_user = None, ct_ch_password = None,
     ct_ch_table = None, ct_router_id = None, ct_limit = 0, ct_history = False, ct_raw = False, cp_history_file = None, cp_lua_eval = None,
     cp_lua_file = None, cp_lua_repl = False \<rparr>"

text \<open>The Lua shell (\<^verbatim>\<open>ctl_lua.c\<close>): the error text of a script, the result of the interactive loop.\<close>

record lua_shell =
  lu_dofile :: "string \<Rightarrow> string option"
  lu_dostring :: "string \<Rightarrow> string option"
  lu_repl :: "string option \<Rightarrow> int"

definition lua_error :: "string \<Rightarrow> string \<Rightarrow> string" where
  "lua_error e d = ''cpe_ctl: '' @ str_or e d @ line_feed"

definition run_lua :: "lua_shell option \<Rightarrow> ctl_parsed \<Rightarrow> ctl_result" where
  "run_lua lua o' =
     (case lua of
        None \<Rightarrow> \<lparr> cr_rc = 1, cr_out = [], cr_err = [''cpe_ctl: Lua unavailable (rebuild with -DCPE_AGENT_WITH_LUA=ON)'' @ line_feed] \<rparr>
      | Some L \<Rightarrow>
          (let e1 = (case cp_lua_file o' of None \<Rightarrow> None | Some f \<Rightarrow> map_option (\<lambda>e. lua_error (cstr 256 e) ''dofile'') (lu_dofile L f));
               e2 = (if e1 = None then (case cp_lua_eval o' of None \<Rightarrow> None | Some c \<Rightarrow> map_option (\<lambda>e. lua_error (cstr 256 e) ''eval'') (lu_dostring L c))
                     else e1)
           in case e2 of
                Some e \<Rightarrow> \<lparr> cr_rc = 1, cr_out = [], cr_err = [e] \<rparr>
              | None \<Rightarrow> \<lparr> cr_rc = (if cp_lua_repl o' then lu_repl L (cp_history_file o') else 0), cr_out = [], cr_err = [] \<rparr>))"

text \<open>
  The whole tool after \<^verbatim>\<open>getopt_long\<close>. \<open>usage\<close> and \<open>hint\<close> are the texts of the usage message and
  of the start-up hint.
\<close>

definition ctl_main ::
  "client_env \<Rightarrow> 'a query_env \<Rightarrow> bool \<Rightarrow> (string \<Rightarrow> string option) \<Rightarrow> lua_shell option \<Rightarrow> string \<Rightarrow> string \<Rightarrow>
   ctl_option list \<Rightarrow> string list \<Rightarrow> ctl_result option" where
  \<open>ctl_main cenv qenv malloc_ok getenv lua usage hint opts operands =
     (case ctl_options opts ctl_defaults of
        Inl rc \<Rightarrow> Some \<lparr> cr_rc = rc, cr_out = [], cr_err = [usage] \<rparr>
      | Inr p \<Rightarrow>
          (let o' = ctl_opts.truncate p in
           if cp_lua_repl p \<or> cp_lua_eval p \<noteq> None \<or> cp_lua_file p \<noteq> None then Some (run_lua lua p)
           else case operands of
             op # rest \<Rightarrow>
               (let arg = (case rest of [] \<Rightarrow> None | a # _ \<Rightarrow> Some a) in
                if op = ''flow_list'' \<or> op = ''flows'' \<or> op = ''flow_history'' then
                  if ct_history p \<or> op = ''flow_history'' then oneshot_history qenv malloc_ok getenv o' arg
                  else Some (oneshot_daemon cenv (ct_sock p) ''flow_list'' arg (ct_limit p))
                else if ct_history p
                then Some \<lparr> cr_rc = 1, cr_out = [], cr_err = [''cpe_ctl: --history only applies to flow_list / flows'' @ line_feed] \<rparr>
                else Some (oneshot_daemon cenv (ct_sock p) op arg (ct_limit p)))
           | [] \<Rightarrow>
               if ct_history p then oneshot_history qenv malloc_ok getenv o' None
               else
                 (case fst (cpe_ipc_client_request cenv (ct_sock p) (''{"op":"status"}'') 8192 160) of
                    Inl e \<Rightarrow> Some \<lparr> cr_rc = 1, cr_out = [], cr_err = [''cpe_ctl: '' @ str_or e ''connect failed'' @ line_feed, hint] \<rparr>
                  | Inr resp \<Rightarrow>
                      Some \<lparr> cr_rc = (case lua of None \<Rightarrow> 0 | Some L \<Rightarrow> lu_repl L (cp_history_file p)),
                             cr_out = [takeWhile (\<lambda>c. c \<noteq> CHR 0x00) resp @ line_feed], cr_err = [] \<rparr>)))\<close>

section \<open>The client\<close>

text \<open>However the reply is cut into reads, the loop stops after its newline with the whole line.\<close>

lemma read_reply_chunks:
  assumes "ds \<noteq> []" "[] \<notin> set ds" "got @ concat ds = reply @ [CHR 0x0A]" "CHR 0x0A \<notin> set reply" "length reply + 1 < resp_sz"
    and "\<forall>j < length ds. \<forall>room. ce_recv env (k + j) room = Read_data (ds ! j)"
  shows "read_reply env resp_sz k got = Some (reply @ [CHR 0x0A])"
  using assms(1-3,6)
proof (induction ds arbitrary: k got rule: list_nonempty_induct)
  case (single d)
  have l: "length got + length d = length reply + 1" using arg_cong[OF single.prems(2), of length] by simp
  have r: "ce_recv env k room = Read_data d" for room using single.prems(3) by force
  have "0 < length d" using single.prems(1) by auto
  then have "length got + 1 < resp_sz" "length d \<le> resp_sz - length got - 1" "d \<noteq> []" using l assms(5) by (linarith, linarith, simp)
  then show ?case using r single.prems(2) by (subst read_reply.simps) simp
next
  case (cons d ds)
  have l: "length got + length d + length (concat ds) = length reply + 1" using arg_cong[OF cons.prems(2), of length] by simp
  have ne: "concat ds \<noteq> []" using cons.hyps cons.prems(1) by (cases ds) auto
  have g: "(got @ d) @ concat ds = reply @ [CHR 0x0A]" using cons.prems(2) by simp
  obtain x y where "concat ds = x @ [y]" using ne by (cases "concat ds" rule: rev_cases) auto
  then have "(got @ d) @ x = reply" using g by (simp flip: append_assoc)
  then have nl: "CHR 0x0A \<notin> set (got @ d)" using assms(4) by auto
  have r: "ce_recv env k room = Read_data d" for room using cons.prems(3) by force
  have "0 < length d" using cons.prems(1) by auto
  then have t: "length got + 1 < resp_sz" "length d \<le> resp_sz - length got - 1" "d \<noteq> []" using l assms(5) by (linarith, linarith, simp)
  have "read_reply env resp_sz k got = read_reply env resp_sz (k + 1) (got @ d)"
    using r nl t by (subst read_reply.simps) simp
  moreover have "\<forall>j < length ds. \<forall>room. ce_recv env (k + 1 + j) room = Read_data (ds ! j)" using cons.prems(3) by fastforce
  ultimately show ?case using cons.IH[of "got @ d" "k + 1"] cons.prems g by simp
qed

lemma strip_eol_line: "reply \<noteq> [] \<Longrightarrow> last reply \<notin> {CHR 0x0A, CHR 0x0D} \<Longrightarrow> strip_eol (reply @ [CHR 0x0A]) = reply"
  by (cases reply rule: rev_cases) (auto simp: strip_eol_def)

lemma read_reply_length: "read_reply env resp_sz k got = Some r \<Longrightarrow> length got < resp_sz \<Longrightarrow> length r < resp_sz"
proof (induction env resp_sz k got rule: read_reply.induct)
  case (1 env resp_sz k got)
  show ?case
  proof (cases "length got + 1 < resp_sz")
    case False
    then show ?thesis using "1.prems" by (subst (asm) read_reply.simps) simp
  next
    case True
    then obtain d where d: "ce_recv env k (resp_sz - length got - 1) = Read_data d"
      using "1.prems"(1) by (subst (asm) read_reply.simps) (auto split: reply_read.splits)
    define e where "e = take (resp_sz - length got - 1) d"
    have e: "length (got @ e) < resp_sz" using True by (auto simp: e_def)
    have "read_reply env resp_sz k got =
      (if e = [] then Some got else if CHR 0x0A \<in> set (got @ e) then Some (got @ e) else read_reply env resp_sz (k + 1) (got @ e))"
      using True d by (subst read_reply.simps) (simp add: e_def Let_def)
    then show ?thesis using "1.IH"[OF True d e_def] "1.prems" e by (auto split: if_splits)
  qed
qed

lemma length_strip_eol: "length (strip_eol s) \<le> length s"
  by (simp add: strip_eol_def) (metis length_dropWhile_le length_rev)

text \<open>
  A request over the control socket closes its socket in every outcome, never sends more than one line, and what it
  leaves in the response or the error buffer fits.
\<close>

theorem ipc_client_bounds:
  assumes "cpe_ipc_client_request env path req resp_sz err_len = (r, lg)" "0 < err_len"
  shows "opened_fds lg = shut_fds lg \<and> (\<exists>rest. with_newline req = sent_bytes lg @ rest) \<and> length (sent_bytes lg) \<le> 8191 \<and>
    (case r of Inl e \<Rightarrow> length e < err_len | Inr t \<Rightarrow> t \<noteq> [] \<and> length t < resp_sz)"
proof -
  define n where "n = nat (ce_send env (length (with_newline req)))"
  have e: "\<And>s. length (cstr err_len s) < err_len" using assms(2) by (rule length_cstr_less)
  have p: "\<exists>rest. with_newline req = take n (with_newline req) @ rest" by (metis append_take_drop_id)
  have w: "length (with_newline req) \<le> length req + 1" by (simp add: with_newline_def)
  show ?thesis
  proof (cases "\<exists>got. read_reply env resp_sz 0 [] = Some got \<and> strip_eol got \<noteq> [] \<and> 8 \<le> resp_sz \<and> length req + 2 \<le> 8192")
    case True
    then obtain got where g: "read_reply env resp_sz 0 [] = Some got" "strip_eol got \<noteq> []" "8 \<le> resp_sz" "length req + 2 \<le> 8192" by blast
    have "length (strip_eol got) < resp_sz"
      using read_reply_length[OF g(1)] length_strip_eol[of got] g(3) by simp
    then show ?thesis using assms(1) e p w g
      by (auto simp: cpe_ipc_client_request_def Let_def n_def[symmetric] split: if_splits)
  next
    case False
    then show ?thesis using assms(1) e p w
      by (auto simp: cpe_ipc_client_request_def Let_def n_def[symmetric] split: if_splits option.splits)
  qed
qed

section \<open>Client and server\<close>

text \<open>C32: 
  The client and the server together: a request that the handler answers reaches it unchanged as one line, and the
  client returns exactly that answer, however the reply is cut into reads. The server has then answered one request
  and holds nothing of the client any more.
\<close>

theorem ctl_request_answered:
  assumes "i < length (sv_rbuf s)" "0 \<le> sv_clients s ! i" "sv_rbuf s ! i = []"
    and "cpe_ipc_handle_request (world n) req 8192 (sv_agent s) = Some (Some reply, b)"
    and "CHR 0x0A \<notin> set req" "CHR 0x00 \<notin> set req" "req = [] \<or> last req \<noteq> CHR 0x0D" "length req \<le> 8190"
    and "CHR 0x0A \<notin> set reply" "reply \<noteq> []" "last reply \<noteq> CHR 0x0D" "length reply < 8191"
    and "0 \<le> ce_socket env" "ce_connect env" "length path < 108" "ce_send env (length req + 1) = int (length req + 1)"
    and "ds \<noteq> []" "[] \<notin> set ds" "concat ds = reply @ [CHR 0x0A]" "\<forall>j < length ds. \<forall>room. ce_recv env j room = Read_data (ds ! j)"
  shows "cpe_ipc_client_request env path req 8192 err_len =
      (Inr reply, [Opened (ce_socket env), Sent (ce_socket env) (req @ [CHR 0x0A]), Closed (ce_socket env)]) \<and>
    receive world i n [req @ [CHR 0x0A]] s = Some (n + 1, s\<lparr>sv_agent := b,
      sv_log := sv_log s @ [Send (sv_clients s ! i) (reply @ [CHR 0x0A])], sv_rbuf := (sv_rbuf s)[i := []]\<rparr>)"
proof -
  have "last reply \<notin> {CHR 0x0A, CHR 0x0D}" using assms(9-11) last_in_set by fastforce
  then have "strip_eol (reply @ [CHR 0x0A]) = reply" using assms(10) by (intro strip_eol_line)
  moreover have "read_reply env 8192 0 [] = Some (reply @ [CHR 0x0A])"
    by (rule read_reply_chunks[OF assms(17,18)]) (use assms in simp_all)
  moreover have "with_newline req = req @ [CHR 0x0A]" using assms(5) last_in_set by (fastforce simp: with_newline_def)
  moreover have "length (str_or path ''/var/run/netforensics/cpe_agent.sock'') < 108" using assms(15) by (simp add: str_or_def)
  ultimately have c: "cpe_ipc_client_request env path req 8192 err_len =
      (Inr reply, [Opened (ce_socket env), Sent (ce_socket env) (req @ [CHR 0x0A]), Closed (ce_socket env)])"
    using assms(8,10,13,14,16) by (simp add: cpe_ipc_client_request_def Let_def)
  have tl: "take_line (req @ [CHR 0x0A]) = Some (req, [])" using assms(5) by (induction req) (auto simp: take_line_def)
  have sp: "split_lines (req @ [CHR 0x0A]) = ([req], [])" using split_lines_some[OF tl] by simp
  have rq: "request_of req = req" using assms(6,7) by (auto simp: request_of_def takeWhile_eq_all_conv)
  have wr: "wire (Some reply) = reply @ [CHR 0x0A]" using assms(12) by (simp add: wire_def)
  have "client_lines (\<lambda>j. world (n + j)) (\<lambda>_. True) (sv_clients s ! i) 0 (req @ [CHR 0x0A]) (sv_agent s) (sv_log s) =
    Some (True, 1, [], b, sv_log s @ [Send (sv_clients s ! i) (reply @ [CHR 0x0A])])"
    using client_lines_answer[of "\<lambda>_. True" "req @ [CHR 0x0A]" "\<lambda>j. world (n + j)" "sv_clients s ! i" 0 "sv_agent s" "sv_log s"] sp rq wr assms(4)
    by simp
  then have "receive world i n [req @ [CHR 0x0A]] s = Some (n + 1, s\<lparr>sv_agent := b,
      sv_log := sv_log s @ [Send (sv_clients s ! i) (reply @ [CHR 0x0A])], sv_rbuf := (sv_rbuf s)[i := []]\<rparr>)"
    using assms(2,3) by (simp add: service_client_def)
  with c show ?thesis by blast
qed

section \<open>Requests are understood\<close>

lemma op_field:
  assumes "CHR 0x22 \<notin> set op" "CHR 0x5C \<notin> set op" "length op < 48"
  shows "json_get_str (CHR ''{'' # CHR 0x22 # CHR ''o'' # CHR ''p'' # CHR 0x22 # CHR '':'' # CHR 0x22 # op @ CHR 0x22 # rest) ''op'' 48 = Some op"
  using json_value_found[of "''{''" "''op''" "[]" "[]" "CHR 0x22" "op @ CHR 0x22 # rest"] unquote_plain[of op 47 rest] assms
  by (simp add: json_get_str_def blanks_def)

lemma plain_op_chars: "op \<in> set plain_ops \<Longrightarrow> CHR 0x22 \<notin> set op \<and> CHR 0x5C \<notin> set op \<and> length op < 12"
  by (auto simp: plain_ops_def)

definition ctl_ops :: "string list" where
  "ctl_ops = plain_ops @ [''flow_list'', ''flows'', ''tcp_by_ip'', ''tcp_by_prefix'', ''tcp_poll'', ''tcp_emit'']"

definition op_head :: "string \<Rightarrow> string" where
  \<open>op_head op = ''{"op":"'' @ (if op = ''flows'' then ''flow_list'' else op) @ ''"''\<close>

lemma daemon_request_shape:
  assumes "daemon_request op arg l = Some req"
  shows "take (length (op_head op)) req = op_head op \<and> op \<in> set ctl_ops \<and> length req \<le> length (op_head op) + length (opt_str arg) + 27"
proof -
  let ?a = "opt_str arg"
  have n: "length (cstr 16 (u32_dec (if l = 0 then 32 else l))) \<le> 15" by (simp add: cstr_def)
  show ?thesis
  proof (cases "op \<in> set plain_ops")
    case True
    moreover have "op \<noteq> ''flows''" using True by (auto simp: plain_ops_def)
    ultimately show ?thesis using assms by (auto simp: daemon_request_def Let_def ctl_ops_def op_head_def)
  next
    case False
    consider (list) "op = ''flow_list'' \<or> op = ''flows''" | (ip) "op = ''tcp_by_ip''" | (prefix) "op = ''tcp_by_prefix''"
      | (poll) "op = ''tcp_poll''" | (emit) "op = ''tcp_emit''"
      using assms False by (simp only: daemon_request_def Let_def if_False split: if_split_asm) blast+
    then show ?thesis
    proof cases
      case list
      then show ?thesis using assms False n by (cases "?a = []") (auto simp: daemon_request_def Let_def ctl_ops_def op_head_def)
    next
      case ip
      then show ?thesis using assms False by (cases "?a = []") (auto simp: op_head_def daemon_request_def Let_def ctl_ops_def)
    next
      case prefix
      then show ?thesis using assms False by (cases "?a = []") (auto simp: op_head_def daemon_request_def Let_def ctl_ops_def)
    next
      case poll
      then show ?thesis using assms False by (cases "?a = []") (auto simp: op_head_def daemon_request_def Let_def ctl_ops_def str_or_def)
    next
      case emit
      then show ?thesis using assms False by (cases "?a = []") (auto simp: op_head_def daemon_request_def Let_def ctl_ops_def str_or_def)
    qed
  qed
qed

lemma request_text:
  assumes "daemon_request op arg l = Some req" "length (opt_str arg) < 64"
  shows "cstr 256 req = req \<and> (\<exists>rest. req = op_head op @ rest)"
proof -
  note s = daemon_request_shape[OF assms(1)]
  have "length op \<le> 13" using s by (auto simp: ctl_ops_def plain_ops_def)
  then have "length (op_head op) \<le> 21" by (simp add: op_head_def)
  then have "length req < 256" using s assms(2) by linarith
  moreover have "req = op_head op @ drop (length (op_head op)) req" using s by (metis append_take_drop_id)
  ultimately show ?thesis using cstr_fits by blast
qed

text \<open>C33: 
  What the tool sends is what the daemon reads: for every operation of the tool and an argument of fewer than 48
  characters without quotes and backslashes the server finds the operation that was asked for, and the address or
  prefix of a filtered listing.
\<close>

theorem ctl_request_read_back:
  assumes "daemon_request op (Some a) l = Some req" "CHR 0x22 \<notin> set a" "CHR 0x5C \<notin> set a" "length a < 48"
  shows "json_get_str (cstr 256 req) ''op'' 48 = Some (if op = ''flows'' then ''flow_list'' else op) \<and>
    (op = ''tcp_by_ip'' \<longrightarrow> a \<noteq> [] \<longrightarrow> json_get_str (cstr 256 req) ''ip'' 48 = Some a) \<and>
    (op = ''tcp_by_prefix'' \<longrightarrow> a \<noteq> [] \<longrightarrow> json_get_str (cstr 256 req) ''prefix'' 64 = Some a)"
proof (intro conjI impI)
  have c: "cstr 256 req = req" and "\<exists>rest. req = op_head op @ rest"
    using request_text[OF assms(1)] assms(4) by (simp_all add: opt_str_def)
  then obtain rest where r: "req = op_head op @ rest" by blast
  let ?o = "if op = ''flows'' then ''flow_list'' else op"
  have "op \<in> set ctl_ops" using daemon_request_shape[OF assms(1)] by blast
  then have o: "CHR 0x22 \<notin> set ?o" "CHR 0x5C \<notin> set ?o" "length ?o < 48" by (auto simp: ctl_ops_def plain_ops_def)
  show "json_get_str (cstr 256 req) ''op'' 48 = Some ?o"
    unfolding c using op_field[OF o, of rest] r by (simp only: op_head_def append_assoc append_Cons append_Nil)
  show "json_get_str (cstr 256 req) ''ip'' 48 = Some a" if "op = ''tcp_by_ip''" "a \<noteq> []"
  proof -
    have "req = ''{'' @ [CHR 0x22] @ ''op'' @ [CHR 0x22] @ '':'' @ [CHR 0x22] @ ''tcp_by_ip'' @ [CHR 0x22] @ '','' @ [CHR 0x22] @ ''ip'' @ [CHR 0x22] @ '':'' @ [CHR 0x22] @ a @ [CHR 0x22] @ ''}''"
      using assms(1) that by (auto simp: daemon_request_def opt_str_def plain_ops_def)
    then show ?thesis unfolding c using unquote_plain[OF assms(2,3), of 47 "''}''"] assms(4)
      by (simp add: json_get_str_def json_value_def skip_blanks_def)
  qed
  show "json_get_str (cstr 256 req) ''prefix'' 64 = Some a" if "op = ''tcp_by_prefix''" "a \<noteq> []"
  proof -
    have "req = ''{'' @ [CHR 0x22] @ ''op'' @ [CHR 0x22] @ '':'' @ [CHR 0x22] @ ''tcp_by_prefix'' @ [CHR 0x22] @ '','' @ [CHR 0x22] @ ''prefix'' @ [CHR 0x22] @ '':'' @ [CHR 0x22] @ a @ [CHR 0x22] @ ''}''"
      using assms(1) that by (auto simp: daemon_request_def opt_str_def plain_ops_def)
    then show ?thesis unfolding c using unquote_plain[OF assms(2,3), of 63 "''}''"] assms(4)
      by (simp add: json_get_str_def json_value_def skip_blanks_def)
  qed
qed

theorem ctl_request_read_back_witness:
  \<open>json_get_str (cstr 256 (''{"op":"tcp_by_ip","ip":"192.0.2.1"}'')) ''ip'' 48 = Some ''192.0.2.1''\<close>
proof -
  have "daemon_request ''tcp_by_ip'' (Some ''192.0.2.1'') 0 = Some (''{'' @ [CHR 0x22] @ ''op'' @ [CHR 0x22] @ '':'' @ [CHR 0x22] @ ''tcp_by_ip'' @
    [CHR 0x22] @ '','' @ [CHR 0x22] @ ''ip'' @ [CHR 0x22] @ '':'' @ [CHR 0x22] @ ''192.0.2.1'' @ [CHR 0x22] @ ''}'')"
    by (simp add: daemon_request_def plain_ops_def opt_str_def)
  from ctl_request_read_back[OF this] show ?thesis by simp
qed

section \<open>A concrete exchange\<close>

definition lab_client :: client_env where
  \<open>lab_client = \<lparr> ce_socket = 4, ce_connect = True, ce_errno = [], ce_send = int,
     ce_recv = (\<lambda>k _. if k = 0 then Read_data (''{"ok":true,"op":"ping",'') else Read_data (''"data":"pong"}'' @ [CHR 0x0A])) \<rparr>\<close>

theorem ctl_request_answered_witness:
  \<open>fst (cpe_ipc_client_request lab_client ''/s'' (''{"op":"ping"}'') 8192 160) = Inr (''{"ok":true,"op":"ping","data":"pong"}'')\<close>
proof -
  let ?req = \<open>''{"op":"ping"}''\<close> and ?reply = \<open>''{"ok":true,"op":"ping","data":"pong"}''\<close>
  let ?ds = \<open>[''{"ok":true,"op":"ping",'', ''"data":"pong"}'' @ [CHR 0x0A]]\<close>
  have "cpe_ipc_client_request lab_client ''/s'' ?req 8192 160 =
      (Inr ?reply, [Opened (ce_socket lab_client), Sent (ce_socket lab_client) (?req @ [CHR 0x0A]), Closed (ce_socket lab_client)]) \<and>
    receive (\<lambda>_. quiet_env) 0 0 [?req @ [CHR 0x0A]] ipc_server0 = Some (0 + 1, ipc_server0\<lparr>sv_agent := agent00,
      sv_log := sv_log ipc_server0 @ [Send (sv_clients ipc_server0 ! 0) (?reply @ [CHR 0x0A])], sv_rbuf := (sv_rbuf ipc_server0)[0 := []]\<rparr>)"
  proof (rule ctl_request_answered[where ds = ?ds])
    show "\<forall>j < length ?ds. \<forall>room. ce_recv lab_client j room = Read_data (?ds ! j)" by (auto simp: lab_client_def less_Suc_eq)
    show "cpe_ipc_handle_request quiet_env ?req 8192 (sv_agent ipc_server0) = Some (Some ?reply, agent00)"
      using Ipc_Server.ping_reply by (simp add: ipc_server0_def)
  qed (simp_all add: ipc_server0_def lab_client_def)
  then show ?thesis by simp
qed

theorem ipc_client_bounds_witness:
  \<open>\<exists>r lg. cpe_ipc_client_request lab_client ''/s'' (''{"op":"ping"}'') 8192 160 = (r, lg) \<and> opened_fds lg = shut_fds lg\<close>
proof -
  obtain r lg where "cpe_ipc_client_request lab_client ''/s'' (''{'' @ [CHR 0x22] @ ''op'' @ [CHR 0x22] @ '':'' @ [CHR 0x22] @ ''ping'' @ [CHR 0x22] @ ''}'') 8192 160 = (r, lg)" by fastforce
  from this ipc_client_bounds[OF this] show ?thesis by simp
qed

end
