(* ===== verification/Ctl_Lua.thy ===== *)
theory Ctl_Lua
  imports Ctl_Tool
begin

text \<open>
  \<^verbatim>\<open>agent/ctl_lua.c\<close>: the functions the shell of the control tool offers to Lua. A function builds one request,
  sends it with the client of \<open>Ctl_Tool\<close> and turns the answer into a Lua value. The value a C function leaves for Lua
  is its result here, a raised error the left value. The interpreter that runs the scripts is a parameter, and so is
  \<^verbatim>\<open>strtod\<close>, with the length of the text it consumes.
\<close>

section \<open>Values\<close>

text \<open>A table is the list of the assignments made to it, in order.\<close>

datatype lua_val = Lua_nil | Lua_bool bool | Lua_number double | Lua_string string | Lua_table "(string \<times> lua_val) list"

type_synonym strtod_fun = "string \<Rightarrow> double \<times> nat"

section \<open>Scanning an answer\<close>

definition quote :: char where
  "quote = CHR 0x22"

definition error_message :: "string \<Rightarrow> string" where
  \<open>error_message resp =
     (case strstr resp (''"error"'') of None \<Rightarrow> []
      | Some p \<Rightarrow>
          (case dropWhile (\<lambda>c. c \<noteq> CHR '':'') p of [] \<Rightarrow> []
           | _ # p1 \<Rightarrow> take 127 (takeWhile (\<lambda>c. c \<noteq> quote) (dropWhile (\<lambda>c. c = CHR '' '' \<or> c = quote) p1))))\<close>

text \<open>The number of characters up to the bracket that closes the first one, or all of them.\<close>

fun closing :: "int \<Rightarrow> string \<Rightarrow> nat option" where
  "closing depth [] = None"
| "closing depth (c # cs) =
     (if c = CHR ''{'' \<or> c = CHR ''['' then map_option Suc (closing (depth + 1) cs)
      else if c = CHR ''}'' \<or> c = CHR '']'' then (if depth - 1 = 0 then Some 1 else map_option Suc (closing (depth - 1) cs))
      else map_option Suc (closing depth cs))"

text \<open>The nested value is skipped: at least one character, then until the depth is 0 or the text ends.\<close>

fun skip_nested :: "int \<Rightarrow> string \<Rightarrow> string" where
  "skip_nested depth [] = []"
| "skip_nested depth (c # cs) =
     (let d = (if c = CHR ''{'' \<or> c = CHR ''['' then depth + 1 else if c = CHR ''}'' \<or> c = CHR '']'' then depth - 1 else depth)
      in if cs \<noteq> [] \<and> d > 0 then skip_nested d cs else cs)"

text \<open>A quoted value of at most \<open>room\<close> characters and the text after it, the closing quote included when the copy stopped there.\<close>

fun quoted_value :: "nat \<Rightarrow> string \<Rightarrow> string \<times> string" where
  "quoted_value room [] = ([], [])"
| "quoted_value room (c # cs) =
     (if c = quote then ([], cs)
      else if room = 0 then ([], c # cs)
      else case cs of
        d # ds \<Rightarrow> if c = CHR 0x5C then (case quoted_value (room - 1) ds of (v, r) \<Rightarrow> (d # v, r))
                  else (case quoted_value (room - 1) cs of (v, r) \<Rightarrow> (c # v, r))
      | [] \<Rightarrow> ([c], []))"

text \<open>One value: \<open>None\<close> ends the scan; the inner option is \<open>None\<close> for a nested value, which sets no field.\<close>

definition field_value :: "strtod_fun \<Rightarrow> string \<Rightarrow> (lua_val option \<times> string) option" where
  "field_value strtod q =
     (case q of [] \<Rightarrow> None
      | c # cs \<Rightarrow>
          if c = quote then (let (v, r) = quoted_value 255 cs in Some (Some (Lua_string v), r))
          else if c = CHR ''t'' \<or> c = CHR ''f'' then Some (Some (Lua_bool (c = CHR ''t'')), dropWhile (\<lambda>x. x \<noteq> CHR '','' \<and> x \<noteq> CHR ''}'') q)
          else if is_digit c \<or> c = CHR ''-'' \<or> c = CHR ''.'' then (let (x, n) = strtod q in Some (Some (Lua_number x), drop n q))
          else if c = CHR ''{'' \<or> c = CHR ''['' then Some (None, skip_nested 0 q)
          else None)"

declare quoted_value.simps [simp del]

lemma quoted_value_step:
  "quoted_value room [] = ([], [])" "quoted_value room (quote # cs) = ([], cs)" "c \<noteq> quote \<Longrightarrow> quoted_value 0 (c # cs) = ([], c # cs)"
  "c \<noteq> quote \<Longrightarrow> quoted_value (Suc n) [c] = ([c], [])"
  "quoted_value (Suc n) (CHR 0x5C # d # ds) = (d # fst (quoted_value n ds), snd (quoted_value n ds))"
  "c \<noteq> quote \<Longrightarrow> c \<noteq> CHR 0x5C \<Longrightarrow> quoted_value (Suc n) (c # d # ds) = (c # fst (quoted_value n (d # ds)), snd (quoted_value n (d # ds)))"
  by (simp_all add: quoted_value.simps(1) quoted_value.simps(2)[of _ _ cs] quoted_value.simps(2)[of _ _ "[]"] quoted_value.simps(2)[of _ _ "d # ds"]
      split_beta quote_def)

lemma quoted_value_le: "length (snd (quoted_value room s)) \<le> length s"
proof (induction "length s" arbitrary: room s rule: less_induct)
  case less
  show ?case
  proof (cases s)
    case (Cons c cs)
    note IH = less[of ds for ds]
    show ?thesis
    proof (cases "c = quote \<or> room = 0 \<or> cs = []")
      case True
      then show ?thesis using Cons by (cases "c = quote"; cases room) (auto simp: quoted_value_step)
    next
      case False
      then obtain n d ds where n: "room = Suc n" "cs = d # ds" by (cases room; cases cs) auto
      show ?thesis using less[of ds n] less[of cs n] False Cons n by (cases "c = CHR 0x5C") (auto simp: quoted_value_step quote_def)
    qed
  qed (simp add: quoted_value_step)
qed

lemma skip_nested_le: "length (skip_nested d s) \<le> length s"
  by (induction d s rule: skip_nested.induct) (auto simp: Let_def)

lemma field_value_le:
  assumes "field_value strtod q = Some (v, r)"
  shows "length r \<le> length q"
proof (cases q)
  case (Cons c cs)
  then show ?thesis
    using assms quoted_value_le[of 255 cs] skip_nested_le[of 0 q] length_dropWhile_le[of "\<lambda>x. x \<noteq> CHR '','' \<and> x \<noteq> CHR ''}''" q]
    unfolding field_value_def by (auto simp: Let_def split_beta simp del: skip_nested.simps dropWhile.simps split: if_split_asm)
qed (use assms in \<open>simp add: field_value_def\<close>)

text \<open>The loop over the pairs of a flat object.\<close>

function table_fields :: "strtod_fun \<Rightarrow> string \<Rightarrow> (string \<times> lua_val) list" where
  "table_fields strtod q =
     (case dropWhile (\<lambda>c. c \<noteq> quote) q of [] \<Rightarrow> []
      | _ # q1 \<Rightarrow>
          (let key = take 63 (takeWhile (\<lambda>c. c \<noteq> quote) q1); q2 = drop (length key) q1;
               q3 = (if q2 \<noteq> [] \<and> hd q2 = quote then tl q2 else q2); q4 = tl (dropWhile (\<lambda>c. c \<noteq> CHR '':'') q3);
               q5 = dropWhile (\<lambda>c. c = CHR '' '' \<or> c = CHR 0x09) q4
           in case field_value strtod q5 of None \<Rightarrow> []
              | Some (v, r) \<Rightarrow>
                  (let q6 = dropWhile (\<lambda>c. c = CHR '' '' \<or> c = CHR '','' \<or> c = CHR 0x09) r;
                       more = (if q6 \<noteq> [] \<and> hd q6 = CHR ''}'' then [] else table_fields strtod q6)
                   in (case v of None \<Rightarrow> more | Some x \<Rightarrow> (key, x) # more))))"
  by pat_completeness auto
termination
proof (relation "measure (\<lambda>(strtod, q). length q)", goal_cases)
  case (2 strtod q c q1 key q2 q3 q4 q5 p v r q6)
  have "length q1 < length q" using 2(1) length_dropWhile_le[of "\<lambda>c. c \<noteq> quote" q] by simp
  moreover have "length q6 \<le> length r" unfolding 2(9) by (rule length_dropWhile_le)
  moreover have "length r \<le> length q5" using field_value_le 2(7,8) by blast
  moreover have "length q5 \<le> length q4" unfolding 2(6) by (rule length_dropWhile_le)
  moreover have "length q4 \<le> length q3" unfolding 2(5) using length_dropWhile_le[of "\<lambda>c. c \<noteq> CHR '':''" q3] by simp
  moreover have "length q3 \<le> length q1" unfolding 2(4) 2(3) by simp
  ultimately show ?case by simp
qed simp

declare table_fields.simps [simp del]

section \<open>One call\<close>

text \<open>\<open>copy_ok\<close> says whether the copy of the data can be allocated.\<close>

definition data_value :: "strtod_fun \<Rightarrow> bool \<Rightarrow> string \<Rightarrow> string \<Rightarrow> lua_val" where
  "data_value strtod copy_ok resp data =
     (if take 4 data = ''null'' then Lua_nil
      else if take 4 data = ''true'' then Lua_bool True
      else if take 5 data = ''false'' then Lua_bool False
      else case data of [] \<Rightarrow> Lua_string resp
      | c # cs \<Rightarrow>
          if c = CHR ''{'' \<or> c = CHR ''['' then
            (if last data = CHR ''}'' \<and> copy_ok then
               (let copy = take (case closing 0 data of None \<Rightarrow> length data | Some n \<Rightarrow> n) data
                in Lua_table ((''_json'', Lua_string copy) # table_fields strtod (if hd copy = CHR ''{'' then tl copy else copy)))
             else Lua_string data)
          else if is_digit c \<or> c = CHR ''-'' then Lua_number (fst (strtod data))
          else if c = quote then Lua_string (take 511 (takeWhile (\<lambda>x. x \<noteq> quote) cs))
          else Lua_string resp)"

definition ipc_call :: "strtod_fun \<Rightarrow> bool \<Rightarrow> string + string \<Rightarrow> string + lua_val" where
  \<open>ipc_call strtod copy_ok reply =
     (case reply of Inl e \<Rightarrow> Inl (str_or e ''ipc failed'')
      | Inr r \<Rightarrow>
          (let resp = takeWhile (\<lambda>c. c \<noteq> CHR 0x00) r in
           if strstr resp (''"ok":false'') \<noteq> None \<or> strstr resp (''"ok": false'') \<noteq> None
           then Inl (str_or (error_message resp) resp)
           else case strstr resp (''"data":'') of None \<Rightarrow> Inr (Lua_string resp)
           | Some d \<Rightarrow> Inr (data_value strtod copy_ok resp (dropWhile (\<lambda>c. c = CHR '' '' \<or> c = CHR 0x09) (drop 7 d)))))\<close>

section \<open>The functions of the library\<close>

text \<open>An optional argument is \<open>None\<close> when it is missing or nil; an integer is a 64-bit Lua integer.\<close>

datatype lua_call = l_status | l_config | l_last_sample | l_latency | l_spool | l_emit | l_tcp_poll "u64 option" | l_tcp_stats
  | l_tcp_by_ip "string option" | l_tcp_by_prefix "string option" | l_tcp_emit "u64 option" | l_tcp_reset | l_ping | l_raw string

definition u32_of :: "u64 \<Rightarrow> u32" where
  "u32_of x = ucast x"

fun call_request :: "lua_call \<Rightarrow> string" where
  \<open>call_request l_status = ''{"op":"status"}''\<close>
| \<open>call_request l_config = ''{"op":"config"}''\<close>
| \<open>call_request l_last_sample = ''{"op":"last_sample"}''\<close>
| \<open>call_request l_latency = ''{"op":"latency"}''\<close>
| \<open>call_request l_spool = ''{"op":"spool"}''\<close>
| \<open>call_request l_emit = ''{"op":"emit"}''\<close>
| \<open>call_request (l_tcp_poll m) = cstr 80 (''{"op":"tcp_poll","max":'' @ u32_dec (case m of None \<Rightarrow> 64 | Some x \<Rightarrow> u32_of x) @ ''}'')\<close>
| \<open>call_request l_tcp_stats = ''{"op":"tcp_stats"}''\<close>
| \<open>call_request (l_tcp_by_ip ip) =
     cstr 160 (case ip of None \<Rightarrow> ''{"op":"tcp_by_ip"}'' | Some s \<Rightarrow> ''{"op":"tcp_by_ip","ip":"'' @ s @ ''"}'')\<close>
| \<open>call_request (l_tcp_by_prefix p) =
     cstr 200 (case p of None \<Rightarrow> ''{"op":"tcp_by_prefix"}'' | Some s \<Rightarrow> ''{"op":"tcp_by_prefix","prefix":"'' @ s @ ''"}'')\<close>
| \<open>call_request (l_tcp_emit n) = cstr 80 (''{"op":"tcp_emit","top_n":'' @ u32_dec (case n of None \<Rightarrow> 0 | Some x \<Rightarrow> u32_of x) @ ''}'')\<close>
| \<open>call_request l_tcp_reset = ''{"op":"tcp_reset"}''\<close>
| \<open>call_request l_ping = ''{"op":"ping"}''\<close>
| \<open>call_request (l_raw s) = s\<close>

definition cpe_call :: "strtod_fun \<Rightarrow> bool \<Rightarrow> client_env \<Rightarrow> string \<Rightarrow> lua_call \<Rightarrow> string + lua_val" where
  "cpe_call strtod copy_ok env sock c = ipc_call strtod copy_ok (fst (cpe_ipc_client_request env sock (call_request c) 8192 160))"


section \<open>Reading back an object\<close>

text \<open>
  The objects of the server are flat: keys, quoted texts, truth values and numbers. \<open>lua_field\<close> is the field a
  script should see, \<open>num\<close> the number a numeral means.
\<close>

fun lua_field :: "(string \<Rightarrow> double) \<Rightarrow> json_field \<Rightarrow> string \<times> lua_val" where
  "lua_field num (k, q, v) =
     (k, if q then Lua_string v else if v = ''true'' then Lua_bool True else if v = ''false'' then Lua_bool False else Lua_number (num v))"

definition brackets :: "char set" where
  "brackets = {CHR ''{'', CHR ''}'', CHR ''['', CHR '']''}"

fun table_field_ok :: "json_field \<Rightarrow> bool" where
  "table_field_ok (k, q, v) \<longleftrightarrow> field_ok (k, q, v) \<and>
     (if q then length v < 256 \<and> set v \<inter> brackets = {} else v = ''true'' \<or> v = ''false'' \<or> v \<noteq> [] \<and> is_digit (hd v))"

definition reads_numbers :: "strtod_fun \<Rightarrow> (string \<Rightarrow> double) \<Rightarrow> json_field list \<Rightarrow> bool" where
  "reads_numbers strtod num fs \<longleftrightarrow>
     (\<forall>(k, q, v) \<in> set fs. \<not> q \<longrightarrow> is_digit (hd v) \<longrightarrow> (\<forall>c r. c \<in> {CHR '','', CHR ''}''} \<longrightarrow> strtod (v @ c # r) = (num v, length v)))"

lemma quoted_value_plain:
  "quote \<notin> set v \<Longrightarrow> CHR 0x5C \<notin> set v \<Longrightarrow> length v \<le> room \<Longrightarrow> quoted_value room (v @ quote # r) = (v, r)"
proof (induction v arbitrary: room)
  case Nil
  then show ?case by (simp add: quoted_value_step)
next
  case (Cons c v)
  then obtain n where n: "room = Suc n" by (cases room) auto
  obtain d ds where d: "v @ quote # r = d # ds" by (cases v) auto
  have "quoted_value n (d # ds) = (v, r)" using Cons.IH[of n] Cons.prems n d by simp
  moreover have "c \<noteq> quote" "c \<noteq> CHR 0x5C" using Cons.prems by auto
  ultimately show ?case using quoted_value_step(6)[of c n d ds] n d by simp
qed

lemma digit_chars: "is_digit d \<Longrightarrow> d \<notin> {quote, CHR '' '', CHR 0x09, CHR ''t'', CHR ''f''}"
  by (auto simp: is_digit_def quote_def)

lemma field_value_plain:
  assumes "table_field_ok (k, q, v)" "c \<in> {CHR '','', CHR ''}''}" "\<not> q \<Longrightarrow> is_digit (hd v) \<Longrightarrow> strtod (v @ c # s) = (num v, length v)"
  shows "field_value strtod ((if q then quote # v @ [quote] else v) @ c # s) = Some (Some (snd (lua_field num (k, q, v))), c # s)"
proof (cases q)
  case True
  then have "quoted_value 255 (v @ quote # c # s) = (v, c # s)"
    using assms(1) by (intro quoted_value_plain) (auto simp: list_all_iff quote_def)
  then show ?thesis using True by (simp add: field_value_def)
next
  case False
  then consider "v = ''true''" | "v = ''false''" | d ds where "v = d # ds" "is_digit d" using assms(1) by (cases v) auto
  then show ?thesis
  proof cases
    case 3
    have "v \<noteq> ''true'' \<and> v \<noteq> ''false''" "d \<noteq> quote" "d \<noteq> CHR ''t''" "d \<noteq> CHR ''f''" using 3 digit_chars[of d] by auto
    then show ?thesis using False 3 assms(3) by (simp add: field_value_def)
  qed (use False assms(2) in \<open>auto simp: field_value_def quote_def\<close>)
qed

lemma table_fields_step:
  assumes "table_field_ok (k, q, v)" "c = CHR ''}'' \<or> c = CHR '','' \<and> s \<noteq> [] \<and> hd s = quote"
    "\<not> q \<Longrightarrow> is_digit (hd v) \<Longrightarrow> strtod (v @ c # s) = (num v, length v)"
  shows "table_fields strtod (field_text (k, q, v) @ c # s) =
    lua_field num (k, q, v) # (if c = CHR ''}'' then [] else table_fields strtod s)"
proof -
  define w where "w = (if q then quote # v @ [quote] else v) @ c # s"
  obtain x where x: "lua_field num (k, q, v) = (k, x)" by (simp split: prod.split)
  have t: "field_text (k, q, v) @ c # s = quote # k @ quote # CHR '':'' # w" by (simp add: quote_def w_def)
  have k: "quote \<notin> set k" "length k < 60" using assms(1) by (auto simp: sql_ident_ok_def quote_def dest: ident_not_in)
  then have tw: "takeWhile (\<lambda>c. c \<noteq> quote) (k @ quote # y) = k" for y by (induction k) auto
  have tk: "take 63 (takeWhile (\<lambda>c. c \<noteq> quote) (k @ quote # y)) = k" for y unfolding tw using k(2) by simp
  have dk: "drop (length k) (k @ y) = y" for y by simp
  have b: "dropWhile (\<lambda>c. c = CHR '' '' \<or> c = CHR 0x09) w = w"
  proof -
    have "hd w \<noteq> CHR '' '' \<and> hd w \<noteq> CHR 0x09"
      using assms(1) digit_chars[of "hd v"] unfolding w_def by (cases v) (auto simp: quote_def)
    moreover have "w \<noteq> []" by (simp add: w_def)
    ultimately show ?thesis by (cases w) auto
  qed
  have fv: "field_value strtod w = Some (Some x, c # s)"
    using field_value_plain[where strtod = strtod and num = num and c = c and s = s, OF assms(1) _ assms(3)] assms(2) x unfolding w_def by auto
  have q6: "dropWhile (\<lambda>c. c = CHR '' '' \<or> c = CHR '','' \<or> c = CHR 0x09) (c # s) = (if c = CHR ''}'' then c # s else s)"
    using assms(2) by (cases s) (auto simp: quote_def)
  have e: "(if (if c = CHR ''}'' then c # s else s) \<noteq> [] \<and> hd (if c = CHR ''}'' then c # s else s) = CHR ''}'' then []
      else table_fields strtod (if c = CHR ''}'' then c # s else s)) = (if c = CHR ''}'' then [] else table_fields strtod s)"
    using assms(2) by (auto simp: quote_def)
  have d: "dropWhile (\<lambda>c. c \<noteq> quote) (quote # y) = quote # y" "dropWhile (\<lambda>c. c \<noteq> CHR '':'') (CHR '':'' # y) = CHR '':'' # y" for y
    by simp_all
  have "table_fields strtod (quote # k @ quote # CHR '':'' # w) =
    (k, x) # (if c = CHR ''}'' then [] else table_fields strtod s)"
    by (subst table_fields.simps) (simp only: d list.case Let_def tk dk list.sel list.distinct simp_thms if_True b fv option.case prod.case q6 e)
  then show ?thesis unfolding t x .
qed

lemma reads_numbers_Cons:
  "reads_numbers strtod num ((k, q, v) # fs) \<longleftrightarrow>
     (\<not> q \<longrightarrow> is_digit (hd v) \<longrightarrow> (\<forall>c r. c \<in> {CHR '','', CHR ''}''} \<longrightarrow> strtod (v @ c # r) = (num v, length v))) \<and> reads_numbers strtod num fs"
  by (simp add: reads_numbers_def)

lemma table_fields_row:
  assumes "fs \<noteq> []" "list_all table_field_ok fs" "reads_numbers strtod num fs"
  shows "table_fields strtod (fields_text fs @ CHR ''}'' # s) = map (lua_field num) fs"
  using assms
proof (induction fs rule: fields_text.induct)
  case (2 f)
  obtain k q v where f: "f = (k, q, v)" by (cases f)
  have ok: "table_field_ok (k, q, v)" and rd: "\<not> q \<Longrightarrow> is_digit (hd v) \<Longrightarrow> strtod (v @ CHR ''}'' # s) = (num v, length v)"
    using 2(2,3) unfolding f reads_numbers_Cons by (simp_all del: table_field_ok.simps)
  from table_fields_step[where strtod = strtod and num = num and c = "CHR ''}''" and s = s, OF ok _ rd] show ?case unfolding f by (simp del: table_field_ok.simps lua_field.simps field_text.simps)
next
  case (3 f g fs)
  obtain k q v where f: "f = (k, q, v)" by (cases f)
  obtain k' q' v' where g: "g = (k', q', v')" by (cases g)
  let ?s = "fields_text (g # fs) @ CHR ''}'' # s"
  have h: "?s \<noteq> [] \<and> hd ?s = quote" using g by (cases fs) (simp_all add: quote_def)
  have ok: "table_field_ok (k, q, v)" and rd: "\<not> q \<Longrightarrow> is_digit (hd v) \<Longrightarrow> strtod (v @ CHR '','' # ?s) = (num v, length v)"
    using 3(3,4) unfolding f reads_numbers_Cons by (simp_all del: table_field_ok.simps fields_text.simps)
  have "reads_numbers strtod num (g # fs)" using 3(4) unfolding f reads_numbers_Cons by simp
  then have ih: "table_fields strtod ?s = map (lua_field num) (g # fs)" using 3(1) 3(3) by (simp del: table_field_ok.simps)
  have "fields_text (f # g # fs) @ CHR ''}'' # s = field_text (k, q, v) @ CHR '','' # ?s" using f by simp
  also have "table_fields strtod \<dots> = lua_field num (k, q, v) # table_fields strtod ?s"
    using table_fields_step[where strtod = strtod and num = num and c = "CHR '',''" and s = ?s, OF ok _ rd] h by (simp del: table_field_ok.simps lua_field.simps field_text.simps fields_text.simps)
  finally show ?case using ih f by (simp only: list.map)
qed simp


section \<open>Answers of the server\<close>

definition reply_text :: "string \<Rightarrow> json_field list \<Rightarrow> string" where
  \<open>reply_text op fs = ''{"ok":true,"op":"'' @ op @ ''","data":'' @ row_text fs @ ''}''\<close>

lemma closing_flat: "set t \<inter> brackets = {} \<Longrightarrow> closing d (t @ x) = map_option ((+) (length t)) (closing d x)"
  by (induction t; cases "closing d x") (auto simp: brackets_def)

lemma field_flat: "table_field_ok f \<Longrightarrow> set (field_text f) \<inter> brackets = {}"
proof (cases f)
  case (fields k q v)
  have i: "ident_char c \<Longrightarrow> c \<notin> brackets" for c by (auto simp: ident_char_def brackets_def less_eq_char_def)
  assume "table_field_ok f"
  then have "set k \<inter> brackets = {}" "set v \<inter> brackets = {}" using fields i by (auto simp: sql_ident_ok_def list_all_iff split: if_splits)
  then show ?thesis using fields by (auto simp: brackets_def)
qed

lemma fields_flat: "list_all table_field_ok fs \<Longrightarrow> set (fields_text fs) \<inter> brackets = {}"
proof (induction fs rule: fields_text.induct)
  case (3 f g fs)
  then have "set (field_text f) \<inter> brackets = {}" "set (fields_text (g # fs)) \<inter> brackets = {}" using field_flat[of f] by (simp_all del: table_field_ok.simps)
  moreover have "CHR '','' \<notin> brackets" by (simp add: brackets_def)
  ultimately show ?case by (auto simp del: field_text.simps)
qed (auto simp del: field_text.simps table_field_ok.simps dest: field_flat)

lemma closing_row: "list_all table_field_ok fs \<Longrightarrow> closing 0 (row_text fs @ x) = Some (length (row_text fs))"
  using closing_flat[OF fields_flat, of fs 1 "CHR ''}'' # x"] by (simp add: row_text_def)

text \<open>A pattern of another key is found nowhere in the fields.\<close>

lemma strstr_fields:
  assumes "list_all table_field_ok fs" "sql_ident_ok k" "k \<notin> fst ` set fs" "fs \<noteq> []"
  shows "strstr (fields_text fs @ CHR ''}'' # s) (CHR 0x22 # k @ CHR 0x22 # CHR '':'' # x) = strstr s (CHR 0x22 # k @ CHR 0x22 # CHR '':'' # x)"
  using assms(1,3,4)
proof (induction fs rule: fields_text.induct)
  case (2 f)
  obtain k1 q v where f: "f = (k1, q, v)" by (cases f)
  have ok: "field_ok (k1, q, v)" and n: "k1 \<noteq> k" using 2(1,2) f by (simp_all del: field_ok.simps)
  show ?case unfolding f fields_text.simps by (rule strstr_other_field[OF ok assms(2) n]) simp
next
  case (3 f g fs)
  obtain k1 q v where f: "f = (k1, q, v)" by (cases f)
  let ?s = "fields_text (g # fs) @ CHR ''}'' # s" and ?pat = "CHR 0x22 # k @ CHR 0x22 # CHR '':'' # x"
  have e: "fields_text (f # g # fs) @ CHR ''}'' # s = field_text (k1, q, v) @ CHR '','' # ?s" using f by simp
  have ok: "field_ok (k1, q, v)" and n: "k1 \<noteq> k" using 3(2,3) f by (simp_all del: field_ok.simps) blast
  have "strstr (field_text (k1, q, v) @ CHR '','' # ?s) ?pat = strstr ?s ?pat" by (rule strstr_other_field[OF ok assms(2) n]) simp
  moreover have "strstr ?s ?pat = strstr s ?pat" using 3(2,3) by (intro 3(1)) (simp_all del: table_field_ok.simps)
  ultimately show ?case unfolding e by (rule trans)
qed simp

lemma reply_split:
  "reply_text op fs = CHR ''{'' # (field_text (''ok'', False, ''true'') @ CHR '','' # field_text (''op'', True, op) @ CHR '','' #
     CHR 0x22 # ''data'' @ CHR 0x22 # CHR '':'' # CHR ''{'' # fields_text fs @ CHR ''}'' # ''}'')"
  by (simp add: reply_text_def row_text_def)

lemma op_field_ok: "sql_ident_ok op \<Longrightarrow> field_ok (''op'', True, op)"
  by (auto simp: sql_ident_ok_def ident_char_def list_all_iff less_eq_char_def)

lemma reply_no_failure:
  assumes "list_all table_field_ok fs" "fs \<noteq> []" "''ok'' \<notin> fst ` set fs" "sql_ident_ok op" "x = ''false'' \<or> x = '' false''"
  shows "strstr (reply_text op fs) (CHR 0x22 # ''ok'' @ CHR 0x22 # CHR '':'' # x) = None"
proof -
  let ?pat = "CHR 0x22 # ''ok'' @ CHR 0x22 # CHR '':'' # x"
  let ?Z = "CHR 0x22 # ''data'' @ CHR 0x22 # CHR '':'' # CHR ''{'' # fields_text fs @ CHR ''}'' # ''}''"
  have i: "sql_ident_ok ''ok''" by (simp add: sql_ident_ok_def ident_char_def)
  have "strstr (CHR ''{'' # (field_text (''ok'', False, ''true'') @ CHR '','' # Y)) ?pat = strstr Y ?pat" for Y using assms(5) by auto
  then have "strstr (reply_text op fs) ?pat = strstr (field_text (''op'', True, op) @ CHR '','' # ?Z) ?pat" unfolding reply_split .
  also have "\<dots> = strstr ?Z ?pat" using op_field_ok[OF assms(4)] i by (intro strstr_other_field) auto
  also have "\<dots> = strstr (fields_text fs @ CHR ''}'' # ''}'') ?pat" by simp
  also have "\<dots> = strstr ''}'' ?pat" by (rule strstr_fields[OF assms(1) i assms(3,2)])
  finally show ?thesis by simp
qed


lemma reply_data:
  assumes "sql_ident_ok op"
  shows "strstr (reply_text op fs) (CHR 0x22 # ''data'' @ CHR 0x22 # CHR '':'' # []) =
    Some (CHR 0x22 # ''data'' @ CHR 0x22 # CHR '':'' # row_text fs @ ''}'')"
proof -
  let ?pat = "CHR 0x22 # ''data'' @ CHR 0x22 # CHR '':'' # []"
  let ?Z = "CHR 0x22 # ''data'' @ CHR 0x22 # CHR '':'' # CHR ''{'' # fields_text fs @ CHR ''}'' # ''}''"
  have "strstr (CHR ''{'' # (field_text (''ok'', False, ''true'') @ CHR '','' # Y)) ?pat = strstr Y ?pat" for Y by simp
  then have "strstr (reply_text op fs) ?pat = strstr (field_text (''op'', True, op) @ CHR '','' # ?Z) ?pat" unfolding reply_split .
  also have "\<dots> = strstr ?Z ?pat" using op_field_ok[OF assms]
    by (intro strstr_other_field) (auto simp: sql_ident_ok_def ident_char_def)
  finally show ?thesis by (simp add: row_text_def)
qed

lemma reply_no_nul:
  assumes "list_all table_field_ok fs" "sql_ident_ok op"
  shows "takeWhile (\<lambda>c. c \<noteq> CHR 0x00) (reply_text op fs) = reply_text op fs"
proof -
  have i: "ident_char c \<Longrightarrow> c \<noteq> CHR 0x00" for c by (auto simp: ident_char_def less_eq_char_def)
  have f: "table_field_ok f \<Longrightarrow> CHR 0x00 \<notin> set (field_text f)" for f
    using i by (cases f) (auto simp: sql_ident_ok_def list_all_iff split: if_splits)
  have "list_all table_field_ok gs \<Longrightarrow> CHR 0x00 \<notin> set (fields_text gs)" for gs
    by (induction gs rule: fields_text.induct) (auto simp del: field_text.simps table_field_ok.simps dest: f)
  then have "CHR 0x00 \<notin> set (reply_text op fs)"
    using assms i by (auto simp: reply_text_def row_text_def sql_ident_ok_def list_all_iff)
  then show ?thesis by (subst takeWhile_eq_all_conv) auto
qed

text \<open>
  A flat object of the server becomes a table with exactly its fields, in order, and its text under \<^verbatim>\<open>_json\<close>.
\<close>

lemma ipc_call_object:
  assumes "list_all table_field_ok fs" "fs \<noteq> []" "''ok'' \<notin> fst ` set fs" "sql_ident_ok op" "reads_numbers strtod num fs"
  shows "ipc_call strtod True (Inr (reply_text op fs)) = Inr (Lua_table ((''_json'', Lua_string (row_text fs)) # map (lua_field num) fs))"
proof -
  let ?d = "row_text fs @ ''}''"
  have r: "row_text fs = CHR ''{'' # fields_text fs @ ''}''" by (simp add: row_text_def)
  have "data_value strtod True resp ?d = Lua_table ((''_json'', Lua_string (row_text fs)) # table_fields strtod (fields_text fs @ CHR ''}'' # []))" for resp
    using closing_row[OF assms(1), of "''}''"] by (simp add: data_value_def Let_def r)
  then have d: "data_value strtod True resp ?d = Lua_table ((''_json'', Lua_string (row_text fs)) # map (lua_field num) fs)" for resp
    unfolding table_fields_row[OF assms(2,1,5)] .
  have "dropWhile (\<lambda>c. c = CHR '' '' \<or> c = CHR 0x09) (drop 7 (CHR 0x22 # ''data'' @ CHR 0x22 # CHR '':'' # ?d)) = ?d" by (simp add: r)
  then show ?thesis
    using reply_no_failure[OF assms(1-4)] reply_data[OF assms(4), of fs] d
    by (simp add: ipc_call_def reply_no_nul[OF assms(1,4)] Let_def)
qed


section \<open>The status of the agent\<close>

definition status_fields :: "('p,'n,'w,'t) cpe_agent \<Rightarrow> json_field list" where
  "status_fields a =
     (let cfg = ag_cfg a in
      [(''router_id'', True, c_router_id cfg), (''emit_mode'', True, c_emit_mode cfg), (''egress_url'', True, c_https_url cfg),
       (''openai_proxy_url'', True, c_openai_proxy_url cfg), (''demo'', False, bool_json (c_demo_mode cfg)),
       (''tcp_stats'', False, bool_json (c_tcp_stats_enabled cfg)), (''tcp_nflog_group'', False, u16_dec (c_tcp_nflog_group cfg)),
       (''flow_acct'', False, bool_json (c_flow_acct_enabled cfg)), (''spool_depth'', False, dec (cpe_agent_spool_depth a)),
       (''spool_drops'', False, u64_dec (ag_spool_drops a)), (''generation'', False, u64_dec (c_generation cfg))])"

definition plain_text :: "string \<Rightarrow> bool" where
  "plain_text s \<longleftrightarrow> length s < 256 \<and> set s \<inter> ({CHR 0x22, CHR 0x5C, CHR 0x0A, CHR 0x00} \<union> brackets) = {}"

lemma status_reply_text: "status_json a = reply_text ''status'' (status_fields a)"
  by (simp add: status_json_def reply_text_def status_fields_def row_text_def Let_def)

lemma text_field_ok: "sql_ident_ok k \<Longrightarrow> length k < 60 \<Longrightarrow> plain_text v \<Longrightarrow> table_field_ok (k, True, v)"
  by (auto simp: plain_text_def list_all_iff)

lemma dec_field_ok: "sql_ident_ok k \<Longrightarrow> length k < 60 \<Longrightarrow> table_field_ok (k, False, dec n)"
proof -
  have "is_digit c \<Longrightarrow> ident_char c" for c by (auto simp: is_digit_def ident_char_def less_eq_char_def)
  then have "list_all ident_char (dec n)" "is_digit (hd (dec n))" using dec_digits[of _ n] by (auto simp: list_all_iff)
  then show "sql_ident_ok k \<Longrightarrow> length k < 60 \<Longrightarrow> table_field_ok (k, False, dec n)" by simp
qed

lemma bool_field_ok: "sql_ident_ok k \<Longrightarrow> length k < 60 \<Longrightarrow> table_field_ok (k, False, bool_json b)"
  by (simp add: bool_json_def ident_char_def)

lemma status_fields_ok:
  assumes "plain_text (c_router_id (ag_cfg a))" "plain_text (c_emit_mode (ag_cfg a))" "plain_text (c_https_url (ag_cfg a))" "plain_text (c_openai_proxy_url (ag_cfg a))"
  shows "list_all table_field_ok (status_fields a)"
proof -
  have k: "sql_ident_ok ''router_id''" "sql_ident_ok ''emit_mode''" "sql_ident_ok ''egress_url''" "sql_ident_ok ''openai_proxy_url''" "sql_ident_ok ''demo''"
    "sql_ident_ok ''tcp_stats''" "sql_ident_ok ''tcp_nflog_group''" "sql_ident_ok ''flow_acct''" "sql_ident_ok ''spool_depth''" "sql_ident_ok ''spool_drops''"
    "sql_ident_ok ''generation''" by (simp_all add: sql_ident_ok_def ident_char_def)
  show ?thesis using assms k
    by (simp add: status_fields_def Let_def text_field_ok bool_field_ok dec_field_ok u16_dec_def u64_dec_def del: table_field_ok.simps)
qed

text \<open>C34: 
  From the shell to the agent and back: \<^verbatim>\<open>cpe.status()\<close> returns a table with exactly the fields of the agent's state,
  texts as texts, truth values as truth values and counters as numbers, and the text of the object under \<^verbatim>\<open>_json\<close>,
  whatever the configuration is as long as its texts have no quotes, brackets or control characters.
\<close>

theorem ctl_lua_status_table:
  assumes "plain_text (c_router_id (ag_cfg a))" "plain_text (c_emit_mode (ag_cfg a))" "plain_text (c_https_url (ag_cfg a))" "plain_text (c_openai_proxy_url (ag_cfg a))"
    and "reads_numbers strtod num (status_fields a)" "cpe_ipc_handle_request env (call_request l_status) 8192 a = Some (Some reply, b)"
  shows "ipc_call strtod True (Inr reply) =
    Inr (Lua_table ((''_json'', Lua_string (row_text (status_fields a))) # map (lua_field num) (status_fields a))) \<and> b = a"
proof -
  have "reply = status_json a \<and> b = a"
    using assms(6) by (auto simp: cpe_ipc_handle_request_def read_op_def json_get_str_def json_value_def skip_blanks_def fits_def split: if_splits)
  moreover have "status_fields a \<noteq> []" "''ok'' \<notin> fst ` set (status_fields a)" by (simp_all add: status_fields_def Let_def)
  moreover have "sql_ident_ok ''status''" by (simp add: sql_ident_ok_def ident_char_def)
  ultimately show ?thesis using ipc_call_object[OF status_fields_ok[OF assms(1-4)] _ _ _ assms(5)] by (simp add: status_reply_text)
qed

section \<open>Errors\<close>

lemma strstr_error_key:
  assumes "CHR 0x22 \<notin> set u" "u \<noteq> ''error''"
  shows "strstr (CHR 0x22 # u @ CHR 0x22 # CHR '','' # s) (CHR 0x22 # ''error'' @ [CHR 0x22]) = strstr s (CHR 0x22 # ''error'' @ [CHR 0x22])"
proof -
  let ?pat = "CHR 0x22 # ''error'' @ [CHR 0x22]"
  have "u = ''error''" if "u @ CHR 0x22 # t = ''error'' @ CHR 0x22 # r" for t r
  proof -
    have "takeWhile (\<lambda>y. y \<noteq> CHR 0x22) (u @ CHR 0x22 # t) = u" using assms(1) by (induction u) auto
    then show ?thesis unfolding that by simp
  qed
  then have "take (length ?pat) (CHR 0x22 # u @ CHR 0x22 # CHR '','' # s) \<noteq> ?pat" using assms(2) unfolding take_prefix_eq by auto
  then have "strstr (CHR 0x22 # u @ CHR 0x22 # CHR '','' # s) ?pat = strstr (u @ CHR 0x22 # CHR '','' # s) ?pat" by simp
  also have "\<dots> = strstr (CHR 0x22 # CHR '','' # s) ?pat" using assms(1) by (intro strstr_skip) simp_all
  finally show ?thesis by simp
qed

text \<open>
  A refused request raises a Lua error with the reason the server gave.
\<close>

theorem ctl_lua_error_reported:
  assumes "respond_err n op msg = Some reply" "set op \<inter> {CHR 0x22, CHR 0x00} = {}" "set msg \<inter> {CHR 0x22, CHR 0x00} = {}"
    and "op \<noteq> []" "op \<noteq> ''error''" "msg \<noteq> []" "hd msg \<noteq> CHR '' ''" "length msg < 128"
  shows "ipc_call strtod ok (Inr reply) = Inl msg"
proof -
  let ?tl = "CHR 0x22 # ''error'' @ CHR 0x22 # CHR '':'' # CHR 0x22 # msg @ [CHR 0x22, CHR ''}'']"
  have r: "reply = ''{'' @ CHR 0x22 # ''ok'' @ CHR 0x22 # '':false,'' @ CHR 0x22 # ''op'' @ CHR 0x22 # CHR '':'' # CHR 0x22 # op @ CHR 0x22 # CHR '','' # ?tl"
    using assms(1,4,6) by (simp add: respond_err_def fits_def str_or_def split: if_splits)
  have nul: "takeWhile (\<lambda>c. c \<noteq> CHR 0x00) reply = reply" using assms(2,3) unfolding r by (subst takeWhile_eq_all_conv) auto
  have f: "strstr reply (CHR 0x22 # ''ok'' @ CHR 0x22 # '':false'') \<noteq> None" unfolding r by simp
  have "strstr (''{'' @ CHR 0x22 # ''ok'' @ CHR 0x22 # '':false,'' @ CHR 0x22 # ''op'' @ CHR 0x22 # CHR '':'' # Y) (CHR 0x22 # ''error'' @ [CHR 0x22]) =
    strstr Y (CHR 0x22 # ''error'' @ [CHR 0x22])" for Y by simp
  then have "strstr reply (CHR 0x22 # ''error'' @ [CHR 0x22]) = strstr ?tl (CHR 0x22 # ''error'' @ [CHR 0x22])"
    unfolding r using strstr_error_key[OF _ assms(5), of ?tl] assms(2) by simp
  then have e: "strstr reply (CHR 0x22 # ''error'' @ [CHR 0x22]) = Some ?tl" by simp
  have q: "quote \<notin> set msg" using assms(3) by (auto simp: quote_def)
  then have "takeWhile (\<lambda>c. c \<noteq> quote) (msg @ quote # y) = msg" for y by (induction msg) auto
  moreover have "dropWhile (\<lambda>c. c = CHR '' '' \<or> c = quote) (quote # msg @ quote # y) = msg @ quote # y" for y
    using assms(6,7) q by (cases msg) auto
  ultimately have "error_message reply = msg" using e assms(8) by (simp add: error_message_def quote_def)
  then show ?thesis using f assms(6) by (simp add: ipc_call_def nul Let_def str_or_def)
qed


section \<open>The shell\<close>

text \<open>
  The interpreter: \<open>run\<close> is \<^verbatim>\<open>luaL_dostring\<close>, with the error value (\<open>None\<close> when it is no string) or the values the
  chunk returns. The state is that of the interpreter with the values on its stack.
\<close>

type_synonym 's lua_run = "string \<Rightarrow> 's \<Rightarrow> (string option + lua_val list) \<times> 's"

definition cpe_ctl_lua_create :: "bool \<Rightarrow> 's option \<Rightarrow> string \<Rightarrow> (string \<times> 's) option" where
  "cpe_ctl_lua_create calloc_ok newstate sock_path =
     (if \<not> calloc_ok then None
      else map_option (\<lambda>s. (cstr 256 (str_or sock_path ''/var/run/netforensics/cpe_agent.sock''), s)) newstate)"

definition cpe_ctl_lua_dostring :: "'s lua_run \<Rightarrow> string \<Rightarrow> nat \<Rightarrow> 's \<times> lua_val list \<Rightarrow> string option \<times> 's \<times> lua_val list" where
  "cpe_ctl_lua_dostring run src err_len st =
     (case st of (s, stack) \<Rightarrow>
        (case run src s of
           (Inl m, s') \<Rightarrow> (Some (cstr err_len (case m of None \<Rightarrow> ''lua error'' | Some t \<Rightarrow> t)), s', stack)
         | (Inr vs, s') \<Rightarrow> (None, s', stack @ vs)))"

text \<open>\<open>run_file\<close> is \<^verbatim>\<open>luaL_dofile\<close>.\<close>

definition cpe_ctl_lua_dofile :: "'s lua_run \<Rightarrow> string \<Rightarrow> nat \<Rightarrow> 's \<times> lua_val list \<Rightarrow> string option \<times> 's \<times> lua_val list" where
  "cpe_ctl_lua_dofile run_file path err_len st =
     (case st of (s, stack) \<Rightarrow>
        (case run_file path s of
           (Inl m, s') \<Rightarrow> (Some (cstr err_len (case m of None \<Rightarrow> ''lua error'' | Some t \<Rightarrow> t)), s', stack)
         | (Inr vs, s') \<Rightarrow> (None, s', stack @ vs)))"

definition statement_like :: "string \<Rightarrow> bool" where
  "statement_like line \<longleftrightarrow> take 7 line = ''return '' \<or> CHR ''='' \<in> set line \<or> take 4 line = ''for '' \<or> take 3 line = ''if '' \<or>
     take 6 line = ''while '' \<or> take 6 line = ''local '' \<or> take 9 line = ''function '' \<or> take 3 line = ''do ''"

definition repl_chunk :: "string \<Rightarrow> string" where
  "repl_chunk line = cstr 4096 (if statement_like line then line else ''return '' @ line)"

text \<open>What a line shows: an error or the value on top of the stack.\<close>

datatype repl_out = Repl_error string | Repl_value lua_val

definition repl_line :: "'s lua_run \<Rightarrow> string \<Rightarrow> 's \<times> lua_val list \<Rightarrow> repl_out list \<times> 's \<times> lua_val list" where
  "repl_line run line st =
     (let (e, st1) = cpe_ctl_lua_dostring run (repl_chunk line) 256 st in
      if e \<noteq> None then
        (let (e2, st2) = cpe_ctl_lua_dostring run line 256 st1
         in (case e2 of None \<Rightarrow> [] | Some m \<Rightarrow> [Repl_error (str_or m ''lua'')], st2))
      else if snd st1 \<noteq> [] then ((if last (snd st1) = Lua_nil then [] else [Repl_value (last (snd st1))]), fst st1, [])
      else ([], st1))"

text \<open>The loop over the lines typed, until the input ends; the lines remembered in the history, the output and the final state.\<close>

fun repl_lines :: "'s lua_run \<Rightarrow> string list \<Rightarrow> 's \<times> lua_val list \<Rightarrow> string list \<times> repl_out list \<times> 's \<times> lua_val list" where
  "repl_lines run [] st = ([], [], st)"
| "repl_lines run (l # ls) st =
     (if l = [] then repl_lines run ls st
      else if l = ''quit'' \<or> l = ''exit'' then ([], [], st)
      else (let (o1, st1) = repl_line run l st; (h, o2, st2) = repl_lines run ls st1 in (l # h, o1 @ o2, st2)))"

text \<open>The exit status, the history file with its new lines, the output and the state.\<close>

definition cpe_ctl_lua_repl ::
  "'s lua_run \<Rightarrow> string option \<Rightarrow> string list \<Rightarrow> 's option \<Rightarrow> int \<times> (string \<times> string list) option \<times> repl_out list" where
  "cpe_ctl_lua_repl run history_path input state =
     (case state of None \<Rightarrow> (1, None, [])
      | Some s \<Rightarrow>
          (let hst = (case history_path of None \<Rightarrow> ''/tmp/cpe_ctl_history'' | Some p \<Rightarrow> str_or p ''/tmp/cpe_ctl_history'');
               (h, out, st) = repl_lines run input (s, [])
           in (0, Some (hst, h), out)))"

text \<open>
  The shell cannot tell a line that does not parse with a leading \<^verbatim>\<open>return\<close> from one that fails while it runs: a line
  that is no statement by its look and whose call fails is run a second time, on the state the first run left, so a
  request with an effect is sent twice.
\<close>

theorem ctl_repl_runs_twice:
  assumes "\<not> statement_like line" "length line < 4088" "run (''return '' @ line) s = (Inl m, s1)"
  shows "repl_line run line (s, []) =
    (case run line s1 of (Inl e, s2) \<Rightarrow> ([Repl_error (str_or (cstr 256 (case e of None \<Rightarrow> ''lua error'' | Some t \<Rightarrow> t)) ''lua'')], s2, [])
     | (Inr vs, s2) \<Rightarrow> ([], s2, vs))"
  using assms by (simp add: repl_line_def repl_chunk_def cpe_ctl_lua_dostring_def cstr_fits split: prod.split sum.split)

text \<open>A session ends with status 0 and remembers exactly the lines it ran, up to the one that leaves it.\<close>

lemma repl_history:
  "fst (repl_lines run ls st) = filter (\<lambda>l. l \<noteq> []) (takeWhile (\<lambda>l. l \<noteq> ''quit'' \<and> l \<noteq> ''exit'') ls)"
  by (induction ls arbitrary: st) (simp_all add: Let_def split_beta)

section \<open>Concrete calls\<close>

definition lab_num :: "string \<Rightarrow> double" where
  "lab_num v = dbl (of_nat (digits_val v))"

definition lab_strtod :: strtod_fun where
  "lab_strtod s = (lab_num (takeWhile is_digit s), length (takeWhile is_digit s))"

lemma lab_reads: "reads_numbers lab_strtod lab_num (status_fields a)"
proof -
  have "lab_strtod (dec n @ c # r) = (lab_num (dec n), length (dec n))" if "c \<in> {CHR '','', CHR ''}''}" for n c r
  proof -
    have "\<not> is_digit c" using that by (auto simp: is_digit_def)
    moreover have "\<forall>x \<in> set (dec n). is_digit x" using dec_digits by blast
    ultimately have "takeWhile is_digit (dec n @ c # r) = dec n" by (simp add: takeWhile_append2)
    then show ?thesis by (simp add: lab_strtod_def)
  qed
  moreover have "\<not> is_digit (hd (bool_json b))" for b by (simp add: bool_json_def is_digit_def)
  ultimately show ?thesis by (simp add: reads_numbers_def status_fields_def Let_def u16_dec_def u64_dec_def)
qed

theorem ctl_lua_status_table_witness:
  "ipc_call lab_strtod True (Inr (status_json agent00)) =
    Inr (Lua_table ((''_json'', Lua_string (row_text (status_fields agent00))) # map (lua_field lab_num) (status_fields agent00)))"
proof -
  have "length (status_json agent00) < 8192"
    by (simp add: status_json_def Let_def agent00_def agent0_def cpe_agent_config_defaults_def bool_json_def u16_dec_def u64_dec_def
        cpe_agent_spool_depth_def dec.simps)
  then have "cpe_ipc_handle_request quiet_env (call_request l_status) 8192 agent00 = Some (Some (status_json agent00), agent00)"
    by (simp add: cpe_ipc_handle_request_def read_op_def json_get_str_def json_value_def skip_blanks_def fits_def)
  from ctl_lua_status_table[OF _ _ _ _ lab_reads this] show ?thesis
    by (simp add: agent00_def agent0_def cpe_agent_config_defaults_def plain_text_def brackets_def)
qed

theorem ctl_lua_error_reported_witness:
  "\<exists>reply. respond_err 8192 ''emit'' ''emit_flush failed'' = Some reply \<and> ipc_call lab_strtod True (Inr reply) = Inl ''emit_flush failed''"
proof -
  obtain reply where "respond_err 8192 ''emit'' ''emit_flush failed'' = Some reply" by (simp add: respond_err_def fits_def str_or_def)
  with ctl_lua_error_reported[OF this] show ?thesis by simp
qed

end
