(* ===== verification/Forensicsd.thy ===== *)
theory Forensicsd
  imports Wifi_Stats Nfct_Netlink "HOL-Library.Multiset"
begin

text \<open>
  \<^verbatim>\<open>cpe/forensicsd.c\<close>: the stand-alone daemon. Its conntrack and nl80211 parsers are those of
  libnetdiag and are parameters; the results of the system calls are functions of the number of the
  call. Standard output and standard error are the texts written, in order. \<open>None\<close> is a run
  that does not end, or a read outside a buffer.
\<close>

section \<open>State and environment\<close>

datatype poll_result = Poll_failed bool | Poll_timeout | Poll_ready bool bool
  \<comment> \<open>interrupted; nothing ready; hang-up or error and readable, of the conntrack socket\<close>

record ('n, 'q) daemon_env =
  de_nfct_create :: "'n option"
  de_nfct_feed :: "bytes \<Rightarrow> 'n \<Rightarrow> bool \<times> 'n" \<comment> \<open>true for the result 0\<close>
  de_nfct_next :: "'n \<Rightarrow> (nfct_event \<times> 'n) option"
  de_nfct_text :: "nfct_event \<Rightarrow> string"
  de_t4 :: "nfct_event \<Rightarrow> tuple4 option"
  de_t6 :: "nfct_event \<Rightarrow> tuple6 option"
  de_wifi_create :: "'q option"
  de_wifi_feed :: "bytes \<Rightarrow> 'q \<Rightarrow> 'q"
  de_wifi_next :: "'q \<Rightarrow> (nl80211_event \<times> 'q) option"
  de_wifi_text :: "nl80211_event \<Rightarrow> string"
  de_clock :: "nat \<Rightarrow> (u64 \<times> u64) option" \<comment> \<open>seconds and nanoseconds\<close>
  de_sock :: int
  de_bind :: bool
  de_join :: "nat \<Rightarrow> bool"
  de_nonblock :: int
  de_errno :: string
  de_index :: "string \<Rightarrow> u32"
  de_wifi_open :: nl_io
  de_wifi_sent :: bool
  de_rx :: "nat \<Rightarrow> recv_result"
  de_wrx :: "nat \<Rightarrow> recv_result"
  de_poll :: "nat \<Rightarrow> nat \<Rightarrow> poll_result" \<comment> \<open>iteration and time-out\<close>
  de_signal :: "nat \<Rightarrow> bool" \<comment> \<open>a signal came before the check of the iteration\<close>

record ('n, 'q) daemon_st =
  ds_nfct :: 'n
  ds_wifi :: "'q option"
  ds_stop :: bool
  ds_last_wifi_ms :: u64
  ds_out :: "string list"
  ds_err :: "string list"
  ds_log :: "nl_action list"
  ds_clock :: nat
  ds_rx :: nat
  ds_wrx :: nat
  ds_iter :: nat

definition nl :: string where
  "nl = [CHR 0x0A]"

definition put_err :: "string \<Rightarrow> ('n,'q) daemon_st \<Rightarrow> ('n,'q) daemon_st" where
  "put_err t st = st\<lparr>ds_err := ds_err st @ [''forensicsd: '' @ t @ nl]\<rparr>"

definition now_ms :: "('n,'q) daemon_env \<Rightarrow> nat \<Rightarrow> u64" where
  "now_ms env k = (case de_clock env k of None \<Rightarrow> 0 | Some (s, ns) \<Rightarrow> s * 1000 + ns div 1000000)"

definition read_clock :: "('n,'q) daemon_env \<Rightarrow> ('n,'q) daemon_st \<Rightarrow> u64 \<times> ('n,'q) daemon_st" where
  "read_clock env st = (now_ms env (ds_clock st), st\<lparr>ds_clock := ds_clock st + 1\<rparr>)"

section \<open>Records\<close>

text \<open>What is written for one conntrack event.\<close>

definition nfct_lines :: "('n,'q) daemon_env \<Rightarrow> string \<Rightarrow> u64 \<Rightarrow> nfct_event \<Rightarrow> string list" where
  \<open>nfct_lines env rid ts nev =
     (case nf_obs_from_nfct (de_t4 env) (de_t6 env) (Some nev) (Some rid) ts of
        Some obs \<Rightarrow> (case nf_obs_format (Some obs) 768 of None \<Rightarrow> [] | Some line \<Rightarrow> [line @ nl])
      | None \<Rightarrow>
          (let detail = cstr 256 (de_nfct_text env nev) in
           if ne_has_id nev
           then [''{"type":"cpe_nat_raw","router":"'' @ rid @ ''","ts":'' @ u64_dec ts @ '',"event":"'' @
                 (if ne_is_destroy nev then ''DESTROY'' else ''PARTIAL'') @ ''","ct_id":'' @ u32_dec (ne_id nev) @
                 '',"detail":"'' @ detail @ ''"}'' @ nl]
           else [''{"type":"cpe_nat_raw","router":"'' @ rid @ ''","ts":'' @ u64_dec ts @ '',"detail":"'' @ detail @ ''"}'' @ nl]))\<close>

partial_function (option) emit_nfct_events ::
  "('n,'q) daemon_env \<Rightarrow> string \<Rightarrow> u64 \<Rightarrow> ('n,'q) daemon_st \<Rightarrow> ('n,'q) daemon_st option" where
  "emit_nfct_events env rid ts st =
     (case de_nfct_next env (ds_nfct st) of None \<Rightarrow> Some st
      | Some p \<Rightarrow> emit_nfct_events env rid ts (st\<lparr>ds_nfct := snd p, ds_out := ds_out st @ nfct_lines env rid ts (fst p)\<rparr>))"

definition station_line :: "string \<Rightarrow> u64 \<Rightarrow> nl80211_event \<Rightarrow> string" where
  \<open>station_line rid ts ev =
     ''{"type":"cpe_wifi","router":"'' @ rid @ ''","ts":'' @ u64_dec ts @ '',"client_mac":"'' @ wifi_mac_fmt (nv_client_mac ev) @
     ''","rssi":'' @ int_dec (sint (nv_signal_dbm ev)) @ '',"snr":'' @ int_dec (sint (nv_snr_db ev)) @
     '',"mcs":'' @ u8_dec (nv_mcs_index ev) @ '',"tx_retries":'' @ u32_dec (nv_tx_retries ev) @
     '',"freq_mhz":'' @ u32_dec (nv_frequency_mhz ev) @ ''}'' @ nl\<close>

definition sta_lines :: "string \<Rightarrow> u64 \<Rightarrow> nl80211_event \<Rightarrow> string list" where
  "sta_lines rid ts ev = (if nv_station ev \<and> nv_has_mac ev then [station_line rid ts ev] else [])"

text \<open>The parser and the output of the loop over its events.\<close>

partial_function (option) emit_wifi_events ::
  "('n,'q) daemon_env \<Rightarrow> string \<Rightarrow> u64 \<Rightarrow> 'q \<Rightarrow> string list \<Rightarrow> ('q \<times> string list) option" where
  "emit_wifi_events env rid ts q out =
     (case de_wifi_next env q of None \<Rightarrow> Some (q, out)
      | Some p \<Rightarrow> emit_wifi_events env rid ts (snd p) (out @ sta_lines rid ts (fst p)))"

section \<open>Demo mode\<close>

definition nfct_synth :: bytes where
  "nfct_synth = be32_bytes 0x4E464354 @ [1, 6, 0, 0] @ be32_bytes 0xC0A80132 @ be16_bytes 12345 @ be32_bytes 0x08080808 @
     be16_bytes 53 @ be32_bytes 0xCB007109 @ be16_bytes 54321 @ be32_bytes 0x08080808 @ be16_bytes 53"

text \<open>The loop of the demo prints events that are not stations as text and reads the clock for each station.\<close>

partial_function (option) demo_wifi ::
  "('n,'q) daemon_env \<Rightarrow> string \<Rightarrow> 'q \<Rightarrow> ('n,'q) daemon_st \<Rightarrow> ('n,'q) daemon_st option" where
  \<open>demo_wifi env rid q st =
     (case de_wifi_next env q of None \<Rightarrow> Some (st\<lparr>ds_wifi := Some q\<rparr>)
      | Some p \<Rightarrow>
          if nv_station (fst p) \<and> nv_has_mac (fst p)
          then demo_wifi env rid (snd p)
            (snd (read_clock env st)\<lparr>ds_out := ds_out st @ [station_line rid (fst (read_clock env st)) (fst p)]\<rparr>)
          else demo_wifi env rid (snd p)
            (st\<lparr>ds_out := ds_out st @
               [''{"type":"cpe_wifi","router":"'' @ rid @ ''","detail":"'' @ cstr 256 (de_wifi_text env (fst p)) @ ''"}'' @ nl]\<rparr>))\<close>

text \<open>The exit status and the state; \<open>st\<close> is the state at the start, with no parser yet.\<close>

definition run_demo :: "('n,'q) daemon_env \<Rightarrow> string \<Rightarrow> ('n \<Rightarrow> ('n,'q) daemon_st) \<Rightarrow> (int \<times> string list \<times> string list) option" where
  "run_demo env rid start =
     (case (de_nfct_create env, de_wifi_create env) of
        (Some n, Some q) \<Rightarrow>
          (let st = start n;
               st1 = st\<lparr>ds_out := ds_out st @ [''# forensicsd demo mode router_id='' @ rid @ nl]\<rparr>;
               st2 = st1\<lparr>ds_nfct := snd (de_nfct_feed env nfct_synth (ds_nfct st1))\<rparr>
           in case emit_nfct_events env rid 1700000000000 st2 of None \<Rightarrow> None
              | Some st3 \<Rightarrow>
                  map_option (\<lambda>st4. (0, ds_out st4, ds_err st4)) (demo_wifi env rid (de_wifi_feed env wsynth q) st3))
      | _ \<Rightarrow> Some (1, [], [''forensicsd: create failed'' @ nl]))"

section \<open>Station dumps\<close>

text \<open>The scan for \<^verbatim>\<open>NLMSG_DONE\<close> over the messages of a buffer.\<close>

function done_scan :: "bytes \<Rightarrow> nat \<Rightarrow> bool \<Rightarrow> bool option" where
  "done_scan buf off dn =
     (if off + 16 \<le> length buf then
        (case (rd32 le32 buf off, rd16le buf (off + 4)) of
           (Some len, Some ty) \<Rightarrow>
             if len < 16 \<or> length buf < off + unat len then Some dn
             else done_scan buf (off + nla_align (unat len)) (dn \<or> ty = 3)
         | _ \<Rightarrow> None)
      else Some dn)"
  by pat_completeness auto
termination
  by (relation "measure (\<lambda>(buf, off, dn). length buf - off)") (auto simp: nla_align_def word_less_nat_alt)

declare done_scan.simps [simp del]

text \<open>The receive loop; the parser is there.\<close>

partial_function (option) wifi_rounds ::
  "('n,'q) daemon_env \<Rightarrow> int \<Rightarrow> string \<Rightarrow> 'q \<Rightarrow> ('n,'q) daemon_st \<Rightarrow> ('n,'q) daemon_st option" where
  "wifi_rounds env wfd rid q st =
     (let (n, buf) = nl80211_netlink_recv wfd 8192 (de_wrx env (ds_wrx st)); st = st\<lparr>ds_wrx := ds_wrx st + 1\<rparr> in
      if n \<le> 0 then Some (st\<lparr>ds_wifi := Some q\<rparr>)
      else
        (let (ts, st) = read_clock env st in
         case emit_wifi_events env rid ts (de_wifi_feed env buf q) (ds_out st) of None \<Rightarrow> None
         | Some r \<Rightarrow>
             (let st = st\<lparr>ds_out := snd r\<rparr> in
              case done_scan buf 0 False of None \<Rightarrow> None
              | Some dn \<Rightarrow> if dn then Some (st\<lparr>ds_wifi := Some (fst r)\<rparr>) else wifi_rounds env wfd rid (fst r) st)))"

definition wifi_dump_once ::
  "('n,'q) daemon_env \<Rightarrow> int \<Rightarrow> int \<Rightarrow> int \<Rightarrow> string \<Rightarrow> ('n,'q) daemon_st \<Rightarrow> ('n,'q) daemon_st option" where
  "wifi_dump_once env wfd family_id ifindex rid st =
     (case ds_wifi st of None \<Rightarrow> Some st
      | Some q \<Rightarrow>
          if wfd < 0 \<or> family_id \<le> 0 \<or> ifindex \<le> 0 then Some st
          else
            (case nl80211_netlink_dump_stations (de_wifi_sent env) (de_errno env) 128 wfd family_id ifindex of
               (Inl e, lg) \<Rightarrow> Some (put_err (''wifi dump: '' @ e) (st\<lparr>ds_log := ds_log st @ lg\<rparr>))
             | (Inr _, lg) \<Rightarrow> wifi_rounds env wfd rid q (st\<lparr>ds_log := ds_log st @ lg\<rparr>)))"

section \<open>The main loop\<close>

definition poll_timeout :: "u64 \<Rightarrow> u64 \<Rightarrow> int \<Rightarrow> nat" where
  \<comment> \<open>of the current time, the time of the last dump and the interval\<close>
  "poll_timeout now last_ms interval =
     (let elapsed = now - last_ms in
      if elapsed \<ge> of_int interval then 0
      else (let t = sint (ucast ((of_int interval :: u64) - elapsed) :: 32 word) in if t > 1000 then 1000 else nat t))"

text \<open>The loop that empties the conntrack socket.\<close>

partial_function (option) drain_nfct ::
  "('n,'q) daemon_env \<Rightarrow> int \<Rightarrow> string \<Rightarrow> ('n,'q) daemon_st \<Rightarrow> ('n,'q) daemon_st option" where
  "drain_nfct env fd rid st =
     (let (n, buf) = nfct_netlink_recv fd (de_rx env (ds_rx st)); st = st\<lparr>ds_rx := ds_rx st + 1\<rparr> in
      if n = 0 then Some st
      else if n < 0 then Some ((put_err (''recv: '' @ de_errno env) st)\<lparr>ds_stop := True\<rparr>)
      else
        (let (ok, q) = de_nfct_feed env buf (ds_nfct st);
             st = st\<lparr>ds_nfct := q\<rparr>;
             st = (if ok then st else put_err ''nfct_feed_input error'' st);
             (ts, st) = read_clock env st
         in case emit_nfct_events env rid ts st of None \<Rightarrow> None
            | Some st \<Rightarrow> drain_nfct env fd rid st))"

definition wifi_due ::
  "('n,'q) daemon_env \<Rightarrow> int \<Rightarrow> int \<Rightarrow> int \<Rightarrow> int \<Rightarrow> string \<Rightarrow> ('n,'q) daemon_st \<Rightarrow> ('n,'q) daemon_st option" where
  "wifi_due env wfd family_id ifindex interval rid st =
     (let (now, st) = read_clock env st in
      if wfd \<ge> 0 \<and> ds_wifi st \<noteq> None \<and> now - ds_last_wifi_ms st \<ge> of_int interval
      then map_option (\<lambda>st. st\<lparr>ds_last_wifi_ms := now\<rparr>) (wifi_dump_once env wfd family_id ifindex rid st)
      else Some st)"

text \<open>One pass through the body: whether the loop goes on, and the state.\<close>

definition daemon_iter ::
  "('n,'q) daemon_env \<Rightarrow> int \<Rightarrow> int \<Rightarrow> int \<Rightarrow> int \<Rightarrow> int \<Rightarrow> string \<Rightarrow> ('n,'q) daemon_st \<Rightarrow> (bool \<times> ('n,'q) daemon_st) option" where
  "daemon_iter env fd wfd family_id ifindex interval rid st =
     (let k = ds_iter st;
          st = st\<lparr>ds_iter := k + 1\<rparr>;
          (timeout, st) = (if wfd \<ge> 0 \<and> interval > 0
            then (let (now, st) = read_clock env st in (poll_timeout now (ds_last_wifi_ms st) interval, st)) else (1000, st))
      in case de_poll env k timeout of
           Poll_failed eintr \<Rightarrow> if eintr then Some (True, st) else Some (False, put_err (''poll: '' @ de_errno env) st)
         | pr \<Rightarrow>
             (case wifi_due env wfd family_id ifindex interval rid st of None \<Rightarrow> None
              | Some st \<Rightarrow>
                  (case pr of
                     Poll_ready hup rdy \<Rightarrow>
                       if hup then Some (False, put_err ''netlink hangup/error'' st)
                       else if rdy then map_option (Pair True) (drain_nfct env fd rid st)
                       else Some (True, st)
                   | _ \<Rightarrow> Some (True, st))))"

partial_function (option) daemon_loop ::
  "('n,'q) daemon_env \<Rightarrow> int \<Rightarrow> int \<Rightarrow> int \<Rightarrow> int \<Rightarrow> int \<Rightarrow> string \<Rightarrow> ('n,'q) daemon_st \<Rightarrow> ('n,'q) daemon_st option" where
  "daemon_loop env fd wfd family_id ifindex interval rid st =
     (if ds_stop st \<or> de_signal env (ds_iter st) then Some st
      else case daemon_iter env fd wfd family_id ifindex interval rid st of None \<Rightarrow> None
      | Some p \<Rightarrow> if fst p then daemon_loop env fd wfd family_id ifindex interval rid (snd p) else Some (snd p))"

section \<open>Starting and stopping\<close>

text \<open>The WiFi socket, the family, the interface index and the interval; without a socket it is -1.\<close>

definition wifi_setup ::
  "('n,'q) daemon_env \<Rightarrow> string option \<Rightarrow> int \<Rightarrow> ('n,'q) daemon_st \<Rightarrow> ((int \<times> int \<times> int \<times> int) \<times> ('n,'q) daemon_st) option" where
  "wifi_setup env wifi_if interval st =
     (case wifi_if of None \<Rightarrow> Some ((-1, 0, -1, interval), st)
      | Some ifn \<Rightarrow>
          if ifn = [] then Some ((-1, 0, -1, interval), st)
          else
            (let ifindex = nf_if_nametoindex (de_index env) (Some ifn) in
             if ifindex < 0
             then Some ((-1, 0, ifindex, interval), put_err (''wifi if '' @ ifn @ '' not found (continuing without)'') st)
             else case nl80211_netlink_open (de_wifi_open env) 256 of
               None \<Rightarrow> None
             | Some (Inl e, lg) \<Rightarrow>
                 Some ((-1, 0, ifindex, interval), put_err (''nl80211 open: '' @ e @ '' (continuing without)'') (st\<lparr>ds_log := ds_log st @ lg\<rparr>))
             | Some (Inr (wfd, family), lg) \<Rightarrow>
                 (case de_wifi_create env of
                    None \<Rightarrow> Some ((-1, family, ifindex, interval), st\<lparr>ds_log := ds_log st @ lg @ nl80211_netlink_close wfd\<rparr>)
                  | Some q \<Rightarrow>
                      (let interval = (if interval \<le> 0 then 5000 else interval)
                       in Some ((wfd, family, ifindex, interval),
                            put_err (''wifi station dump if='' @ ifn @ '' ifindex='' @ int_dec ifindex @ '' interval_ms='' @ int_dec interval)
                              (st\<lparr>ds_wifi := Some q, ds_log := ds_log st @ lg\<rparr>))))))"

definition nfct_close :: "int \<Rightarrow> nl_action list" where
  \<comment> \<open>\<^verbatim>\<open>nfct_netlink_close\<close>\<close>
  "nfct_close fd = (if fd \<ge> 0 then [Nl_close fd] else [])"

definition daemon_start :: "'n \<Rightarrow> ('n,'q) daemon_st" where
  "daemon_start n = \<lparr> ds_nfct = n, ds_wifi = None, ds_stop = False, ds_last_wifi_ms = 0, ds_out = [], ds_err = [], ds_log = [],
     ds_clock = 0, ds_rx = 0, ds_wrx = 0, ds_iter = 0 \<rparr>"

definition run_netlink ::
  "('n,'q) daemon_env \<Rightarrow> string \<Rightarrow> bool \<Rightarrow> string option \<Rightarrow> int \<Rightarrow> (int \<times> string list \<times> string list \<times> nl_action list) option" where
  "run_netlink env rid join_update wifi_if interval =
     (case de_nfct_create env of None \<Rightarrow> Some (1, [], [''forensicsd: nfct_create failed'' @ nl], [])
      | Some n \<Rightarrow>
          (let (res, lg) = nfct_netlink_open (de_sock env) (de_bind env) (\<lambda>g w. (de_join env g, w)) (\<lambda>w. w @ [Nl_close (de_sock env)])
                 (de_errno env) join_update (if de_sock env < 0 then [] else [Nl_open (de_sock env)]);
               st = (daemon_start n)\<lparr>ds_log := lg\<rparr>
           in case res of
                Inl e \<Rightarrow>
                  Some (1, [], [''forensicsd: netlink open failed: '' @ cstr 256 e @ nl,
                    ''hint: run as root or with CAP_NET_ADMIN; ensure nf_conntrack_events=1'' @ nl], lg)
              | Inr fd \<Rightarrow>
                  if de_nonblock env \<noteq> 0 then Some (1, [], [''forensicsd: set nonblock: '' @ de_errno env @ nl], lg @ nfct_close fd)
                  else
                    (case wifi_setup env wifi_if interval st of None \<Rightarrow> None
                     | Some ((wfd, family, ifindex, interval), st) \<Rightarrow>
                         (let st = put_err (''netlink conntrack listening (router_id='' @ rid @ '' groups=NEW'' @
                                     (if join_update then '',UPDATE,'' else '','') @ ''DESTROY)'') st;
                              (now, st) = read_clock env st;
                              st = st\<lparr>ds_last_wifi_ms := now\<rparr>
                          in case daemon_loop env fd wfd family ifindex interval rid st of None \<Rightarrow> None
                             | Some st \<Rightarrow>
                                 Some (0, ds_out st, ds_err (put_err ''netlink shutdown'' st),
                                   ds_log st @ nl80211_netlink_close wfd @ nfct_close fd)))))"

section \<open>The command line\<close>

record daemon_args =
  da_router_id :: string
  da_wifi_if :: "string option"
  da_netlink :: bool
  da_update :: bool
  da_interval :: int

definition default_args :: daemon_args where
  "default_args = \<lparr> da_router_id = ''cpe-demo-001'', da_wifi_if = None, da_netlink = False, da_update = False, da_interval = 5000 \<rparr>"

text \<open>\<open>Inl\<close>: the exit status and the argument that was not understood.\<close>

fun parse_args :: "string list \<Rightarrow> daemon_args \<Rightarrow> (int \<times> string option) + daemon_args" where
  "parse_args [] o' = Inr o'"
| "parse_args (a # as) o' =
     (if a = ''--help'' \<or> a = ''-h'' then Inl (0, None)
      else if a = ''--demo'' then parse_args as (o'\<lparr>da_netlink := False\<rparr>)
      else if a = ''--netlink'' then parse_args as (o'\<lparr>da_netlink := True\<rparr>)
      else if a = ''--update'' then parse_args as (o'\<lparr>da_update := True\<rparr>)
      else if a = ''--router-id'' \<and> as \<noteq> [] then parse_args (tl as) (o'\<lparr>da_router_id := hd as\<rparr>)
      else if a = ''--wifi-if'' \<and> as \<noteq> [] then parse_args (tl as) (o'\<lparr>da_wifi_if := Some (hd as)\<rparr>)
      else if a = ''--wifi-interval-ms'' \<and> as \<noteq> [] then parse_args (tl as) (o'\<lparr>da_interval := atoi (hd as)\<rparr>)
      else Inl (2, Some a))"

definition usage :: "string \<Rightarrow> string" where
  "usage argv0 =
     ''Usage: '' @ argv0 @ '' [--demo|--netlink] [--router-id ID] [--update]'' @ nl @
     ''          [--wifi-if IFACE] [--wifi-interval-ms N]'' @ nl @
     ''  --demo        synthetic frames to stdout (default)'' @ nl @
     ''  --netlink     live NETLINK_NETFILTER conntrack events'' @ nl @
     ''  --router-id   CPE identifier string (default cpe-demo-001)'' @ nl @
     ''  --update      also join NFNLGRP_CONNTRACK_UPDATE'' @ nl @
     ''  --wifi-if     periodic nl80211 station dump on IFACE'' @ nl @
     ''  --wifi-interval-ms  dump period (default 5000)'' @ nl"

text \<open>The exit status, standard output, standard error and the socket log.\<close>

definition forensicsd_main :: "('n,'q) daemon_env \<Rightarrow> string \<Rightarrow> string list \<Rightarrow> (int \<times> string list \<times> string list \<times> nl_action list) option" where
  "forensicsd_main env argv0 args =
     (case parse_args args default_args of
        Inl (rc, a) \<Rightarrow> Some (rc, [], (case a of None \<Rightarrow> [] | Some x \<Rightarrow> [''unknown arg: '' @ x @ nl]) @ [usage argv0], [])
      | Inr o' \<Rightarrow>
          if da_netlink o' then run_netlink env (da_router_id o') (da_update o') (da_wifi_if o') (da_interval o')
          else map_option (\<lambda>(rc, out, err). (rc, out, err, [])) (run_demo env (da_router_id o') daemon_start))"

section \<open>Events and messages\<close>

lemma emit_nfct_spec:
  "yields (de_nfct_next env) (ds_nfct st) evs \<Longrightarrow>
   emit_nfct_events env rid ts st = Some (st\<lparr>ds_nfct := after (de_nfct_next env) (ds_nfct st) evs,
     ds_out := ds_out st @ concat (map (nfct_lines env rid ts) evs)\<rparr>)"
proof (induction evs arbitrary: st)
  case Nil
  then show ?case by (subst emit_nfct_events.simps) simp
next
  case (Cons e es)
  then obtain q where q: "de_nfct_next env (ds_nfct st) = Some (e, q)" "yields (de_nfct_next env) q es" by (rule_tac yields_ConsE) auto
  let ?st = "st\<lparr>ds_nfct := q, ds_out := ds_out st @ nfct_lines env rid ts e\<rparr>"
  show ?case using q Cons.IH[of ?st] by (subst emit_nfct_events.simps) simp
qed

lemma emit_wifi_spec:
  "yields (de_wifi_next env) q evs \<Longrightarrow>
   emit_wifi_events env rid ts q out = Some (after (de_wifi_next env) q evs, out @ concat (map (sta_lines rid ts) evs))"
proof (induction evs arbitrary: q out)
  case Nil
  then show ?case by (subst emit_wifi_events.simps) simp
next
  case (Cons e es)
  then obtain q' where q: "de_wifi_next env q = Some (e, q')" "yields (de_wifi_next env) q' es" by (rule_tac yields_ConsE) auto
  then show ?case using Cons.IH[of q' "out @ sta_lines rid ts e"] by (subst emit_wifi_events.simps) simp
qed

lemma done_scan_total: "\<exists>b. done_scan buf off dn = Some b"
proof (induction buf off dn rule: done_scan.induct)
  case (1 buf off dn)
  show ?case
  proof (cases "off + 16 \<le> length buf")
    case True
    then obtain len ty where r: "rd32 le32 buf off = Some len" "rd16le buf (off + 4) = Some ty"
      using rd32_in[of off buf] rd16le_in[of "off + 4" buf] by simp
    then show ?thesis using "1.IH"[OF True] True by (subst done_scan.simps) auto
  qed (subst done_scan.simps, simp)
qed

text \<open>A message with a header, its type and a payload, padded.\<close>

definition nl_msg :: "u16 \<times> bytes \<Rightarrow> bytes" where
  "nl_msg m = pad4 (le32_bytes (of_nat (16 + length (snd m))) @ le16_bytes (fst m) @ le16_bytes 2 @ le32_bytes 0 @ le32_bytes 0 @ snd m)"

lemma nl_msg_reads:
  assumes "buf = pre @ nl_msg m @ post" "length (snd m) < 2 ^ 31"
  shows "rd32 le32 buf (length pre) = Some (of_nat (16 + length (snd m)))" "rd16le buf (length pre + 4) = Some (fst m)"
    "unat (of_nat (16 + length (snd m)) :: u32) = 16 + length (snd m)" "length pre + (16 + length (snd m)) \<le> length buf"
    "length (nl_msg m) = nla_align (16 + length (snd m))"
proof -
  define pad where "pad = replicate (nla_align (16 + length (snd m)) - (16 + length (snd m))) (0 :: u8)"
  have r: "buf = pre @ le32_bytes (of_nat (16 + length (snd m))) @ le16_bytes (fst m) @ le16_bytes 2 @ le32_bytes 0 @ le32_bytes 0 @ snd m @ pad @ post"
    using assms(1) by (simp add: nl_msg_def pad4_def pad_def numeral_eq_Suc)
  show "rd32 le32 buf (length pre) = Some (of_nat (16 + length (snd m)))" unfolding r by (rule rd32le_at)
  show "rd16le buf (length pre + 4) = Some (fst m)"
    unfolding r using rd16le_at[of "pre @ le32_bytes (of_nat (16 + length (snd m)))"] by simp
  show "unat (of_nat (16 + length (snd m)) :: u32) = 16 + length (snd m)" using assms(2) by (intro unat_of_nat_small) simp
  show "length pre + (16 + length (snd m)) \<le> length buf" unfolding r by simp
  show "length (nl_msg m) = nla_align (16 + length (snd m))" by (simp add: nl_msg_def numeral_eq_Suc)
qed

lemma done_scan_messages:
  assumes "list_all (\<lambda>m. length (snd m) < 2 ^ 31) ms"
  shows "done_scan (pre @ concat (map nl_msg ms)) (length pre) dn = Some (dn \<or> 3 \<in> fst ` set ms)"
  using assms
proof (induction ms arbitrary: pre dn)
  case Nil
  then show ?case by (subst done_scan.simps) simp
next
  case (Cons m ms)
  have r: "pre @ concat (map nl_msg (m # ms)) = pre @ nl_msg m @ concat (map nl_msg ms)" by simp
  have l: "length (snd m) < 2 ^ 31" using Cons.prems by simp
  note e = nl_msg_reads[OF r l]
  have "done_scan (pre @ concat (map nl_msg (m # ms))) (length pre) dn =
    done_scan ((pre @ nl_msg m) @ concat (map nl_msg ms)) (length (pre @ nl_msg m)) (dn \<or> fst m = 3)"
    using e by (subst done_scan.simps) (auto simp: word_less_nat_alt)
  also have "\<dots> = Some (dn \<or> 3 \<in> fst ` set (m # ms))" using Cons.IH[of "pre @ nl_msg m"] Cons.prems by auto
  finally show ?case .
qed

section \<open>A station dump\<close>

text \<open>The buffers received, each with the events the parser gives for it.\<close>

fun dump_session :: "('n,'q) daemon_env \<Rightarrow> 'q \<Rightarrow> (bytes \<times> nl80211_event list) list \<Rightarrow> bool" where
  "dump_session env q [] \<longleftrightarrow> True"
| "dump_session env q ((b, evs) # r) \<longleftrightarrow> b \<noteq> [] \<and> length b \<le> 8192 \<and> yields (de_wifi_next env) (de_wifi_feed env b q) evs \<and>
     dump_session env (after (de_wifi_next env) (de_wifi_feed env b q) evs) r"

fun dump_parser :: "('n,'q) daemon_env \<Rightarrow> 'q \<Rightarrow> (bytes \<times> nl80211_event list) list \<Rightarrow> 'q" where
  "dump_parser env q [] = q"
| "dump_parser env q ((b, evs) # r) = dump_parser env (after (de_wifi_next env) (de_wifi_feed env b q) evs) r"

text \<open>What they print: every buffer has the time of its own reading of the clock.\<close>

fun dump_output :: "('n,'q) daemon_env \<Rightarrow> string \<Rightarrow> nat \<Rightarrow> (bytes \<times> nl80211_event list) list \<Rightarrow> string list" where
  "dump_output env rid k [] = []"
| "dump_output env rid k ((b, evs) # r) = concat (map (sta_lines rid (now_ms env k)) evs) @ dump_output env rid (k + 1) r"

lemma wifi_rounds_session:
  assumes "0 \<le> wfd" "ms \<noteq> []" "dump_session env q ms" "\<forall>j < length ms. de_wrx env (ds_wrx st + j) = Received (fst (ms ! j))"
    and "\<forall>m \<in> set (butlast ms). done_scan (fst m) 0 False = Some False" "done_scan (fst (last ms)) 0 False = Some True"
  shows "wifi_rounds env wfd rid q st = Some (st\<lparr>ds_wifi := Some (dump_parser env q ms), ds_wrx := ds_wrx st + length ms,
    ds_clock := ds_clock st + length ms, ds_out := ds_out st @ dump_output env rid (ds_clock st) ms\<rparr>)"
  using assms(2-6)
proof (induction ms arbitrary: q st rule: list_nonempty_induct)
  case (single m)
  obtain b evs where m: "m = (b, evs)" by fastforce
  have s: "b \<noteq> []" "length b \<le> 8192" "yields (de_wifi_next env) (de_wifi_feed env b q) evs" "de_wrx env (ds_wrx st) = Received b"
    "done_scan b 0 False = Some True"
    using single m by auto
  show ?case
    using s assms(1) m by (subst wifi_rounds.simps) (simp add: nl80211_netlink_recv_def read_clock_def emit_wifi_spec[OF s(3)])
next
  case (cons m ms)
  obtain b evs where m: "m = (b, evs)" by fastforce
  have s: "b \<noteq> []" "length b \<le> 8192" "yields (de_wifi_next env) (de_wifi_feed env b q) evs" "de_wrx env (ds_wrx st) = Received b"
    "done_scan b 0 False = Some False" "dump_session env (after (de_wifi_next env) (de_wifi_feed env b q) evs) ms"
    using cons.prems cons.hyps m by auto
  let ?st = "st\<lparr>ds_wrx := ds_wrx st + 1, ds_clock := ds_clock st + 1,
    ds_out := ds_out st @ concat (map (sta_lines rid (now_ms env (ds_clock st))) evs)\<rparr>"
  have "wifi_rounds env wfd rid q st = wifi_rounds env wfd rid (after (de_wifi_next env) (de_wifi_feed env b q) evs) ?st"
    using s assms(1) by (subst wifi_rounds.simps) (simp add: nl80211_netlink_recv_def read_clock_def emit_wifi_spec[OF s(3)])
  moreover have "\<forall>j < length ms. de_wrx env (ds_wrx ?st + j) = Received (fst (ms ! j))"
    using cons.prems(2) by fastforce
  ultimately show ?case using cons.IH[OF s(6), of ?st] cons.prems cons.hyps m by simp
qed

text \<open>C36: 
  A station dump that is asked for sends one request, reads the answer up to and including the first buffer that has
  the end-of-dump message, wherever it stands in that buffer, and nothing after it; it prints one record for every
  station the parser announces with an address, in order, without a limit on their number.
\<close>

theorem forensicsd_dump_complete:
  assumes "0 \<le> wfd" "0 < family" "0 < ifindex" "ds_wifi st = Some q" "de_wifi_sent env" "gs \<noteq> []"
    and "dump_session env q (map (\<lambda>(g, evs). (concat (map nl_msg g), evs)) gs)"
    and "\<forall>j < length gs. de_wrx env (ds_wrx st + j) = Received (concat (map nl_msg (fst (gs ! j))))"
    and "\<forall>g \<in> set gs. list_all (\<lambda>m. length (snd m) < 2 ^ 31) (fst g)"
    and "\<forall>g \<in> set (butlast gs). 3 \<notin> fst ` set (fst g)" "3 \<in> fst ` set (fst (last gs))"
  shows "\<exists>st'. wifi_dump_once env wfd family ifindex rid st = Some st' \<and>
    ds_out st' = ds_out st @ dump_output env rid (ds_clock st) (map (\<lambda>(g, evs). (concat (map nl_msg g), evs)) gs) \<and>
    ds_wrx st' = ds_wrx st + length gs \<and> ds_log st' = ds_log st @ [Nl_send wfd (dump_msg family ifindex)] \<and> ds_err st' = ds_err st"
proof -
  let ?ms = "map (\<lambda>(g, evs). (concat (map nl_msg g), evs)) gs"
  let ?st = "st\<lparr>ds_log := ds_log st @ [Nl_send wfd (dump_msg family ifindex)]\<rparr>"
  have d: "done_scan (concat (map nl_msg (fst g))) 0 False = Some (3 \<in> fst ` set (fst g))" if "g \<in> set gs" for g
    using done_scan_messages[of "fst g" "[]" False] assms(9) that by auto
  have "wifi_rounds env wfd rid q ?st = Some (?st\<lparr>ds_wifi := Some (dump_parser env q ?ms), ds_wrx := ds_wrx ?st + length ?ms,
    ds_clock := ds_clock ?st + length ?ms, ds_out := ds_out ?st @ dump_output env rid (ds_clock ?st) ?ms\<rparr>)"
  proof (rule wifi_rounds_session[OF assms(1) _ assms(7)])
    show "\<forall>j < length ?ms. de_wrx env (ds_wrx ?st + j) = Received (fst (?ms ! j))" using assms(8) by (auto simp: split_beta)
    show "\<forall>m \<in> set (butlast ?ms). done_scan (fst m) 0 False = Some False"
    proof -
      have "done_scan (concat (map nl_msg (fst g))) 0 False = Some False" if "g \<in> set (butlast gs)" for g
        using d[OF in_set_butlastD[OF that]] assms(10) that by simp
      then show ?thesis by (auto simp: map_butlast[symmetric] split_beta)
    qed
    show "done_scan (fst (last ?ms)) 0 False = Some True" using assms(6,11) d[of "last gs"] by (simp add: last_map split_beta)
  qed (use assms(6) in simp)
  then show ?thesis using assms(1-5)
    by (simp add: wifi_dump_once_def nl80211_netlink_dump_stations_def)
qed

section \<open>Reading the conntrack socket\<close>

fun nfct_session :: "('n,'q) daemon_env \<Rightarrow> 'n \<Rightarrow> (bytes \<times> nfct_event list) list \<Rightarrow> bool" where
  "nfct_session env q [] \<longleftrightarrow> True"
| "nfct_session env q ((b, evs) # r) \<longleftrightarrow> b \<noteq> [] \<and> fst (de_nfct_feed env b q) \<and>
     yields (de_nfct_next env) (snd (de_nfct_feed env b q)) evs \<and>
     nfct_session env (after (de_nfct_next env) (snd (de_nfct_feed env b q)) evs) r"

fun nfct_output :: "('n,'q) daemon_env \<Rightarrow> string \<Rightarrow> nat \<Rightarrow> (bytes \<times> nfct_event list) list \<Rightarrow> string list" where
  "nfct_output env rid k [] = []"
| "nfct_output env rid k ((b, evs) # r) = concat (map (nfct_lines env rid (now_ms env k)) evs) @ nfct_output env rid (k + 1) r"

lemma drain_nfct_session:
  assumes "0 \<le> fd" "nfct_session env (ds_nfct st) ms" "\<forall>j < length ms. de_rx env (ds_rx st + j) = Received (fst (ms ! j))"
    and "de_rx env (ds_rx st + length ms) = WouldBlock"
  shows "\<exists>q. drain_nfct env fd rid st = Some (st\<lparr>ds_rx := ds_rx st + length ms + 1, ds_clock := ds_clock st + length ms, ds_nfct := q,
    ds_out := ds_out st @ nfct_output env rid (ds_clock st) ms\<rparr>)"
  using assms(2-4)
proof (induction ms arbitrary: st)
  case Nil
  then show ?case using assms(1)
    by (subst drain_nfct.simps) (auto simp: nfct_netlink_recv_def intro!: exI[of _ "ds_nfct st"])
next
  case (Cons m ms)
  obtain b evs where m: "m = (b, evs)" by fastforce
  obtain ok q1 where f: "de_nfct_feed env b (ds_nfct st) = (ok, q1)" by fastforce
  have s: "b \<noteq> []" "ok" "yields (de_nfct_next env) q1 evs" "nfct_session env (after (de_nfct_next env) q1 evs) ms"
    "de_rx env (ds_rx st) = Received b"
    using Cons.prems m f by auto
  let ?st = "st\<lparr>ds_rx := ds_rx st + 1, ds_clock := ds_clock st + 1, ds_nfct := after (de_nfct_next env) q1 evs,
    ds_out := ds_out st @ concat (map (nfct_lines env rid (now_ms env (ds_clock st))) evs)\<rparr>"
  have "drain_nfct env fd rid st = drain_nfct env fd rid ?st"
    using s f assms(1) emit_nfct_spec[of env "st\<lparr>ds_rx := ds_rx st + 1, ds_nfct := q1, ds_clock := ds_clock st + 1\<rparr>" evs rid "now_ms env (ds_clock st)"]
    by (subst drain_nfct.simps) (simp add: nfct_netlink_recv_def read_clock_def)
  moreover have "\<forall>j < length ms. de_rx env (ds_rx ?st + j) = Received (fst (ms ! j))" using Cons.prems(2) by fastforce
  ultimately show ?case using Cons.IH[of ?st] Cons.prems(3) s(4) m by simp
qed

text \<open>
  When the conntrack socket is readable, one pass of the loop prints, for every message that is waiting and every
  event the parser finds in it, the observation record, or a raw record when the event is incomplete, in
  order, and leaves the socket empty (stated for a daemon without a WiFi interface).
\<close>

theorem forensicsd_reports_events:
  assumes "0 \<le> fd" "wfd < 0" "de_poll env (ds_iter st) 1000 = Poll_ready False True"
    and "nfct_session env (ds_nfct st) ms" "\<forall>j < length ms. de_rx env (ds_rx st + j) = Received (fst (ms ! j))"
    and "de_rx env (ds_rx st + length ms) = WouldBlock"
  shows "\<exists>st'. daemon_iter env fd wfd family ifindex interval rid st = Some (True, st') \<and>
    ds_out st' = ds_out st @ nfct_output env rid (ds_clock st + 1) ms \<and> ds_err st' = ds_err st \<and> \<not> (ds_stop st' \<and> \<not> ds_stop st) \<and>
    ds_rx st' = ds_rx st + length ms + 1"
proof -
  let ?st = "st\<lparr>ds_iter := ds_iter st + 1, ds_clock := ds_clock st + 1\<rparr>"
  obtain q where d: "drain_nfct env fd rid ?st = Some (?st\<lparr>ds_rx := ds_rx ?st + length ms + 1, ds_clock := ds_clock ?st + length ms, ds_nfct := q,
    ds_out := ds_out ?st @ nfct_output env rid (ds_clock ?st) ms\<rparr>)"
    using drain_nfct_session[of fd env ?st ms rid] assms(1,4-6) by auto
  show ?thesis using d assms(2,3)
    by (simp add: daemon_iter_def wifi_due_def read_clock_def Let_def)
qed

text \<open>
  A pass in which only the WiFi socket is readable reads nothing when no dump is due: the answer stays queued, and
  the next poll returns at once again.
\<close>

theorem forensicsd_wifi_not_read:
  assumes "0 \<le> wfd" "0 < interval" "de_poll env (ds_iter st) t = Poll_ready False False"
    and "t = poll_timeout (now_ms env (ds_clock st)) (ds_last_wifi_ms st) interval"
    and "now_ms env (ds_clock st + 1) - ds_last_wifi_ms st < of_int interval"
  shows "daemon_iter env fd wfd family ifindex interval rid st =
    Some (True, st\<lparr>ds_iter := ds_iter st + 1, ds_clock := ds_clock st + 2\<rparr>)"
proof -
  have "(of_int interval \<le> now_ms env (ds_clock st + 1) - ds_last_wifi_ms st) = False" using assms(5) by (simp add: not_le)
  then show ?thesis using assms(1-4) by (simp add: daemon_iter_def wifi_due_def read_clock_def Let_def)
qed

section \<open>The daemon ends and closes its sockets\<close>

definition nl_opened :: "nl_action list \<Rightarrow> int list" where
  "nl_opened lg = concat (map (\<lambda>x. case x of Nl_open fd \<Rightarrow> [fd] | _ \<Rightarrow> []) lg)"

definition nl_shut :: "nl_action list \<Rightarrow> int list" where
  "nl_shut lg = concat (map (\<lambda>x. case x of Nl_close fd \<Rightarrow> [fd] | _ \<Rightarrow> []) lg)"

lemma nl_log_simps [simp]:
  "nl_opened [] = []" "nl_opened (x # xs) = (case x of Nl_open fd \<Rightarrow> [fd] | _ \<Rightarrow> []) @ nl_opened xs"
  "nl_opened (xs @ ys) = nl_opened xs @ nl_opened ys"
  "nl_shut [] = []" "nl_shut (x # xs) = (case x of Nl_close fd \<Rightarrow> [fd] | _ \<Rightarrow> []) @ nl_shut xs"
  "nl_shut (xs @ ys) = nl_shut xs @ nl_shut ys"
  by (simp_all add: nl_opened_def nl_shut_def)

text \<open>What the steps of the loop leave alone.\<close>

definition quiet :: "('n,'q) daemon_st \<Rightarrow> ('n,'q) daemon_st \<Rightarrow> bool" where
  "quiet st st' \<longleftrightarrow> ds_iter st' = ds_iter st \<and> nl_opened (ds_log st') = nl_opened (ds_log st) \<and> nl_shut (ds_log st') = nl_shut (ds_log st)"

lemma quiet_refl [simp]: "quiet st st"
  by (simp add: quiet_def)

lemma quiet_trans: "quiet a b \<Longrightarrow> quiet b c \<Longrightarrow> quiet a c"
  by (simp add: quiet_def)

lemma quiet_frame [simp]:
  "quiet a (put_err t st) = quiet a st" "quiet a (st\<lparr>ds_stop := b\<rparr>) = quiet a st" "quiet a (st\<lparr>ds_last_wifi_ms := v\<rparr>) = quiet a st"
  "quiet a (st\<lparr>ds_wifi := w\<rparr>) = quiet a st" "quiet a (st\<lparr>ds_out := x\<rparr>) = quiet a st" "quiet a (st\<lparr>ds_nfct := n\<rparr>) = quiet a st"
  "quiet a (st\<lparr>ds_clock := k\<rparr>) = quiet a st" "quiet a (st\<lparr>ds_rx := k\<rparr>) = quiet a st" "quiet a (st\<lparr>ds_wrx := k\<rparr>) = quiet a st"
  by (simp_all add: quiet_def put_err_def)

text \<open>
  What the libraries and the system promise: every parser queue is finite, every socket is empty sooner or later, and
  a signal arrives.
\<close>

definition queues_finite :: "('n,'q) daemon_env \<Rightarrow> bool" where
  "queues_finite env \<longleftrightarrow> (\<forall>q. \<exists>evs. yields (de_nfct_next env) q evs) \<and> (\<forall>q. \<exists>evs. yields (de_wifi_next env) q evs)"

definition sockets_dry :: "('n,'q) daemon_env \<Rightarrow> bool" where
  "sockets_dry env \<longleftrightarrow> (\<forall>k. \<exists>j. de_rx env (k + j) \<in> {WouldBlock, RecvFailed}) \<and> (\<forall>k. \<exists>j. de_wrx env (k + j) \<in> {WouldBlock, RecvFailed})"

lemma wifi_rounds_returns:
  assumes "queues_finite env" "de_wrx env (ds_wrx st + j) \<in> {WouldBlock, RecvFailed}"
  shows "\<exists>st'. wifi_rounds env wfd rid q st = Some st' \<and> quiet st st'"
  using assms(2)
proof (induction j arbitrary: q st)
  case 0
  then show ?case by (subst wifi_rounds.simps) (auto simp: nl80211_netlink_recv_def)
next
  case (Suc j)
  obtain n buf where r: "nl80211_netlink_recv wfd 8192 (de_wrx env (ds_wrx st)) = (n, buf)" by fastforce
  obtain evs where y: "yields (de_wifi_next env) (de_wifi_feed env buf q) evs" using assms(1) by (auto simp: queues_finite_def)
  obtain dn where d: "done_scan buf 0 False = Some dn" using done_scan_total by blast
  define q' where "q' = after (de_wifi_next env) (de_wifi_feed env buf q) evs"
  define st1 where "st1 = st\<lparr>ds_wrx := ds_wrx st + 1, ds_clock := ds_clock st + 1,
    ds_out := ds_out st @ concat (map (sta_lines rid (now_ms env (ds_clock st))) evs)\<rparr>"
  have "wifi_rounds env wfd rid q st = (if n \<le> 0 then Some (st\<lparr>ds_wrx := ds_wrx st + 1, ds_wifi := Some q\<rparr>)
     else if dn then Some (st1\<lparr>ds_wifi := Some q'\<rparr>) else wifi_rounds env wfd rid q' st1)"
    by (subst wifi_rounds.simps) (simp add: r read_clock_def emit_wifi_spec[OF y] d q'_def st1_def Let_def)
  moreover have "\<exists>st'. wifi_rounds env wfd rid q' st1 = Some st' \<and> quiet st1 st'"
    by (rule Suc.IH) (use Suc.prems in \<open>simp add: st1_def\<close>)
  moreover have "quiet st st1" by (simp add: st1_def)
  ultimately show ?case by (auto intro: quiet_trans)
qed

lemma wifi_dump_returns:
  assumes "queues_finite env" "sockets_dry env"
  shows "\<exists>st'. wifi_dump_once env wfd family ifindex rid st = Some st' \<and> quiet st st'"
proof (cases "ds_wifi st = None \<or> wfd < 0 \<or> family \<le> 0 \<or> ifindex \<le> 0")
  case True
  then show ?thesis by (auto simp: wifi_dump_once_def split: option.split)
next
  case False
  then obtain q where q: "ds_wifi st = Some q" by auto
  let ?st = "st\<lparr>ds_log := ds_log st @ [Nl_send wfd (dump_msg family ifindex)]\<rparr>"
  have s: "quiet st ?st" by (simp add: quiet_def)
  obtain j where "de_wrx env (ds_wrx ?st + j) \<in> {WouldBlock, RecvFailed}" using assms(2) by (auto simp: sockets_dry_def)
  from wifi_rounds_returns[OF assms(1) this, of wfd rid q] obtain st' where st': "wifi_rounds env wfd rid q ?st = Some st'" "quiet ?st st'" by blast
  show ?thesis
    using False q st' s quiet_trans[OF s st'(2)] by (auto simp: wifi_dump_once_def nl80211_netlink_dump_stations_def)
qed

lemma drain_nfct_returns:
  assumes "queues_finite env" "de_rx env (ds_rx st + j) \<in> {WouldBlock, RecvFailed}"
  shows "\<exists>st'. drain_nfct env fd rid st = Some st' \<and> quiet st st'"
  using assms(2)
proof (induction j arbitrary: st)
  case 0
  then show ?case by (subst drain_nfct.simps) (auto simp: nfct_netlink_recv_def)
next
  case (Suc j)
  obtain n buf where r: "nfct_netlink_recv fd (de_rx env (ds_rx st)) = (n, buf)" by fastforce
  obtain ok q where f: "de_nfct_feed env buf (ds_nfct st) = (ok, q)" by fastforce
  define st1 where "st1 = (let s = st\<lparr>ds_rx := ds_rx st + 1, ds_nfct := q\<rparr> in
    (if ok then s else put_err ''nfct_feed_input error'' s)\<lparr>ds_clock := ds_clock st + 1\<rparr>)"
  have n1: "ds_nfct st1 = q" "ds_rx st1 = ds_rx st + 1" "quiet st st1" by (simp_all add: st1_def Let_def put_err_def quiet_def)
  obtain evs where y: "yields (de_nfct_next env) (ds_nfct st1) evs" using assms(1) by (auto simp: queues_finite_def)
  define st2 where "st2 = st1\<lparr>ds_nfct := after (de_nfct_next env) (ds_nfct st1) evs,
    ds_out := ds_out st1 @ concat (map (nfct_lines env rid (now_ms env (ds_clock st))) evs)\<rparr>"
  have e: "emit_nfct_events env rid (now_ms env (ds_clock st)) st1 = Some st2"
    unfolding st2_def by (rule emit_nfct_spec[OF y])
  have "drain_nfct env fd rid st = (if n = 0 then Some (st\<lparr>ds_rx := ds_rx st + 1\<rparr>)
     else if n < 0 then Some ((put_err (''recv: '' @ de_errno env) (st\<lparr>ds_rx := ds_rx st + 1\<rparr>))\<lparr>ds_stop := True\<rparr>)
     else drain_nfct env fd rid st2)"
    using e by (subst drain_nfct.simps) (simp add: r f read_clock_def st1_def put_err_def Let_def split: if_splits)
  moreover have "\<exists>st'. drain_nfct env fd rid st2 = Some st' \<and> quiet st2 st'"
    by (rule Suc.IH) (use Suc.prems n1 in \<open>simp add: st2_def\<close>)
  moreover have "quiet st st2" using n1(3) by (simp add: st2_def)
  ultimately show ?case by (auto intro: quiet_trans)
qed

lemma daemon_iter_returns:
  assumes "queues_finite env" "sockets_dry env"
  shows "\<exists>b st'. daemon_iter env fd wfd family ifindex interval rid st = Some (b, st') \<and> quiet (st\<lparr>ds_iter := ds_iter st + 1\<rparr>) st'"
proof -
  let ?a = "st\<lparr>ds_iter := ds_iter st + 1\<rparr>"
  define ts where "ts = (if wfd \<ge> 0 \<and> interval > 0
    then (let (now, st) = read_clock env ?a in (poll_timeout now (ds_last_wifi_ms st) interval, st)) else (1000, ?a))"
  have q1: "quiet ?a (snd ts)" by (simp add: ts_def read_clock_def Let_def split_beta)
  have "\<exists>st'. wifi_due env wfd family ifindex interval rid (snd ts) = Some st' \<and> quiet (snd ts) st'"
    using wifi_dump_returns[OF assms, of wfd family ifindex rid "snd (read_clock env (snd ts))"]
    by (auto simp: wifi_due_def read_clock_def Let_def quiet_def)
  then obtain st2 where w: "wifi_due env wfd family ifindex interval rid (snd ts) = Some st2" "quiet ?a st2" using quiet_trans[OF q1] by blast
  obtain j where "de_rx env (ds_rx st2 + j) \<in> {WouldBlock, RecvFailed}" using assms(2) by (auto simp: sockets_dry_def)
  from drain_nfct_returns[OF assms(1) this, of fd rid] obtain st3 where d: "drain_nfct env fd rid st2 = Some st3" "quiet ?a st3"
    using quiet_trans[OF w(2)] by blast
  have "daemon_iter env fd wfd family ifindex interval rid st =
     (case de_poll env (ds_iter st) (fst ts) of
        Poll_failed eintr \<Rightarrow> if eintr then Some (True, snd ts) else Some (False, put_err (''poll: '' @ de_errno env) (snd ts))
      | Poll_timeout \<Rightarrow> Some (True, st2)
      | Poll_ready hup rdy \<Rightarrow> if hup then Some (False, put_err ''netlink hangup/error'' st2) else if rdy then Some (True, st3) else Some (True, st2))"
    unfolding daemon_iter_def Let_def ts_def[symmetric, unfolded Let_def]
    using w(1) d(1) by (simp add: split_beta split: poll_result.split)
  then show ?thesis using q1 w(2) d(2) by (auto split: poll_result.split)
qed

lemma daemon_loop_returns:
  assumes "queues_finite env" "sockets_dry env" "de_signal env (ds_iter st + N)"
  shows "\<exists>st'. daemon_loop env fd wfd family ifindex interval rid st = Some st' \<and>
    nl_opened (ds_log st') = nl_opened (ds_log st) \<and> nl_shut (ds_log st') = nl_shut (ds_log st)"
  using assms(3)
proof (induction N arbitrary: st)
  case 0
  then show ?case by (subst daemon_loop.simps) simp
next
  case (Suc N)
  show ?case
  proof (cases "ds_stop st \<or> de_signal env (ds_iter st)")
    case True
    then show ?thesis by (subst daemon_loop.simps) simp
  next
    case False
    obtain b st1 where i: "daemon_iter env fd wfd family ifindex interval rid st = Some (b, st1)" "quiet (st\<lparr>ds_iter := ds_iter st + 1\<rparr>) st1"
      using daemon_iter_returns[OF assms(1,2)] by blast
    have "de_signal env (ds_iter st1 + N)" using Suc.prems i(2) by (simp add: quiet_def)
    from Suc.IH[OF this] show ?thesis
      using False i by (subst daemon_loop.simps) (auto simp: quiet_def)
  qed
qed

lemma nl80211_open_log:
  assumes "nl80211_netlink_open io n = Some (r, lg)"
  shows "case r of Inl _ \<Rightarrow> nl_opened lg = nl_shut lg | Inr (fd, _) \<Rightarrow> nl_opened lg = [fd] \<and> nl_shut lg = [] \<and> 0 \<le> fd"
  using assms by (auto simp: nl80211_netlink_open_def Let_def split: if_splits option.splits sum.splits)

lemma wifi_setup_log:
  "\<exists>wfd family ifindex iv st'. wifi_setup env wifi_if interval st = Some ((wfd, family, ifindex, iv), st') \<and>
    ds_iter st' = ds_iter st \<and>
    mset (nl_opened (ds_log st')) + mset (nl_shut (ds_log st)) =
      mset (nl_opened (ds_log st)) + mset (nl_shut (ds_log st')) + (if 0 \<le> wfd then {#wfd#} else {#})"
proof (cases "wifi_if = None \<or> wifi_if = Some [] \<or> nf_if_nametoindex (de_index env) wifi_if < 0")
  case True
  then show ?thesis by (cases wifi_if) (auto simp: wifi_setup_def Let_def put_err_def)
next
  case False
  then obtain ifn where i: "wifi_if = Some ifn" "ifn \<noteq> []" "\<not> nf_if_nametoindex (de_index env) (Some ifn) < 0" by auto
  obtain r lg where o: "nl80211_netlink_open (de_wifi_open env) 256 = Some (r, lg)" using nl80211_open_total by blast
  note l = nl80211_open_log[OF o]
  show ?thesis
  proof (cases r)
    case (Inl e)
    then show ?thesis using i o l by (simp add: wifi_setup_def Let_def put_err_def)
  next
    case (Inr p)
    obtain wfd family where p: "p = (wfd, family)" by (cases p)
    show ?thesis
      using Inr p i o l by (cases "de_wifi_create env") (simp_all add: wifi_setup_def Let_def put_err_def nl80211_netlink_close_def)
  qed
qed

lemma nfct_open_log:
  assumes "nfct_netlink_open sock bind_ok (\<lambda>g w. (jn g, w)) (\<lambda>w. w @ [Nl_close sock]) e u (if sock < 0 then [] else [Nl_open sock]) = (r, lg)"
  shows "case r of Inl _ \<Rightarrow> nl_opened lg = nl_shut lg | Inr fd \<Rightarrow> nl_opened lg = [fd] \<and> nl_shut lg = [] \<and> 0 \<le> fd"
proof -
  have j: "snd (join_groups (\<lambda>g w. (jn g, w)) gs w) = w" for gs and w :: "nl_action list" by (induction gs) auto
  obtain x y where jg: "join_groups (\<lambda>g w. (jn g, w)) (take (if u then 3 else 2) [1, 3, 2]) [Nl_open sock] = (x, y)" by fastforce
  then have "y = [Nl_open sock]" using j[of "take (if u then 3 else 2) [1, 3, 2]" "[Nl_open sock]"] by simp
  then show ?thesis using assms jg by (cases x) (auto simp: nfct_netlink_open_def split: if_splits)
qed

text \<open>C35: 
  With parser queues that are finite and sockets that run dry, the daemon in netlink mode ends on the first signal,
  whatever else the system calls return, and every socket it opened is closed exactly once, on every path.
\<close>

theorem forensicsd_stops:
  assumes "queues_finite env" "sockets_dry env" "de_signal env N"
  shows "\<exists>rc out err lg. run_netlink env rid join_update wifi_if interval = Some (rc, out, err, lg) \<and>
    mset (nl_opened lg) = mset (nl_shut lg)"
proof (cases "de_nfct_create env")
  case None
  then show ?thesis by (simp add: run_netlink_def)
next
  case (Some n)
  obtain r lg where o: "nfct_netlink_open (de_sock env) (de_bind env) (\<lambda>g w. (de_join env g, w)) (\<lambda>w. w @ [Nl_close (de_sock env)])
    (de_errno env) join_update (if de_sock env < 0 then [] else [Nl_open (de_sock env)]) = (r, lg)" by fastforce
  note l = nfct_open_log[OF o]
  show ?thesis
  proof (cases r)
    case (Inl e)
    then show ?thesis using Some o l by (simp add: run_netlink_def)
  next
    case (Inr fd)
    then have fd: "nl_opened lg = [fd]" "nl_shut lg = []" "0 \<le> fd" using l by simp_all
    obtain wfd family ifindex iv st1 where w: "wifi_setup env wifi_if interval ((daemon_start n)\<lparr>ds_log := lg\<rparr>) = Some ((wfd, family, ifindex, iv), st1)"
      "ds_iter st1 = 0" "mset (nl_opened (ds_log st1)) = {#fd#} + mset (nl_shut (ds_log st1)) + (if 0 \<le> wfd then {#wfd#} else {#})"
      using wifi_setup_log[of env wifi_if interval "(daemon_start n)\<lparr>ds_log := lg\<rparr>"] fd by (auto simp: daemon_start_def)
    define st2 where "st2 = (snd (read_clock env (put_err (''netlink conntrack listening (router_id='' @ rid @ '' groups=NEW'' @
      (if join_update then '',UPDATE,'' else '','') @ ''DESTROY)'') st1)))\<lparr>ds_last_wifi_ms := now_ms env (ds_clock st1)\<rparr>"
    have s2: "ds_iter st2 = 0" "ds_log st2 = ds_log st1" using w(2) by (simp_all add: st2_def read_clock_def put_err_def)
    obtain st3 where d: "daemon_loop env fd wfd family ifindex iv rid st2 = Some st3"
      "nl_opened (ds_log st3) = nl_opened (ds_log st1)" "nl_shut (ds_log st3) = nl_shut (ds_log st1)"
      using daemon_loop_returns[OF assms(1,2), of st2 N fd wfd family ifindex iv rid] assms(3) s2 by auto
    have "run_netlink env rid join_update wifi_if interval =
      (if de_nonblock env \<noteq> 0 then Some (1, [], [''forensicsd: set nonblock: '' @ de_errno env @ nl], lg @ nfct_close fd)
       else Some (0, ds_out st3, ds_err (put_err ''netlink shutdown'' st3), ds_log st3 @ nl80211_netlink_close wfd @ nfct_close fd))"
      using Some o Inr w(1) d(1) by (simp add: run_netlink_def st2_def read_clock_def put_err_def Let_def)
    then show ?thesis using fd d(2,3) w(3) by (auto simp: nfct_close_def nl80211_netlink_close_def)
  qed
qed

section \<open>Sleeping\<close>

text \<open>
  While a dump is pending the daemon sleeps at most a second, never past the time of the next dump, and not at all
  exactly when the dump is due.
\<close>

theorem daemon_sleep_bounds:
  assumes "0 < interval" "interval < 2 ^ 31"
  shows "poll_timeout now last_ms interval \<le> 1000 \<and>
    (unat (now - last_ms) < nat interval \<longrightarrow> unat (now - last_ms) + poll_timeout now last_ms interval \<le> nat interval) \<and>
    (poll_timeout now last_ms interval = 0 \<longleftrightarrow> nat interval \<le> unat (now - last_ms))"
proof -
  define e where "e = now - last_ms"
  have i: "unat (of_int interval :: u64) = nat interval"
    using assms unat_of_nat_small[of "nat interval", where 'w = 64] by (simp add: of_nat_nat)
  show ?thesis
  proof (cases "unat e < nat interval")
    case False
    then have "of_int interval \<le> e" using i by (simp add: word_le_nat_alt)
    then show ?thesis using False by (simp add: poll_timeout_def e_def)
  next
    case True
    then have le: "e < of_int interval" using i by (simp add: word_less_nat_alt)
    define d where "d = (of_int interval :: u64) - e"
    have d: "unat d = nat interval - unat e" using less_imp_le[OF le] i by (simp add: d_def unat_sub)
    have "nat interval < 2 ^ 31" using assms by (simp add: nat_less_iff)
    then have small: "unat d < 2 ^ 31" using d by linarith
    then have "unat (ucast d :: 32 word) = unat d"
      by (simp add: unsigned_ucast_eq take_bit_nat_eq_self)
    then have u: "uint (ucast d :: 32 word) = int (unat d)" by (metis uint_nat)
    have t: "sint (ucast d :: 32 word) = int (unat d)"
    proof -
      have sg: "signed_take_bit (LENGTH(32) - Suc 0) (int m) = int m" if "m < 2 ^ 31" for m
        by (rule signed_take_bit_int_eq_self) (use that in simp_all)
      show ?thesis unfolding sint_uint u by (rule sg[OF small])
    qed
    have "poll_timeout now last_ms interval =
      (if of_int interval \<le> e then 0 else if sint (ucast d :: 32 word) > 1000 then 1000 else nat (sint (ucast d :: 32 word)))"
      unfolding poll_timeout_def Let_def e_def d_def by (rule refl)
    also have "\<dots> = (if int (unat d) > 1000 then 1000 else nat (int (unat d)))"
      unfolding t by (rule if_not_P) (use le in \<open>simp only: not_le\<close>)
    also have "(if int m > 1000 then 1000 else nat (int m)) = (if m > 1000 then 1000 else m)" for m by simp
    finally have "poll_timeout now last_ms interval = (if unat d > 1000 then 1000 else unat d)" .
    then show ?thesis using d True unfolding e_def[symmetric] by auto
  qed
qed

theorem daemon_sleep_bounds_witness: "poll_timeout 1000 400 5000 \<le> 1000 \<and> poll_timeout 6000 400 5000 = 0"
  using daemon_sleep_bounds[of 5000 1000 400] daemon_sleep_bounds[of 5000 6000 400] by simp

section \<open>The command line\<close>

definition render_args :: "daemon_args \<Rightarrow> string list" where
  "render_args o' =
     [if da_netlink o' then ''--netlink'' else ''--demo''] @ (if da_update o' then [''--update''] else []) @
     [''--router-id'', da_router_id o'] @ (case da_wifi_if o' of None \<Rightarrow> [] | Some w \<Rightarrow> [''--wifi-if'', w]) @
     [''--wifi-interval-ms'', int_dec (da_interval o')]"

text \<open>
  Options written on the command line are read back as they were meant, whatever the names are, also names that look
  like options.
\<close>

theorem parse_args_roundtrip:
  assumes "- (2 ^ 31) \<le> da_interval o'" "da_interval o' < 2 ^ 31"
  shows "parse_args (render_args o') default_args = Inr o'"
  using atoi_int_dec[OF assms] by (cases "da_wifi_if o'") (simp_all add: render_args_def default_args_def)

theorem parse_args_roundtrip_witness:
  "parse_args [''--netlink'', ''--router-id'', ''--demo'', ''--wifi-if'', ''wlan0'', ''--wifi-interval-ms'', ''250''] default_args =
   Inr \<lparr> da_router_id = ''--demo'', da_wifi_if = Some ''wlan0'', da_netlink = True, da_update = False, da_interval = 250 \<rparr>"
  using parse_args_roundtrip[of "\<lparr> da_router_id = ''--demo'', da_wifi_if = Some ''wlan0'', da_netlink = True, da_update = False, da_interval = 250 \<rparr>"]
  by (simp add: render_args_def int_dec_def dec_simps)

section \<open>A concrete run\<close>

definition lab_sta_event :: nl80211_event where
  "lab_sta_event = \<lparr> nv_station = True, nv_has_mac = True, nv_client_mac = [2, 0, 0, 0, 0, 1], nv_signal_dbm = -60, nv_signal_avg_dbm = -60,
     nv_snr_db = 25, nv_has_mcs = True, nv_mcs_index = 7, nv_tx_retries = 0, nv_tx_failed = 0, nv_rx_bytes = 0, nv_tx_bytes = 0,
     nv_frequency_mhz = 2412, nv_has_signal = True \<rparr>"

definition lab_daemon :: "(nfct_event list, nl80211_event list) daemon_env" where
  "lab_daemon =
     \<lparr> de_nfct_create = Some [], de_nfct_feed = (\<lambda>b q. (True, q @ [sample_nat_event])), de_nfct_next = list_next, de_nfct_text = (\<lambda>_. ''raw''),
       de_t4 = (\<lambda>_. None), de_t6 = (\<lambda>_. None), de_wifi_create = Some [], de_wifi_feed = (\<lambda>b q. q @ [lab_sta_event]), de_wifi_next = list_next,
       de_wifi_text = (\<lambda>_. []), de_clock = (\<lambda>_. Some (1, 0)), de_sock = 3, de_bind = True, de_join = (\<lambda>_. True), de_nonblock = 0,
       de_errno = [], de_index = (\<lambda>_. 4),
       de_wifi_open = \<lparr> no_sock = 5, no_bind = True, no_send = True, no_recv = WouldBlock, no_errno = ''busy'' \<rparr>, de_wifi_sent = True,
       de_rx = (\<lambda>k. if k = 0 then Received [1] else WouldBlock),
       de_wrx = (\<lambda>k. if k = 0 then Received (nl_msg (17, []) @ nl_msg (3, [])) else WouldBlock),
       de_poll = (\<lambda>k t. if t = 1000 then Poll_ready False True else Poll_ready False False), de_signal = (\<lambda>k. k = 1) \<rparr>"

definition lab_daemon_st :: "(nfct_event list, nl80211_event list) daemon_st" where
  "lab_daemon_st = (daemon_start [])\<lparr>ds_wifi := Some []\<rparr>"

lemmas lab_defs = lab_daemon_def lab_daemon_st_def daemon_start_def

theorem forensicsd_stops_witness:
  "\<exists>rc out err lg. run_netlink lab_daemon ''r1'' True (Some ''wlan0'') 0 = Some (rc, out, err, lg) \<and> mset (nl_opened lg) = mset (nl_shut lg)"
proof (rule forensicsd_stops[where N = 1])
  show "queues_finite lab_daemon" by (simp add: queues_finite_def lab_defs)
  have "\<exists>j. de_rx lab_daemon (k + j) \<in> {WouldBlock, RecvFailed}" "\<exists>j. de_wrx lab_daemon (k + j) \<in> {WouldBlock, RecvFailed}" for k
    by (rule exI[of _ 1], simp add: lab_defs)+
  then show "sockets_dry lab_daemon" by (simp add: sockets_dry_def)
  show "de_signal lab_daemon 1" by (simp add: lab_defs)
qed

theorem forensicsd_reports_events_witness:
  "\<exists>st'. daemon_iter lab_daemon 3 (-1) 0 (-1) 0 ''r1'' lab_daemon_st = Some (True, st') \<and> length (ds_out st') = 1"
proof -
  have "\<exists>st'. daemon_iter lab_daemon 3 (-1) 0 (-1) 0 ''r1'' lab_daemon_st = Some (True, st') \<and>
    ds_out st' = ds_out lab_daemon_st @ nfct_output lab_daemon ''r1'' (ds_clock lab_daemon_st + 1) [([1], [sample_nat_event])] \<and>
    ds_err st' = ds_err lab_daemon_st \<and> \<not> (ds_stop st' \<and> \<not> ds_stop lab_daemon_st) \<and> ds_rx st' = ds_rx lab_daemon_st + length [([1 :: u8], [sample_nat_event])] + 1"
    by (rule forensicsd_reports_events) (simp_all add: lab_defs)
  then obtain st' where "daemon_iter lab_daemon 3 (-1) 0 (-1) 0 ''r1'' lab_daemon_st = Some (True, st')"
    "ds_out st' = nfct_lines lab_daemon ''r1'' (now_ms lab_daemon 1) sample_nat_event" by (auto simp: lab_daemon_st_def daemon_start_def)
  moreover have "length (nfct_lines lab_daemon ''r1'' ts sample_nat_event) = 1" for ts
    by (auto simp: nfct_lines_def nf_obs_format_def Let_def split: option.split)
  ultimately show ?thesis by auto
qed

theorem forensicsd_dump_complete_witness:
  "\<exists>st'. wifi_dump_once lab_daemon 5 28 4 ''r1'' lab_daemon_st = Some st' \<and>
    ds_out st' = [station_line ''r1'' (now_ms lab_daemon 0) lab_sta_event] \<and> ds_wrx st' = 1"
proof -
  let ?gs = "[([(17, []), (3, [])], [lab_sta_event])] :: ((u16 \<times> bytes) list \<times> nl80211_event list) list"
  let ?ms = "map (\<lambda>(g, evs). (concat (map nl_msg g), evs)) ?gs"
  have sta: "nv_station lab_sta_event" "nv_has_mac lab_sta_event" by (simp_all add: lab_sta_event_def)
  have "\<exists>st'. wifi_dump_once lab_daemon 5 28 4 ''r1'' lab_daemon_st = Some st' \<and>
    ds_out st' = ds_out lab_daemon_st @ dump_output lab_daemon ''r1'' (ds_clock lab_daemon_st) ?ms \<and>
    ds_wrx st' = ds_wrx lab_daemon_st + length ?gs \<and> ds_log st' = ds_log lab_daemon_st @ [Nl_send 5 (dump_msg 28 4)] \<and>
    ds_err st' = ds_err lab_daemon_st"
    by (rule forensicsd_dump_complete[where q = "[]"])
      (simp_all add: lab_defs nl_msg_def pad4_def nla_align_def le16_bytes_def le32_bytes_def)
  then obtain st' where "wifi_dump_once lab_daemon 5 28 4 ''r1'' lab_daemon_st = Some st'"
    "ds_out st' = ds_out lab_daemon_st @ dump_output lab_daemon ''r1'' (ds_clock lab_daemon_st) ?ms"
    "ds_wrx st' = ds_wrx lab_daemon_st + length ?gs" by blast
  then show ?thesis using sta by (simp add: lab_daemon_st_def daemon_start_def sta_lines_def)
qed

theorem forensicsd_wifi_not_read_witness:
  "daemon_iter lab_daemon 3 5 28 4 1500 ''r1'' lab_daemon_st = Some (True, lab_daemon_st\<lparr>ds_iter := 1, ds_clock := 2\<rparr>)"
proof -
  have t: "poll_timeout 1000 0 1500 = 500" by code_simp
  have "daemon_iter lab_daemon 3 5 28 4 1500 ''r1'' lab_daemon_st =
    Some (True, lab_daemon_st\<lparr>ds_iter := ds_iter lab_daemon_st + 1, ds_clock := ds_clock lab_daemon_st + 2\<rparr>)"
    by (rule forensicsd_wifi_not_read[where t = 500]) (simp_all add: lab_defs now_ms_def t)
  then show ?thesis by (simp add: lab_daemon_st_def daemon_start_def)
qed

end
