(* ===== verification/Bmp_Ingest.thy ===== *)
theory Bmp_Ingest
  imports Flow_Correlate
begin

text \<open>
  \<^verbatim>\<open>src/bmp_ingest.c\<close>: shaping libbmp events into observations, the NDJSON line, and the
  two collection loops. libbmp is not part of the repository: its event type is modelled by
  the fields the source reads, and \<^verbatim>\<open>bmp_next_event\<close>, \<^verbatim>\<open>bmp_feed_message\<close> and
  \<^verbatim>\<open>bmp_feed_input\<close> are parameters.
\<close>

section \<open>Data\<close>

datatype bmp_event_type = BMP_EVENT_INITIATION | BMP_EVENT_TERMINATION | BMP_EVENT_PEER_UP
  | BMP_EVENT_PEER_DOWN | BMP_EVENT_ROUTE_MONITORING | BMP_EVENT_STATISTICS
  | BMP_EVENT_QUEUE_OVERFLOW | BMP_EVENT_ERROR | BMP_EVENT_UNHANDLED

record bmp_peer_header =
  ph_is_ipv6 :: bool
  ph_peer_address :: bytes
  ph_peer_as :: u32
  ph_peer_bgp_id :: u32
  ph_timestamp_sec :: u32
  ph_timestamp_usec :: u32

record bmp_event =
  be_type :: bmp_event_type
  be_peer :: bmp_peer_header
  be_payload_len :: u64
  be_payload_truncated :: bool

record nf_bmp_obs =
  bo_router_id :: string
  bo_event :: string
  bo_ts_ms :: u64
  bo_peer_as :: u32
  bo_peer_bgp_id :: u32
  bo_peer_addr :: bytes
  bo_peer_is_ipv6 :: bool
  bo_has_peer :: bool
  bo_payload_len :: u64
  bo_payload_truncated :: bool
  bo_peer_addr_str :: string

definition bmp_obs_zero :: nf_bmp_obs where
  "bmp_obs_zero = \<lparr> bo_router_id = [], bo_event = [], bo_ts_ms = 0, bo_peer_as = 0,
     bo_peer_bgp_id = 0, bo_peer_addr = zero16, bo_peer_is_ipv6 = False, bo_has_peer = False,
     bo_payload_len = 0, bo_payload_truncated = False, bo_peer_addr_str = [] \<rparr>"

section \<open>Operations\<close>

text \<open>The peer address is a \<^verbatim>\<open>uint8_t[16]\<close>; an IPv4 address is in its last four bytes.\<close>

definition format_peer_addr :: "bmp_peer_header \<Rightarrow> nat \<Rightarrow> string" where
  "format_peer_addr ph out_len =
     (if ph_is_ipv6 ph then cstr out_len (ipv6_hex (take 16 (ph_peer_address ph)))
      else cstr out_len (u8_dec (ph_peer_address ph ! 12) @ ''.'' @ u8_dec (ph_peer_address ph ! 13) @ ''.'' @
             u8_dec (ph_peer_address ph ! 14) @ ''.'' @ u8_dec (ph_peer_address ph ! 15)))"

text \<open>The switch of \<^verbatim>\<open>nf_obs_from_bmp\<close>: event name and \<^verbatim>\<open>has_peer\<close>; \<open>None\<close> is the default branch.\<close>

fun bmp_event_label :: "bmp_event_type \<Rightarrow> (string \<times> bool) option" where
  "bmp_event_label BMP_EVENT_INITIATION = Some (''initiation'', False)"
| "bmp_event_label BMP_EVENT_TERMINATION = Some (''termination'', False)"
| "bmp_event_label BMP_EVENT_PEER_UP = Some (''peer_up'', True)"
| "bmp_event_label BMP_EVENT_PEER_DOWN = Some (''peer_down'', True)"
| "bmp_event_label BMP_EVENT_ROUTE_MONITORING = Some (''route'', True)"
| "bmp_event_label BMP_EVENT_STATISTICS = Some (''stats'', True)"
| "bmp_event_label BMP_EVENT_QUEUE_OVERFLOW = Some (''queue_overflow'', False)"
| "bmp_event_label BMP_EVENT_ERROR = Some (''error'', False)"
| "bmp_event_label BMP_EVENT_UNHANDLED = None"

definition nf_obs_from_bmp :: "bmp_event option \<Rightarrow> string option \<Rightarrow> nf_bmp_obs option" where
  "nf_obs_from_bmp evp rid =
     (case evp of None \<Rightarrow> None
      | Some ev \<Rightarrow>
        (let out = (case rid of None \<Rightarrow> bmp_obs_zero
                    | Some s \<Rightarrow> bmp_obs_zero\<lparr> bo_router_id := cstr 64 s \<rparr>)
         in case bmp_event_label (be_type ev) of None \<Rightarrow> None
            | Some (name, peer) \<Rightarrow>
              (let out = out\<lparr> bo_event := name, bo_has_peer := peer \<rparr>;
                   ph = be_peer ev;
                   out = (if bo_has_peer out then
                            out\<lparr> bo_peer_as := ph_peer_as ph, bo_peer_bgp_id := ph_peer_bgp_id ph,
                                bo_peer_is_ipv6 := ph_is_ipv6 ph,
                                bo_peer_addr := take 16 (ph_peer_address ph),
                                bo_ts_ms := ucast (ph_timestamp_sec ph) * 1000 +
                                            ucast (ph_timestamp_usec ph) div 1000,
                                bo_peer_addr_str := format_peer_addr ph 48 \<rparr>
                          else out)
               in Some (out\<lparr> bo_payload_len := be_payload_len ev,
                             bo_payload_truncated := be_payload_truncated ev \<rparr>))))"

definition nf_bmp_obs_text :: "nf_bmp_obs \<Rightarrow> string" where
  \<open>nf_bmp_obs_text obs =
     ''{"type":"bmp","router":"'' @ bo_router_id obs @ ''","event":"'' @ bo_event obs @ ''",'' @
     (if bo_has_peer obs then
        ''"ts":'' @ u64_dec (bo_ts_ms obs) @ '',"peer_as":'' @ u32_dec (bo_peer_as obs) @
        '',"peer_bgp_id":"'' @ dotted (bo_peer_bgp_id obs) @
        ''","peer_addr":"'' @ bo_peer_addr_str obs @ ''",''
      else []) @
     ''"payload_len":'' @ u64_dec (bo_payload_len obs) @
     (if bo_payload_truncated obs then '',"payload_truncated":true'' else []) @ ''}''\<close>

definition nf_bmp_obs_format :: "nf_bmp_obs option \<Rightarrow> nat \<Rightarrow> string option" where
  "nf_bmp_obs_format obsp buflen =
     (case obsp of None \<Rightarrow> None
      | Some obs \<Rightarrow> if buflen < 32 then None else Some (cstr buflen (nf_bmp_obs_text obs)))"

partial_function (option) drain_obs ::
  "('ctx \<Rightarrow> (bmp_event \<times> 'ctx) option) \<Rightarrow> string option \<Rightarrow> nat \<Rightarrow> 'ctx \<Rightarrow> nf_bmp_obs list \<Rightarrow>
   ('ctx \<times> nf_bmp_obs list) option" where
  "drain_obs next rid max_out ctx out =
     (if length out < max_out
      then (case next ctx of None \<Rightarrow> Some (ctx, out)
            | Some (ev, ctx') \<Rightarrow>
                (case nf_obs_from_bmp (Some ev) rid of
                   Some obs \<Rightarrow> drain_obs next rid max_out ctx' (out @ [obs])
                 | None \<Rightarrow> drain_obs next rid max_out ctx' out))
      else Some (ctx, out))"

text \<open>A failed feed is ignored: error events queued by the parser are still drained.\<close>

definition nf_bmp_collect ::
  "('ctx \<Rightarrow> bytes \<Rightarrow> bool \<times> 'ctx) \<Rightarrow> ('ctx \<Rightarrow> (bmp_event \<times> 'ctx) option) \<Rightarrow>
   'ctx \<Rightarrow> bytes \<Rightarrow> string option \<Rightarrow> nat \<Rightarrow> (unit + 'ctx \<times> nf_bmp_obs list) option" where
  "nf_bmp_collect feed_message next ctx msg rid max_out =
     (if max_out = 0 then Some (Inl ())
      else let (ok, ctx') = feed_message ctx msg
           in map_option Inr (drain_obs next rid max_out ctx' []))"

definition nf_bmp_collect_stream ::
  "('ctx \<Rightarrow> bytes \<Rightarrow> bool \<times> 'ctx) \<Rightarrow> ('ctx \<Rightarrow> (bmp_event \<times> 'ctx) option) \<Rightarrow>
   'ctx \<Rightarrow> bytes \<Rightarrow> string option \<Rightarrow> nat \<Rightarrow> (unit + 'ctx \<times> nf_bmp_obs list) option" where
  "nf_bmp_collect_stream feed_input next ctx data rid max_out =
     (if max_out = 0 then Some (Inl ())
      else let (_, ctx') = feed_input ctx data
           in map_option Inr (drain_obs next rid max_out ctx' []))"

section \<open>Facts\<close>

text \<open>The observations a list of BMP events stands for.\<close>

definition bmp_obs :: "string option \<Rightarrow> bmp_event list \<Rightarrow> nf_bmp_obs list" where
  "bmp_obs rid es = List.map_filter (\<lambda>e. nf_obs_from_bmp (Some e) rid) es"

lemma bmp_obs_Nil [simp]: "bmp_obs rid [] = []"
  by (simp add: bmp_obs_def List.map_filter_simps)

lemma bmp_obs_Cons [simp]:
  "bmp_obs rid (e # es) = (case nf_obs_from_bmp (Some e) rid of None \<Rightarrow> bmp_obs rid es | Some b \<Rightarrow> b # bmp_obs rid es)"
  by (simp add: bmp_obs_def List.map_filter_simps split: option.split)

text \<open>
  The loop stops as soon as the output is full, before taking another event, so the events
  it has not used are still queued for the next call.
\<close>

lemma drain_obs_split:
  assumes "yields nx c es" "length out \<le> m"
  shows "\<exists>c' es1 es2. es = es1 @ es2 \<and> drain_obs nx rid m c out = Some (c', out @ bmp_obs rid es1) \<and>
    yields nx c' es2 \<and> out @ bmp_obs rid es1 = take m (out @ bmp_obs rid es)"
  using assms
proof (induction es arbitrary: c out)
  case Nil
  then show ?case
    by (intro exI[of _ c] exI[of _ "[]"]) (simp add: drain_obs.simps[of nx rid m c])
next
  case (Cons e es)
  from Cons.prems(1) obtain c1 where nx: "nx c = Some (e, c1)" and y: "yields nx c1 es"
    by (rule yields_ConsE)
  show ?case
  proof (cases "length out < m")
    case False
    with Cons.prems show ?thesis
      by (intro exI[of _ c] exI[of _ "[]"] exI[of _ "e # es"])
        (simp add: drain_obs.simps[of nx rid m c])
  next
    case True
    define out' where "out' = (case nf_obs_from_bmp (Some e) rid of None \<Rightarrow> out | Some b \<Rightarrow> out @ [b])"
    have l: "length out' \<le> m" using True by (auto simp: out'_def split: option.split)
    from Cons.IH[OF y l] obtain c' es1 es2 where IH: "es = es1 @ es2"
      "drain_obs nx rid m c1 out' = Some (c', out' @ bmp_obs rid es1)" "yields nx c' es2"
      "out' @ bmp_obs rid es1 = take m (out' @ bmp_obs rid es)"
      by blast
    have o: "out' @ bmp_obs rid x = out @ bmp_obs rid (e # x)" for x
      by (simp add: out'_def split: option.split)
    have "drain_obs nx rid m c out = drain_obs nx rid m c1 out'"
      using True nx by (simp add: drain_obs.simps[of nx rid m c out] out'_def split: option.split)
    with IH show ?thesis
      unfolding o by (intro exI[of _ c'] exI[of _ "e # es1"] exI[of _ es2]) simp
  qed
qed

lemma obs_from_bmp_bounds:
  assumes "nf_obs_from_bmp (Some ev) rid = Some obs"
  shows "length (bo_router_id obs) < 64 \<and> length (bo_event obs) < 32 \<and> length (bo_peer_addr_str obs) < 48"
proof -
  have "length name < 32" if "bmp_event_label t = Some (name, p)" for t name p
    using that by (cases t) auto
  with assms show ?thesis
    by (auto simp: nf_obs_from_bmp_def Let_def bmp_obs_zero_def format_peer_addr_def length_cstr_less
        split: option.splits if_splits)
qed

section \<open>Properties\<close>

text \<open>the TCP stream collector loses nothing when its output array fills up. It returns the
  first \<^verbatim>\<open>max_out\<close> observations in arrival order, and the events it has not looked at are
  still in the parser's queue, in order, for the next call.\<close>

theorem nf_bmp_collect_stream_resumable:
  assumes "feed ctx data = (ok, ctx')" "yields nx ctx' evs" "0 < max_out"
  shows "\<exists>ctx'' evs1 evs2. evs = evs1 @ evs2 \<and>
    nf_bmp_collect_stream feed nx ctx data rid max_out = Some (Inr (ctx'', bmp_obs rid evs1)) \<and>
    bmp_obs rid evs1 = take max_out (bmp_obs rid evs) \<and> yields nx ctx'' evs2"
  using drain_obs_split[OF assms(2), of "[]" max_out rid] assms
  by (auto simp: nf_bmp_collect_stream_def)

definition sample_bmp_event :: "bmp_event_type \<Rightarrow> bmp_event" where
  "sample_bmp_event t = \<lparr> be_type = t, be_peer = \<lparr> ph_is_ipv6 = False, ph_peer_address = zero16,
     ph_peer_as = 65000, ph_peer_bgp_id = 1, ph_timestamp_sec = 0xFFFFFFFF, ph_timestamp_usec = 999999 \<rparr>,
     be_payload_len = 0, be_payload_truncated = False \<rparr>"

theorem nf_bmp_collect_stream_resumable_witness:
  "\<exists>ctx'' evs1 evs2. [sample_bmp_event BMP_EVENT_UNHANDLED, sample_bmp_event BMP_EVENT_PEER_UP] = evs1 @ evs2 \<and>
    nf_bmp_collect_stream (\<lambda>q d. (True, q)) list_next
      [sample_bmp_event BMP_EVENT_UNHANDLED, sample_bmp_event BMP_EVENT_PEER_UP] [] None 1 =
      Some (Inr (ctx'', bmp_obs None evs1)) \<and>
    bmp_obs None evs1 = take 1 (bmp_obs None [sample_bmp_event BMP_EVENT_UNHANDLED, sample_bmp_event BMP_EVENT_PEER_UP]) \<and>
    yields list_next ctx'' evs2"
  by (rule nf_bmp_collect_stream_resumable[where ok = True and
        ctx' = "[sample_bmp_event BMP_EVENT_UNHANDLED, sample_bmp_event BMP_EVENT_PEER_UP]"]) simp_all

text \<open>the millisecond time stamp of a peer event is computed in 64 bits without wrap-around
  for every 32-bit seconds and microseconds field of the BMP per-peer header.\<close>

theorem nf_obs_from_bmp_timestamp:
  assumes "nf_obs_from_bmp (Some ev) rid = Some obs" "bo_has_peer obs"
  shows "unat (bo_ts_ms obs) =
    unat (ph_timestamp_sec (be_peer ev)) * 1000 + unat (ph_timestamp_usec (be_peer ev)) div 1000"
proof -
  let ?s = "ph_timestamp_sec (be_peer ev)" and ?u = "ph_timestamp_usec (be_peer ev)"
  have t: "bo_ts_ms obs = ucast ?s * 1000 + ucast ?u div 1000"
    using assms by (auto simp: nf_obs_from_bmp_def Let_def split: option.splits if_splits)
  have s: "unat (ucast ?s :: u64) = unat ?s" and u: "unat (ucast ?u :: u64) = unat ?u"
    by (simp_all add: unat_ucast_up)
  have "unat ?s < 4294967296" "unat ?u < 4294967296" by (rule unat_u32_less)+
  then have "unat ?s * 1000 + unat ?u div 1000 < 18446744073709551616" by linarith
  then show ?thesis
    unfolding t by (simp add: unat_word_ariths unat_div_distrib s u)
qed

theorem nf_obs_from_bmp_timestamp_witness:
  "unat (bo_ts_ms (the (nf_obs_from_bmp (Some (sample_bmp_event BMP_EVENT_PEER_UP)) None))) = 4294967295999"
  using nf_obs_from_bmp_timestamp[of "sample_bmp_event BMP_EVENT_PEER_UP" None
      "the (nf_obs_from_bmp (Some (sample_bmp_event BMP_EVENT_PEER_UP)) None)"]
  by (simp add: nf_obs_from_bmp_def sample_bmp_event_def Let_def)

end
