(* ===== verification/Lab_Tools.thy ===== *)
theory Lab_Tools
  imports Ch_Query Bmp_Ingest
begin

text \<open>
  \<^verbatim>\<open>src/gateway_stub_main.c\<close>, the HTTP sink of the laboratory, and \<^verbatim>\<open>src/bmp_ingest_main.c\<close>, the demonstration
  of the BMP collector. The sink is composed with the HTTP client of \<open>Tls_Egress\<close>. Socket calls are inputs; the
  endless accept loop is a function of the accepted connections.
\<close>

section \<open>Command line of the sink\<close>

definition parse_listen :: "string \<Rightarrow> (string \<times> int) option" where
  "parse_listen s =
     (if CHR '':'' \<notin> set s then None
      else
        (let tail = rev (takeWhile (\<lambda>c. c \<noteq> CHR '':'') (rev s));
             hst = take (length s - length tail - 1) s; port = atoi tail
         in if hst = [] \<or> length hst \<ge> 64 then None else if 0 < port \<and> port < 65536 then Some (hst, port) else None))"

text \<open>\<open>Inl\<close> is the exit status with the text printed.\<close>

fun gateway_args :: "string \<Rightarrow> string list \<Rightarrow> string \<times> int \<Rightarrow> (int \<times> string) + (string \<times> int)" where
  "gateway_args usage [] hp = Inr hp"
| "gateway_args usage (a # r) hp =
     (if a = ''--help'' \<or> a = ''-h'' then Inl (0, usage)
      else case r of
        s # r' \<Rightarrow>
          if a = ''--listen'' then (case parse_listen s of None \<Rightarrow> Inl (1, ''bad --listen'' @ [CHR 0x0A]) | Some hp' \<Rightarrow> gateway_args usage r' hp')
          else Inl (1, usage)
      | [] \<Rightarrow> Inl (1, usage))"

section \<open>One connection\<close>

definition gateway_status :: string where
  "gateway_status = ''HTTP/1.1 204 No Content'' @ crlf @ ''Connection: close'' @ crlf @ crlf"

text \<open>What is printed for the bytes of the single read.\<close>

definition gateway_print :: "string \<Rightarrow> string" where
  "gateway_print d =
     (case strstr (takeWhile (\<lambda>c. c \<noteq> CHR 0x00) (take 8191 d)) (crlf @ crlf) of None \<Rightarrow> []
      | Some r \<Rightarrow> (let body = drop 4 r in body @ (if body \<noteq> [] \<and> last body \<noteq> CHR 0x0A then [CHR 0x0A] else [])))"

text \<open>
  \<^verbatim>\<open>send\<close> is given 48 bytes of the literal: \<open>mem\<close> is the memory from the start of the literal, with its
  terminating zero and what follows it.
\<close>

definition gateway_reply :: "string \<Rightarrow> string" where
  "gateway_reply mem = take 48 mem"

text \<open>A connection that cannot be accepted is skipped; an empty read is a closed or failed one.\<close>

fun gateway_loop :: "string \<Rightarrow> (int \<times> string) list \<Rightarrow> string list \<times> net_action list" where
  "gateway_loop mem [] = ([], [])"
| "gateway_loop mem ((cli, d) # cs) =
     (let (out, lg) = gateway_loop mem cs in
      if cli < 0 then (out, lg)
      else if d = [] then (out, [Opened cli, Closed cli] @ lg)
      else (gateway_print d # out, [Opened cli, Sent cli (gateway_reply mem), Closed cli] @ lg))"

section \<open>Start of the sink\<close>

record gateway_env =
  ge_socket :: int
  ge_bind :: bool
  ge_listen :: bool

text \<open>\<open>Inl\<close> is the exit status, the text and the socket actions; \<open>Inr\<close> the listening socket with its address.\<close>

definition gateway_start :: "gateway_env \<Rightarrow> string \<Rightarrow> string list \<Rightarrow> (int \<times> string \<times> net_action list) + (int \<times> u32 \<times> u16)" where
  "gateway_start env usage args =
     (case gateway_args usage args (''0.0.0.0'', 8787) of
        Inl (rc, t) \<Rightarrow> Inl (rc, t, [])
      | Inr (hst, port) \<Rightarrow>
          (let srv = ge_socket env in
           if srv < 0 then Inl (1, ''socket'', [])
           else case inet_pton4 hst of
             None \<Rightarrow> Inl (1, ''bad host'' @ [CHR 0x0A], [Opened srv, Closed srv])
           | Some addr \<Rightarrow>
               if \<not> ge_bind env then Inl (1, ''bind'', [Opened srv, Closed srv])
               else if \<not> ge_listen env then Inl (1, ''listen'', [Opened srv, Closed srv])
               else Inr (srv, addr, of_int port)))"

section \<open>Properties of the sink\<close>

lemma parse_listen_exact:
  assumes "hst \<noteq> []" "length hst < 64" "0 < (p :: nat)" "p < 65536"
  shows "parse_listen (hst @ '':'' @ dec p) = Some (hst, int p)"
proof -
  have d: "CHR '':'' \<notin> set (dec p)" using dec_digits[of "CHR '':''" p] by (auto simp: is_digit_def)
  then have "\<forall>x \<in> set (dec p). x \<noteq> CHR '':''" by auto
  then have t: "takeWhile (\<lambda>c. c \<noteq> CHR '':'') (rev (hst @ '':'' @ dec p)) = rev (dec p)" by (simp add: takeWhile_append2 takeWhile_tail)
  have "atoi (dec p) = int p" using atoi_int_dec[of "int p"] assms(4) by (simp add: int_dec_def)
  then show ?thesis using assms unfolding parse_listen_def t by (simp add: Let_def)
qed

lemma status_length: "length gateway_status = 46"
  by (simp add: gateway_status_def crlf_def)

text \<open>
  The answer of the sink reads beyond its literal: 48 bytes are sent of an object of 47 bytes, so the last byte of
  every answer is whatever follows the literal in memory.
\<close>

theorem gateway_reply_overread:
  "gateway_reply ((gateway_status @ [CHR 0x00]) @ x # rest) = (gateway_status @ [CHR 0x00]) @ [x] \<and> length (gateway_status @ [CHR 0x00]) = 47"
  by (simp add: gateway_reply_def status_length)

definition request_lines :: "string \<Rightarrow> string \<Rightarrow> string \<Rightarrow> string list" where
  "request_lines host path body =
     [''POST '' @ path @ '' HTTP/1.1'', ''Host: '' @ host, ''Content-Type: application/x-ndjson'', ''Content-Length: '' @ dec (length body),
      ''Connection: close'']"

lemma request_header_lines: "request_header host path body None = header_text (request_lines host path body) @ crlf"
  by (simp add: request_header_def header_text_def request_lines_def crlf_def)

lemma request_lines_ok:
  assumes "CHR 0x0D \<notin> set (host @ path)" "CHR 0x00 \<notin> set (host @ path)"
  shows "list_all header_line (request_lines host path body)"
  using assms dec_digits[of "CHR 0x0D" "length body"] dec_digits[of "CHR 0x00" "length body"]
  by (auto simp: request_lines_def header_line_def is_digit_def)

lemma gateway_print_request:
  assumes "ls \<noteq> []" "list_all header_line ls" "CHR 0x00 \<notin> set b" "length (header_text ls @ crlf @ b) \<le> 8191"
  shows "gateway_print (header_text ls @ crlf @ b) = b @ (if b \<noteq> [] \<and> last b \<noteq> CHR 0x0A then [CHR 0x0A] else [])"
proof -
  let ?d = "header_text ls @ crlf @ b"
  have "CHR 0x00 \<notin> set (header_text ls)" using assms(2) by (auto simp: header_text_def list_all_iff header_line_def crlf_def)
  then have "CHR 0x00 \<notin> set ?d" using assms(3) by (auto simp: crlf_def)
  then have "takeWhile (\<lambda>c. c \<noteq> CHR 0x00) ?d = ?d" by (subst takeWhile_eq_all_conv) auto
  moreover have "take 8191 ?d = ?d" using assms(4) by (simp only: take_all)
  ultimately have "takeWhile (\<lambda>c. c \<noteq> CHR 0x00) (take 8191 ?d) = ?d" by (simp only:)
  then have "gateway_print ?d = (let body = drop 4 (crlf @ crlf @ b) in body @ (if body \<noteq> [] \<and> last body \<noteq> CHR 0x0A then [CHR 0x0A] else []))"
    unfolding gateway_print_def by (simp only: header_end[OF assms(1,2)] option.case)
  then show ?thesis by (simp add: crlf_def)
qed

lemma gateway_status_ok:
  assumes "take 46 mem = gateway_status"
  shows "http_status_ok (gateway_reply mem)"
proof -
  have "take 48 mem = gateway_status @ take 2 (drop 46 mem)" using assms take_add[of 46 2 mem] by simp
  then show ?thesis by (simp add: gateway_reply_def http_status_ok_def gateway_status_def)
qed

text \<open>C31: 
  The client of the agent and the sink together: a request that arrives in one read of at most 8191 bytes is printed
  as its body, the last line ended by a newline, and answered by a status the client accepts, so the lines the agent
  removes from its spool are the lines the sink printed.
\<close>

theorem gateway_prints_posted_lines:
  assumes "CHR 0x0D \<notin> set (host @ path)" "CHR 0x00 \<notin> set (host @ path)" "CHR 0x00 \<notin> set body" "0 \<le> cli"
    and "length (request_header host path body None @ body) \<le> 8191" "take 46 mem = gateway_status"
  shows "gateway_loop mem ((cli, request_header host path body None @ body) # cs) =
     ((body @ (if body \<noteq> [] \<and> last body \<noteq> CHR 0x0A then [CHR 0x0A] else [])) # fst (gateway_loop mem cs),
      [Opened cli, Sent cli (gateway_reply mem), Closed cli] @ snd (gateway_loop mem cs)) \<and>
    http_status_ok (gateway_reply mem)"
proof -
  have "request_lines host path body \<noteq> []" by (simp add: request_lines_def)
  from gateway_print_request[OF this request_lines_ok[OF assms(1,2)] assms(3)] assms(5)
  have "gateway_print (request_header host path body None @ body) = body @ (if body \<noteq> [] \<and> last body \<noteq> CHR 0x0A then [CHR 0x0A] else [])"
    by (simp add: request_header_lines)
  moreover have "request_header host path body None @ body \<noteq> []" by (simp add: request_header_def)
  ultimately show ?thesis using assms(4) gateway_status_ok[OF assms(6)] by (simp add: split_beta)
qed

text \<open>
  The sink reads once: when the body of a request comes in a later segment than its header, nothing is printed, and
  the client still gets the status that makes it drop its lines.
\<close>

theorem gateway_loses_split_body:
  assumes "CHR 0x0D \<notin> set (host @ path)" "CHR 0x00 \<notin> set (host @ path)" "0 \<le> cli"
    and "length (request_header host path body None) \<le> 8191" "take 46 mem = gateway_status"
  shows "gateway_loop mem [(cli, request_header host path body None)] = ([[]], [Opened cli, Sent cli (gateway_reply mem), Closed cli]) \<and>
    http_status_ok (gateway_reply mem)"
proof -
  have "request_lines host path body \<noteq> []" by (simp add: request_lines_def)
  from gateway_print_request[OF this request_lines_ok[OF assms(1,2)], of "[]"] assms(4)
  have "gateway_print (request_header host path body None) = []" by (simp add: request_header_lines)
  moreover have "request_header host path body None \<noteq> []" by (simp add: request_header_def)
  ultimately show ?thesis using assms(3) gateway_status_ok[OF assms(5)] by simp
qed

text \<open>Every way out of the start closes the listening socket.\<close>

theorem gateway_start_closes:
  "gateway_start env usage args = Inl (rc, t, lg) \<Longrightarrow> opened_fds lg = shut_fds lg"
  by (auto simp: gateway_start_def Let_def split: sum.splits option.splits if_splits)

section \<open>The BMP demonstration\<close>

definition wr32_be :: "nat \<Rightarrow> u32 \<Rightarrow> bytes \<Rightarrow> bytes" where
  "wr32_be i v p = p[i := ucast (octet 3 v), i + 1 := ucast (octet 2 v), i + 2 := ucast (octet 1 v), i + 3 := ucast (octet 0 v)]"

text \<open>\<open>peer_up\<close> is \<^verbatim>\<open>BMP_MSG_PEER_UP\<close> of the BMP library.\<close>

definition demo_bmp_message :: "u8 \<Rightarrow> bytes" where
  "demo_bmp_message peer_up =
     (let m0 = replicate 48 0; m1 = wr32_be 1 48 (m0[0 := 3]); m2 = wr32_be 32 64512 (m1[5 := peer_up]);
          m3 = wr32_be 36 0x0A000001 m2
      in m3[28 := 203, 29 := 0, 30 := 113, 31 := 50])"

text \<open>The exit status and the printed lines; \<open>None\<close> when the event queue of the library never ends.\<close>

definition bmp_demo_main ::
  "('ctx \<Rightarrow> bytes \<Rightarrow> bool \<times> 'ctx) \<Rightarrow> ('ctx \<Rightarrow> (bmp_event \<times> 'ctx) option) \<Rightarrow> u8 \<Rightarrow> 'ctx option \<Rightarrow> (int \<times> string list) option" where
  "bmp_demo_main feed nx peer_up create =
     (let banner = ''netforensics bmp_ingest_demo 0.1.0 (libbmp)'' @ [CHR 0x0A] in
      case create of None \<Rightarrow> Some (1, [banner])
      | Some ctx \<Rightarrow>
          map_option
            (\<lambda>r. let obs = (case r of Inl _ \<Rightarrow> [] | Inr (_, l) \<Rightarrow> l);
                     n = (case r of Inl _ \<Rightarrow> -1 | Inr _ \<Rightarrow> int (length obs)) in
                 (0, [banner, ''collected '' @ int_dec n @ '' observation(s)'' @ [CHR 0x0A]] @
                     (if n > 0 then (case nf_bmp_obs_format (Some (hd obs)) 512 of None \<Rightarrow> [] | Some line \<Rightarrow> [line @ [CHR 0x0A]]) else [])))
            (nf_bmp_collect feed nx ctx (demo_bmp_message peer_up) (Some ''rr-core-1'') 4))"

text \<open>The message is a well-formed Peer Up: 48 bytes with the length, the peer and its address where BMP puts them.\<close>

lemma demo_bmp_message_fields:
  "length (demo_bmp_message t) = 48 \<and> demo_bmp_message t ! 5 = t \<and> be32 (demo_bmp_message t ! 1) (demo_bmp_message t ! 2) (demo_bmp_message t ! 3) (demo_bmp_message t ! 4) = 48"
  by (simp add: demo_bmp_message_def wr32_be_def Let_def octet_def be32_def nth_list_update)


text \<open>
  The demonstration prints the number of observations the collector took from the events the library announces, at most
  four, and the record of the first one.
\<close>

theorem bmp_demo_prints:
  assumes "yields nx (snd (feed ctx (demo_bmp_message t))) evs"
  shows "\<exists>banner. bmp_demo_main feed nx t (Some ctx) =
    Some (0, [banner, ''collected '' @ dec (length (take 4 (bmp_obs (Some ''rr-core-1'') evs))) @ '' observation(s)'' @ [CHR 0x0A]] @
      (case bmp_obs (Some ''rr-core-1'') evs of [] \<Rightarrow> [] | b # _ \<Rightarrow> [cstr 512 (nf_bmp_obs_text b) @ [CHR 0x0A]]))"
proof -
  let ?obs = "bmp_obs (Some ''rr-core-1'') evs"
  obtain c' where "drain_obs nx (Some ''rr-core-1'') 4 (snd (feed ctx (demo_bmp_message t))) [] = Some (c', take 4 ?obs)"
    using drain_obs_split[OF assms, of "[]" 4 "Some ''rr-core-1''"] by auto
  then have "nf_bmp_collect feed nx ctx (demo_bmp_message t) (Some ''rr-core-1'') 4 = Some (Inr (c', take 4 ?obs))"
    by (simp add: nf_bmp_collect_def split_beta)
  then show ?thesis by (cases ?obs) (simp_all add: bmp_demo_main_def Let_def nf_bmp_obs_format_def int_dec_def nat_add_distrib)
qed

section \<open>Concrete runs\<close>

theorem gateway_prints_posted_lines_witness:
  "fst (gateway_loop (gateway_status @ [CHR 0x00, CHR 0x41]) [(5, request_header ''c'' ''/ingest'' ''x'' None @ ''x'')]) = [''x'' @ [CHR 0x0A]]"
  using gateway_prints_posted_lines[of "''c''" "''/ingest''" "''x''" 5 "gateway_status @ [CHR 0x00, CHR 0x41]" "[]"]
  by (simp add: request_header_def crlf_def status_length dec.simps digit_def)

theorem gateway_loses_split_body_witness:
  "fst (gateway_loop (gateway_status @ [CHR 0x00, CHR 0x41]) [(5, request_header ''c'' ''/ingest'' ''x'' None)]) = [[]]"
  using gateway_loses_split_body[of "''c''" "''/ingest''" 5 "''x''" "gateway_status @ [CHR 0x00, CHR 0x41]"]
  by (simp add: request_header_def crlf_def status_length dec.simps digit_def)

theorem bmp_demo_prints_witness:
  "\<exists>banner. bmp_demo_main (\<lambda>_ _. (True, [sample_bmp_event BMP_EVENT_PEER_UP])) list_next 3 (Some []) =
    Some (0, [banner, ''collected '' @ dec 1 @ '' observation(s)'' @ [CHR 0x0A]] @
      (case bmp_obs (Some ''rr-core-1'') [sample_bmp_event BMP_EVENT_PEER_UP] of [] \<Rightarrow> [] | b # _ \<Rightarrow> [cstr 512 (nf_bmp_obs_text b) @ [CHR 0x0A]]))"
  using bmp_demo_prints[of list_next "\<lambda>_ _. (True, [sample_bmp_event BMP_EVENT_PEER_UP])" "[]" 3 "[sample_bmp_event BMP_EVENT_PEER_UP]"]
  by (simp add: nf_obs_from_bmp_def sample_bmp_event_def Let_def)

end
