(* ===== verification/Host_Alloc.thy ===== *)
theory Host_Alloc
  imports Prelude
begin

text \<open>
  \<^verbatim>\<open>agent/host_alloc.c\<close>: the process allocation gate. The C library allocator is a
  parameter: each call is given the pointer \<^verbatim>\<open>calloc\<close>/\<^verbatim>\<open>realloc\<close> returned, as an
  \<open>'p option\<close> (\<open>None\<close> is NULL). The four counters are the module's state.
\<close>

record host_alloc =
  g_allocs :: u64
  g_reallocs :: u64
  g_frees :: u64
  g_bytes :: u64

definition cpe_host_alloc_reset_stats :: "host_alloc \<Rightarrow> host_alloc" where
  "cpe_host_alloc_reset_stats h = h\<lparr> g_allocs := 0, g_reallocs := 0, g_frees := 0, g_bytes := 0 \<rparr>"

definition cpe_host_alloc_count :: "host_alloc \<Rightarrow> u64" where
  "cpe_host_alloc_count h = g_allocs h"
definition cpe_host_realloc_count :: "host_alloc \<Rightarrow> u64" where
  "cpe_host_realloc_count h = g_reallocs h"
definition cpe_host_free_count :: "host_alloc \<Rightarrow> u64" where
  "cpe_host_free_count h = g_frees h"
definition cpe_host_bytes_outstanding :: "host_alloc \<Rightarrow> u64" where
  "cpe_host_bytes_outstanding h = g_bytes h"

definition cpe_host_alloc :: "'p option \<Rightarrow> u64 \<Rightarrow> host_alloc \<Rightarrow> 'p option \<times> host_alloc" where
  "cpe_host_alloc calloc_ret n h =
     (if n = 0 then (None, h)
      else case calloc_ret of None \<Rightarrow> (None, h)
           | Some p \<Rightarrow> (Some p, h\<lparr> g_allocs := g_allocs h + 1, g_bytes := g_bytes h + n \<rparr>))"

definition cpe_host_free :: "'p option \<Rightarrow> host_alloc \<Rightarrow> host_alloc" where
  "cpe_host_free p h = (case p of None \<Rightarrow> h | Some _ \<Rightarrow> h\<lparr> g_frees := g_frees h + 1 \<rparr>)"

definition cpe_host_realloc ::
  "'p option \<Rightarrow> 'p option \<Rightarrow> u64 \<Rightarrow> host_alloc \<Rightarrow> 'p option \<times> host_alloc" where
  "cpe_host_realloc lib_ret p n h =
     (if n = 0 then (None, cpe_host_free p h)
      else case p of None \<Rightarrow> cpe_host_alloc lib_ret n h
           | Some _ \<Rightarrow> (case lib_ret of None \<Rightarrow> (None, h)
                       | Some q \<Rightarrow> (Some q, h\<lparr> g_reallocs := g_reallocs h + 1 \<rparr>)))"

text \<open>Calls on the gate, and the bytes its successful allocations asked for.\<close>

datatype 'p alloc_call = Alloc "'p option" u64 | Realloc "'p option" "'p option" u64 | Free "'p option"

fun alloc_step :: "'p alloc_call \<Rightarrow> host_alloc \<Rightarrow> host_alloc" where
  "alloc_step (Alloc r n) h = snd (cpe_host_alloc r n h)"
| "alloc_step (Realloc r p n) h = snd (cpe_host_realloc r p n h)"
| "alloc_step (Free p) h = cpe_host_free p h"

fun alloc_bytes :: "'p alloc_call \<Rightarrow> u64" where
  "alloc_bytes (Alloc (Some _) n) = n"
| "alloc_bytes (Realloc (Some _) None n) = n"
| "alloc_bytes _ = 0"

lemmas host_alloc_defs [cdefs] =
  cpe_host_alloc_reset_stats_def cpe_host_alloc_count_def cpe_host_realloc_count_def
  cpe_host_free_count_def cpe_host_bytes_outstanding_def cpe_host_alloc_def cpe_host_free_def
  cpe_host_realloc_def

lemma alloc_step_bytes: "g_bytes (alloc_step c h) = g_bytes h + alloc_bytes c"
  by (cases c rule: alloc_bytes.cases) (auto simp: host_alloc_defs split: option.split)

section \<open>Properties\<close>

text \<open>\<^verbatim>\<open>cpe_host_bytes_outstanding\<close> is the sum of every successful allocation since the
  last reset: neither \<^verbatim>\<open>cpe_host_free\<close> nor a growing or shrinking \<^verbatim>\<open>cpe_host_realloc\<close>
  changes it, so it counts bytes ever requested and not bytes outstanding.\<close>

theorem bytes_outstanding_never_released:
  "cpe_host_bytes_outstanding (fold alloc_step calls h) =
   cpe_host_bytes_outstanding h + sum_list (map alloc_bytes calls)"
proof (induction calls arbitrary: h)
  case Nil
  then show ?case by simp
next
  case (Cons c calls)
  then show ?case
    using alloc_step_bytes[of c h] by (simp add: cpe_host_bytes_outstanding_def add.assoc)
qed

end
