(* ===== verification/Spec2Isabelle.thy ===== *)
theory Spec2Isabelle
  imports Agent_Api Agent_Main Ctl_Lua Forensicsd Lab_Tools Host_Alloc
begin

text \<open>
  \<^bold>\<open>Verification of netforensics: the CPE agent, its collectors and the flow correlator.\<close>

  \<^bold>\<open>The program.\<close> The agent runs on customer routers. It receives kernel events over netlink
  sockets (NFLOG copies of TCP control packets, conntrack events and dumps), aggregates them into
  tables, turns samples into NDJSON lines, keeps the lines in a bounded spool ring and emits them
  to standard output, to a file or to a collector over HTTP. It is configured by YAML text and
  controlled by JSON lines over a Unix socket. The correlator library pairs an observation of a
  router (a NAT translation) with the flow record of the core network that describes the same
  connection; the collectors feed it from IPFIX and BMP streams.

  \<^bold>\<open>Theories and sources.\<close>
  \<^item> \<open>Prelude\<close>: machine words, C strings in fixed buffers, \<^verbatim>\<open>printf\<close> conversions and their
    lengths, and the collections \<open>cdefs\<close>, \<open>fmt_len\<close> and \<open>fmt_chars\<close> the components extend.
  \<^item> \<open>Ring_Buffer\<close>: arrays with head, tail and count as queues; the locales
    \<open>bounded_fifo\<close>, \<open>drop_newest_fifo\<close> and \<open>drop_oldest_fifo\<close>.
  \<^item> \<open>Event_Source\<close>: the pull interface of the parsers (\<^verbatim>\<open>*_next_event\<close>) as a locale.
  \<^item> \<open>Inet\<close>, \<open>Doubles\<close>, \<open>Clock\<close>: address conversion, IEEE rounding and time stamps as the
    sources use them.
  \<^item> \<open>Flow_Correlate\<close>: \<^verbatim>\<open>src/flow_correlate.c\<close> and \<^verbatim>\<open>src/ipfix_ingest.c\<close>.
  \<^item> \<open>Bmp_Ingest\<close>: \<^verbatim>\<open>src/bmp_ingest.c\<close>. \<open>Nflog\<close>: \<^verbatim>\<open>src/nflog_netlink.c\<close>.
    \<open>Nfct_Netlink\<close>: \<^verbatim>\<open>src/nfct_netlink.c\<close>.
  \<^item> \<open>Host_Alloc\<close>: \<^verbatim>\<open>agent/host_alloc.c\<close>. \<open>Spool_Util\<close>: \<^verbatim>\<open>agent/spool_util.c\<close>.
  \<^item> \<open>Config\<close>, \<open>Config_Yaml\<close>: \<^verbatim>\<open>agent/config_defaults.c\<close> and \<^verbatim>\<open>agent/config_yaml.c\<close>.
  \<^item> \<open>Tcp_Stats\<close>, \<open>Agent_Tcp\<close>: \<^verbatim>\<open>agent/tcp_stats.c\<close>; \<open>Flow_Acct\<close>, \<open>Agent_Flow\<close>:
    \<^verbatim>\<open>agent/flow_acct.c\<close>. The first theory of each pair works on the tables, the second on
    the whole agent.
  \<^item> \<open>Agent_Spool\<close>, \<open>Agent_Core\<close>: \<^verbatim>\<open>agent/agent_core.c\<close> and \<^verbatim>\<open>agent/perf_sample.c\<close>. The
    record \<open>cpe_agent\<close> is \<^verbatim>\<open>struct cpe_agent\<close> field by field.
  \<^item> \<open>Ipc_Request\<close>, \<open>Ipc_Server\<close>: \<^verbatim>\<open>agent/ipc_server.c\<close>.
  \<^item> \<open>Tls_Egress\<close>: \<^verbatim>\<open>agent/tls_egress.c\<close>, the HTTP client with and without TLS, composed with
    the emission of \<open>Agent_Core\<close>.
  \<^item> \<open>Live_Probe\<close>: \<^verbatim>\<open>agent/live_ping.c\<close> and \<^verbatim>\<open>agent/live_arping.c\<close>; \<open>Live_Trace\<close>:
    \<^verbatim>\<open>agent/live_trace.c\<close>.
  \<^item> \<open>Nl80211\<close>: \<^verbatim>\<open>src/nl80211_netlink.c\<close>; \<open>Wifi_Stats\<close>: \<^verbatim>\<open>agent/wifi_stats.c\<close>.
  \<^item> \<open>Agent_Loop\<close>: \<^verbatim>\<open>agent/agent_loop_poll.c\<close> and the callbacks of \<^verbatim>\<open>agent/agent_loop.c\<close>.
  \<^item> \<open>Ch_Query\<close>: \<^verbatim>\<open>agent/ctl_ch_query.c\<close>, the ClickHouse client of the control tool.
  \<^item> \<open>Ctl_Tool\<close>: \<^verbatim>\<open>agent/ipc_client.c\<close> and \<^verbatim>\<open>agent/ctl_main.c\<close>, the client of the control
    socket, composed with the server, and the control tool; \<open>Ctl_Lua\<close>: \<^verbatim>\<open>agent/ctl_lua.c\<close>, the requests
    and the decoding of answers its shell offers to scripts.
  \<^item> \<open>Forensicsd\<close>: \<^verbatim>\<open>cpe/forensicsd.c\<close>, the stand-alone daemon with its two modes and its command
    line.
  \<^item> \<open>Agent_Main\<close>: \<^verbatim>\<open>agent/main.c\<close>, the whole program from its options to its exit, and the drivers
    \<^verbatim>\<open>agent/agent_sim.c\<close>, \<^verbatim>\<open>agent/agent_fuzz.c\<close> and \<^verbatim>\<open>agent/harness_driver.c\<close>.
  \<^item> \<open>Lab_Tools\<close>: \<^verbatim>\<open>src/gateway_stub_main.c\<close>, composed with the HTTP client, and
    \<^verbatim>\<open>src/bmp_ingest_main.c\<close>.
  \<^item> \<open>Agent_Api\<close>: the public operations as a language of calls, over which the invariant of the whole
    agent is proved for every sequence.

  \<^bold>\<open>How the code is modelled.\<close> A struct is a record, an operation a function from the state to a
  result and the new state; the names are those of the C functions. Buffers are byte lists; a read
  outside one makes the result \<open>None\<close>, so a theorem that an operation returns \<open>Some\<close> includes
  memory safety. Machine integers keep their width wherever the code can wrap. A string written to a
  \<^verbatim>\<open>char[N]\<close> buffer is truncated as \<^verbatim>\<open>snprintf\<close> does. System calls, clocks, memory
  allocation, and the sibling libraries (IPFIX, BMP, conntrack, YAML, ping) are parameters; what
  the code relies on is a named hypothesis, for instance that the event queue of a library runs
  empty (\<open>env_finite\<close>), and each is met by a concrete instance in a witness.

  \<^bold>\<open>What is shown.\<close> Safety of the packet and netlink parsers on every input; round trips of the
  encoders and parsers; the two rings refine a drop-oldest and a drop-newest queue; the tables
  keep their invariants under every packet and event, choose the slots the specification names and
  count every packet once; configuration is all or nothing and leaves every limit in range;
  emission sends every line once; the request server frames its stream independently of the way
  the reads split it, answers every line within its buffer and leaks no descriptor; a flush over HTTP
  removes exactly the lines of an accepted request, and nothing is written to a TLS connection before the
  peer is verified as configured; every probe closes its sockets and ends in a sample; the host loops
  end when they are given a limit and keep every invariant under any interleaving of timers and signals; every
  sequence of public operations keeps the agent within its fixed sizes; a history query can only send one
  harmless statement and decodes a chunked answer to its data; the stand-alone daemon prints every
  event and every station, ends on a signal and closes its sockets; the control tool gets the answer the
  server gave, and the server reads the operation the tool asked for; the agent as a whole program ends on a
  signal and releases what it holds; the fuzzing driver is safe on every input. Some theorems
  state behaviour that differs from the documented intent: they are the findings of the manifest.

  \<^bold>\<open>Loops.\<close> Loops over buffers and tables are recursive functions with termination proofs.
  Loops that drain a library queue are \<open>partial_function (option)\<close>, with theorems that they
  return whenever the queue is finite. No fuel is used.

  \<^bold>\<open>Not modelled.\<close> The Lua interpreter, a parameter; the bindings of the agent itself and its shell
  (\<^verbatim>\<open>lua_bind.c\<close>, \<^verbatim>\<open>lua_repl.c\<close>), which marshal values over the C interface of the interpreter; \<^verbatim>\<open>getopt_long\<close>, whose results are inputs; libuv
  itself, whose scheduling is a step relation.
\<close>

end
